(* ===== verification/Prelude.thy ===== *)
theory Prelude
  imports Main "HOL-Library.List_Lexorder" "HOL-Library.Char_ord" "HOL-Library.Product_Lexorder"
begin

text \<open>
  Shared vocabulary of the development: the effect type in which the store and the runtime are
  written (a state-passing function that returns a value or an error together with the state it
  leaves behind), the rules that carry invariants through it, and list lemmas used by several
  components.

  Rust's \<open>Result\<close> is the sum type, with \<open>Inl\<close> for \<open>Err\<close>. An effect returns the state it reached
  on the error branch too: a failing closure may already have advanced the clock and the ID
  generator, which a database rollback does not undo.
\<close>

named_theorems keeps_intros \<open>introduction rules for invariants of effects\<close>
named_theorems eff_simps \<open>evaluation rules of effects\<close>

section \<open>Effects\<close>

type_synonym ('s, 'e, 'a) eff = "'s \<Rightarrow> ('e + 'a) \<times> 's"

definition ret :: "'a \<Rightarrow> ('s, 'e, 'a) eff" where
  "ret a s = (Inr a, s)"

definition throw :: "'e \<Rightarrow> ('s, 'e, 'a) eff" where
  "throw e s = (Inl e, s)"

text \<open>\<open>andthen m f\<close> is \<open>f(m?)\<close>: the first error ends the computation, with the state it reached.\<close>

definition andthen :: "('s, 'e, 'a) eff \<Rightarrow> ('a \<Rightarrow> ('s, 'e, 'b) eff) \<Rightarrow> ('s, 'e, 'b) eff" where
  "andthen m f s = (case m s of (Inl e, t) \<Rightarrow> (Inl e, t) | (Inr a, t) \<Rightarrow> f a t)"

definition look :: "('s \<Rightarrow> 'a) \<Rightarrow> ('s, 'e, 'a) eff" where
  "look f s = (Inr (f s), s)"

definition update :: "('s \<Rightarrow> 's) \<Rightarrow> ('s, 'e, unit) eff" where
  "update f s = (Inr (), f s)"

definition of_result :: "'e + 'a \<Rightarrow> ('s, 'e, 'a) eff" where
  "of_result r s = (r, s)"

definition map_err :: "('e \<Rightarrow> 'f) \<Rightarrow> ('s, 'e, 'a) eff \<Rightarrow> ('s, 'f, 'a) eff" where
  "map_err h m s = (case m s of (Inl e, t) \<Rightarrow> (Inl (h e), t) | (Inr a, t) \<Rightarrow> (Inr a, t))"

text \<open>A Rust \<open>for\<close> loop whose body may return early, and a \<open>collect\<close> over fallible steps.\<close>

fun for_each :: "'x list \<Rightarrow> ('x \<Rightarrow> ('s, 'e, unit) eff) \<Rightarrow> ('s, 'e, unit) eff" where
  "for_each [] f = ret ()"
| "for_each (x # xs) f = andthen (f x) (\<lambda>_. for_each xs f)"

fun collect :: "'x list \<Rightarrow> ('x \<Rightarrow> ('s, 'e, 'a) eff) \<Rightarrow> ('s, 'e, 'a list) eff" where
  "collect [] f = ret []"
| "collect (x # xs) f =
     andthen (f x) (\<lambda>y. andthen (collect xs f) (\<lambda>ys. ret (y # ys)))"

lemma ret_eval [eff_simps, simp]: "ret a s = (Inr a, s)"
  by (simp add: ret_def)

lemma throw_eval [eff_simps, simp]: "throw e s = (Inl e, s)"
  by (simp add: throw_def)

lemma look_eval [eff_simps, simp]: "look f s = (Inr (f s), s)"
  by (simp add: look_def)

lemma update_eval [eff_simps, simp]: "update f s = (Inr (), f s)"
  by (simp add: update_def)

lemma of_result_eval [eff_simps, simp]: "of_result r s = (r, s)"
  by (simp add: of_result_def)

lemma andthen_ret [simp]: "andthen (ret a) f = f a"
  by (simp add: andthen_def fun_eq_iff)

lemma andthen_throw [simp]: "andthen (throw e) f = throw e"
  by (simp add: andthen_def fun_eq_iff)

lemma andthen_look [simp]: "andthen (look g) f s = f (g s) s"
  by (simp add: andthen_def)

lemma andthen_update [simp]: "andthen (update g) f s = f () (g s)"
  by (simp add: andthen_def)

lemma andthen_assoc: "andthen (andthen m f) g = andthen m (\<lambda>a. andthen (f a) g)"
  by (auto simp: andthen_def fun_eq_iff split: prod.splits sum.splits)

lemma andthen_Inr_iff:
  "andthen m f s = (Inr b, u) \<longleftrightarrow> (\<exists>a t. m s = (Inr a, t) \<and> f a t = (Inr b, u))"
  by (auto simp: andthen_def split: prod.splits sum.splits)

lemma andthen_Inl_iff:
  "andthen m f s = (Inl e, u) \<longleftrightarrow>
     m s = (Inl e, u) \<or> (\<exists>a t. m s = (Inr a, t) \<and> f a t = (Inl e, u))"
  by (auto simp: andthen_def split: prod.splits sum.splits)

lemma map_err_Inr_iff [simp]: "map_err h m s = (Inr a, t) \<longleftrightarrow> m s = (Inr a, t)"
  by (auto simp: map_err_def split: prod.splits sum.splits)

lemma map_err_Inl_iff: "map_err h m s = (Inl f, t) \<longleftrightarrow> (\<exists>e. m s = (Inl e, t) \<and> f = h e)"
  by (auto simp: map_err_def split: prod.splits sum.splits)

lemma snd_map_err [simp]: "snd (map_err h m s) = snd (m s)"
  by (auto simp: map_err_def split: prod.splits sum.splits)

lemmas eff_Inr_iffs = andthen_Inr_iff map_err_Inr_iff

subsection \<open>Invariants of effects\<close>

text \<open>
  \<open>keeps I m\<close>: \<open>m\<close> leaves every state that satisfies \<open>I\<close> in one that satisfies \<open>I\<close>, whether it
  succeeds or fails. \<open>yields P m Q\<close>: from a state satisfying \<open>P\<close>, if \<open>m\<close> succeeds then its value
  and final state satisfy \<open>Q\<close>.
\<close>

definition keeps :: "('s \<Rightarrow> bool) \<Rightarrow> ('s, 'e, 'a) eff \<Rightarrow> bool" where
  "keeps I m \<longleftrightarrow> (\<forall>s. I s \<longrightarrow> I (snd (m s)))"

definition yields :: "('s \<Rightarrow> bool) \<Rightarrow> ('s, 'e, 'a) eff \<Rightarrow> ('a \<Rightarrow> 's \<Rightarrow> bool) \<Rightarrow> bool" where
  "yields P m Q \<longleftrightarrow> (\<forall>s a t. P s \<longrightarrow> m s = (Inr a, t) \<longrightarrow> Q a t)"

lemma keepsI [intro?]: "(\<And>s. I s \<Longrightarrow> I (snd (m s))) \<Longrightarrow> keeps I m"
  by (simp add: keeps_def)

lemma keepsD: "keeps I m \<Longrightarrow> I s \<Longrightarrow> m s = (r, t) \<Longrightarrow> I t"
  by (metis keeps_def snd_conv)

lemma yieldsI [intro?]: "(\<And>s a t. P s \<Longrightarrow> m s = (Inr a, t) \<Longrightarrow> Q a t) \<Longrightarrow> yields P m Q"
  by (simp add: yields_def)

lemma yieldsD: "yields P m Q \<Longrightarrow> P s \<Longrightarrow> m s = (Inr a, t) \<Longrightarrow> Q a t"
  by (simp add: yields_def)

lemma yields_andthen:
  "yields P m R \<Longrightarrow> (\<And>a. yields (R a) (f a) Q) \<Longrightarrow> yields P (andthen m f) Q"
  by (fastforce simp: yields_def andthen_Inr_iff)

lemma keeps_ret [keeps_intros]: "keeps I (ret a)"
  by (simp add: keeps_def)

lemma keeps_throw [keeps_intros]: "keeps I (throw e)"
  by (simp add: keeps_def)

lemma keeps_look [keeps_intros]: "keeps I (look f)"
  by (simp add: keeps_def)

lemma keeps_of_result [keeps_intros]: "keeps I (of_result r)"
  by (simp add: keeps_def)

lemma keeps_andthen [keeps_intros]:
  "keeps I m \<Longrightarrow> (\<And>a. keeps I (f a)) \<Longrightarrow> keeps I (andthen m f)"
  by (auto simp: keeps_def andthen_def split: prod.splits sum.splits)

lemma keeps_andthen_yields:
  assumes "keeps I m" and "\<And>s a t. I s \<Longrightarrow> m s = (Inr a, t) \<Longrightarrow> I (snd (f a t))"
  shows "keeps I (andthen m f)"
  using assms by (fastforce simp: keeps_def andthen_def split: prod.splits sum.splits)

lemma keeps_map_err [keeps_intros]: "keeps I m \<Longrightarrow> keeps I (map_err h m)"
  by (simp add: keeps_def)

lemma keeps_if [keeps_intros]: "keeps I m \<Longrightarrow> keeps I n \<Longrightarrow> keeps I (if b then m else n)"
  by simp

lemma keeps_case_option [keeps_intros]:
  "keeps I m \<Longrightarrow> (\<And>x. keeps I (f x)) \<Longrightarrow> keeps I (case v of None \<Rightarrow> m | Some x \<Rightarrow> f x)"
  by (cases v) auto

lemma keeps_case_sum [keeps_intros]:
  "(\<And>x. keeps I (f x)) \<Longrightarrow> (\<And>y. keeps I (g y)) \<Longrightarrow> keeps I (case v of Inl x \<Rightarrow> f x | Inr y \<Rightarrow> g y)"
  by (cases v) auto

lemma keeps_case_prod [keeps_intros]:
  "(\<And>x y. keeps I (f x y)) \<Longrightarrow> keeps I (case p of (x, y) \<Rightarrow> f x y)"
  by (cases p) auto

lemma keeps_case_bool: "keeps I m \<Longrightarrow> keeps I n \<Longrightarrow> keeps I (case b of True \<Rightarrow> m | False \<Rightarrow> n)"
  by (cases b) auto

lemma keeps_for_each [keeps_intros]: "(\<And>x. keeps I (f x)) \<Longrightarrow> keeps I (for_each xs f)"
  by (induction xs) (auto intro: keeps_ret keeps_andthen)

lemma keeps_for_each_in:
  "(\<And>x. x \<in> set xs \<Longrightarrow> keeps I (f x)) \<Longrightarrow> keeps I (for_each xs f)"
  by (induction xs) (auto intro: keeps_ret keeps_andthen)

lemma keeps_collect [keeps_intros]: "(\<And>x. keeps I (f x)) \<Longrightarrow> keeps I (collect xs f)"
  by (induction xs) (auto intro: keeps_ret keeps_andthen)

lemma keeps_conj: "keeps I m \<Longrightarrow> keeps J m \<Longrightarrow> keeps (\<lambda>s. I s \<and> J s) m"
  by (simp add: keeps_def)

section \<open>Lists and options\<close>

lemma distinct_map_filterI: "distinct (map f xs) \<Longrightarrow> distinct (map f (filter P xs))"
  by (induction xs) auto

lemma find_Some_in: "find P xs = Some x \<Longrightarrow> x \<in> set xs \<and> P x"
  by (auto simp: find_Some_iff)

lemma find_None_all: "find P xs = None \<longleftrightarrow> (\<forall>x \<in> set xs. \<not> P x)"
  by (auto simp: find_None_iff)

lemma find_key_unique:
  assumes "distinct (map k xs)" and "x \<in> set xs"
  shows "find (\<lambda>y. k y = k x) xs = Some x"
  using assms by (induction xs) (auto simp: image_iff)

lemma find_append: "find P (xs @ ys) = (case find P xs of None \<Rightarrow> find P ys | Some x \<Rightarrow> Some x)"
  by (induction xs) auto

lemma find_map_same: "(\<And>x. P (f x) = P x) \<Longrightarrow> find P (map f xs) = map_option f (find P xs)"
  by (induction xs) auto

lemma sort_key_set_unique:
  assumes "set xs = set ys" and "distinct xs" and "distinct ys" and "inj_on k (set xs)"
  shows "sort_key k xs = sort_key k ys"
proof -
  have "map k (sort_key k xs) = map k (sort_key k ys)"
    by (rule sorted_distinct_set_unique) (use assms in \<open>auto simp: distinct_map\<close>)
  moreover have "inj_on k (set (sort_key k xs) \<union> set (sort_key k ys))"
    using assms by simp
  ultimately show ?thesis
    by (simp add: inj_on_map_eq_map)
qed

section \<open>Ordered maps\<close>

text \<open>Rust's \<open>BTreeMap\<close> as the list of its entries in key order.\<close>

type_synonym ('k, 'v) btree = "('k \<times> 'v) list"

fun bt_insert :: "'k::linorder \<Rightarrow> 'v \<Rightarrow> ('k, 'v) btree \<Rightarrow> ('k, 'v) btree" where
  "bt_insert k v [] = [(k, v)]"
| "bt_insert k v ((k', v') # m) =
     (if k < k' then (k, v) # (k', v') # m
      else if k = k' then (k, v) # m
      else (k', v') # bt_insert k v m)"

definition bt_remove :: "'k::linorder \<Rightarrow> ('k, 'v) btree \<Rightarrow> ('k, 'v) btree" where
  "bt_remove k m = filter (\<lambda>e. fst e \<noteq> k) m"

definition bt_of_list :: "('k::linorder \<times> 'v) list \<Rightarrow> ('k, 'v) btree" where
  "bt_of_list kvs = foldl (\<lambda>m kv. bt_insert (fst kv) (snd kv) m) [] kvs"

definition bt_wf :: "('k::linorder, 'v) btree \<Rightarrow> bool" where
  "bt_wf m \<longleftrightarrow> sorted (map fst m) \<and> distinct (map fst m)"

text \<open>
  The contract of a map that keeps its keys distinct, over which the clients argue: lookup after
  insert, remove and construction.
\<close>

locale ordered_map =
  fixes wf :: "'m \<Rightarrow> bool" and lookup :: "'m \<Rightarrow> 'k \<Rightarrow> 'v option"
    and insert_key :: "'k \<Rightarrow> 'v \<Rightarrow> 'm \<Rightarrow> 'm" and remove_key :: "'k \<Rightarrow> 'm \<Rightarrow> 'm"
  assumes wf_insert: "wf m \<Longrightarrow> wf (insert_key k v m)"
    and wf_remove: "wf m \<Longrightarrow> wf (remove_key k m)"
    and lookup_insert: "wf m \<Longrightarrow> lookup (insert_key k v m) = (lookup m)(k \<mapsto> v)"
    and lookup_remove: "wf m \<Longrightarrow> lookup (remove_key k m) = (lookup m)(k := None)"
begin

definition apply_edit :: "'m \<Rightarrow> 'k \<times> 'v option \<Rightarrow> 'm" where
  "apply_edit m e = (case snd e of Some v \<Rightarrow> insert_key (fst e) v m | None \<Rightarrow> remove_key (fst e) m)"

lemma edit_lookup:
  "wf m \<Longrightarrow> wf (apply_edit m e) \<and> lookup (apply_edit m e) = (lookup m)(fst e := snd e)"
  by (cases e) (auto simp: apply_edit_def wf_insert wf_remove lookup_insert lookup_remove fun_eq_iff
      split: option.splits)

text \<open>A sequence of edits: the last one of each key decides.\<close>

lemma edits_wf: "wf m \<Longrightarrow> wf (foldl apply_edit m es)"
  by (induction es arbitrary: m) (simp_all add: edit_lookup)

lemma edits_lookup:
  "wf m \<Longrightarrow> lookup (foldl apply_edit m es) k =
     (case map_of (rev es) k of Some v \<Rightarrow> v | None \<Rightarrow> lookup m k)"
  by (induction es rule: rev_induct) (auto simp: edits_wf edit_lookup split: option.splits)

end

lemma fst_set_bt_insert [simp]: "fst ` set (bt_insert k v m) = insert k (fst ` set m)"
  by (induction k v m rule: bt_insert.induct) (auto split: if_splits)

lemma sorted_bt_insert: "sorted (map fst m) \<Longrightarrow> distinct (map fst m) \<Longrightarrow> bt_wf (bt_insert k v m)"
proof (induction m)
  case (Cons e m)
  obtain k' v' where e: "e = (k', v')" by force
  have IH: "bt_wf (bt_insert k v m)" using Cons by auto
  have keys: "set (map fst (bt_insert k v m)) = insert k (fst ` set m)" by simp
  show ?case
  proof (cases "k' < k")
    case True
    have "\<forall>x \<in> set (map fst (bt_insert k v m)). k' < x"
      unfolding keys using True Cons.prems by (auto simp: e image_iff order.order_iff_strict)
    then show ?thesis using True IH by (auto simp: e bt_wf_def)
  next
    case False
    then show ?thesis using Cons.prems by (auto simp: e bt_wf_def)
  qed
qed (simp add: bt_wf_def)

lemma map_of_bt_insert: "map_of (bt_insert k v m) = (map_of m)(k \<mapsto> v)"
  by (induction m) (auto simp: fun_eq_iff)

lemma map_of_bt_remove: "map_of (bt_remove k m) = (map_of m)(k := None)"
  unfolding bt_remove_def by (induction m) (auto simp: fun_eq_iff)

interpretation btree: ordered_map bt_wf map_of bt_insert bt_remove
proof
  show "bt_wf m \<Longrightarrow> bt_wf (bt_insert k v m)" for m :: "('a::linorder, 'b) btree" and k v
    by (rule sorted_bt_insert) (simp_all add: bt_wf_def)
  show "bt_wf m \<Longrightarrow> bt_wf (bt_remove k m)" for m :: "('a::linorder, 'b) btree" and k
    by (auto simp: bt_wf_def bt_remove_def sorted_filter distinct_map_filterI)
qed (simp_all add: map_of_bt_insert map_of_bt_remove)

lemma bt_of_list_wf: "bt_wf (bt_of_list kvs)"
proof -
  have "bt_wf m \<Longrightarrow> bt_wf (foldl (\<lambda>m kv. bt_insert (fst kv) (snd kv) m) m kvs)"
    for m :: "('a::linorder, 'b) btree"
    by (induction kvs arbitrary: m) (simp_all add: btree.wf_insert)
  then show ?thesis by (simp add: bt_of_list_def bt_wf_def)
qed

lemma map_of_bt_of_list: "map_of (bt_of_list kvs) = map_of (rev kvs)"
  unfolding bt_of_list_def
  by (induction kvs rule: rev_induct) (auto simp: map_of_bt_insert fun_eq_iff)

lemma keys_bt_of_list: "fst ` set (bt_of_list kvs) = fst ` set kvs"
  unfolding bt_of_list_def by (induction kvs rule: rev_induct) auto

end
