(* ===== verification/Floats.thy ===== *)
theory Floats
  imports Complex_Main Prelude
begin

text \<open>
  The \<open>f64\<close> values the code handles: probabilities and scores that it compares with thresholds, sorts
  and passes on. A finite double is the rational it stands for; the two infinities and NaN are
  values of their own, because comparisons with NaN are false and \<open>f64::max\<close> ignores it. The sign of
  zero is not kept, and a division (only \<open>(index + 1) / count\<close> in \<open>recall_everything\<close>) is exact.
\<close>

datatype f64 = NaN | Neg_Inf | Fin rat | Pos_Inf

fun f64_le :: "f64 \<Rightarrow> f64 \<Rightarrow> bool" where
  "f64_le NaN _ = False"
| "f64_le _ NaN = False"
| "f64_le Neg_Inf _ = True"
| "f64_le _ Neg_Inf = False"
| "f64_le _ Pos_Inf = True"
| "f64_le Pos_Inf _ = False"
| "f64_le (Fin a) (Fin b) = (a \<le> b)"

definition f64_lt :: "f64 \<Rightarrow> f64 \<Rightarrow> bool" where
  "f64_lt a b \<longleftrightarrow> f64_le a b \<and> \<not> f64_le b a"

text \<open>\<open>(lo..=hi).contains(x)\<close>.\<close>

definition f64_within :: "rat \<Rightarrow> rat \<Rightarrow> f64 \<Rightarrow> bool" where
  "f64_within lo hi x \<longleftrightarrow> f64_le (Fin lo) x \<and> f64_le x (Fin hi)"

text \<open>\<open>f64::max\<close>: the larger of the two, or the one that is not NaN.\<close>

fun f64_max :: "f64 \<Rightarrow> f64 \<Rightarrow> f64" where
  "f64_max NaN b = b"
| "f64_max a NaN = a"
| "f64_max a b = (if f64_le a b then b else a)"

text \<open>\<open>f64::total_cmp\<close>, with NaN (the positive one) above everything.\<close>

fun total_le :: "f64 \<Rightarrow> f64 \<Rightarrow> bool" where
  "total_le _ NaN = True"
| "total_le NaN _ = False"
| "total_le a b = f64_le a b"

lemma f64_le_refl: "a \<noteq> NaN \<Longrightarrow> f64_le a a"
  by (cases a) auto

lemma f64_le_trans: "f64_le a b \<Longrightarrow> f64_le b c \<Longrightarrow> f64_le a c"
  by (cases a; cases b; cases c) auto

lemma f64_le_NaN [simp]: "\<not> f64_le a NaN"
  by (cases a) auto

lemma f64_le_total: "a \<noteq> NaN \<Longrightarrow> b \<noteq> NaN \<Longrightarrow> f64_le a b \<or> f64_le b a"
  by (cases a; cases b) auto

lemma f64_not_le: "a \<noteq> NaN \<Longrightarrow> b \<noteq> NaN \<Longrightarrow> \<not> f64_le a b \<longleftrightarrow> f64_lt b a"
  using f64_le_total by (auto simp: f64_lt_def)

lemma f64_within_Fin: "f64_within lo hi x \<longleftrightarrow> (\<exists>q. x = Fin q \<and> lo \<le> q \<and> q \<le> hi)"
  by (cases x) (auto simp: f64_within_def)

lemma f64_max_le_iff:
  "a \<noteq> NaN \<Longrightarrow> b \<noteq> NaN \<Longrightarrow> f64_le (f64_max a b) c \<longleftrightarrow> f64_le a c \<and> f64_le b c"
  by (cases a; cases b; cases c) auto

lemma le_f64_max_iff: "f64_le c (f64_max a b) \<longleftrightarrow> f64_le c a \<or> f64_le c b"
  by (cases a; cases b; cases c) auto

lemma total_le_refl: "total_le a a"
  by (cases a) auto

lemma total_le_trans: "total_le a b \<Longrightarrow> total_le b c \<Longrightarrow> total_le a c"
  by (cases a; cases b; cases c) auto

lemma total_le_total: "total_le a b \<or> total_le b a"
  by (cases a; cases b) auto

lemma total_le_flip: "\<not> total_le a b \<Longrightarrow> total_le b a"
  using total_le_total by blast

text \<open>A stable sort by \<open>total_cmp\<close>: Rust's \<open>sort_by\<close> on the scores of a list of indices.\<close>

fun insert_by_score :: "('a \<Rightarrow> f64) \<Rightarrow> 'a \<Rightarrow> 'a list \<Rightarrow> 'a list" where
  "insert_by_score k x [] = [x]"
| "insert_by_score k x (y # ys) =
     (if total_le (k x) (k y) then x # y # ys else y # insert_by_score k x ys)"

definition sort_by_score :: "('a \<Rightarrow> f64) \<Rightarrow> 'a list \<Rightarrow> 'a list" where
  "sort_by_score k xs = foldr (insert_by_score k) xs []"

lemma set_insert_by_score [simp]: "set (insert_by_score k x ys) = insert x (set ys)"
  by (induction ys) auto

lemma set_sort_by_score [simp]: "set (sort_by_score k xs) = set xs"
  unfolding sort_by_score_def by (induction xs) auto

lemma length_insert_by_score [simp]: "length (insert_by_score k x ys) = Suc (length ys)"
  by (induction ys) auto

lemma length_sort_by_score [simp]: "length (sort_by_score k xs) = length xs"
  unfolding sort_by_score_def by (induction xs) auto

lemma distinct_insert_by_score [simp]:
  "distinct (insert_by_score k x ys) \<longleftrightarrow> x \<notin> set ys \<and> distinct ys"
  by (induction ys) auto

lemma distinct_sort_by_score [simp]: "distinct (sort_by_score k xs) \<longleftrightarrow> distinct xs"
proof (induction xs)
  case (Cons x xs)
  have "set (foldr (insert_by_score k) xs []) = set xs"
    using set_sort_by_score [of k xs] by (simp add: sort_by_score_def)
  with Cons show ?case by (simp add: sort_by_score_def)
qed (simp add: sort_by_score_def)

lemma sorted_insert_by_score:
  "sorted_wrt (\<lambda>a b. total_le (k a) (k b)) ys \<Longrightarrow>
   sorted_wrt (\<lambda>a b. total_le (k a) (k b)) (insert_by_score k x ys)"
  by (induction ys) (auto intro: total_le_trans total_le_flip)

lemma sorted_sort_by_score: "sorted_wrt (\<lambda>a b. total_le (k a) (k b)) (sort_by_score k xs)"
  unfolding sort_by_score_def by (induction xs) (auto intro: sorted_insert_by_score)

end
