(* ===== verification/Rust_Text.thy ===== *)
theory Rust_Text
  imports Prelude
begin

text \<open>
  Rust's \<open>String\<close> and \<open>str\<close>: a \<open>string\<close> here is the UTF-8 byte sequence, so \<open>length\<close> is Rust's
  \<open>len()\<close> and the order on strings is the byte order that both Rust's \<open>Ord\<close> and SQLite's binary
  collation use. \<open>chars_of\<close> cuts a byte sequence into the encodings of its scalar values, which
  is what Rust's \<open>chars()\<close> iterates over; functions of the standard library that count or
  inspect characters (\<open>trim\<close>, \<open>split_whitespace\<close>, \<open>char_indices\<close>) are defined on it. Decimal
  formatting (\<open>{}\<close> and \<open>{:06}\<close>) and its inverse are here too.
\<close>

section \<open>Bytes and characters\<close>

definition continuation :: "char \<Rightarrow> bool" where
  "continuation c \<longleftrightarrow> of_char c div 64 = (2::nat)"

function chars_of :: "string \<Rightarrow> string list" where
  "chars_of [] = []"
| "chars_of (c # cs) =
     (c # takeWhile continuation cs) # chars_of (dropWhile continuation cs)"
  by pat_completeness auto
termination
  by (relation "measure length") (auto simp: le_imp_less_Suc length_dropWhile_le)

lemma concat_chars_of [simp]: "concat (chars_of s) = s"
  by (induction s rule: chars_of.induct) auto

lemma chars_of_eq_Nil_iff [simp]: "chars_of s = [] \<longleftrightarrow> s = []"
  by (cases s) auto

lemma chars_of_nonempty: "[] \<notin> set (chars_of s)"
  by (induction s rule: chars_of.induct) auto

lemma chars_of_inject: "chars_of s = chars_of t \<longleftrightarrow> s = t"
  by (metis concat_chars_of)

lemma length_chars_of_le: "length (chars_of s) \<le> length s"
proof (induction s rule: chars_of.induct)
  case (2 c cs)
  have "length (dropWhile continuation cs) \<le> length cs" by (rule length_dropWhile_le)
  with 2 show ?case by simp
qed simp

text \<open>A sequence of whole characters: each starts with a byte that is not a continuation.\<close>

definition char_seq :: "string list \<Rightarrow> bool" where
  "char_seq cs \<longleftrightarrow>
     (\<forall>x \<in> set cs. x \<noteq> [] \<and> list_all continuation (tl x)) \<and>
     (\<forall>x \<in> set (tl cs). \<not> continuation (hd x))"

lemma takeWhile_append_stop:
  "list_all P xs \<Longrightarrow> (ys = [] \<or> \<not> P (hd ys)) \<Longrightarrow> takeWhile P (xs @ ys) = xs \<and> dropWhile P (xs @ ys) = ys"
  by (induction xs) (cases ys, auto)+

lemma chars_of_concat: "char_seq cs \<Longrightarrow> chars_of (concat cs) = cs"
proof (induction cs)
  case (Cons x cs)
  then obtain c xs where x: "x = c # xs" "list_all continuation xs"
    by (cases x) (auto simp: char_seq_def)
  have cs: "char_seq cs"
    using Cons.prems by (cases cs) (auto simp: char_seq_def)
  have "concat cs = [] \<or> \<not> continuation (hd (concat cs))"
    using Cons.prems by (cases cs) (auto simp: char_seq_def hd_append)
  with x(2) have "takeWhile continuation (xs @ concat cs) = xs \<and>
      dropWhile continuation (xs @ concat cs) = concat cs"
    by (rule takeWhile_append_stop)
  with x(1) Cons.IH [OF cs] show ?case by simp
qed simp

lemma hd_dropWhile_not: "dropWhile P xs = [] \<or> \<not> P (hd (dropWhile P xs))"
  by (induction xs) auto

lemma char_seq_chars_of: "char_seq (chars_of s)"
proof (induction s rule: chars_of.induct)
  case (2 c cs)
  let ?d = "dropWhile continuation cs"
  have A: "\<forall>x \<in> set (chars_of ?d). \<not> continuation (hd x)"
  proof (cases ?d)
    case (Cons d ds)
    then have "\<not> continuation d" using hd_dropWhile_not [of continuation cs] by simp
    moreover have "\<forall>x \<in> set (tl (chars_of ?d)). \<not> continuation (hd x)"
      using 2 by (simp add: char_seq_def)
    ultimately show ?thesis using Cons by auto
  next
    case Nil
    show ?thesis unfolding Nil by simp
  qed
  have B: "\<forall>x \<in> set (chars_of ?d). x \<noteq> [] \<and> list_all continuation (tl x)"
    using 2 by (simp add: char_seq_def)
  have C: "list_all continuation (takeWhile continuation cs)"
    by (auto simp: list_all_iff dest: set_takeWhileD)
  show ?case
    unfolding char_seq_def chars_of.simps list.sel
    by (intro conjI ballI; (drule A [rule_format]; assumption)?)
       (use B C in \<open>fastforce\<close>)+
qed (simp add: char_seq_def)

lemma char_seq_take: "char_seq cs \<Longrightarrow> char_seq (take n cs)"
  by (auto simp: char_seq_def tl_take dest: in_set_takeD)

lemma char_seq_drop: "char_seq cs \<Longrightarrow> char_seq (drop n cs)"
  by (auto simp: char_seq_def tl_drop dest: in_set_dropD)

lemma chars_of_take_chars: "chars_of (concat (take n (chars_of s))) = take n (chars_of s)"
  by (rule chars_of_concat [OF char_seq_take [OF char_seq_chars_of]])

lemma chars_of_drop_chars: "chars_of (concat (drop n (chars_of s))) = drop n (chars_of s)"
  by (rule chars_of_concat [OF char_seq_drop [OF char_seq_chars_of]])

definition take_chars :: "nat \<Rightarrow> string \<Rightarrow> string" where
  "take_chars n s = concat (take n (chars_of s))"

lemma chars_of_take_chars_eq [simp]: "chars_of (take_chars n s) = take n (chars_of s)"
  by (simp add: take_chars_def chars_of_take_chars)

lemma chars_of_append:
  assumes "b = [] \<or> \<not> continuation (hd b)"
  shows "chars_of (a @ b) = chars_of a @ chars_of b"
proof -
  have "chars_of (concat (chars_of a @ chars_of b)) = chars_of a @ chars_of b"
  proof (rule chars_of_concat)
    have "\<forall>x \<in> set (chars_of b). \<not> continuation (hd x)"
    proof (cases b)
      case (Cons c cs)
      with assms have "\<not> continuation c" by simp
      moreover have "\<forall>x \<in> set (tl (chars_of b)). \<not> continuation (hd x)"
        using char_seq_chars_of [of b] by (simp add: char_seq_def)
      ultimately show ?thesis using Cons by auto
    qed simp
    moreover have "char_seq (chars_of a)" "char_seq (chars_of b)"
      by (rule char_seq_chars_of)+
    ultimately show "char_seq (chars_of a @ chars_of b)"
      by (cases "chars_of a") (auto simp: char_seq_def dest: list.set_sel(2))
  qed
  then show ?thesis by simp
qed

text \<open>The ellipsis \<open>U+2026\<close> with which the code marks cut text.\<close>

definition ellipsis :: string where
  "ellipsis = [CHR 0xE2, CHR 0x80, CHR 0xA6]"

lemma chars_of_ellipsis [simp]: "chars_of ellipsis = [ellipsis]"
  by (simp add: ellipsis_def continuation_def)

lemma ellipsis_head: "\<not> continuation (hd ellipsis)"
  by (simp add: ellipsis_def continuation_def)

section \<open>Whitespace\<close>

text \<open>The encodings of the scalar values with the Unicode property \<open>White_Space\<close>, which Rust's
  \<open>char::is_whitespace\<close> tests.\<close>

definition white_space :: "string list" where
  "white_space =
     [[CHR 0x09], [CHR 0x0A], [CHR 0x0B], [CHR 0x0C], [CHR 0x0D], [CHR 0x20],
      [CHR 0xC2, CHR 0x85], [CHR 0xC2, CHR 0xA0], [CHR 0xE1, CHR 0x9A, CHR 0x80],
      [CHR 0xE2, CHR 0x80, CHR 0x80], [CHR 0xE2, CHR 0x80, CHR 0x81],
      [CHR 0xE2, CHR 0x80, CHR 0x82], [CHR 0xE2, CHR 0x80, CHR 0x83],
      [CHR 0xE2, CHR 0x80, CHR 0x84], [CHR 0xE2, CHR 0x80, CHR 0x85],
      [CHR 0xE2, CHR 0x80, CHR 0x86], [CHR 0xE2, CHR 0x80, CHR 0x87],
      [CHR 0xE2, CHR 0x80, CHR 0x88], [CHR 0xE2, CHR 0x80, CHR 0x89],
      [CHR 0xE2, CHR 0x80, CHR 0x8A], [CHR 0xE2, CHR 0x80, CHR 0xA8],
      [CHR 0xE2, CHR 0x80, CHR 0xA9], [CHR 0xE2, CHR 0x80, CHR 0xAF],
      [CHR 0xE2, CHR 0x81, CHR 0x9F], [CHR 0xE3, CHR 0x80, CHR 0x80]]"

definition is_whitespace :: "string \<Rightarrow> bool" where
  "is_whitespace c \<longleftrightarrow> c \<in> set white_space"

definition trim_start_chars :: "string list \<Rightarrow> string list" where
  "trim_start_chars cs = dropWhile is_whitespace cs"

definition trim_end_chars :: "string list \<Rightarrow> string list" where
  "trim_end_chars cs = rev (dropWhile is_whitespace (rev cs))"

definition trim_end :: "string \<Rightarrow> string" where
  "trim_end s = concat (trim_end_chars (chars_of s))"

definition trim :: "string \<Rightarrow> string" where
  "trim s = concat (trim_end_chars (trim_start_chars (chars_of s)))"

text \<open>\<open>split_whitespace\<close>: the maximal runs of characters that are not whitespace.\<close>

function ws_words :: "string list \<Rightarrow> string list list" where
  "ws_words cs =
     (case dropWhile is_whitespace cs of
        [] \<Rightarrow> []
      | d # ds \<Rightarrow> (d # takeWhile (\<lambda>c. \<not> is_whitespace c) ds) #
          ws_words (dropWhile (\<lambda>c. \<not> is_whitespace c) ds))"
  by pat_completeness auto
termination
proof (relation "measure length", goal_cases)
  case (2 cs d ds)
  have "length (d # ds) \<le> length cs"
    by (metis 2 length_dropWhile_le)
  moreover have "length (dropWhile (\<lambda>c. \<not> is_whitespace c) ds) \<le> length ds"
    by (rule length_dropWhile_le)
  ultimately show ?case by simp
qed simp

declare ws_words.simps [simp del]

definition split_whitespace :: "string \<Rightarrow> string list" where
  "split_whitespace s = map concat (ws_words (chars_of s))"

lemma ws_words_set:
  "w \<in> set (ws_words cs) \<Longrightarrow> w \<noteq> [] \<and> (\<forall>c \<in> set w. \<not> is_whitespace c \<and> c \<in> set cs)"
proof (induction cs rule: ws_words.induct)
  case (1 cs)
  show ?case
  proof (cases "dropWhile is_whitespace cs")
    case Nil
    with 1 show ?thesis by (simp add: ws_words.simps [of cs])
  next
    case (Cons d ds)
    have sub: "set (d # ds) \<subseteq> set cs"
      by (metis Cons set_dropWhileD subsetI)
    have "\<not> is_whitespace d"
      using Cons hd_dropWhile_not [of is_whitespace cs] by simp
    moreover have "w = d # takeWhile (\<lambda>c. \<not> is_whitespace c) ds \<or>
        w \<in> set (ws_words (dropWhile (\<lambda>c. \<not> is_whitespace c) ds))"
      using 1(2) by (simp add: ws_words.simps [of cs] Cons)
    moreover have "set (takeWhile (\<lambda>c. \<not> is_whitespace c) ds) \<subseteq> set cs"
        "set (dropWhile (\<lambda>c. \<not> is_whitespace c) ds) \<subseteq> set cs"
      using sub by (auto dest: set_takeWhileD set_dropWhileD)
    ultimately show ?thesis
      using 1(1) [OF Cons] sub by (fastforce dest: set_takeWhileD)
  qed
qed

section \<open>Substrings\<close>

definition strip_prefix :: "string \<Rightarrow> string \<Rightarrow> string option" where
  "strip_prefix p s = (if take (length p) s = p then Some (drop (length p) s) else None)"

definition starts_with :: "string \<Rightarrow> string \<Rightarrow> bool" where
  "starts_with p s \<longleftrightarrow> take (length p) s = p"

lemma strip_prefix_Some_iff: "strip_prefix p s = Some r \<longleftrightarrow> s = p @ r"
  by (auto simp: strip_prefix_def) (metis append_take_drop_id)

lemma strip_prefix_append [simp]: "strip_prefix p (p @ r) = Some r"
  by (simp add: strip_prefix_Some_iff)

lemma strip_prefix_Cons [simp]: "strip_prefix [c] (c # r) = Some r"
  by (simp add: strip_prefix_def)

lemma starts_with_append [simp]: "starts_with p (p @ r)"
  by (simp add: starts_with_def)

lemma starts_with_iff: "starts_with p s \<longleftrightarrow> (\<exists>r. s = p @ r)"
  by (metis append_take_drop_id starts_with_append starts_with_def)

fun join :: "string \<Rightarrow> string list \<Rightarrow> string" where
  "join sep [] = []"
| "join sep [x] = x"
| "join sep (x # xs) = x @ sep @ join sep xs"

section \<open>Decimal numbers\<close>

definition digit :: "nat \<Rightarrow> char" where
  "digit d = char_of (48 + d)"

definition digit_value :: "char \<Rightarrow> nat" where
  "digit_value c = of_char c - 48"

definition is_ascii_digit :: "char \<Rightarrow> bool" where
  "is_ascii_digit c \<longleftrightarrow> 48 \<le> (of_char c :: nat) \<and> (of_char c :: nat) \<le> 57"

fun show_nat :: "nat \<Rightarrow> string" where
  "show_nat n = (if n < 10 then [digit n] else show_nat (n div 10) @ [digit (n mod 10)])"

declare show_nat.simps [simp del]

text \<open>\<open>{:0w}\<close>: at least \<open>w\<close> digits, filled with zeros.\<close>

definition pad0 :: "nat \<Rightarrow> nat \<Rightarrow> string" where
  "pad0 w n = replicate (w - length (show_nat n)) (CHR ''0'') @ show_nat n"

definition parse_dec :: "string \<Rightarrow> nat" where
  "parse_dec s = foldl (\<lambda>n c. 10 * n + digit_value c) 0 s"

text \<open>Exactly \<open>w\<close> digits: the low ones of \<open>n\<close>.\<close>

fun fixed :: "nat \<Rightarrow> nat \<Rightarrow> string" where
  "fixed 0 n = []"
| "fixed (Suc w) n = fixed w (n div 10) @ [digit (n mod 10)]"

lemma digit_zero: "digit 0 = CHR ''0''"
  by code_simp

lemma of_char_digit: "d < 10 \<Longrightarrow> (of_char (digit d) :: nat) = 48 + d"
  by (simp add: digit_def)

lemma digit_value_digit [simp]: "d < 10 \<Longrightarrow> digit_value (digit d) = d"
  by (simp add: digit_value_def of_char_digit)

lemma is_ascii_digit_digit [simp]: "d < 10 \<Longrightarrow> is_ascii_digit (digit d)"
  by (simp add: is_ascii_digit_def of_char_digit)

lemma digit_digit_value [simp]: "is_ascii_digit c \<Longrightarrow> digit (digit_value c) = c"
  by (simp add: is_ascii_digit_def digit_def digit_value_def)

lemma digit_value_less: "is_ascii_digit c \<Longrightarrow> digit_value c < 10"
  unfolding is_ascii_digit_def digit_value_def by linarith

lemma digit_inject: "d < 10 \<Longrightarrow> e < 10 \<Longrightarrow> digit d = digit e \<longleftrightarrow> d = e"
  by (metis digit_value_digit)

lemma digit_less_iff: "d < 10 \<Longrightarrow> e < 10 \<Longrightarrow> digit d < digit e \<longleftrightarrow> d < e"
  by (simp add: less_char_def of_char_digit)

lemma length_fixed [simp]: "length (fixed w n) = w"
  by (induction w arbitrary: n) auto

lemma digits_fixed: "list_all is_ascii_digit (fixed w n)"
  by (induction w arbitrary: n) auto

lemma parse_dec_snoc: "parse_dec (s @ [c]) = 10 * parse_dec s + digit_value c"
  by (simp add: parse_dec_def)

lemma parse_dec_fixed: "parse_dec (fixed w n) = n mod 10 ^ w"
proof (induction w arbitrary: n)
  case (Suc w)
  have "n mod 10 ^ Suc w = 10 * (n div 10 mod 10 ^ w) + n mod 10"
    by (simp add: mod_mult2_eq)
  with Suc show ?case by (simp add: parse_dec_snoc)
qed (simp add: parse_dec_def)

lemma parse_dec_bound: "list_all is_ascii_digit s \<Longrightarrow> parse_dec s < 10 ^ length s"
proof (induction s rule: rev_induct)
  case (snoc c s)
  then have "parse_dec s < 10 ^ length s" "digit_value c < 10"
    by (auto simp: digit_value_less)
  then have "10 * parse_dec s + digit_value c < 10 * 10 ^ length s" by linarith
  then show ?case by (simp add: parse_dec_snoc)
qed (simp add: parse_dec_def)

lemma fixed_parse_dec: "list_all is_ascii_digit s \<Longrightarrow> fixed (length s) (parse_dec s) = s"
  by (induction s rule: rev_induct) (auto simp: parse_dec_snoc digit_value_less)

lemma show_nat_pos: "0 < length (show_nat n)"
  by (subst show_nat.simps) simp

lemma fixed_0: "fixed w 0 = replicate w (CHR ''0'')"
  by (induction w) (simp_all add: digit_zero replicate_append_same)

lemma pad0_step: "10 \<le> n \<Longrightarrow> pad0 (Suc w) n = pad0 w (n div 10) @ [digit (n mod 10)]"
  by (simp add: pad0_def show_nat.simps [of n])

lemma pad0_fixed: "n < 10 ^ w \<Longrightarrow> 0 < w \<Longrightarrow> pad0 w n = fixed w n"
proof (induction w arbitrary: n)
  case (Suc w)
  show ?case
  proof (cases "n < 10")
    case True
    then show ?thesis
      by (simp add: pad0_def show_nat.simps [of n] fixed_0)
  next
    case False
    with Suc.prems have "n div 10 < 10 ^ w" by (simp add: less_mult_imp_div_less mult.commute)
    moreover have "0 < w"
      using Suc.prems False by (cases w) auto
    ultimately show ?thesis
      using Suc.IH False by (simp add: pad0_step)
  qed
qed simp

lemma list_less_append_same_length:
  fixes a b c d :: "'a :: order list"
  shows "length a = length c \<Longrightarrow> a @ b < c @ d \<longleftrightarrow> a < c \<or> (a = c \<and> b < d)"
  by (induction a c rule: list_induct2) auto

lemma div10_less_iff:
  "(n::nat) < m \<longleftrightarrow> n div 10 < m div 10 \<or> (n div 10 = m div 10 \<and> n mod 10 < m mod 10)"
proof -
  have "n = 10 * (n div 10) + n mod 10" "m = 10 * (m div 10) + m mod 10"
    "n mod 10 < 10" "m mod 10 < 10"
    by simp_all
  then show ?thesis by linarith
qed

lemma fixed_less_iff: "n < 10 ^ w \<Longrightarrow> m < 10 ^ w \<Longrightarrow> fixed w n < fixed w m \<longleftrightarrow> n < m"
proof (induction w arbitrary: n m)
  case (Suc w)
  then have "n div 10 < 10 ^ w" "m div 10 < 10 ^ w"
    by (auto simp: less_mult_imp_div_less mult.commute)
  note IH = Suc.IH [OF this]
  have inj: "fixed w (n div 10) = fixed w (m div 10) \<longleftrightarrow> n div 10 = m div 10"
    using \<open>n div 10 < 10 ^ w\<close> \<open>m div 10 < 10 ^ w\<close> by (metis mod_less parse_dec_fixed)
  show ?case
    by (simp add: div10_less_iff [of n m] list_less_append_same_length IH inj digit_less_iff)
qed simp

lemma parse_dec_show_nat [simp]: "parse_dec (show_nat n) = n"
proof (induction n rule: show_nat.induct)
  case (1 n)
  then show ?case
  proof (cases "n < 10")
    case True
    then show ?thesis by (simp add: show_nat.simps [of n] parse_dec_def)
  next
    case False
    then have "parse_dec (show_nat n) = 10 * (n div 10) + n mod 10"
      using 1 by (subst show_nat.simps) (simp add: parse_dec_snoc)
    then show ?thesis by simp
  qed
qed

lemma show_nat_inject: "show_nat m = show_nat n \<longleftrightarrow> m = n"
  by (metis parse_dec_show_nat)

lemma digits_show_nat: "list_all is_ascii_digit (show_nat n)"
proof (induction n rule: show_nat.induct)
  case (1 n)
  then show ?case by (cases "n < 10") (simp_all add: show_nat.simps [of n])
qed

lemma digits_pad0: "list_all is_ascii_digit (pad0 w n)"
  using digits_show_nat [of n] by (auto simp: pad0_def list_all_iff is_ascii_digit_def)

lemma parse_dec_zeros: "parse_dec (replicate k (CHR ''0'') @ s) = parse_dec s"
  by (induction k) (auto simp: parse_dec_def digit_value_def)

lemma pad0_inject: "pad0 w m = pad0 w n \<longleftrightarrow> m = n"
  by (metis pad0_def parse_dec_show_nat parse_dec_zeros)

end
