(* ===== verification/Closed_Enums.thy ===== *)
theory Closed_Enums
  imports Rust_Text
begin

text \<open>
  The \<open>closed_enum!\<close> macro of \<open>domain/dag.rs\<close> and the enums declared with it. The macro gives an enum
  its list of variants (\<open>ALL\<close>), \<open>as_str\<close> and \<open>from_str\<close>; \<open>from_name\<close> is the macro's \<open>from_str\<close> over
  the variants and names an enum lists. The locale \<open>closed_enum\<close> states what makes such a list a
  closed enum (every variant is listed, no two share a name) and proves the round trip once; every
  enum of the domain layer interprets it.
\<close>

datatype unknown_variant = Unknown_Variant (unknown_kind: string) (unknown_value: string)

text \<open>\<open>match value { $($text => Ok($name::$variant),)+ _ => Err(..) }\<close>: the first arm that matches.\<close>

definition from_name :: "string \<Rightarrow> 'v list \<Rightarrow> ('v \<Rightarrow> string) \<Rightarrow> string \<Rightarrow> unknown_variant + 'v" where
  "from_name kind variants as_str value =
     (case find (\<lambda>v. as_str v = value) variants of
        Some v \<Rightarrow> Inr v
      | None \<Rightarrow> Inl (Unknown_Variant kind value))"

locale closed_enum =
  fixes variants :: "'v list" and as_str :: "'v \<Rightarrow> string"
  assumes listed: "v \<in> set variants"
    and names_distinct: "distinct (map as_str variants)"
begin

lemma name_inject: "as_str v = as_str w \<longleftrightarrow> v = w"
proof -
  have "inj_on as_str (set variants)" using names_distinct by (simp add: distinct_map)
  then show ?thesis using listed by (auto dest: inj_onD)
qed

lemma from_name_as_str: "from_name kind variants as_str (as_str v) = Inr v"
  using find_key_unique [OF names_distinct listed] by (simp add: from_name_def)

lemma from_name_Inr_iff: "from_name kind variants as_str s = Inr v \<longleftrightarrow> s = as_str v"
proof
  assume "from_name kind variants as_str s = Inr v"
  then show "s = as_str v"
    by (auto simp: from_name_def split: option.splits dest: find_Some_in)
qed (simp add: from_name_as_str)

lemma from_name_Inl_iff:
  "from_name kind variants as_str s = Inl e \<longleftrightarrow>
     e = Unknown_Variant kind s \<and> (\<forall>v. s \<noteq> as_str v)"
proof
  assume "from_name kind variants as_str s = Inl e"
  then show "e = Unknown_Variant kind s \<and> (\<forall>v. s \<noteq> as_str v)"
    using listed by (auto simp: from_name_def find_None_iff split: option.splits)
next
  assume "e = Unknown_Variant kind s \<and> (\<forall>v. s \<noteq> as_str v)"
  then show "from_name kind variants as_str s = Inl e"
    by (auto simp: from_name_def find_None_iff split: option.splits dest: find_Some_in)
qed

end

section \<open>The enums of the domain layer\<close>

datatype node_type = Task | Artifact | Observation | Decision | Result_Node | Conversation_Node

definition node_types :: "node_type list" where
  "node_types = [Task, Artifact, Observation, Decision, Result_Node, Conversation_Node]"

fun node_type_str :: "node_type \<Rightarrow> string" where
  "node_type_str Task = ''task''"
| "node_type_str Artifact = ''artifact''"
| "node_type_str Observation = ''observation''"
| "node_type_str Decision = ''decision''"
| "node_type_str Result_Node = ''result''"
| "node_type_str Conversation_Node = ''conversation''"

datatype edge_type = Depends_On | Produces | Observed_From | Related_To | Supersedes

definition edge_types :: "edge_type list" where
  "edge_types = [Depends_On, Produces, Observed_From, Related_To, Supersedes]"

fun edge_type_str :: "edge_type \<Rightarrow> string" where
  "edge_type_str Depends_On = ''depends_on''"
| "edge_type_str Produces = ''produces''"
| "edge_type_str Observed_From = ''observed_from''"
| "edge_type_str Related_To = ''related_to''"
| "edge_type_str Supersedes = ''supersedes''"

datatype run_status = Running | Completed | Failed

definition run_statuses :: "run_status list" where
  "run_statuses = [Running, Completed, Failed]"

fun run_status_str :: "run_status \<Rightarrow> string" where
  "run_status_str Running = ''running''"
| "run_status_str Completed = ''completed''"
| "run_status_str Failed = ''failed''"

datatype error_code =
    Jev_Failed | Jev_Invalid_Output | Ir_Invalid | Provider_Failed | Provider_Timeout
  | Response_Invalid | Emission_Rejected | Interrupted | Cancelled | Internal

definition error_codes :: "error_code list" where
  "error_codes =
     [Jev_Failed, Jev_Invalid_Output, Ir_Invalid, Provider_Failed, Provider_Timeout,
      Response_Invalid, Emission_Rejected, Interrupted, Cancelled, Internal]"

fun error_code_str :: "error_code \<Rightarrow> string" where
  "error_code_str Jev_Failed = ''jev_failed''"
| "error_code_str Jev_Invalid_Output = ''jev_invalid_output''"
| "error_code_str Ir_Invalid = ''ir_invalid''"
| "error_code_str Provider_Failed = ''provider_failed''"
| "error_code_str Provider_Timeout = ''provider_timeout''"
| "error_code_str Response_Invalid = ''response_invalid''"
| "error_code_str Emission_Rejected = ''emission_rejected''"
| "error_code_str Interrupted = ''interrupted''"
| "error_code_str Cancelled = ''cancelled''"
| "error_code_str Internal = ''internal''"

datatype classification = Active | Inactive

definition classifications_all :: "classification list" where
  "classifications_all = [Active, Inactive]"

fun classification_str :: "classification \<Rightarrow> string" where
  "classification_str Active = ''active''"
| "classification_str Inactive = ''inactive''"

datatype context_source = Carried | By_Jev

definition context_sources :: "context_source list" where
  "context_sources = [Carried, By_Jev]"

fun context_source_str :: "context_source \<Rightarrow> string" where
  "context_source_str Carried = ''carried''"
| "context_source_str By_Jev = ''jev''"

datatype role = User | Assistant

definition roles :: "role list" where
  "roles = [User, Assistant]"

fun role_str :: "role \<Rightarrow> string" where
  "role_str User = ''user''"
| "role_str Assistant = ''assistant''"

datatype tool_decider = By_Policy | By_User | By_Timeout | By_Limit | By_Unavailable

definition tool_deciders :: "tool_decider list" where
  "tool_deciders = [By_Policy, By_User, By_Timeout, By_Limit, By_Unavailable]"

fun tool_decider_str :: "tool_decider \<Rightarrow> string" where
  "tool_decider_str By_Policy = ''policy''"
| "tool_decider_str By_User = ''user''"
| "tool_decider_str By_Timeout = ''timeout''"
| "tool_decider_str By_Limit = ''limit''"
| "tool_decider_str By_Unavailable = ''unavailable''"

datatype ir_tool_status = Tool_Completed | Tool_Failed | Tool_Denied

definition ir_tool_statuses :: "ir_tool_status list" where
  "ir_tool_statuses = [Tool_Completed, Tool_Failed, Tool_Denied]"

fun ir_tool_status_str :: "ir_tool_status \<Rightarrow> string" where
  "ir_tool_status_str Tool_Completed = ''completed''"
| "ir_tool_status_str Tool_Failed = ''failed''"
| "ir_tool_status_str Tool_Denied = ''denied''"

datatype ir_event_type = Ir_Run_Completed | Ir_Run_Failed

definition ir_event_types :: "ir_event_type list" where
  "ir_event_types = [Ir_Run_Completed, Ir_Run_Failed]"

fun ir_event_type_str :: "ir_event_type \<Rightarrow> string" where
  "ir_event_type_str Ir_Run_Completed = ''run.completed''"
| "ir_event_type_str Ir_Run_Failed = ''run.failed''"

section \<open>Each of them is closed\<close>

interpretation node_type: closed_enum node_types node_type_str
proof
  show "v \<in> set node_types" for v by (cases v) (simp_all add: node_types_def)
qed (simp add: node_types_def)

interpretation edge_type: closed_enum edge_types edge_type_str
proof
  show "v \<in> set edge_types" for v by (cases v) (simp_all add: edge_types_def)
qed (simp add: edge_types_def)

interpretation run_status: closed_enum run_statuses run_status_str
proof
  show "v \<in> set run_statuses" for v by (cases v) (simp_all add: run_statuses_def)
qed (simp add: run_statuses_def)

interpretation error_code: closed_enum error_codes error_code_str
proof
  show "v \<in> set error_codes" for v by (cases v) (simp_all add: error_codes_def)
qed (simp add: error_codes_def)

interpretation classification: closed_enum classifications_all classification_str
proof
  show "v \<in> set classifications_all" for v by (cases v) (simp_all add: classifications_all_def)
qed (simp add: classifications_all_def)

interpretation context_source: closed_enum context_sources context_source_str
proof
  show "v \<in> set context_sources" for v by (cases v) (simp_all add: context_sources_def)
qed (simp add: context_sources_def)

interpretation role: closed_enum roles role_str
proof
  show "v \<in> set roles" for v by (cases v) (simp_all add: roles_def)
qed (simp add: roles_def)

interpretation tool_decider: closed_enum tool_deciders tool_decider_str
proof
  show "v \<in> set tool_deciders" for v by (cases v) (simp_all add: tool_deciders_def)
qed (simp add: tool_deciders_def)

interpretation ir_tool_status: closed_enum ir_tool_statuses ir_tool_status_str
proof
  show "v \<in> set ir_tool_statuses" for v by (cases v) (simp_all add: ir_tool_statuses_def)
qed (simp add: ir_tool_statuses_def)

interpretation ir_event_type: closed_enum ir_event_types ir_event_type_str
proof
  show "v \<in> set ir_event_types" for v by (cases v) (simp_all add: ir_event_types_def)
qed (simp add: ir_event_types_def)

text \<open>The parsers, as the macro defines them for each enum.\<close>

definition node_type_parse :: "string \<Rightarrow> unknown_variant + node_type" where
  "node_type_parse = from_name ''node type'' node_types node_type_str"

definition edge_type_parse :: "string \<Rightarrow> unknown_variant + edge_type" where
  "edge_type_parse = from_name ''edge type'' edge_types edge_type_str"

definition run_status_parse :: "string \<Rightarrow> unknown_variant + run_status" where
  "run_status_parse = from_name ''run status'' run_statuses run_status_str"

definition error_code_parse :: "string \<Rightarrow> unknown_variant + error_code" where
  "error_code_parse = from_name ''error code'' error_codes error_code_str"

definition role_parse :: "string \<Rightarrow> unknown_variant + role" where
  "role_parse = from_name ''conversation role'' roles role_str"

text \<open>The wire names of the closed enums are exact: each parser accepts precisely the names that its
  enum prints, so \<open>Task\<close>, \<open>dependsOn\<close> or any other spelling is rejected, and a name read back is the
  variant that was written.\<close>

theorem closed_enum_names_exact:
  "(node_type_parse s = Inr t \<longleftrightarrow> s = node_type_str t) \<and>
   (edge_type_parse s = Inr e \<longleftrightarrow> s = edge_type_str e) \<and>
   (run_status_parse s = Inr r \<longleftrightarrow> s = run_status_str r) \<and>
   (error_code_parse s = Inr c \<longleftrightarrow> s = error_code_str c) \<and>
   (role_parse s = Inr w \<longleftrightarrow> s = role_str w)"
  unfolding node_type_parse_def edge_type_parse_def run_status_parse_def error_code_parse_def
    role_parse_def
  by (intro conjI node_type.from_name_Inr_iff edge_type.from_name_Inr_iff
      run_status.from_name_Inr_iff error_code.from_name_Inr_iff role.from_name_Inr_iff)

end
