(* ===== verification/Identifiers.thy ===== *)
theory Identifiers
  imports Rust_Text
begin

text \<open>
  \<open>domain/ids.rs\<close> and the string identities of \<open>domain/run.rs\<close> and \<open>domain/response.rs\<close>: IDs with a
  fixed prefix per record kind, their generators, provider and model IDs, emission refs and edge
  endpoints. An ID type is \<open>'k ident\<close> with one phantom type per kind, so a run ID cannot be used for a
  node ID here either. \<open>define_id!\<close> is \<open>parse_id\<close> and \<open>generate_id\<close> over the prefix and kind that each
  use of the macro gives.

  An ID generator keeps private state behind \<open>&self\<close>; it is a function of the prefixes asked of it so
  far and the prefix asked for now. \<open>sequential_suffix\<close> is the counter table of \<open>SequentialIds\<close>, and
  \<open>sequential_ids\<close> that generator as a function of its history. \<open>RandomIds\<close> (UUIDs) is not under
  \<open>src/\<close>: it is any generator that satisfies the contract \<open>id_generator\<close>.
\<close>

section \<open>Record IDs\<close>

typedecl project_kind
typedecl conversation_kind
typedecl node_kind
typedecl edge_kind
typedecl run_kind
typedecl event_kind

datatype 'k ident = Ident (ident_str: string)

type_synonym project_id = "project_kind ident"
type_synonym conversation_id = "conversation_kind ident"
type_synonym node_id = "node_kind ident"
type_synonym edge_id = "edge_kind ident"
type_synonym run_id = "run_kind ident"
type_synonym event_id = "event_kind ident"

text \<open>IDs compare as their text.\<close>

instantiation ident :: (type) linorder
begin

definition less_eq_ident :: "'a ident \<Rightarrow> 'a ident \<Rightarrow> bool" where
  "less_eq_ident a b \<longleftrightarrow> ident_str a \<le> ident_str b"

definition less_ident :: "'a ident \<Rightarrow> 'a ident \<Rightarrow> bool" where
  "less_ident a b \<longleftrightarrow> ident_str a < ident_str b"

instance
  by standard (auto simp: less_eq_ident_def less_ident_def ident.expand)

end

datatype id_error = Id_Error (id_kind: string) (id_prefix: string) (id_value: string)

definition is_ascii_lowercase :: "char \<Rightarrow> bool" where
  "is_ascii_lowercase c \<longleftrightarrow> 97 \<le> (of_char c :: nat) \<and> (of_char c :: nat) \<le> 122"

definition is_ascii_uppercase :: "char \<Rightarrow> bool" where
  "is_ascii_uppercase c \<longleftrightarrow> 65 \<le> (of_char c :: nat) \<and> (of_char c :: nat) \<le> 90"

definition is_valid_suffix :: "string \<Rightarrow> bool" where
  "is_valid_suffix s \<longleftrightarrow> 1 \<le> length s \<and> length s \<le> 64 \<and>
     list_all (\<lambda>c. is_ascii_lowercase c \<or> is_ascii_digit c) s"

definition parse_id :: "string \<Rightarrow> string \<Rightarrow> string \<Rightarrow> id_error + 'k ident" where
  "parse_id kind prefix value =
     (if (case Option.bind (strip_prefix prefix value) (strip_prefix ''_'') of
            Some suffix \<Rightarrow> is_valid_suffix suffix
          | None \<Rightarrow> False)
      then Inr (Ident value)
      else Inl (Id_Error kind prefix value))"

definition parse_project_id :: "string \<Rightarrow> id_error + project_id" where
  "parse_project_id = parse_id ''project'' ''proj''"

definition parse_conversation_id :: "string \<Rightarrow> id_error + conversation_id" where
  "parse_conversation_id = parse_id ''conversation'' ''conv''"

definition parse_node_id :: "string \<Rightarrow> id_error + node_id" where
  "parse_node_id = parse_id ''node'' ''node''"

definition parse_edge_id :: "string \<Rightarrow> id_error + edge_id" where
  "parse_edge_id = parse_id ''edge'' ''edge''"

definition parse_run_id :: "string \<Rightarrow> id_error + run_id" where
  "parse_run_id = parse_id ''run'' ''run''"

definition parse_event_id :: "string \<Rightarrow> id_error + event_id" where
  "parse_event_id = parse_id ''event'' ''evt''"

lemma parse_id_Inr_iff:
  "parse_id kind prefix value = Inr i \<longleftrightarrow>
     i = Ident value \<and> (\<exists>suffix. value = prefix @ ''_'' @ suffix \<and> is_valid_suffix suffix)"
  by (auto simp: parse_id_def strip_prefix_Some_iff bind_eq_Some_conv split: option.splits)

lemma parse_id_append:
  "parse_id kind prefix (prefix @ ''_'' @ suffix) =
     (if is_valid_suffix suffix then Inr (Ident (prefix @ ''_'' @ suffix))
      else Inl (Id_Error kind prefix (prefix @ ''_'' @ suffix)))"
  by (simp add: parse_id_def)

section \<open>Generators\<close>

type_synonym id_source = "string list \<Rightarrow> string \<Rightarrow> string"

text \<open>\<open>$name::generate(ids)\<close>; \<open>None\<close> stands for the panic on an invalid suffix.\<close>

definition generate_id :: "id_source \<Rightarrow> string list \<Rightarrow> string \<Rightarrow> 'k ident option" where
  "generate_id ids history prefix =
     (case parse_id [] prefix (prefix @ ''_'' @ ids history prefix) of
        Inr i \<Rightarrow> Some i
      | Inl _ \<Rightarrow> None)"

text \<open>\<open>SequentialIds::next_suffix\<close>, on the table of counters (a missing counter is 0).\<close>

definition sequential_suffix :: "(string \<rightharpoonup> nat) \<Rightarrow> string \<Rightarrow> string \<times> (string \<rightharpoonup> nat)" where
  "sequential_suffix counters prefix =
     (let counter = (case counters prefix of None \<Rightarrow> 0 | Some n \<Rightarrow> n) + 1
      in (pad0 6 counter, counters(prefix \<mapsto> counter)))"

definition sequential_counters :: "string list \<Rightarrow> (string \<rightharpoonup> nat)" where
  "sequential_counters history =
     foldl (\<lambda>counters prefix. snd (sequential_suffix counters prefix)) Map.empty history"

definition sequential_ids :: id_source where
  "sequential_ids history prefix = fst (sequential_suffix (sequential_counters history) prefix)"

lemma sequential_counters_count:
  "sequential_counters history prefix =
     (if count_list history prefix = 0 then None else Some (count_list history prefix))"
proof (induction history rule: rev_induct)
  case (snoc p history)
  have "sequential_counters (history @ [p]) =
      snd (sequential_suffix (sequential_counters history) p)"
    by (simp add: sequential_counters_def)
  with snoc show ?case by (auto simp: sequential_suffix_def Let_def split: option.splits if_splits)
qed (simp add: sequential_counters_def)

lemma sequential_ids_eq: "sequential_ids history prefix = pad0 6 (count_list history prefix + 1)"
  by (simp add: sequential_ids_def sequential_suffix_def sequential_counters_count Let_def)

text \<open>
  The contract of \<open>IdGenerator\<close>: suffixes are valid, and one suffix is never given out twice for a
  prefix. It is only promised while fewer than \<open>limit\<close> IDs were made (\<open>2 ^ 64\<close> for the \<open>u64\<close>
  counters of \<open>SequentialIds\<close>).
\<close>

locale id_generator =
  fixes ids :: id_source and limit :: nat
  assumes suffix_valid: "length history < limit \<Longrightarrow> is_valid_suffix (ids history prefix)"
    and suffix_fresh: "length (history @ prefix # later) < limit \<Longrightarrow>
      ids (history @ prefix # later) prefix \<noteq> ids history prefix"
begin

lemma generate_succeeds:
  assumes "length history < limit"
  shows "generate_id ids history prefix = Some (Ident (prefix @ ''_'' @ ids history prefix))"
  unfolding generate_id_def parse_id_append using suffix_valid [OF assms] by simp

lemma generate_fresh:
  assumes "length (history @ prefix # later) < limit"
    and "generate_id ids history prefix = Some i"
  shows "generate_id ids (history @ prefix # later) prefix \<noteq> Some i"
proof -
  have "length history < limit" using assms(1) by simp
  then show ?thesis
    using assms suffix_fresh [OF assms(1)]
    unfolding generate_succeeds [OF assms(1)] generate_succeeds [OF \<open>length history < limit\<close>] by auto
qed

end

lemma length_show_nat: "n < 10 ^ k \<Longrightarrow> 0 < k \<Longrightarrow> length (show_nat n) \<le> k"
proof (induction k arbitrary: n)
  case (Suc k)
  show ?case
  proof (cases "n < 10")
    case False
    then have "0 < k" using Suc.prems by (cases k) auto
    moreover have "n div 10 < 10 ^ k" using Suc.prems by (simp add: less_mult_imp_div_less mult.commute)
    ultimately have "length (show_nat (n div 10)) \<le> k" by (rule Suc.IH [rotated])
    then show ?thesis using False by (subst show_nat.simps) simp
  qed (subst show_nat.simps, simp)
qed simp

lemma valid_suffix_pad0:
  assumes "n < 10 ^ 20"
  shows "is_valid_suffix (pad0 6 n)"
proof -
  have "length (show_nat n) \<le> 20" by (rule length_show_nat) (use assms in auto)
  moreover have "0 < length (show_nat n)" by (rule show_nat_pos)
  ultimately have "1 \<le> length (pad0 6 n)" "length (pad0 6 n) \<le> 64" by (auto simp: pad0_def)
  then show ?thesis
    using digits_pad0 [of 6 n] by (auto simp: is_valid_suffix_def list_all_iff)
qed

lemma count_list_less: "count_list xs x \<le> length xs"
  by (rule count_le_length)

interpretation sequential: id_generator sequential_ids "2 ^ 64"
proof
  fix history later :: "string list" and prefix :: string
  show "is_valid_suffix (sequential_ids history prefix)" if "length history < 2 ^ 64"
    using that count_list_less [of history prefix] unfolding sequential_ids_eq
    by (intro valid_suffix_pad0) simp
  show "sequential_ids (history @ prefix # later) prefix \<noteq> sequential_ids history prefix"
    by (simp add: sequential_ids_eq pad0_inject)
qed

section \<open>Provider and model IDs\<close>

datatype provider_id = Provider_Id (provider_str: string)
datatype model_id = Model_Id (model_str: string)

datatype identity_error = Identity_Error string string string

definition provider_id_char :: "char \<Rightarrow> bool" where
  "provider_id_char c \<longleftrightarrow> is_ascii_lowercase c \<or> is_ascii_digit c \<or>
     c = CHR ''.'' \<or> c = CHR ''_'' \<or> c = CHR ''-''"

definition parse_provider_id :: "string \<Rightarrow> identity_error + provider_id" where
  "parse_provider_id value =
     (if (1 \<le> length value \<and> length value \<le> 64) \<and>
         (case value of [] \<Rightarrow> False | b # _ \<Rightarrow> is_ascii_lowercase b \<or> is_ascii_digit b) \<and>
         list_all provider_id_char value
      then Inr (Provider_Id value)
      else Inl (Identity_Error ''provider id'' value
             ''expected 1-64 of [a-z0-9._-], starting with a letter or digit''))"

definition is_ascii_graphic :: "char \<Rightarrow> bool" where
  "is_ascii_graphic c \<longleftrightarrow> 33 \<le> (of_char c :: nat) \<and> (of_char c :: nat) \<le> 126"

definition parse_model_id :: "string \<Rightarrow> identity_error + model_id" where
  "parse_model_id value =
     (if (1 \<le> length value \<and> length value \<le> 200) \<and> list_all is_ascii_graphic value
      then Inr (Model_Id value)
      else Inl (Identity_Error ''model id'' value
             ''expected 1-200 printable ASCII characters without whitespace''))"

section \<open>Emission refs and edge endpoints\<close>

datatype emission_ref = Emission_Ref (ref_str: string)

instantiation emission_ref :: linorder
begin

definition less_eq_emission_ref :: "emission_ref \<Rightarrow> emission_ref \<Rightarrow> bool" where
  "less_eq_emission_ref a b \<longleftrightarrow> ref_str a \<le> ref_str b"

definition less_emission_ref :: "emission_ref \<Rightarrow> emission_ref \<Rightarrow> bool" where
  "less_emission_ref a b \<longleftrightarrow> ref_str a < ref_str b"

instance
  by standard (auto simp: less_eq_emission_ref_def less_emission_ref_def emission_ref.expand)

end

datatype emission_ref_error = Emission_Ref_Error string

datatype endpoint = Ref_End emission_ref | Node_End node_id

definition is_ascii_alphabetic :: "char \<Rightarrow> bool" where
  "is_ascii_alphabetic c \<longleftrightarrow> is_ascii_lowercase c \<or> is_ascii_uppercase c"

definition ref_char :: "char \<Rightarrow> bool" where
  "ref_char c \<longleftrightarrow> is_ascii_alphabetic c \<or> is_ascii_digit c \<or> c = CHR ''_'' \<or> c = CHR ''-''"

definition parse_emission_ref :: "string \<Rightarrow> emission_ref_error + emission_ref" where
  "parse_emission_ref value =
     (if length value \<le> 64 \<and>
         (case value of [] \<Rightarrow> False | b # rest \<Rightarrow> is_ascii_alphabetic b \<and> list_all ref_char rest) \<and>
         \<not> starts_with ''node_'' value
      then Inr (Emission_Ref value) else Inl (Emission_Ref_Error value))"

definition parse_endpoint :: "string \<Rightarrow> emission_ref_error + endpoint" where
  "parse_endpoint value =
     (if starts_with ''node_'' value then
        (case parse_node_id value of
           Inr i \<Rightarrow> Inr (Node_End i) | Inl _ \<Rightarrow> Inl (Emission_Ref_Error value))
      else
        (case parse_emission_ref value of
           Inr r \<Rightarrow> Inr (Ref_End r) | Inl e \<Rightarrow> Inl e))"

fun endpoint_str :: "endpoint \<Rightarrow> string" where
  "endpoint_str (Ref_End r) = ref_str r"
| "endpoint_str (Node_End i) = ident_str i"

definition valid_ref :: "emission_ref \<Rightarrow> bool" where
  "valid_ref r \<longleftrightarrow> parse_emission_ref (ref_str r) = Inr r"

definition valid_node_id :: "node_id \<Rightarrow> bool" where
  "valid_node_id i \<longleftrightarrow> parse_node_id (ident_str i) = Inr i"

lemma parse_node_id_prefix: "parse_node_id s = Inr i \<Longrightarrow> starts_with ''node_'' s"
  by (auto simp: parse_node_id_def parse_id_Inr_iff starts_with_def)

lemma parse_ref_not_node: "parse_emission_ref s = Inr r \<Longrightarrow> \<not> starts_with ''node_'' s \<and> r = Emission_Ref s"
  by (auto simp: parse_emission_ref_def split: if_splits)

lemma parse_node_id_Ident: "parse_node_id s = Inr i \<Longrightarrow> i = Ident s"
  by (auto simp: parse_node_id_def parse_id_Inr_iff)

section \<open>Properties\<close>

text \<open>IDs of different kinds never mix: the text of a node ID is not the text of any other kind's ID.
  A text parses as an ID of at most one kind, whichever kind that is.\<close>

theorem id_kinds_disjoint:
  assumes "parse_id kind prefix value = Inr i" and "parse_id kind' prefix' value = Inr j"
    and "prefix \<in> {''proj'', ''conv'', ''node'', ''edge'', ''run'', ''evt''}"
    and "prefix' \<in> {''proj'', ''conv'', ''node'', ''edge'', ''run'', ''evt''}"
  shows "prefix = prefix'"
  using assms by (auto simp: parse_id_Inr_iff)

lemma id_kinds_disjoint_witness:
  "parse_run_id ''run_000001'' = Inr (Ident ''run_000001'') \<and> ''run'' = (''run'' :: string)"
proof -
  have "parse_id ''run'' ''run'' ''run_000001'' = Inr (Ident ''run_000001'' :: run_kind ident)"
    by (simp add: parse_id_def strip_prefix_def is_valid_suffix_def is_ascii_digit_def)
  then show ?thesis
    using id_kinds_disjoint [of "''run''" "''run''" "''run_000001''" "Ident ''run_000001'' :: run_id"
      "''run''" "''run''" "Ident ''run_000001'' :: run_id"]
    by (simp add: parse_run_id_def)
qed

text \<open>\<open>SequentialIds\<close> keeps the generator contract: below \<open>2 ^ 64\<close> calls, generating an ID never
  panics, the ID is one that its own parser accepts, and no later call returns it again, whatever
  prefixes were asked for in between.\<close>

theorem sequential_ids_fresh:
  assumes "length (history @ prefix # later) < 2 ^ 64"
  shows "\<exists>i j. generate_id sequential_ids history prefix = Some i \<and>
    generate_id sequential_ids (history @ prefix # later) prefix = Some j \<and> i \<noteq> j \<and>
    parse_id kind prefix (ident_str i) = Inr i"
proof -
  have h: "length history < 2 ^ 64" using assms by simp
  have "parse_id kind prefix (prefix @ ''_'' @ sequential_ids history prefix) =
      Inr (Ident (prefix @ ''_'' @ sequential_ids history prefix))"
    unfolding parse_id_append using sequential.suffix_valid [OF h] by simp
  then show ?thesis
    using sequential.generate_succeeds [OF h] sequential.generate_succeeds [OF assms]
      sequential.generate_fresh [OF assms]
    by (metis ident.sel)
qed

lemma sequential_ids_fresh_witness:
  "\<exists>i j. generate_id sequential_ids [''node''] ''node'' = Some i \<and>
    generate_id sequential_ids [''node'', ''node'', ''run''] ''node'' = Some j \<and> i \<noteq> (j :: node_id)"
  using sequential_ids_fresh [of "[''node'']" "''node''" "[''run'']"] by fastforce

text \<open>An edge endpoint in a response is read without ambiguity: a text is a node ID or a local ref but
  never both, each endpoint prints as the text it was read from, and reading that text gives the
  endpoint back.\<close>

theorem endpoint_unambiguous:
  "(parse_endpoint s = Inr (Node_End i) \<longleftrightarrow> parse_node_id s = Inr i) \<and>
   (parse_endpoint s = Inr (Ref_End r) \<longleftrightarrow> parse_emission_ref s = Inr r) \<and>
   \<not> (parse_node_id s = Inr i \<and> parse_emission_ref s = Inr r) \<and>
   (parse_endpoint s = Inr e \<longrightarrow> endpoint_str e = s)"
  by (cases e)
     (auto simp: parse_endpoint_def split: sum.splits if_splits
        dest: parse_node_id_prefix parse_ref_not_node parse_node_id_Ident)

lemma endpoint_unambiguous_witness:
  "endpoint_str (Node_End (Ident ''node_000001'')) = ''node_000001'' \<and>
   parse_endpoint ''obs1'' = Inr (Ref_End (Emission_Ref ''obs1''))"
proof -
  have "parse_endpoint ''node_000001'' = Inr (Node_End (Ident ''node_000001''))"
    by (simp add: parse_endpoint_def starts_with_def parse_node_id_def parse_id_def
        strip_prefix_def is_valid_suffix_def is_ascii_digit_def)
  then have "endpoint_str (Node_End (Ident ''node_000001'')) = ''node_000001''"
    using endpoint_unambiguous [of "''node_000001''" _ _ "Node_End (Ident ''node_000001'')"] by blast
  moreover have "parse_emission_ref ''obs1'' = Inr (Emission_Ref ''obs1'')"
    by (simp add: parse_emission_ref_def starts_with_def is_ascii_alphabetic_def ref_char_def
        is_ascii_lowercase_def is_ascii_digit_def)
  ultimately show ?thesis
    using endpoint_unambiguous [of "''obs1''" _ "Emission_Ref ''obs1''"] by blast
qed

end
