(* ===== verification/Timestamps.thy ===== *)
theory Timestamps
  imports Rust_Text
begin

text \<open>
  \<open>domain/time.rs\<close>: timestamps as milliseconds since 1970, their canonical text form, the civil
  calendar they are printed with, and the stepping clock. Rust's \<open>i64\<close> is \<open>int\<close> here: every value
  the code computes from a timestamp between 1970 and 9999 lies far inside 64 bits.
  \<open>div_euclid\<close> and \<open>rem_euclid\<close> by a positive divisor are HOL's \<open>div\<close> and \<open>mod\<close>, and \<open>/\<close> and \<open>%\<close>
  are only applied to non-negative numbers there.
\<close>

section \<open>Definitions\<close>

datatype timestamp = Timestamp (unix_millis: int)

datatype timestamp_error = Timestamp_Error string

instantiation timestamp :: linorder
begin

definition less_eq_timestamp :: "timestamp \<Rightarrow> timestamp \<Rightarrow> bool" where
  "less_eq_timestamp a b \<longleftrightarrow> unix_millis a \<le> unix_millis b"

definition less_timestamp :: "timestamp \<Rightarrow> timestamp \<Rightarrow> bool" where
  "less_timestamp a b \<longleftrightarrow> unix_millis a < unix_millis b"

instance
  by standard (auto simp: less_eq_timestamp_def less_timestamp_def timestamp.expand)

end

definition millis_per_day :: int where
  "millis_per_day = 86400000"

definition max_millis :: int where
  "max_millis = 253402300799999"

definition show_int :: "int \<Rightarrow> string" where
  "show_int i = (if i < 0 then CHR ''-'' # show_nat (nat (- i)) else show_nat (nat i))"

definition from_unix_millis :: "int \<Rightarrow> timestamp_error + timestamp" where
  "from_unix_millis millis =
     (if 0 \<le> millis \<and> millis \<le> max_millis then Inr (Timestamp millis)
      else Inl (Timestamp_Error (show_int millis)))"

definition days_from_civil :: "int \<Rightarrow> int \<Rightarrow> int \<Rightarrow> int" where
  "days_from_civil year0 month day =
     (let year = (if month \<le> 2 then year0 - 1 else year0);
          era = year div 400;
          year_of_era = year mod 400;
          day_of_year = (153 * ((month + 9) mod 12) + 2) div 5 + day - 1;
          day_of_era = year_of_era * 365 + year_of_era div 4 - year_of_era div 100 + day_of_year
      in era * 146097 + day_of_era - 719468)"

definition civil_from_days :: "int \<Rightarrow> int \<times> int \<times> int" where
  "civil_from_days days0 =
     (let days = days0 + 719468;
          era = days div 146097;
          day_of_era = days mod 146097;
          year_of_era =
            (day_of_era - day_of_era div 1460 + day_of_era div 36524 - day_of_era div 146096) div 365;
          day_of_year = day_of_era - (365 * year_of_era + year_of_era div 4 - year_of_era div 100);
          month_index = (5 * day_of_year + 2) div 153;
          day = day_of_year - (153 * month_index + 2) div 5 + 1;
          month = (if month_index < 10 then month_index + 3 else month_index - 9);
          year = year_of_era + era * 400 + (if month \<le> 2 then 1 else 0)
      in (year, month, day))"

text \<open>\<open>{:0w}\<close> of a number known to be non-negative.\<close>

definition padded :: "nat \<Rightarrow> int \<Rightarrow> string" where
  "padded w i = pad0 w (nat i)"

definition timestamp_to_string :: "timestamp \<Rightarrow> string" where
  "timestamp_to_string t =
     (let days = unix_millis t div millis_per_day;
          in_day = unix_millis t mod millis_per_day;
          (year, month, day) = civil_from_days days;
          hour = in_day div 3600000; minute = in_day div 60000 mod 60;
          second = in_day div 1000 mod 60; millis = in_day mod 1000
      in padded 4 year @ ''-'' @ padded 2 month @ ''-'' @ padded 2 day @ ''T'' @ padded 2 hour @
         '':'' @ padded 2 minute @ '':'' @ padded 2 second @ ''.'' @ padded 3 millis @ ''Z'')"

text \<open>\<open>&text[from..to]\<close> parsed as a number, if every byte of it is an ASCII digit.\<close>

definition number_at :: "string \<Rightarrow> nat \<Rightarrow> nat \<Rightarrow> int option" where
  "number_at s a b =
     (let digits = take (b - a) (drop a s)
      in if list_all is_ascii_digit digits then Some (int (parse_dec digits)) else None)"

definition separators :: "(nat \<times> char) list" where
  "separators =
     [(4, CHR ''-''), (7, CHR ''-''), (10, CHR ''T''), (13, CHR '':''), (16, CHR '':''),
      (19, CHR ''.''), (23, CHR ''Z'')]"

definition timestamp_parse :: "string \<Rightarrow> timestamp_error + timestamp" where
  "timestamp_parse s =
     (let invalid = Inl (Timestamp_Error s) in
      if length s \<noteq> 24 then invalid
      else if \<not> list_all (\<lambda>(i, c). s ! i = c) separators then invalid
      else case (number_at s 0 4, number_at s 5 7, number_at s 8 10, number_at s 11 13,
                 number_at s 14 16, number_at s 17 19, number_at s 20 23) of
        (Some year, Some month, Some day, Some hour, Some minute, Some second, Some millis) \<Rightarrow>
          if \<not> (1 \<le> month \<and> month \<le> 12) \<or> \<not> (1 \<le> day \<and> day \<le> 31) \<or> 23 < hour \<or> 59 < minute
          then invalid
          else if 59 < second then invalid
          else
            (let days = days_from_civil year month day;
                 total = days * millis_per_day + ((hour * 60 + minute) * 60 + second) * 1000 + millis
             in case from_unix_millis total of
                  Inl _ \<Rightarrow> invalid
                | Inr t \<Rightarrow> if timestamp_to_string t = s then Inr t else invalid)
      | _ \<Rightarrow> invalid)"

text \<open>The stepping clock: the instant of its \<open>n\<close>-th call, which panics outside the range.\<close>

definition stepping_clock :: "timestamp \<Rightarrow> int \<Rightarrow> nat \<Rightarrow> timestamp_error + timestamp" where
  "stepping_clock start step_millis n = from_unix_millis (unix_millis start + int n * step_millis)"

section \<open>The calendar\<close>

text \<open>
  A day of the 400-year era, cut into centuries, 4-year groups, years and days as the Gregorian
  rule cuts it. The year formula of \<open>civil_from_days\<close> recovers the cut.
\<close>

definition era_day :: "int \<Rightarrow> int \<Rightarrow> int \<Rightarrow> int \<Rightarrow> bool" where
  "era_day c q r d \<longleftrightarrow> 0 \<le> c \<and> c \<le> 3 \<and> 0 \<le> q \<and> q \<le> 24 \<and> 0 \<le> r \<and> r \<le> 3 \<and> 0 \<le> d \<and> d \<le> 365 \<and>
     (d = 365 \<longrightarrow> r = 3 \<and> (q < 24 \<or> c = 3))"

lemma era_day_exists:
  assumes "0 \<le> e" "e < 146097"
  obtains c q r d where "era_day c q r d" "e = 36524 * c + 1461 * q + 365 * r + d"
proof -
  define c where "c = min 3 (e div 36524)"
  define f where "f = e - 36524 * c"
  define q where "q = f div 1461"
  define g where "g = f - 1461 * q"
  define r where "r = min 3 (g div 365)"
  have c: "0 \<le> c" "c \<le> 3" using assms by (auto simp: c_def)
  have f: "0 \<le> f" "f \<le> 36524" "f = 36524 \<longrightarrow> c = 3"
    using assms unfolding f_def c_def by (auto simp: min_def)
  have q: "0 \<le> q" "q \<le> 24" "0 \<le> g" "g < 1461"
    using f unfolding q_def g_def by auto
  have g: "q = 24 \<longrightarrow> g = 1460 \<longrightarrow> c = 3"
    using f unfolding g_def by auto
  have r: "0 \<le> r" "r \<le> 3" "0 \<le> g - 365 * r" "g - 365 * r \<le> 365" "g - 365 * r = 365 \<longrightarrow> g = 1460"
    "g = 1460 \<longrightarrow> r = 3"
    using q unfolding r_def by (auto simp: min_def)
  have "era_day c q r (g - 365 * r)"
    using c q g r unfolding era_day_def by auto
  moreover have "e = 36524 * c + 1461 * q + 365 * r + (g - 365 * r)"
    by (simp add: g_def f_def)
  ultimately show ?thesis by (rule that)
qed

lemma era_day_year:
  assumes "era_day c q r d" and e: "e = 36524 * c + 1461 * q + 365 * r + d"
  shows "(e - e div 1460 + e div 36524 - e div 146096) div 365 = 100 * c + 4 * q + r"
    and "0 \<le> e" and "e < 146097"
proof -
  have B: "0 \<le> c" "c \<le> 3" "0 \<le> q" "q \<le> 24" "0 \<le> r" "r \<le> 3" "0 \<le> d" "d \<le> 365"
    and L: "d = 365 \<Longrightarrow> r = 3 \<and> (q < 24 \<or> c = 3)"
    using assms(1) by (auto simp: era_day_def)
  show r0: "0 \<le> e" "e < 146097" using B L e by (cases "d = 365"; auto)+
  have c_cases: "c = 0 \<or> c = 1 \<or> c = 2 \<or> c = 3" using B by auto
  define x where "x = 24 * c + q + 365 * r + d"
  have x: "0 \<le> x" "x < 2920" using B by (auto simp: x_def)
  have e1460: "e div 1460 = 25 * c + q + (if x < 1460 then 0 else 1)"
  proof -
    have "e = (25 * c + q) * 1460 + x" by (simp add: e x_def)
    then have "e div 1460 = 25 * c + q + x div 1460" by simp
    then show ?thesis using x by (auto simp: div_pos_pos_trivial)
  qed
  have last: "e = 146096 \<longleftrightarrow> c = 3 \<and> q = 24 \<and> r = 3 \<and> d = 365"
    using B L e c_cases by (cases "d = 365") auto
  have cent: "e div 36524 = (if e = 146096 then 4 else c)"
  proof (cases "e = 146096")
    case False
    have "1461 * q + 365 * r + d < 36524 \<and> 0 \<le> 1461 * q + 365 * r + d"
    proof (cases "d = 365")
      case True
      with L False B last show ?thesis by (auto simp: e)
    next
      case d: False
      with B show ?thesis by auto
    qed
    moreover have "e = 36524 * c + (1461 * q + 365 * r + d)" using e by simp
    ultimately have "e div 36524 = c" by (metis int_div_pos_eq)
    then show ?thesis using False by simp
  qed simp
  have era: "e div 146096 = (if e = 146096 then 1 else 0)"
    using r0 by (auto simp: div_pos_pos_trivial)
  define n where "n = e - e div 1460 + e div 36524 - e div 146096"
  have "n = 365 * (100 * c + 4 * q + r) + d - (if x < 1460 then 0 else 1)"
    unfolding n_def e1460 cent era using last by (auto simp: e)
  moreover have "0 \<le> d - (if x < 1460 then 0 else 1)" "d - (if x < 1460 then 0 else 1) < 365"
    using B L unfolding x_def by (cases "d = 365"; auto)+
  ultimately have "n div 365 = 100 * c + 4 * q + r"
    by (auto intro!: int_div_pos_eq [where r = "d - (if x < 1460 then 0 else 1)"])
  then show "(e - e div 1460 + e div 36524 - e div 146096) div 365 = 100 * c + 4 * q + r"
    by (simp add: n_def)
qed

lemma era_day_start:
  assumes "era_day c q r d"
  shows "(100 * c + 4 * q + r) div 4 = 25 * c + q" and "(100 * c + 4 * q + r) div 100 = c"
  using assms by (auto simp: era_day_def)

text \<open>The day number of March 1st of a year, and the length of the year that starts there.\<close>

definition march_start :: "int \<Rightarrow> int" where
  "march_start y = 365 * y + y div 4 - y div 100 + y div 400 - 719468"

definition march_civil :: "int \<Rightarrow> int \<Rightarrow> int \<times> int \<times> int" where
  "march_civil y d =
     (let mi = (5 * d + 2) div 153 in
      (y + (if mi < 10 then 0 else 1), (if mi < 10 then mi + 3 else mi - 9),
       d - (153 * mi + 2) div 5 + 1))"

lemma march_start_era:
  assumes "0 \<le> y" "y < 400"
  shows "march_start (400 * era + y) = 146097 * era + (365 * y + y div 4 - y div 100) - 719468"
proof -
  have "(400 * era + y) div 4 = 100 * era + y div 4"
    "(400 * era + y) div 100 = 4 * era + y div 100"
    "(400 * era + y) div 400 = era + y div 400" "y div 400 = 0"
    using assms by auto
  then show ?thesis by (simp add: march_start_def)
qed

definition is_leap :: "int \<Rightarrow> bool" where
  "is_leap y \<longleftrightarrow> y mod 4 = 0 \<and> (y mod 100 \<noteq> 0 \<or> y mod 400 = 0)"

lemma div_Suc_int: "0 < (k::int) \<Longrightarrow> (y + 1) div k = y div k + (if (y + 1) mod k = 0 then 1 else 0)"
proof -
  assume k: "0 < k"
  have y: "y = k * (y div k) + y mod k" by simp
  have r: "0 \<le> y mod k" "y mod k < k" using k by simp_all
  show ?thesis
  proof (cases "y mod k + 1 = k")
    case True
    have "(y div k + 1) * k = k * (y div k) + k" by (simp add: algebra_simps)
    then have "y + 1 = (y div k + 1) * k" using y True by linarith
    then show ?thesis using k by simp
  next
    case False
    with r have "0 \<le> y mod k + 1" "y mod k + 1 < k" by auto
    moreover have "y + 1 = k * (y div k) + (y mod k + 1)" using y by linarith
    ultimately have "(y + 1) div k = y div k" "(y + 1) mod k = y mod k + 1"
      by (metis int_div_pos_eq, metis int_mod_pos_eq)
    then show ?thesis using r by simp
  qed
qed

lemma mod_0_trans: "k dvd m \<Longrightarrow> (y::int) mod m = 0 \<Longrightarrow> y mod k = 0"
  by (auto simp: mod_eq_0_iff_dvd intro: dvd_trans)

lemma march_year_length: "march_start (y + 1) - march_start y = (if is_leap (y + 1) then 366 else 365)"
proof -
  have M: "(y + 1) mod 100 = 0 \<Longrightarrow> (y + 1) mod 4 = 0" "(y + 1) mod 400 = 0 \<Longrightarrow> (y + 1) mod 100 = 0"
    by (rule mod_0_trans; simp)+
  have E: "march_start (y + 1) - march_start y =
      365 + (if (y + 1) mod 4 = 0 then 1 else 0) - (if (y + 1) mod 100 = 0 then 1 else 0) +
      (if (y + 1) mod 400 = 0 then 1 else 0)"
    unfolding march_start_def div_Suc_int [OF zero_less_numeral] by (simp only: ring_distribs)
  show ?thesis
    unfolding E is_leap_def using M
    by (cases "(y + 1) mod 4 = 0"; cases "(y + 1) mod 100 = 0"; cases "(y + 1) mod 400 = 0")
       simp_all
qed

lemma march_start_mono: "y \<le> z \<Longrightarrow> march_start y + 365 * (z - y) \<le> march_start z"
proof (induction "nat (z - y)" arbitrary: z)
  case (Suc n)
  then have "march_start y + 365 * (z - 1 - y) \<le> march_start (z - 1)"
    by (intro Suc.hyps(1)) auto
  moreover have "march_start (z - 1) + 365 \<le> march_start z"
    using march_year_length [of "z - 1"] by (auto split: if_splits)
  ultimately show ?case by auto
qed simp

lemma march_start_unique:
  assumes "0 \<le> d" "d < march_start (y + 1) - march_start y"
    and "0 \<le> e" "e < march_start (z + 1) - march_start z"
    and "march_start y + d = march_start z + e"
  shows "y = z \<and> d = e"
proof -
  have "\<not> y < z"
    using march_start_mono [of "y + 1" z] assms by auto
  moreover have "\<not> z < y"
    using march_start_mono [of "z + 1" y] assms by auto
  ultimately show ?thesis using assms(5) by auto
qed

text \<open>Within a March-based year, the month index and the day.\<close>

lemma month_index_bounds:
  assumes "0 \<le> (d::int)" "d \<le> 365"
  shows "0 \<le> (5 * d + 2) div 153" "(5 * d + 2) div 153 \<le> 11"
    "0 \<le> d - (153 * ((5 * d + 2) div 153) + 2) div 5" "d - (153 * ((5 * d + 2) div 153) + 2) div 5 \<le> 30"
proof -
  define mi where "mi = (5 * d + 2) div 153"
  have m: "153 * mi \<le> 5 * d + 2" "5 * d + 2 < 153 * mi + 153"
    by (auto simp: mi_def)
  define w where "w = (153 * mi + 2) div 5"
  have w: "5 * w \<le> 153 * mi + 2" "153 * mi + 2 < 5 * w + 5"
    by (auto simp: w_def)
  show "0 \<le> (5 * d + 2) div 153" "(5 * d + 2) div 153 \<le> 11"
    "0 \<le> d - (153 * ((5 * d + 2) div 153) + 2) div 5" "d - (153 * ((5 * d + 2) div 153) + 2) div 5 \<le> 30"
    unfolding mi_def [symmetric] w_def [symmetric] using m w assms by linarith+
qed

lemma civil_from_days_march:
  obtains y d where "days = march_start y + d" "0 \<le> d" "d < march_start (y + 1) - march_start y"
    "civil_from_days days = march_civil y d"
proof -
  define era where "era = (days + 719468) div 146097"
  define e where "e = (days + 719468) mod 146097"
  have "0 \<le> e" "e < 146097" by (simp_all add: e_def)
  then obtain c q r d where ed: "era_day c q r d" and e: "e = 36524 * c + 1461 * q + 365 * r + d"
    by (rule era_day_exists)
  define yoe where "yoe = 100 * c + 4 * q + r"
  have yoe: "0 \<le> yoe" "yoe < 400" using ed by (auto simp: yoe_def era_day_def)
  have doy: "e - (365 * yoe + yoe div 4 - yoe div 100) = d"
    using era_day_start [OF ed] by (simp add: yoe_def e)
  have "0 \<le> d" "d \<le> 365" using ed by (simp_all add: era_day_def)
  note mi = month_index_bounds [OF this]
  have n: "(e - e div 1460 + e div 36524 - e div 146096) div 365 = yoe"
    using era_day_year(1) [OF ed e] by (simp add: yoe_def)
  have "civil_from_days days = march_civil (400 * era + yoe) d"
    unfolding civil_from_days_def march_civil_def Let_def
    by (simp only: era_def [symmetric] e_def [symmetric] n doy) (use mi(1,2) in auto)
  moreover have d: "days = march_start (400 * era + yoe) + d"
    using doy div_mult_mod_eq [of "days + 719468" 146097]
    unfolding march_start_era [OF yoe] era_def [symmetric] e_def [symmetric] by linarith
  moreover have "0 \<le> d" using ed by (simp add: era_day_def)
  moreover have "d < march_start (400 * era + yoe + 1) - march_start (400 * era + yoe)"
  proof (cases "d = 365")
    case True
    then have last: "r = 3" "q < 24 \<or> c = 3" using ed by (auto simp: era_day_def)
    have bound: "0 \<le> q" "q \<le> 24" "0 \<le> c" "c \<le> 3" using ed by (auto simp: era_day_def)
    have k: "400 * era + yoe + 1 = 400 * era + 100 * c + 4 * (q + 1)"
      using last by (simp add: yoe_def)
    have "is_leap (400 * era + yoe + 1)"
    proof (cases "q = 24")
      case q: True
      then have "400 * era + yoe + 1 = 400 * (era + 1)" using last(2) k by simp
      then show ?thesis unfolding is_leap_def by simp
    next
      case False
      have "(4 * (25 * (4 * era + c) + (q + 1))) mod 4 = 0" by simp
      moreover have "(100 * (4 * era + c) + 4 * (q + 1)) mod 100 = 4 * (q + 1)"
        using bound False by (simp del: mult_Suc_right distrib_left_numeral)
      ultimately show ?thesis
        using bound unfolding is_leap_def k by (simp add: algebra_simps)
    qed
    then show ?thesis using True march_year_length [of "400 * era + yoe"] by simp
  next
    case False
    then show ?thesis using ed march_year_length [of "400 * era + yoe"]
      by (auto simp: era_day_def)
  qed
  ultimately show ?thesis by (rule that [rotated 3])
qed

lemma march_days_le: "d < march_start (y + 1) - march_start y \<Longrightarrow> d \<le> 365"
  by (simp add: march_year_length split: if_splits)

lemma days_from_civil_march:
  "days_from_civil y m d =
     march_start (if m \<le> 2 then y - 1 else y) + ((153 * ((m + 9) mod 12) + 2) div 5 + d - 1)"
proof -
  define z where "z = (if m \<le> 2 then y - 1 else y)"
  have z: "0 \<le> z mod 400" "z mod 400 < 400" "z = 400 * (z div 400) + z mod 400" by simp_all
  have "march_start z = 146097 * (z div 400) + (365 * (z mod 400) + z mod 400 div 4 - z mod 400 div 100) - 719468"
    using march_start_era [OF z(1,2), of "z div 400"] z(3) by simp
  then show ?thesis
    unfolding days_from_civil_def Let_def z_def [symmetric] by linarith
qed

lemma march_civil_days:
  assumes "0 \<le> d" "d \<le> 365" and "march_civil y d = (year, month, day)"
  shows "days_from_civil year month day = march_start y + d"
proof -
  define mi where "mi = (5 * d + 2) div 153"
  have mi: "0 \<le> mi" "mi \<le> 11" using month_index_bounds [OF assms(1,2)] by (simp_all add: mi_def)
  have out: "year = y + (if mi < 10 then 0 else 1)" "month = (if mi < 10 then mi + 3 else mi - 9)"
    "day = d - (153 * mi + 2) div 5 + 1"
    using assms(3) by (simp_all add: march_civil_def mi_def [symmetric] Let_def)
  have "(month + 9) mod 12 = mi" using mi out(2) by (cases "mi < 10") auto
  moreover have "(if month \<le> 2 then year - 1 else year) = y" using mi out by auto
  ultimately show ?thesis using out(3) by (simp add: days_from_civil_march)
qed

lemma days_from_civil_from_days:
  "(case civil_from_days days of (y, m, d) \<Rightarrow> days_from_civil y m d) = days"
proof -
  obtain y d where "days = march_start y + d" "0 \<le> d" "d < march_start (y + 1) - march_start y"
    "civil_from_days days = march_civil y d"
    by (rule civil_from_days_march)
  then show ?thesis
    using march_civil_days [of d y] march_days_le by (cases "march_civil y d") auto
qed

text \<open>A date that exists: its month has that day.\<close>

definition days_in_month :: "int \<Rightarrow> int \<Rightarrow> int" where
  "days_in_month y m =
     (if m = 2 then if is_leap y then 29 else 28
      else if m = 4 \<or> m = 6 \<or> m = 9 \<or> m = 11 then 30 else 31)"

definition valid_date :: "int \<Rightarrow> int \<Rightarrow> int \<Rightarrow> bool" where
  "valid_date y m d \<longleftrightarrow> 1 \<le> m \<and> m \<le> 12 \<and> 1 \<le> d \<and> d \<le> days_in_month y m"

lemma month_cases:
  assumes "1 \<le> (m::int)" "m \<le> 12"
  obtains "m = 1" | "m = 2" | "m = 3" | "m = 4" | "m = 5" | "m = 6" | "m = 7" | "m = 8" | "m = 9"
    | "m = 10" | "m = 11" | "m = 12"
proof -
  have "m = 1 \<or> m = 2 \<or> m = 3 \<or> m = 4 \<or> m = 5 \<or> m = 6 \<or> m = 7 \<or> m = 8 \<or> m = 9 \<or>
      m = 10 \<or> m = 11 \<or> m = 12"
    using assms by presburger
  then show ?thesis using that by blast
qed

lemma march_civil_of_date:
  assumes "valid_date y m d"
  defines "z \<equiv> if m \<le> 2 then y - 1 else y"
  defines "n \<equiv> (153 * ((m + 9) mod 12) + 2) div 5 + d - 1"
  shows "0 \<le> n" "n < march_start (z + 1) - march_start z" "march_civil z n = (y, m, d)"
proof -
  have m: "1 \<le> m" "m \<le> 12" and d: "1 \<le> d" "d \<le> days_in_month y m"
    using assms by (auto simp: valid_date_def)
  have all: "0 \<le> n \<and> n < march_start (z + 1) - march_start z \<and>
      (5 * n + 2) div 153 = (m + 9) mod 12"
    using m by (cases rule: month_cases)
      (use d march_year_length [of "y - 1"] in
        \<open>auto simp: n_def z_def days_in_month_def march_year_length split: if_splits\<close>)
  then show "0 \<le> n" "n < march_start (z + 1) - march_start z" by auto
  have "(5 * n + 2) div 153 = (m + 9) mod 12" using all by simp
  then show "march_civil z n = (y, m, d)"
    unfolding march_civil_def by (cases rule: month_cases [OF m]) (simp_all add: n_def z_def)
qed

lemma civil_from_days_from_civil:
  assumes "valid_date y m d"
  shows "civil_from_days (days_from_civil y m d) = (y, m, d)"
proof -
  define z where "z = (if m \<le> 2 then y - 1 else y)"
  define n where "n = (153 * ((m + 9) mod 12) + 2) div 5 + d - 1"
  note A = march_civil_of_date [OF assms, folded z_def, folded n_def]
  have D: "days_from_civil y m d = march_start z + n"
    by (simp add: days_from_civil_march z_def n_def)
  obtain y' d' where B: "days_from_civil y m d = march_start y' + d'" "0 \<le> d'"
      "d' < march_start (y' + 1) - march_start y'"
      "civil_from_days (days_from_civil y m d) = march_civil y' d'"
    by (rule civil_from_days_march)
  have "z = y' \<and> n = d'"
    by (rule march_start_unique) (use A B D in auto)
  then show ?thesis using A(3) B(4) by simp
qed

lemma civil_from_days_bounds:
  assumes "civil_from_days days = (y, m, d)"
  shows "1 \<le> m" "m \<le> 12" "1 \<le> d" "d \<le> 31"
    and "0 \<le> days \<Longrightarrow> 1970 \<le> y" and "days \<le> 2932896 \<Longrightarrow> y \<le> 9999"
proof -
  obtain z n where B: "days = march_start z + n" "0 \<le> n"
      "n < march_start (z + 1) - march_start z" "civil_from_days days = march_civil z n"
    by (rule civil_from_days_march)
  define mi where "mi = (5 * n + 2) div 153"
  have n: "n \<le> 365" using B(3) by (rule march_days_le)
  note mi = month_index_bounds [OF B(2) n, folded mi_def]
  have out: "y = z + (if mi < 10 then 0 else 1)" "m = (if mi < 10 then mi + 3 else mi - 9)"
    "d = n - (153 * mi + 2) div 5 + 1"
    using assms B(4) by (simp_all add: march_civil_def mi_def [symmetric] Let_def)
  show "1 \<le> m" "m \<le> 12" "1 \<le> d" "d \<le> 31" using out mi by auto
  have late: "306 \<le> n \<Longrightarrow> 10 \<le> mi" unfolding mi_def by linarith
  show "1970 \<le> y" if "0 \<le> days"
  proof (rule ccontr)
    assume "\<not> 1970 \<le> y"
    then have z: "z \<le> 1969" "z = 1969 \<Longrightarrow> mi < 10" using out by (auto split: if_splits)
    have "z = 1969"
      using march_start_mono [of "z + 1" 1969] B that z by (cases "z = 1969") (auto simp: march_start_def)
    then show False using late z B that by (simp add: march_start_def)
  qed
  have early: "n \<le> 305 \<Longrightarrow> mi < 10" unfolding mi_def by linarith
  show "y \<le> 9999" if "days \<le> 2932896"
  proof (rule ccontr)
    assume "\<not> y \<le> 9999"
    then have z: "9999 \<le> z" "z = 9999 \<Longrightarrow> 10 \<le> mi" using out by (auto split: if_splits)
    have "z = 9999"
      using march_start_mono [of 10000 z] B that z by (cases "z = 9999") (auto simp: march_start_def)
    then show False using early z B that by (simp add: march_start_def)
  qed
qed

lemma civil_from_days_mono:
  assumes "days < days'" "civil_from_days days = (y, m, d)" "civil_from_days days' = (y', m', d')"
  shows "y < y' \<or> (y = y' \<and> (m < m' \<or> (m = m' \<and> d < d')))"
proof -
  obtain z n where B: "days = march_start z + n" "0 \<le> n"
      "n < march_start (z + 1) - march_start z" "civil_from_days days = march_civil z n"
    by (rule civil_from_days_march)
  obtain z' n' where B': "days' = march_start z' + n'" "0 \<le> n'"
      "n' < march_start (z' + 1) - march_start z'" "civil_from_days days' = march_civil z' n'"
    by (rule civil_from_days_march)
  define mi where "mi = (5 * n + 2) div 153"
  define mi' where "mi' = (5 * n' + 2) div 153"
  note mi = month_index_bounds [OF B(2) march_days_le [OF B(3)], folded mi_def]
  note mi' = month_index_bounds [OF B'(2) march_days_le [OF B'(3)], folded mi'_def]
  have out: "12 * y + m = 12 * z + mi + 3" "d = n - (153 * mi + 2) div 5 + 1"
    using assms(2) B(4) by (auto simp: march_civil_def mi_def [symmetric] Let_def)
  have out': "12 * y' + m' = 12 * z' + mi' + 3" "d' = n' - (153 * mi' + 2) div 5 + 1"
    using assms(3) B'(4) by (auto simp: march_civil_def mi'_def [symmetric] Let_def)
  have "z \<le> z'"
    using march_start_mono [of "z' + 1" z] B B' assms(1) by (cases "z \<le> z'") auto
  moreover have "n < n'" if "z = z'" using that B B' assms(1) by simp
  moreover have "mi \<le> mi'" if "n < n'" unfolding mi_def mi'_def by (rule zdiv_mono1) (use that in auto)
  ultimately have "12 * y + m < 12 * y' + m' \<or> (12 * y + m = 12 * y' + m' \<and> d < d')"
    using out out' mi(1,2) mi'(1,2) by (cases "z = z'"; cases "mi = mi'") auto
  then show ?thesis
    using civil_from_days_bounds(1,2) [OF assms(2)] civil_from_days_bounds(1,2) [OF assms(3)]
    by (cases "y < y'"; cases "y = y'") auto
qed

section \<open>The text form\<close>

definition civil_text :: "int \<Rightarrow> int \<Rightarrow> int \<Rightarrow> int \<Rightarrow> int \<Rightarrow> int \<Rightarrow> int \<Rightarrow> string" where
  "civil_text year month day hour minute second millis =
     padded 4 year @ ''-'' @ padded 2 month @ ''-'' @ padded 2 day @ ''T'' @ padded 2 hour @
     '':'' @ padded 2 minute @ '':'' @ padded 2 second @ ''.'' @ padded 3 millis @ ''Z''"

text \<open>The millisecond at which a civil date and time lies.\<close>

definition civil_millis :: "int \<Rightarrow> int \<Rightarrow> int \<Rightarrow> int \<Rightarrow> int \<Rightarrow> int \<Rightarrow> int \<Rightarrow> int" where
  "civil_millis year month day hour minute second millis =
     days_from_civil year month day * millis_per_day +
     ((hour * 60 + minute) * 60 + second) * 1000 + millis"

definition two_digits :: "int \<Rightarrow> bool" where
  "two_digits i \<longleftrightarrow> 0 \<le> i \<and> i < 100"

lemma nat_less_power_iff: "0 \<le> i \<Longrightarrow> nat i < 10 ^ w \<longleftrightarrow> i < 10 ^ w"
  by (simp add: nat_less_iff)

lemma padded_fixed: "0 \<le> i \<Longrightarrow> i < 10 ^ w \<Longrightarrow> 0 < w \<Longrightarrow> padded w i = fixed w (nat i)"
  by (simp add: padded_def pad0_fixed nat_less_power_iff)

lemma padded_less_append:
  assumes "0 \<le> i" "i < 10 ^ w" "0 \<le> j" "j < 10 ^ w" "0 < w"
  shows "padded w i @ x < padded w j @ y \<longleftrightarrow> i < j \<or> (i = j \<and> x < y)"
proof -
  have n: "nat i < 10 ^ w" "nat j < 10 ^ w" using assms by (simp_all add: nat_less_power_iff)
  have "fixed w (nat i) = fixed w (nat j) \<longleftrightarrow> nat i = nat j"
    using n by (metis mod_less parse_dec_fixed)
  moreover have "nat i = nat j \<longleftrightarrow> i = j" "nat i < nat j \<longleftrightarrow> i < j"
    using assms by auto
  ultimately show ?thesis
    using assms n
    by (simp only: padded_fixed length_fixed list_less_append_same_length fixed_less_iff)
qed

lemma number_at_fixed:
  assumes "drop a s = fixed w (nat i) @ t" "b = a + w" "0 \<le> i" "i < 10 ^ w"
  shows "number_at s a b = Some i"
proof -
  have "nat i mod 10 ^ w = nat i" using assms(3,4) by (simp add: nat_less_power_iff)
  then show ?thesis
    using assms by (simp add: number_at_def digits_fixed parse_dec_fixed)
qed

text \<open>The numbers that the parser reads back from a text of the right form.\<close>

lemma civil_text_numbers:
  assumes "0 \<le> y" "y < 10000" "two_digits mo" "two_digits d" "two_digits h" "two_digits mi"
    "two_digits sec" "0 \<le> ms" "ms < 1000"
  defines "s \<equiv> civil_text y mo d h mi sec ms"
  shows "length s = 24" "list_all (\<lambda>(i, c). s ! i = c) separators"
    "number_at s 0 4 = Some y" "number_at s 5 7 = Some mo" "number_at s 8 10 = Some d"
    "number_at s 11 13 = Some h" "number_at s 14 16 = Some mi" "number_at s 17 19 = Some sec"
    "number_at s 20 23 = Some ms"
proof -
  note B = assms(1-9) [unfolded two_digits_def]
  have s: "s = fixed 4 (nat y) @ ''-'' @ fixed 2 (nat mo) @ ''-'' @ fixed 2 (nat d) @ ''T'' @
      fixed 2 (nat h) @ '':'' @ fixed 2 (nat mi) @ '':'' @ fixed 2 (nat sec) @ ''.'' @
      fixed 3 (nat ms) @ ''Z''"
    unfolding s_def civil_text_def using B by (simp add: padded_fixed)
  show "length s = 24" by (simp add: s)
  show "list_all (\<lambda>(i, c). s ! i = c) separators"
    unfolding s separators_def by (simp add: nth_append)
  show "number_at s 0 4 = Some y"
    by (rule number_at_fixed [where w = 4 and t = "drop 4 s"]) (use B in \<open>simp_all add: s\<close>)
  show "number_at s 5 7 = Some mo"
    by (rule number_at_fixed [where w = 2 and t = "drop 7 s"]) (use B in \<open>simp_all add: s\<close>)
  show "number_at s 8 10 = Some d"
    by (rule number_at_fixed [where w = 2 and t = "drop 10 s"]) (use B in \<open>simp_all add: s\<close>)
  show "number_at s 11 13 = Some h"
    by (rule number_at_fixed [where w = 2 and t = "drop 13 s"]) (use B in \<open>simp_all add: s\<close>)
  show "number_at s 14 16 = Some mi"
    by (rule number_at_fixed [where w = 2 and t = "drop 16 s"]) (use B in \<open>simp_all add: s\<close>)
  show "number_at s 17 19 = Some sec"
    by (rule number_at_fixed [where w = 2 and t = "drop 19 s"]) (use B in \<open>simp_all add: s\<close>)
  show "number_at s 20 23 = Some ms"
    by (rule number_at_fixed [where w = 3 and t = "drop 23 s"]) (use B in \<open>simp_all add: s\<close>)
qed

text \<open>Splitting a day's milliseconds into fields and putting them together again.\<close>

lemma in_day_fields:
  assumes "0 \<le> (n::int)" "n < 86400000"
  shows "0 \<le> n div 3600000" "n div 3600000 < 24"
    "0 \<le> n div 60000 mod 60" "n div 60000 mod 60 < 60"
    "0 \<le> n div 1000 mod 60" "n div 1000 mod 60 < 60" "0 \<le> n mod 1000" "n mod 1000 < 1000"
    "((n div 3600000 * 60 + n div 60000 mod 60) * 60 + n div 1000 mod 60) * 1000 + n mod 1000 = n"
proof -
  have a: "n div 60000 = n div 1000 div 60" "n div 3600000 = n div 1000 div 60 div 60"
    by (simp_all add: zdiv_zmult2_eq [symmetric])
  define k where "k = n div 1000"
  show "((n div 3600000 * 60 + n div 60000 mod 60) * 60 + n div 1000 mod 60) * 1000 + n mod 1000 = n"
    unfolding a k_def [symmetric]
    using div_mult_mod_eq [of "k div 60" 60] div_mult_mod_eq [of k 60] div_mult_mod_eq [of n 1000]
    by (simp only: k_def)
qed (use assms in auto)

lemma fields_in_day:
  assumes "0 \<le> h" "h < 24" "0 \<le> mi" "mi < 60" "0 \<le> sec" "sec < 60" "0 \<le> ms" "ms < (1000::int)"
  defines "n \<equiv> ((h * 60 + mi) * 60 + sec) * 1000 + ms"
  shows "0 \<le> n" "n < 86400000" "n div 3600000 = h" "n div 60000 mod 60 = mi"
    "n div 1000 mod 60 = sec" "n mod 1000 = ms"
proof -
  show "0 \<le> n" "n < 86400000" using assms by auto
  have "n div 1000 = (h * 60 + mi) * 60 + sec" unfolding n_def using assms by simp
  moreover have "((h * 60 + mi) * 60 + sec) div 60 = h * 60 + mi" using assms by simp
  moreover have "((h * 60 + mi) * 60 + sec) mod 60 = sec" using assms(5,6) by (simp only: mod_mult_self3 mod_pos_pos_trivial)
  ultimately show "n div 3600000 = h" "n div 60000 mod 60 = mi" "n div 1000 mod 60 = sec"
    using assms zdiv_zmult2_eq [of 60 n 1000] zdiv_zmult2_eq [of 3600 n 1000]
      zdiv_zmult2_eq [of 60 "n div 1000" 60] by simp_all
  show "n mod 1000 = ms"
    unfolding n_def using assms(7,8) by (simp only: mod_mult_self3 mod_pos_pos_trivial)
qed

lemma timestamp_to_string_civil:
  assumes "civil_from_days (unix_millis t div millis_per_day) = (y, m, d)"
    and "unix_millis t mod millis_per_day = n"
  shows "timestamp_to_string t =
    civil_text y m d (n div 3600000) (n div 60000 mod 60) (n div 1000 mod 60) (n mod 1000)"
  using assms by (simp add: timestamp_to_string_def civil_text_def)

definition in_range :: "timestamp \<Rightarrow> bool" where
  "in_range t \<longleftrightarrow> 0 \<le> unix_millis t \<and> unix_millis t \<le> max_millis"

lemma timestamp_day_bounds:
  "in_range t \<Longrightarrow> 0 \<le> unix_millis t div millis_per_day \<and> unix_millis t div millis_per_day \<le> 2932896"
  by (auto simp: in_range_def max_millis_def millis_per_day_def)

lemma two_digits_le: "0 \<le> i \<Longrightarrow> i < 100 \<Longrightarrow> two_digits i"
  by (simp add: two_digits_def)

lemma timestamp_parse_numbers:
  assumes "length s = 24" "list_all (\<lambda>(i, c). s ! i = c) separators"
    "number_at s 0 4 = Some y" "number_at s 5 7 = Some mo" "number_at s 8 10 = Some d"
    "number_at s 11 13 = Some h" "number_at s 14 16 = Some mi" "number_at s 17 19 = Some sec"
    "number_at s 20 23 = Some ms"
    and "1 \<le> mo" "mo \<le> 12" "1 \<le> d" "d \<le> 31" "h < 24" "mi < 60" "sec < 60"
  shows "timestamp_parse s =
    (case from_unix_millis (civil_millis y mo d h mi sec ms) of
       Inl _ \<Rightarrow> Inl (Timestamp_Error s)
     | Inr t \<Rightarrow> if timestamp_to_string t = s then Inr t else Inl (Timestamp_Error s))"
proof -
  have "\<not> 23 < h" "\<not> 59 < mi" "\<not> 59 < sec" using assms(14-16) by auto
  then show ?thesis
    unfolding timestamp_parse_def Let_def assms(3-9) civil_millis_def
    using assms(1,2,10-13) by simp
qed

lemma parse_to_string:
  assumes "in_range t"
  shows "timestamp_parse (timestamp_to_string t) = Inr t"
proof -
  obtain y m d where c: "civil_from_days (unix_millis t div millis_per_day) = (y, m, d)"
    by (metis prod_cases3)
  define n where "n = unix_millis t mod millis_per_day"
  have n: "0 \<le> n" "n < 86400000" by (simp_all add: n_def millis_per_day_def)
  define s where "s = timestamp_to_string t"
  have s: "s = civil_text y m d (n div 3600000) (n div 60000 mod 60) (n div 1000 mod 60) (n mod 1000)"
    using timestamp_to_string_civil [OF c n_def [symmetric]] by (simp add: s_def)
  note cb = civil_from_days_bounds [OF c] and ib = in_day_fields [OF n]
  have y: "0 \<le> y" "y < 10000" using cb(5,6) timestamp_day_bounds [OF assms] by auto
  have td: "two_digits m" "two_digits d" "two_digits (n div 3600000)" "two_digits (n div 60000 mod 60)"
    "two_digits (n div 1000 mod 60)"
    using cb(1-4) ib(1-6) by (intro two_digits_le; linarith)+
  note N = civil_text_numbers [OF y td ib(7,8), folded s]
  have days: "days_from_civil y m d = unix_millis t div millis_per_day"
    using days_from_civil_from_days [of "unix_millis t div millis_per_day"] c by simp
  have total: "civil_millis y m d (n div 3600000) (n div 60000 mod 60) (n div 1000 mod 60) (n mod 1000)
      = unix_millis t"
    using ib(9) div_mult_mod_eq [of "unix_millis t" millis_per_day]
    unfolding civil_millis_def days n_def by linarith
  have "from_unix_millis (unix_millis t) = Inr t"
    using assms by (cases t) (simp add: in_range_def from_unix_millis_def)
  then have "timestamp_parse s = Inr t"
    using timestamp_parse_numbers [OF N cb(1-4) ib(2,4,6)] by (simp add: total s_def)
  then show ?thesis by (simp add: s_def)
qed

lemma parse_Inr_canonical:
  assumes "timestamp_parse s = Inr t"
  shows "in_range t \<and> timestamp_to_string t = s"
  using assms
  by (auto simp: timestamp_parse_def Let_def from_unix_millis_def in_range_def
      split: if_splits option.splits sum.splits)

lemma civil_text_timestamp:
  assumes "valid_date y m d" "0 \<le> h" "h < 24" "0 \<le> mi" "mi < 60" "0 \<le> sec" "sec < 60"
    "0 \<le> ms" "ms < 1000"
  shows "timestamp_to_string (Timestamp (civil_millis y m d h mi sec ms)) = civil_text y m d h mi sec ms"
proof -
  define n where "n = ((h * 60 + mi) * 60 + sec) * 1000 + ms"
  note F = fields_in_day [OF assms(2-9), folded n_def]
  have t: "civil_millis y m d h mi sec ms = days_from_civil y m d * millis_per_day + n"
    by (simp add: civil_millis_def n_def)
  have D: "civil_millis y m d h mi sec ms div millis_per_day = days_from_civil y m d"
    "civil_millis y m d h mi sec ms mod millis_per_day = n"
    using F(1,2) by (simp_all add: t millis_per_day_def)
  show ?thesis
    by (simp add: timestamp_to_string_def D civil_from_days_from_civil [OF assms(1)] F civil_text_def)
qed

lemma padded2_less_append:
  "two_digits i \<Longrightarrow> two_digits j \<Longrightarrow> padded 2 i @ x < padded 2 j @ y \<longleftrightarrow> i < j \<or> (i = j \<and> x < y)"
  by (rule padded_less_append) (auto simp: two_digits_def)

lemma civil_text_less:
  assumes "0 \<le> y" "y < 10000" "two_digits mo" "two_digits d" "two_digits h" "two_digits mi"
    "two_digits sec" "0 \<le> ms" "ms < 1000"
    and "0 \<le> y'" "y' < 10000" "two_digits mo'" "two_digits d'" "two_digits h'" "two_digits mi'"
    "two_digits sec'" "0 \<le> ms'" "ms' < 1000"
  shows "civil_text y mo d h mi sec ms < civil_text y' mo' d' h' mi' sec' ms' \<longleftrightarrow>
    y < y' \<or> (y = y' \<and> (mo < mo' \<or> (mo = mo' \<and> (d < d' \<or> (d = d' \<and>
      (h < h' \<or> (h = h' \<and> (mi < mi' \<or> (mi = mi' \<and> (sec < sec' \<or> (sec = sec' \<and> ms < ms')))))))))))"
proof -
  have Y: "padded 4 y @ u < padded 4 y' @ v \<longleftrightarrow> y < y' \<or> (y = y' \<and> u < v)" for u v
    by (rule padded_less_append) (use assms in auto)
  have M: "padded 3 ms @ u < padded 3 ms' @ v \<longleftrightarrow> ms < ms' \<or> (ms = ms' \<and> u < v)" for u v
    by (rule padded_less_append) (use assms in auto)
  have C: "[c] @ u < [c] @ v \<longleftrightarrow> u < v" for c :: char and u v by simp
  have Z: "\<not> ''Z'' < ''Z''" by simp
  show ?thesis
    unfolding civil_text_def
    by (simp only: Y M C Z padded2_less_append assms conj_disj_distribL simp_thms)
qed

lemma radix_less:
  assumes "0 \<le> b" "b < k" "0 \<le> b'" "b' < (k::int)" "a * k + b < a' * k + b'"
  shows "a < a' \<or> (a = a' \<and> b < b')"
proof (rule ccontr)
  assume neg: "\<not> ?thesis"
  then have "a' * k \<le> (a - 1) * k \<or> a = a'" using assms by (auto intro!: mult_right_mono)
  then show False using assms neg by (auto simp: algebra_simps)
qed

lemma radix_eq:
  assumes "0 \<le> b" "b < k" "0 \<le> b'" "b' < (k::int)" "a * k + b = a' * k + b'"
  shows "a = a' \<and> b = b'"
  using assms by (metis add.commute int_div_pos_eq int_mod_pos_eq mult.commute)

lemma fields_less:
  assumes "0 \<le> h" "h < (24::int)" "0 \<le> mi" "mi < 60" "0 \<le> sec" "sec < 60" "0 \<le> ms" "ms < 1000"
    and "0 \<le> h'" "h' < 24" "0 \<le> mi'" "mi' < 60" "0 \<le> sec'" "sec' < 60" "0 \<le> ms'" "ms' < (1000::int)"
    and "((h * 60 + mi) * 60 + sec) * 1000 + ms < ((h' * 60 + mi') * 60 + sec') * 1000 + ms'"
  shows "h < h' \<or> (h = h' \<and> (mi < mi' \<or> (mi = mi' \<and> (sec < sec' \<or> (sec = sec' \<and> ms < ms')))))"
  using radix_less [of ms 1000 ms' "(h * 60 + mi) * 60 + sec" "(h' * 60 + mi') * 60 + sec'"]
    radix_less [of sec 60 sec' "h * 60 + mi" "h' * 60 + mi'"] radix_less [of mi 60 mi' h h']
    radix_eq [of sec 60 sec' "h * 60 + mi" "h' * 60 + mi'"] radix_eq [of mi 60 mi' h h'] assms
  by blast

lemma to_string_less_iff:
  assumes "in_range a" "in_range b"
  shows "timestamp_to_string a < timestamp_to_string b \<longleftrightarrow> a < b"
proof -
  have less: "timestamp_to_string a < timestamp_to_string b"
    if ab: "a < b" and r: "in_range a" "in_range b" for a b
  proof -
    let ?da = "unix_millis a div millis_per_day" and ?db = "unix_millis b div millis_per_day"
    obtain y m d where ca: "civil_from_days ?da = (y, m, d)" by (metis prod_cases3)
    obtain y' m' d' where cb: "civil_from_days ?db = (y', m', d')" by (metis prod_cases3)
    define n where "n = unix_millis a mod millis_per_day"
    define n' where "n' = unix_millis b mod millis_per_day"
    have n: "0 \<le> n" "n < 86400000" "0 \<le> n'" "n' < 86400000"
      by (simp_all add: n_def n'_def millis_per_day_def)
    note A = in_day_fields [OF n(1,2)] civil_from_days_bounds [OF ca]
    note B = in_day_fields [OF n(3,4)] civil_from_days_bounds [OF cb]
    have y: "0 \<le> y" "y < 10000" "0 \<le> y'" "y' < 10000"
      using A(14,15) B(14,15) timestamp_day_bounds [OF r(1)] timestamp_day_bounds [OF r(2)] by auto
    have days: "?da \<le> ?db" using ab by (auto simp: less_timestamp_def millis_per_day_def zdiv_mono1)
    have in_day: "n < n'" if "?da = ?db"
      using ab that div_mult_mod_eq [of "unix_millis a" millis_per_day]
        div_mult_mod_eq [of "unix_millis b" millis_per_day]
      unfolding less_timestamp_def n_def n'_def by (metis add_less_cancel_left)
    have date: "y < y' \<or> (y = y' \<and> (m < m' \<or> (m = m' \<and> d < d')))" if "?da < ?db"
      by (rule civil_from_days_mono [OF that ca cb])
    have same: "y = y' \<and> m = m' \<and> d = d'" if "?da = ?db" using that ca cb by simp
    have tdA: "two_digits m" "two_digits d" "two_digits (n div 3600000)"
        "two_digits (n div 60000 mod 60)" "two_digits (n div 1000 mod 60)"
      using A by (intro two_digits_le; linarith)+
    have tdB: "two_digits m'" "two_digits d'" "two_digits (n' div 3600000)"
        "two_digits (n' div 60000 mod 60)" "two_digits (n' div 1000 mod 60)"
      using B by (intro two_digits_le; linarith)+
    have time: "?da = ?db \<Longrightarrow> n div 3600000 < n' div 3600000 \<or>
        (n div 3600000 = n' div 3600000 \<and> (n div 60000 mod 60 < n' div 60000 mod 60 \<or>
         (n div 60000 mod 60 = n' div 60000 mod 60 \<and> (n div 1000 mod 60 < n' div 1000 mod 60 \<or>
          (n div 1000 mod 60 = n' div 1000 mod 60 \<and> n mod 1000 < n' mod 1000)))))"
      by (rule fields_less [OF A(1-8) B(1-8)]) (use in_day A(9) B(9) in simp)
    have "?da < ?db \<or> ?da = ?db" using days by auto
    then show ?thesis
      unfolding timestamp_to_string_civil [OF ca n_def [symmetric]]
        timestamp_to_string_civil [OF cb n'_def [symmetric]]
        civil_text_less [OF y(1,2) tdA A(7,8) y(3,4) tdB B(7,8)]
      using date same time by blast
  qed
  show ?thesis
    using less [of a b] less [of b a] assms by (metis less_asym neqE)
qed

lemma civil_from_days_valid:
  assumes "civil_from_days days = (y, m, d)"
  shows "valid_date y m d"
proof -
  obtain z n where B: "days = march_start z + n" "0 \<le> n"
      "n < march_start (z + 1) - march_start z" "civil_from_days days = march_civil z n"
    by (rule civil_from_days_march)
  define mi where "mi = (5 * n + 2) div 153"
  note mi = month_index_bounds [OF B(2) march_days_le [OF B(3)], folded mi_def]
  have out: "y = z + (if mi < 10 then 0 else 1)" "m = (if mi < 10 then mi + 3 else mi - 9)"
    "d = n - (153 * mi + 2) div 5 + 1"
    using assms B(4) by (simp_all add: march_civil_def mi_def [symmetric] Let_def)
  have range: "153 * mi \<le> 5 * n + 2" "5 * n + 2 < 153 * mi + 153"
    by (auto simp: mi_def)
  have "d \<le> days_in_month y m"
    by (rule month_cases [of "mi + 1"])
       (use mi(1,2) out range B(3) in \<open>auto simp: days_in_month_def march_year_length split: if_splits\<close>)
  then show ?thesis
    using civil_from_days_bounds [OF assms] by (simp add: valid_date_def)
qed

lemma civil_days_range:
  assumes "valid_date y m d" "0 \<le> y" "y < 10000"
  shows "0 \<le> days_from_civil y m d \<longleftrightarrow> 1970 \<le> y" and "days_from_civil y m d \<le> 2932896"
proof -
  define z where "z = (if m \<le> 2 then y - 1 else y)"
  define n where "n = (153 * ((m + 9) mod 12) + 2) div 5 + d - 1"
  note A = march_civil_of_date(1,2) [OF assms(1), folded z_def, folded n_def]
  have D: "days_from_civil y m d = march_start z + n"
    by (simp add: days_from_civil_march z_def n_def)
  have m: "1 \<le> m" "m \<le> 12" and d: "1 \<le> d" "d \<le> 31"
    using assms(1) by (auto simp: valid_date_def days_in_month_def split: if_splits)
  have n: "m \<le> 2 \<longrightarrow> 306 \<le> n" "\<not> m \<le> 2 \<longrightarrow> n \<le> 305"
    by (rule month_cases [OF m]; use d in \<open>simp add: n_def\<close>)+
  have k: "march_start 1969 = - 306" "march_start 9999 = 2932591" by (simp_all add: march_start_def)
  show "0 \<le> days_from_civil y m d \<longleftrightarrow> 1970 \<le> y"
  proof (cases "1970 \<le> y")
    case True
    then have "z = 1969 \<and> m \<le> 2 \<or> 1970 \<le> z" by (auto simp: z_def)
    then show ?thesis
      using True n A(1) k march_start_mono [of 1969 z] unfolding D by auto
  next
    case False
    then have "z = 1969 \<and> \<not> m \<le> 2 \<or> z + 1 \<le> 1969" by (auto simp: z_def)
    then show ?thesis
      using False n A k march_start_mono [of "z + 1" 1969] unfolding D by auto
  qed
  have "z = 9999 \<and> \<not> m \<le> 2 \<or> z + 1 \<le> 9999" using assms(3) by (auto simp: z_def)
  then show "days_from_civil y m d \<le> 2932896"
    using n A k march_start_mono [of "z + 1" 9999] unfolding D by auto
qed

lemma civil_text_inject:
  assumes "0 \<le> y" "y < 10000" "two_digits mo" "two_digits d" "two_digits h" "two_digits mi"
    "two_digits sec" "0 \<le> ms" "ms < 1000"
    and "0 \<le> y'" "y' < 10000" "two_digits mo'" "two_digits d'" "two_digits h'" "two_digits mi'"
    "two_digits sec'" "0 \<le> ms'" "ms' < 1000"
    and "civil_text y mo d h mi sec ms = civil_text y' mo' d' h' mi' sec' ms'"
  shows "y = y' \<and> mo = mo' \<and> d = d' \<and> h = h' \<and> mi = mi' \<and> sec = sec' \<and> ms = ms'"
  using civil_text_numbers(3-9) [OF assms(1-9)] civil_text_numbers(3-9) [OF assms(10-18)] assms(19)
  by simp

definition valid_time :: "int \<Rightarrow> int \<Rightarrow> int \<Rightarrow> bool" where
  "valid_time h mi sec \<longleftrightarrow> h < 24 \<and> mi < 60 \<and> sec < 60"

lemma parse_valid_civil:
  assumes "1970 \<le> y" "y < 10000" "valid_date y mo d" "two_digits h" "two_digits mi" "two_digits sec"
    "0 \<le> ms" "ms < 1000" "valid_time h mi sec"
  shows "timestamp_parse (civil_text y mo d h mi sec ms) = Inr (Timestamp (civil_millis y mo d h mi sec ms))"
proof -
  have t: "0 \<le> h" "h < 24" "0 \<le> mi" "mi < 60" "0 \<le> sec" "sec < 60" "0 \<le> ms" "ms < 1000"
    using assms by (auto simp: two_digits_def valid_time_def)
  note F = fields_in_day [OF t]
  have "0 \<le> days_from_civil y mo d" "days_from_civil y mo d \<le> 2932896"
    using civil_days_range [OF assms(3)] assms(1,2) by auto
  then have "in_range (Timestamp (civil_millis y mo d h mi sec ms))"
    using F(1,2) by (simp add: in_range_def civil_millis_def max_millis_def millis_per_day_def)
  from parse_to_string [OF this] show ?thesis
    by (simp add: civil_text_timestamp [OF assms(3) t])
qed

lemma parse_Inr_valid_civil:
  assumes "0 \<le> y" "y < 10000" "two_digits mo" "two_digits d" "two_digits h" "two_digits mi"
    "two_digits sec" "0 \<le> ms" "ms < 1000"
    and "timestamp_parse (civil_text y mo d h mi sec ms) = Inr t"
  shows "valid_date y mo d \<and> valid_time h mi sec \<and> 1970 \<le> y"
proof -
  have r: "in_range t" and eq: "timestamp_to_string t = civil_text y mo d h mi sec ms"
    using parse_Inr_canonical [OF assms(10)] by auto
  obtain y' m' d' where c: "civil_from_days (unix_millis t div millis_per_day) = (y', m', d')"
    by (metis prod_cases3)
  define n where "n = unix_millis t mod millis_per_day"
  have n: "0 \<le> n" "n < 86400000" by (simp_all add: n_def millis_per_day_def)
  note A = in_day_fields [OF n] civil_from_days_bounds [OF c]
  have y: "1970 \<le> y'" "y' < 10000" "0 \<le> y'" using A(14,15) timestamp_day_bounds [OF r] by auto
  have td: "two_digits m'" "two_digits d'" "two_digits (n div 3600000)"
      "two_digits (n div 60000 mod 60)" "two_digits (n div 1000 mod 60)"
    using A by (intro two_digits_le; linarith)+
  have e: "y = y' \<and> mo = m' \<and> d = d' \<and> h = n div 3600000 \<and> mi = n div 60000 mod 60 \<and>
      sec = n div 1000 mod 60 \<and> ms = n mod 1000"
    by (rule civil_text_inject [OF assms(1-9) y(3,2) td A(7,8)])
       (use eq timestamp_to_string_civil [OF c n_def [symmetric]] in simp)
  have "valid_time (n div 3600000) (n div 60000 mod 60) (n div 1000 mod 60)"
    unfolding valid_time_def using A(2,4,6) by blast
  then show ?thesis
    using civil_from_days_valid [OF c] y(1) e by metis
qed

section \<open>Properties\<close>

text \<open>Parsing accepts exactly the canonical texts: \<open>timestamp_parse\<close> returns \<open>t\<close> for a text if and only
  if \<open>t\<close> lies between 1970 and 9999 and the text is what \<open>t\<close> prints as. So printing and parsing are
  inverse to each other, and every instant has one spelling.\<close>

theorem timestamp_parse_iff:
  "timestamp_parse s = Inr t \<longleftrightarrow> in_range t \<and> timestamp_to_string t = s"
  using parse_to_string parse_Inr_canonical by blast

text \<open>The text of a timestamp sorts as the timestamp does, which is what lets the store order rows by
  the text column: for instants in range, byte order of the texts is chronological order.\<close>

theorem timestamp_text_order:
  assumes "in_range a" and "in_range b"
  shows "timestamp_to_string a < timestamp_to_string b \<longleftrightarrow> a < b"
  using assms by (rule to_string_less_iff)

lemma timestamp_text_order_witness:
  "timestamp_to_string (Timestamp 951782400000) < timestamp_to_string (Timestamp 4107542399999)"
  using timestamp_text_order [of "Timestamp 951782400000" "Timestamp 4107542399999"]
  by (simp add: in_range_def max_millis_def less_timestamp_def)

text \<open>A text of the canonical shape, with any digits in its fields, parses exactly when its fields
  name a real Gregorian date from 1970 on and a real time of day, and then to the millisecond the
  calendar gives it; leap days exist in leap years only, and every other text is an error that
  carries the text.\<close>

theorem timestamp_parse_civil:
  assumes "0 \<le> y" "y < 10000" "two_digits mo" "two_digits d" "two_digits h" "two_digits mi"
    "two_digits sec" "0 \<le> ms" "ms < 1000"
  shows "timestamp_parse (civil_text y mo d h mi sec ms) =
    (if valid_date y mo d \<and> valid_time h mi sec \<and> 1970 \<le> y
     then Inr (Timestamp (civil_millis y mo d h mi sec ms))
     else Inl (Timestamp_Error (civil_text y mo d h mi sec ms)))"
proof (cases "valid_date y mo d \<and> valid_time h mi sec \<and> 1970 \<le> y")
  case True
  then show ?thesis using parse_valid_civil assms by simp
next
  case False
  have "timestamp_parse s = Inr t \<or> timestamp_parse s = Inl (Timestamp_Error s)"
    if "\<And>t'. timestamp_parse s = Inr t' \<Longrightarrow> t' = t" for s t
    using that
    by (auto simp: timestamp_parse_def Let_def split: if_splits option.splits sum.splits)
  then show ?thesis
    using False parse_Inr_valid_civil [OF assms] by metis
qed

lemma timestamp_parse_civil_witness:
  "timestamp_parse (civil_text 2100 2 29 0 0 0 0) = Inl (Timestamp_Error (civil_text 2100 2 29 0 0 0 0)) \<and>
   timestamp_parse (civil_text 2000 2 29 23 59 59 7) = Inr (Timestamp 951868799007)"
  using timestamp_parse_civil [of 2100 2 29 0 0 0 0] timestamp_parse_civil [of 2000 2 29 23 59 59 7]
  by (simp add: two_digits_def valid_date_def valid_time_def days_in_month_def is_leap_def
      civil_millis_def days_from_civil_def millis_per_day_def)

end
