(* ===== verification/Records.thy ===== *)
theory Records
  imports Floats Closed_Enums Identifiers Timestamps
begin

text \<open>
  The records of the domain layer (\<open>domain/*.rs\<close>): projects, conversations, DAG nodes and edges,
  runs, events, context members, the Jev contract, the inference IR and the inference response.
  Field names carry a short prefix per record, because Isabelle's record fields share one namespace.
  The \<open>schema\<close> fields hold constants and are left out.

  JSON values are a datatype; an object is an association list with its keys in order, as
  \<open>serde_json::Map\<close> keeps them.
\<close>

section \<open>JSON\<close>

datatype json =
    JNull
  | JBool bool
  | JInt int
  | JFloat f64
  | JStr string
  | JArr "json list"
  | JObj "(string \<times> json) list"

type_synonym payload = "(string \<times> json) list"

text \<open>\<open>Value::get(key)\<close>, \<open>as_str\<close>, \<open>as_array\<close>.\<close>

fun json_get :: "string \<Rightarrow> json \<Rightarrow> json option" where
  "json_get k (JObj m) = map_of m k"
| "json_get k _ = None"

fun json_as_str :: "json \<Rightarrow> string option" where
  "json_as_str (JStr s) = Some s"
| "json_as_str _ = None"

fun json_as_array :: "json \<Rightarrow> json list option" where
  "json_as_array (JArr xs) = Some xs"
| "json_as_array _ = None"

definition payload_str :: "string \<Rightarrow> payload \<Rightarrow> string option" where
  "payload_str k p = Option.bind (map_of p k) json_as_str"

section \<open>Durable records\<close>

record project =
  pr_id :: project_id
  pr_name :: string
  pr_created_at :: timestamp

record conversation =
  cv_id :: conversation_id
  cv_project :: project_id
  cv_title :: string
  cv_created_at :: timestamp
  cv_updated_at :: timestamp
  cv_archived_at :: "timestamp option"

record dag_node =
  nd_id :: node_id
  nd_type :: node_type
  nd_payload :: payload
  nd_created_at :: timestamp
  nd_updated_at :: timestamp

record dag_edge =
  ed_id :: edge_id
  ed_from :: node_id
  ed_to :: node_id
  ed_type :: edge_type
  ed_created_at :: timestamp

record run_config =
  rc_provider :: provider_id
  rc_model :: model_id
  rc_prompt :: string

record run =
  rn_id :: run_id
  rn_project :: project_id
  rn_conversation :: conversation_id
  rn_provider :: provider_id
  rn_model :: model_id
  rn_prompt :: string
  rn_status :: run_status
  rn_started_at :: timestamp
  rn_completed_at :: "timestamp option"
  rn_error :: "error_code option"

record context_member =
  cm_run :: run_id
  cm_node :: node_id
  cm_classification :: classification
  cm_ordering :: nat
  cm_source :: context_source

text \<open>\<open>Run::config\<close>.\<close>

definition run_config_of :: "run \<Rightarrow> run_config" where
  "run_config_of r = \<lparr>rc_provider = rn_provider r, rc_model = rn_model r, rc_prompt = rn_prompt r\<rparr>"

section \<open>Conversation turns\<close>

record turn =
  tn_role :: role
  tn_text :: string

definition user_turn :: "string \<Rightarrow> turn" where
  "user_turn s = \<lparr>tn_role = User, tn_text = s\<rparr>"

definition turn_to_payload :: "turn \<Rightarrow> payload" where
  "turn_to_payload t = [(''role'', JStr (role_str (tn_role t))), (''text'', JStr (tn_text t))]"

definition turn_from_payload :: "payload \<Rightarrow> turn option" where
  "turn_from_payload p =
     (case (payload_str ''role'' p, payload_str ''text'' p) of
        (Some r, Some s) \<Rightarrow>
          (case role_parse r of Inr w \<Rightarrow> Some \<lparr>tn_role = w, tn_text = s\<rparr> | Inl _ \<Rightarrow> None)
      | _ \<Rightarrow> None)"

lemma turn_round_trip [simp]: "turn_from_payload (turn_to_payload t) = Some t"
  by (simp add: turn_from_payload_def turn_to_payload_def payload_str_def role_parse_def
      role.from_name_as_str)

section \<open>The Jev contract\<close>

record jev_candidate =
  jc_node :: node_id
  jc_type :: node_type
  jc_payload :: payload
  jc_in_context :: bool

record jev_edge =
  je_from :: node_id
  je_to :: node_id
  je_type :: edge_type

record jev_tool =
  jt_name :: string
  jt_description :: string

record jev_request =
  jr_message :: string
  jr_candidates :: "jev_candidate list"
  jr_edges :: "jev_edge list"
  jr_tools :: "jev_tool list"

record node_classification =
  nc_node :: node_id
  nc_classification :: classification

record tool_classification =
  tc_name :: string
  tc_classification :: classification

record context_classification =
  cc_nodes :: "node_classification list"
  cc_tools :: "tool_classification list"

section \<open>The inference response\<close>

datatype emission =
    Node_Emission emission_ref node_type payload
  | Edge_Emission endpoint endpoint edge_type

record tool_call =
  tl_name :: string
  tl_arguments :: payload

record inference_response =
  re_prose :: string
  re_emissions :: "emission list"
  re_tool_calls :: "tool_call list"
  re_metadata :: "payload option"

section \<open>The inference IR\<close>

record ir_relation =
  il_type :: edge_type
  il_to :: node_id

record ir_context_item =
  ic_node :: node_id
  ic_type :: node_type
  ic_payload :: payload
  ic_relations :: "ir_relation list"

record ir_event =
  ie_run :: run_id
  ie_type :: ir_event_type
  ie_request :: "string option"
  ie_error :: "error_code option"
  ie_message :: "string option"
  ie_prose :: "string option"

record ir_tool =
  it_name :: string
  it_description :: string
  it_schema :: payload

record ir_tool_result =
  ir_call :: string
  ir_name :: string
  ir_arguments :: payload
  ir_status :: ir_tool_status
  ir_output :: "json option"
  ir_reason :: "string option"

record ir_recalled_turn =
  rt_run :: run_id
  rt_chat :: string
  rt_text :: string

record ir_finding =
  if_rule :: string
  if_text :: string
  if_file :: string
  if_function :: string
  if_line :: nat
  if_probability :: f64

record ir_review =
  iv_round :: nat
  iv_max_rounds :: nat
  iv_findings :: "ir_finding list"

record ir_task =
  ik_node :: node_id
  ik_message :: string

record inference_ir =
  ii_prompt :: string
  ii_task :: ir_task
  ii_context :: "ir_context_item list"
  ii_recent :: "ir_event list"
  ii_tools :: "ir_tool list"
  ii_results :: "ir_tool_result list"
  ii_recalled :: "ir_recalled_turn list"
  ii_review :: "ir_review option"

text \<open>\<open>tool_output_text\<close>, given serde's text of a JSON value.\<close>

definition tool_output_text :: "(json \<Rightarrow> string) \<Rightarrow> json \<Rightarrow> string" where
  "tool_output_text json_text output =
     (let parts = List.map_filter (\<lambda>part. Option.bind (json_get ''text'' part) json_as_str)
                    (case Option.bind (json_get ''content'' output) json_as_array of
                       Some xs \<Rightarrow> xs | None \<Rightarrow> [])
      in if parts = [] then json_text output else join ''\<newline>'' parts)"

section \<open>Events\<close>

datatype event_data =
    Run_Started provider_id model_id string
  | Message_Recorded node_id string
  | Context_Carried "run_id option" "node_id list"
  | Jev_Requested string jev_request
  | Jev_Classified context_classification
  | Jev_Rejected string string
  | Jev_Fallback string string
  | Context_Expanded f64
  | Context_Added node_id
  | Context_Removed node_id
  | Ir_Compiled inference_ir
  | Inference_Started provider_id model_id
  | Inference_Delta string
  | Inference_Completed string
  | Tool_Requested string string payload
  | Tool_Decided string bool tool_decider "string option"
  | Tool_Finished string json bool
  | Review_Completed nat nat "ir_finding list" "string option"
  | Response_Validated inference_response
  | Response_Rejected string
  | Dag_Node_Created node_id node_type emission_ref
  | Dag_Edge_Created edge_id node_id node_id edge_type
  | Run_Completed
  | Run_Failed error_code string

text \<open>The \<open>type\<close> of an event, as \<open>EventData::to_parts\<close> splits it off.\<close>

fun event_type :: "event_data \<Rightarrow> string" where
  "event_type (Run_Started _ _ _) = ''run.started''"
| "event_type (Message_Recorded _ _) = ''message.recorded''"
| "event_type (Context_Carried _ _) = ''context.carried''"
| "event_type (Jev_Requested _ _) = ''jev.requested''"
| "event_type (Jev_Classified _) = ''jev.classified''"
| "event_type (Jev_Rejected _ _) = ''jev.rejected''"
| "event_type (Jev_Fallback _ _) = ''jev.fallback''"
| "event_type (Context_Expanded _) = ''context.expanded''"
| "event_type (Context_Added _) = ''context.added''"
| "event_type (Context_Removed _) = ''context.removed''"
| "event_type (Ir_Compiled _) = ''ir.compiled''"
| "event_type (Inference_Started _ _) = ''inference.started''"
| "event_type (Inference_Delta _) = ''inference.delta''"
| "event_type (Inference_Completed _) = ''inference.completed''"
| "event_type (Tool_Requested _ _ _) = ''tool.requested''"
| "event_type (Tool_Decided _ _ _ _) = ''tool.decided''"
| "event_type (Tool_Finished _ _ _) = ''tool.completed''"
| "event_type (Review_Completed _ _ _ _) = ''review.completed''"
| "event_type (Response_Validated _) = ''response.validated''"
| "event_type (Response_Rejected _) = ''response.rejected''"
| "event_type (Dag_Node_Created _ _ _) = ''dag.node_created''"
| "event_type (Dag_Edge_Created _ _ _ _) = ''dag.edge_created''"
| "event_type Run_Completed = ''run.completed''"
| "event_type (Run_Failed _ _) = ''run.failed''"

record event =
  ev_id :: event_id
  ev_run :: run_id
  ev_sequence :: nat
  ev_data :: event_data
  ev_created_at :: timestamp

end
