(* ===== verification/Contracts.thy ===== *)
theory Contracts
  imports Records
begin

text \<open>
  \<open>contracts.rs\<close>: the machine contracts and fail-closed parsing. JSON reading and writing (\<open>serde_json\<close>),
  the derived (de)serializers and the JSON Schema validator are third-party code: they are the fields
  of a \<open>codec\<close>, which every definition that parses or prints takes as an argument. What is modelled is
  the order of the checks and what each failure becomes.
\<close>

section \<open>Third-party codecs\<close>

datatype contract =
    Dag_Node_Contract
  | Jev_Request_Contract
  | Jev_Context_Contract
  | Inference_Ir_Contract
  | Inference_Response_Contract

text \<open>
  \<open>json_read\<close> is \<open>serde_json::from_str\<close>, \<open>json_text\<close> is \<open>Value::to_string\<close>; \<open>schema_errors\<close> lists the
  instance path and message of each violation that \<open>jsonschema\<close> reports for the embedded schema of a
  contract. \<open>read_...\<close> and \<open>text_of_...\<close> are the derived \<open>Deserialize\<close> and \<open>Serialize\<close> of a type.
\<close>

record codec =
  json_read :: "string \<Rightarrow> string + json"
  json_text :: "json \<Rightarrow> string"
  schema_errors :: "contract \<Rightarrow> json \<Rightarrow> (string \<times> string) list"
  read_classification :: "json \<Rightarrow> string + context_classification"
  text_of_classification :: "context_classification \<Rightarrow> string"
  read_response :: "json \<Rightarrow> string + inference_response"
  text_of_response :: "inference_response \<Rightarrow> string"
  value_of_ir :: "inference_ir \<Rightarrow> json"
  text_of_ir :: "inference_ir \<Rightarrow> string"

section \<open>Contracts\<close>

text \<open>\<open>Contract::schema_id\<close>: the \<open>$id\<close> of the embedded schemas.\<close>

fun contract_schema_id :: "contract \<Rightarrow> string" where
  "contract_schema_id Dag_Node_Contract = ''kiss://schemas/dag/v1''"
| "contract_schema_id Jev_Request_Contract = ''kiss://schemas/jev-request/v1''"
| "contract_schema_id Jev_Context_Contract = ''kiss://schemas/jev-context/v1''"
| "contract_schema_id Inference_Ir_Contract = ''kiss://schemas/inference-ir/v1''"
| "contract_schema_id Inference_Response_Contract = ''kiss://schemas/inference-response/v1''"

datatype contract_violation = Contract_Violation contract "string list"

datatype contract_error = Not_Json contract string | Violation contract_violation

fun contract_violation_str :: "contract_violation \<Rightarrow> string" where
  "contract_violation_str (Contract_Violation c errors) =
     ''document violates '' @ contract_schema_id c @ '': '' @ join ''; '' errors"

fun contract_error_str :: "contract_error \<Rightarrow> string" where
  "contract_error_str (Not_Json c reason) =
     ''output for '' @ contract_schema_id c @ '' is not JSON: '' @ reason"
| "contract_error_str (Violation v) = contract_violation_str v"

definition contract_validate :: "codec \<Rightarrow> contract \<Rightarrow> json \<Rightarrow> contract_violation + unit" where
  "contract_validate cx c document =
     (let errors = map (\<lambda>(path, message).
            ''at '' @ (if path = [] then ''/'' else path) @ '': '' @ message) (schema_errors cx c document)
      in if errors = [] then Inr () else Inl (Contract_Violation c errors))"

definition contract_parse ::
  "codec \<Rightarrow> contract \<Rightarrow> (json \<Rightarrow> string + 'a) \<Rightarrow> string \<Rightarrow> contract_error + 'a" where
  "contract_parse cx c read raw =
     (case json_read cx raw of
        Inl reason \<Rightarrow> Inl (Not_Json c reason)
      | Inr document \<Rightarrow>
          (case contract_validate cx c document of
             Inl v \<Rightarrow> Inl (Violation v)
           | Inr _ \<Rightarrow>
               (case read document of
                  Inl e \<Rightarrow> Inl (Violation (Contract_Violation c [''at /: '' @ e]))
                | Inr a \<Rightarrow> Inr a)))"

lemma contract_validate_Inr [simp]: "contract_validate cx c d = Inr x \<longleftrightarrow> schema_errors cx c d = []"
  by (simp add: contract_validate_def)

lemma contract_parse_Inr:
  "contract_parse cx c read raw = Inr a \<longleftrightarrow>
     (\<exists>d. json_read cx raw = Inr d \<and> schema_errors cx c d = [] \<and> read d = Inr a)"
  by (auto simp: contract_parse_def contract_validate_def split: sum.splits)

end
