(* ===== verification/Store_State.thy ===== *)
theory Store_State
  imports Records
begin

text \<open>
  \<open>store.rs\<close>: the SQLite database as a record of tables, the store around it, its errors and its
  transactions.

  A table is the list of its rows in insertion order. A row of \<open>dag_nodes\<close>, \<open>dag_edges\<close> and
  \<open>run_defaults\<close> carries the columns that its Rust record leaves out. An \<open>INSERT\<close> fails with the first
  constraint of \<open>migrations/*.sql\<close> that its row breaks (\<open>..._violation\<close>); a failed statement changes
  nothing. Values are stored typed: the text and JSON columns of \<open>store/sql.rs\<close> are exact encodings
  (properties of \<open>Timestamps\<close>, \<open>Closed_Enums\<close> and \<open>Identifiers\<close> show it for those types), and the order
  of timestamp texts is the order of timestamps. Integers that SQLite keeps in 64 bits and Rust reads
  as \<open>u32\<close> are \<open>nat\<close>. I/O failures of SQLite and the busy timeout are not modelled.

  The store's effects (\<open>'a tx\<close>) run in a state that also holds the clock, the ID generator and what the
  event listener has observed. A panic is the error \<open>Panic\<close>: it unwinds through the transaction, which
  rolls back.
\<close>

section \<open>Tables\<close>

record db =
  t_projects :: "project list"
  t_conversations :: "conversation list"
  t_nodes :: "(project_id \<times> dag_node) list"
  t_edges :: "(project_id \<times> dag_edge) list"
  t_runs :: "run list"
  t_events :: "event list"
  t_context :: "context_member list"
  t_defaults :: "(project_id \<times> run_config \<times> timestamp) list"

definition empty_db :: db where
  "empty_db = \<lparr>t_projects = [], t_conversations = [], t_nodes = [], t_edges = [], t_runs = [],
     t_events = [], t_context = [], t_defaults = []\<rparr>"

datatype dag_violation =
    Unknown_Node node_id
  | Self_Loop node_id
  | Duplicate_Edge node_id node_id edge_type
  | Cycle node_id node_id edge_type

text \<open>The constraint a statement broke, with its table.\<close>

datatype constraint = Primary_Key string | Unique_Key string | Foreign_Key string | Check_Failed string

datatype store_error =
    Schema_Too_New nat nat
  | Not_Found string string
  | Run_In_Progress run_id
  | Run_Finished run_id run_status
  | Invalid string
  | Duplicate_Context_Member node_id
  | Dag dag_violation
  | Sqlite constraint
  | Panic string

text \<open>The \<open>Display\<close> texts of the errors; the text of an SQLite error is SQLite's own.\<close>

definition edge_text :: "node_id \<Rightarrow> node_id \<Rightarrow> edge_type \<Rightarrow> string" where
  "edge_text from to ty =
     ''edge `'' @ ident_str from @ '' '' @ edge_type_str ty @ '' '' @ ident_str to @ ''`''"

fun dag_violation_str :: "dag_violation \<Rightarrow> string" where
  "dag_violation_str (Unknown_Node n) =
     ''node `'' @ ident_str n @ ''` does not exist in this project''"
| "dag_violation_str (Self_Loop n) =
     ''an edge cannot connect node `'' @ ident_str n @ ''` to itself''"
| "dag_violation_str (Duplicate_Edge from to ty) = edge_text from to ty @ '' already exists''"
| "dag_violation_str (Cycle from to ty) = edge_text from to ty @ '' would create a cycle''"

fun store_error_str :: "(constraint \<Rightarrow> string) \<Rightarrow> store_error \<Rightarrow> string" where
  "store_error_str sqlite (Schema_Too_New found supported) =
     ''database schema version '' @ show_nat found @
     '' is newer than this DAGOS build supports ('' @ show_nat supported @ '')''"
| "store_error_str sqlite (Not_Found kind i) = kind @ '' `'' @ i @ ''` not found''"
| "store_error_str sqlite (Run_In_Progress r) =
     ''run `'' @ ident_str r @ ''` is still running in this project''"
| "store_error_str sqlite (Run_Finished r st) =
     ''run `'' @ ident_str r @ ''` already finished with status `'' @ run_status_str st @ ''`''"
| "store_error_str sqlite (Invalid reason) = reason"
| "store_error_str sqlite (Duplicate_Context_Member n) =
     ''node `'' @ ident_str n @ ''` appears more than once in the active context''"
| "store_error_str sqlite (Dag v) = dag_violation_str v"
| "store_error_str sqlite (Sqlite c) = sqlite c"
| "store_error_str sqlite (Panic p) = p"

subsection \<open>Lookups that constraints refer to\<close>

definition project_row :: "db \<Rightarrow> project_id \<Rightarrow> project option" where
  "project_row d i = find (\<lambda>p. pr_id p = i) (t_projects d)"

definition conversation_row :: "db \<Rightarrow> conversation_id \<Rightarrow> conversation option" where
  "conversation_row d i = find (\<lambda>c. cv_id c = i) (t_conversations d)"

definition node_row :: "db \<Rightarrow> node_id \<Rightarrow> (project_id \<times> dag_node) option" where
  "node_row d i = find (\<lambda>row. nd_id (snd row) = i) (t_nodes d)"

definition edge_row :: "db \<Rightarrow> edge_id \<Rightarrow> (project_id \<times> dag_edge) option" where
  "edge_row d i = find (\<lambda>row. ed_id (snd row) = i) (t_edges d)"

definition run_row :: "db \<Rightarrow> run_id \<Rightarrow> run option" where
  "run_row d i = find (\<lambda>r. rn_id r = i) (t_runs d)"

definition node_in_project :: "db \<Rightarrow> project_id \<Rightarrow> node_id \<Rightarrow> bool" where
  "node_in_project d p i \<longleftrightarrow> (\<exists>row \<in> set (t_nodes d). fst row = p \<and> nd_id (snd row) = i)"

definition running_in :: "db \<Rightarrow> project_id \<Rightarrow> run option" where
  "running_in d p = find (\<lambda>r. rn_project r = p \<and> rn_status r = Running) (t_runs d)"

text \<open>SQL's \<open>length(x) > 0\<close>: the text does not start with its terminator.\<close>

definition sql_nonempty :: "string \<Rightarrow> bool" where
  "sql_nonempty s \<longleftrightarrow> s \<noteq> [] \<and> hd s \<noteq> CHR 0x00"

subsection \<open>Constraints of each table\<close>

text \<open>\<open>violated [(b, c), ...]\<close>: the first constraint whose condition does not hold.\<close>

definition violated :: "(bool \<times> constraint) list \<Rightarrow> constraint option" where
  "violated checks = map_option snd (find (\<lambda>(holds, c). \<not> holds) checks)"

lemma violated_simps [simp]:
  "violated [] = None"
  "violated ((b, c) # checks) = (if b then violated checks else Some c)"
  by (auto simp: violated_def)

definition project_violation :: "project \<Rightarrow> db \<Rightarrow> constraint option" where
  "project_violation p d = violated
     [(pr_id p \<notin> pr_id ` set (t_projects d), Primary_Key ''projects''),
      (sql_nonempty (pr_name p), Check_Failed ''projects'')]"

definition conversation_violation :: "conversation \<Rightarrow> db \<Rightarrow> constraint option" where
  "conversation_violation c d = violated
     [(cv_id c \<notin> cv_id ` set (t_conversations d), Primary_Key ''conversations''),
      (sql_nonempty (cv_title c), Check_Failed ''conversations''),
      (project_row d (cv_project c) \<noteq> None, Foreign_Key ''conversations'')]"

definition node_violation :: "project_id \<Rightarrow> dag_node \<Rightarrow> db \<Rightarrow> constraint option" where
  "node_violation p n d = violated
     [(nd_id n \<notin> (nd_id \<circ> snd) ` set (t_nodes d), Primary_Key ''dag_nodes''),
      (project_row d p \<noteq> None, Foreign_Key ''dag_nodes'')]"

definition edge_key :: "dag_edge \<Rightarrow> node_id \<times> node_id \<times> edge_type" where
  "edge_key e = (ed_from e, ed_to e, ed_type e)"

definition edge_violation :: "project_id \<Rightarrow> dag_edge \<Rightarrow> db \<Rightarrow> constraint option" where
  "edge_violation p e d = violated
     [(ed_id e \<notin> (ed_id \<circ> snd) ` set (t_edges d), Primary_Key ''dag_edges''),
      (ed_from e \<noteq> ed_to e, Check_Failed ''dag_edges''),
      (edge_key e \<notin> (edge_key \<circ> snd) ` set (t_edges d), Unique_Key ''dag_edges''),
      (project_row d p \<noteq> None, Foreign_Key ''dag_edges''),
      (node_in_project d p (ed_from e) \<and> node_in_project d p (ed_to e), Foreign_Key ''dag_edges'')]"

definition run_checks :: "run \<Rightarrow> bool" where
  "run_checks r \<longleftrightarrow> sql_nonempty (provider_str (rn_provider r)) \<and>
     sql_nonempty (model_str (rn_model r)) \<and>
     (rn_status r = Running \<longleftrightarrow> rn_completed_at r = None) \<and>
     (rn_status r = Failed \<longleftrightarrow> rn_error r \<noteq> None)"

definition run_violation :: "run \<Rightarrow> db \<Rightarrow> constraint option" where
  "run_violation r d = violated
     [(rn_id r \<notin> rn_id ` set (t_runs d), Primary_Key ''runs''),
      (run_checks r, Check_Failed ''runs''),
      (rn_status r = Running \<longrightarrow> running_in d (rn_project r) = None, Unique_Key ''runs''),
      (project_row d (rn_project r) \<noteq> None, Foreign_Key ''runs''),
      (conversation_row d (rn_conversation r) \<noteq> None, Foreign_Key ''runs'')]"

definition event_violation :: "event \<Rightarrow> db \<Rightarrow> constraint option" where
  "event_violation e d = violated
     [(ev_id e \<notin> ev_id ` set (t_events d), Primary_Key ''events''),
      (1 \<le> ev_sequence e, Check_Failed ''events''),
      ((ev_run e, ev_sequence e) \<notin> (\<lambda>e. (ev_run e, ev_sequence e)) ` set (t_events d),
       Unique_Key ''events''),
      (run_row d (ev_run e) \<noteq> None, Foreign_Key ''events'')]"

definition member_violation :: "context_member \<Rightarrow> db \<Rightarrow> constraint option" where
  "member_violation m d = violated
     [((cm_run m, cm_node m) \<notin> (\<lambda>m. (cm_run m, cm_node m)) ` set (t_context d),
       Primary_Key ''active_context''),
      (cm_classification m = Active, Check_Failed ''active_context''),
      ((cm_run m, cm_ordering m) \<notin> (\<lambda>m. (cm_run m, cm_ordering m)) ` set (t_context d),
       Unique_Key ''active_context''),
      (run_row d (cm_run m) \<noteq> None \<and> node_row d (cm_node m) \<noteq> None,
       Foreign_Key ''active_context'')]"

definition defaults_violation :: "project_id \<Rightarrow> run_config \<Rightarrow> db \<Rightarrow> constraint option" where
  "defaults_violation p c d = violated
     [(sql_nonempty (provider_str (rc_provider c)) \<and> sql_nonempty (model_str (rc_model c)),
       Check_Failed ''run_defaults''),
      (project_row d p \<noteq> None, Foreign_Key ''run_defaults'')]"

section \<open>The store\<close>

record store =
  conn :: db
  clock :: "nat \<Rightarrow> timestamp"
  ticks :: nat
  ids :: id_source
  id_log :: "string list"
  listening :: bool
  appended :: "event list option"
  observed :: "event list list"

type_synonym 'a tx = "(store, store_error, 'a) eff"

text \<open>\<open>Tx::now\<close> and \<open>$name::generate(self.ids)\<close>. Neither is undone by a rollback.\<close>

definition now :: "timestamp tx" where
  "now s = (Inr (clock s (ticks s)), s\<lparr>ticks := Suc (ticks s)\<rparr>)"

definition fresh_id :: "string \<Rightarrow> 'k ident tx" where
  "fresh_id prefix s =
     (case generate_id (ids s) (id_log s) prefix of
        Some i \<Rightarrow> (Inr i, s\<lparr>id_log := id_log s @ [prefix]\<rparr>)
      | None \<Rightarrow> (Inl (Panic ''IdGenerator returned an invalid suffix''),
                 s\<lparr>id_log := id_log s @ [prefix]\<rparr>))"

text \<open>A query: the value of a function of the database, or an error if there is none.\<close>

definition query :: "(db \<Rightarrow> 'a) \<Rightarrow> ('a \<Rightarrow> 'b tx) \<Rightarrow> 'b tx" where
  "query f g s = g (f (conn s)) s"

definition require :: "store_error \<Rightarrow> (db \<Rightarrow> 'a option) \<Rightarrow> 'a tx" where
  "require e f s = (case f (conn s) of None \<Rightarrow> (Inl e, s) | Some a \<Rightarrow> (Inr a, s))"

text \<open>A statement that writes: it fails with the constraint it violates or changes the tables.\<close>

definition execute :: "(db \<Rightarrow> constraint option) \<Rightarrow> (db \<Rightarrow> db) \<Rightarrow> unit tx" where
  "execute violation change s =
     (case violation (conn s) of
        Some c \<Rightarrow> (Inl (Sqlite c), s)
      | None \<Rightarrow> (Inr (), s\<lparr>conn := change (conn s)\<rparr>))"

text \<open>An effect run for its effect only.\<close>

definition discard :: "'a tx \<Rightarrow> unit tx" where
  "discard m = andthen m (\<lambda>_. ret ())"

text \<open>\<open>Store::transaction\<close>.\<close>

definition transaction :: "(store, 'e, 'a) eff \<Rightarrow> (store, 'e, 'a) eff" where
  "transaction work s =
     (case work (s\<lparr>appended := (if listening s then Some [] else None)\<rparr>) of
        (Inl e, t) \<Rightarrow> (Inl e, t\<lparr>conn := conn s, appended := None\<rparr>)
      | (Inr a, t) \<Rightarrow>
          (let events = (case appended t of Some es \<Rightarrow> es | None \<Rightarrow> []) in
           (Inr a, t\<lparr>appended := None,
                     observed := (if listening t \<and> events \<noteq> [] then observed t @ [events]
                                  else observed t)\<rparr>)))"

text \<open>\<open>Tx::require_project\<close>.\<close>

definition require_project :: "project_id \<Rightarrow> project tx" where
  "require_project p = require (Not_Found ''project'' (ident_str p)) (\<lambda>d. project_row d p)"

section \<open>Evaluation rules\<close>

lemma now_eval: "now s = (Inr t, u) \<longleftrightarrow> t = clock s (ticks s) \<and> u = s\<lparr>ticks := Suc (ticks s)\<rparr>"
  by (auto simp: now_def)

lemma now_never_fails [simp]: "now s \<noteq> (Inl e, u)"
  by (simp add: now_def)

lemma fresh_id_Inr:
  "fresh_id prefix s = (Inr i, u) \<longleftrightarrow>
     generate_id (ids s) (id_log s) prefix = Some i \<and> u = s\<lparr>id_log := id_log s @ [prefix]\<rparr>"
  by (auto simp: fresh_id_def split: option.splits)

lemma query_Inr: "query f g s = (r, u) \<longleftrightarrow> g (f (conn s)) s = (r, u)"
  by (simp add: query_def)

lemma require_Inr: "require e f s = (Inr a, u) \<longleftrightarrow> f (conn s) = Some a \<and> u = s"
  by (auto simp: require_def split: option.splits)

lemma require_Inl: "require e f s = (Inl e', u) \<longleftrightarrow> f (conn s) = None \<and> e' = e \<and> u = s"
  by (auto simp: require_def split: option.splits)

lemma execute_Inr:
  "execute v c s = (Inr x, u) \<longleftrightarrow> v (conn s) = None \<and> u = s\<lparr>conn := c (conn s)\<rparr>"
  by (auto simp: execute_def split: option.splits)

lemma execute_Inl:
  "execute v c s = (Inl e, u) \<longleftrightarrow> (\<exists>k. v (conn s) = Some k \<and> e = Sqlite k) \<and> u = s"
  by (auto simp: execute_def split: option.splits)

lemma discard_Inr: "discard m s = (Inr x, u) \<longleftrightarrow> (\<exists>a. m s = (Inr a, u))"
  by (auto simp: discard_def andthen_Inr_iff)

lemmas tx_Inr = andthen_Inr_iff now_eval fresh_id_Inr query_Inr require_Inr execute_Inr

lemma now_conn [simp]: "conn (snd (now s)) = conn s"
  by (simp add: now_def)

lemma fresh_id_conn [simp]: "conn (snd (fresh_id p s)) = conn s"
  by (simp add: fresh_id_def split: option.splits)

section \<open>How an effect moves the database\<close>

text \<open>
  \<open>moves R m\<close>: whenever \<open>m\<close> succeeds, the database before and after is in the relation \<open>R\<close>. For a
  reflexive and transitive \<open>R\<close> it composes along the monad, and a transaction moves the database by
  \<open>R\<close> or, on an error, leaves it as it was.
\<close>

definition moves :: "(db \<Rightarrow> db \<Rightarrow> bool) \<Rightarrow> (store, 'e, 'a) eff \<Rightarrow> bool" where
  "moves R m \<longleftrightarrow> (\<forall>s a t. m s = (Inr a, t) \<longrightarrow> R (conn s) (conn t))"

lemma movesI [intro?]: "(\<And>s a t. m s = (Inr a, t) \<Longrightarrow> R (conn s) (conn t)) \<Longrightarrow> moves R m"
  by (simp add: moves_def)

lemma movesD: "moves R m \<Longrightarrow> m s = (Inr a, t) \<Longrightarrow> R (conn s) (conn t)"
  by (simp add: moves_def)

locale database_order =
  fixes R :: "db \<Rightarrow> db \<Rightarrow> bool"
  assumes refl: "R d d" and trans: "R a b \<Longrightarrow> R b c \<Longrightarrow> R a c"
begin

lemma moves_ret: "moves R (ret a)"
  by (simp add: moves_def refl)

lemma moves_throw: "moves R (throw e)"
  by (simp add: moves_def)

lemma moves_andthen: "moves R m \<Longrightarrow> (\<And>a. moves R (f a)) \<Longrightarrow> moves R (andthen m f)"
  by (fastforce simp: moves_def andthen_Inr_iff intro: trans)

lemma moves_query: "(\<And>a. moves R (g a)) \<Longrightarrow> moves R (query f g)"
  by (simp add: moves_def query_def)

lemma moves_require: "moves R (require e f)"
  by (simp add: moves_def require_Inr refl)

lemma moves_now: "moves R now"
  by (simp add: moves_def now_eval refl)

lemma moves_fresh_id: "moves R (fresh_id p)"
  by (simp add: moves_def fresh_id_Inr refl)

lemma moves_map_err: "moves R m \<Longrightarrow> moves R (map_err h m)"
  by (simp add: moves_def)

lemma moves_for_each: "(\<And>x. moves R (f x)) \<Longrightarrow> moves R (for_each xs f)"
  by (induction xs) (auto intro: moves_ret moves_andthen)

lemma moves_collect: "(\<And>x. moves R (f x)) \<Longrightarrow> moves R (collect xs f)"
  by (induction xs) (auto intro: moves_ret moves_andthen)

lemma moves_if: "moves R m \<Longrightarrow> moves R n \<Longrightarrow> moves R (if b then m else n)"
  by simp

lemma moves_option: "moves R m \<Longrightarrow> (\<And>x. moves R (f x)) \<Longrightarrow> moves R (case v of None \<Rightarrow> m | Some x \<Rightarrow> f x)"
  by (cases v) auto

lemma moves_prod: "(\<And>x y. moves R (f x y)) \<Longrightarrow> moves R (case p of (x, y) \<Rightarrow> f x y)"
  by (cases p) auto

lemmas moves_rules = moves_ret moves_throw moves_andthen moves_query moves_require moves_now
  moves_fresh_id moves_map_err moves_for_each moves_collect moves_if moves_option moves_prod

lemma transaction_moves:
  assumes "moves R work"
  shows "R (conn s) (conn (snd (transaction work s)))"
proof (cases "work (s\<lparr>appended := (if listening s then Some [] else None)\<rparr>)")
  case (Pair r t)
  show ?thesis
  proof (cases r)
    case (Inr a)
    then show ?thesis
      using movesD [OF assms, of "s\<lparr>appended := (if listening s then Some [] else None)\<rparr>" a t] Pair
      by (simp add: transaction_def Let_def)
  qed (simp add: transaction_def Pair refl)
qed

end

lemma transaction_Inl:
  "transaction work s = (Inl e, t) \<Longrightarrow> conn t = conn s \<and> observed t = observed (snd (work (s\<lparr>appended := (if listening s then Some [] else None)\<rparr>)))"
  by (auto simp: transaction_def Let_def split: prod.splits sum.splits)

end
