(* ===== verification/Dag_Store.thy ===== *)
theory Dag_Store
  imports Store_State
begin

text \<open>
  \<open>store/dag.rs\<close>: the repository of durable nodes and edges. The recursive query behind \<open>reaches\<close> is a
  worklist closure over the edge rows, \<open>reach_from\<close>, which terminates because every row is queued at
  most once; it is proved to compute the reflexive transitive closure. Edges of all projects take
  part in it, as in the query.
\<close>

section \<open>Reachability\<close>

definition edge_pairs :: "db \<Rightarrow> (node_id \<times> node_id) list" where
  "edge_pairs d = map (\<lambda>row. (ed_from (snd row), ed_to (snd row))) (t_edges d)"

definition successors :: "('a \<times> 'a) list \<Rightarrow> 'a \<Rightarrow> 'a list \<Rightarrow> 'a list" where
  "successors es x seen = remdups (map snd (filter (\<lambda>e. fst e = x \<and> snd e \<notin> set seen) es))"

lemma set_successors: "set (successors es x seen) = {y. (x, y) \<in> set es \<and> y \<notin> set seen}"
  by (force simp: successors_def)

function reach_from :: "('a \<times> 'a) list \<Rightarrow> 'a list \<Rightarrow> 'a list \<Rightarrow> 'a list" where
  "reach_from es [] seen = seen"
| "reach_from es (x # queue) seen =
     reach_from es (queue @ successors es x seen) (seen @ successors es x seen)"
  by pat_completeness auto
termination
proof (relation "measure (\<lambda>(es, queue, seen). 2 * card (snd ` set es - set seen) + length queue)",
    goal_cases)
  case (2 es x queue seen)
  let ?new = "successors es x seen"
  have "set ?new \<subseteq> snd ` set es - set seen" by (force simp: set_successors)
  moreover have "snd ` set es - set (seen @ ?new) = (snd ` set es - set seen) - set ?new" by auto
  moreover have "length ?new = card (set ?new)"
    unfolding successors_def by (rule distinct_card [symmetric]) simp
  ultimately have "card (snd ` set es - set (seen @ ?new)) + length ?new = card (snd ` set es - set seen)"
    by (simp add: card_Diff_subset card_mono)
  then show ?case by simp
qed simp

text \<open>Every node seen is either still queued or has all its successors seen.\<close>

lemma reach_from_set:
  assumes "set queue \<subseteq> set seen"
    and "\<forall>x \<in> set seen - set queue. \<forall>y. (x, y) \<in> set es \<longrightarrow> y \<in> set seen"
  shows "set (reach_from es queue seen) = (set es)\<^sup>* `` set seen"
  using assms
proof (induction es queue seen rule: reach_from.induct)
  case (1 es seen)
  have "y \<in> set seen" if "(x, y) \<in> (set es)\<^sup>*" "x \<in> set seen" for x y
    using that by (induction rule: rtrancl_induct) (use 1 in auto)
  then show ?case by auto
next
  case (2 es x queue seen)
  let ?new = "successors es x seen"
  have A: "set (reach_from es (queue @ ?new) (seen @ ?new)) = (set es)\<^sup>* `` set (seen @ ?new)"
  proof (rule "2.IH")
    show "set (queue @ ?new) \<subseteq> set (seen @ ?new)" using "2.prems"(1) by auto
    show "\<forall>z \<in> set (seen @ ?new) - set (queue @ ?new). \<forall>y. (z, y) \<in> set es \<longrightarrow> y \<in> set (seen @ ?new)"
    proof (intro ballI allI impI)
      fix z y
      assume z: "z \<in> set (seen @ ?new) - set (queue @ ?new)" and e: "(z, y) \<in> set es"
      show "y \<in> set (seen @ ?new)"
      proof (cases "z = x")
        case True
        with e show ?thesis by (simp add: set_successors)
      next
        case False
        with z have "z \<in> set seen - set (x # queue)" by auto
        then have "y \<in> set seen" by (rule "2.prems"(2) [rule_format, OF _ e])
        then show ?thesis by simp
      qed
    qed
  qed
  have B: "(set es)\<^sup>* `` set ?new \<subseteq> (set es)\<^sup>* `` set seen"
    using "2.prems"(1) by (auto simp: set_successors intro: converse_rtrancl_into_rtrancl)
  show ?case
    unfolding reach_from.simps A set_append Image_Un using B by (rule Un_absorb2)
qed

definition reaches :: "db \<Rightarrow> node_id \<Rightarrow> node_id \<Rightarrow> bool" where
  "reaches d start target \<longleftrightarrow> target \<in> set (reach_from (edge_pairs d) [start] [start])"

definition edge_rel :: "db \<Rightarrow> (node_id \<times> node_id) set" where
  "edge_rel d = set (edge_pairs d)"

lemma reaches_rtrancl: "reaches d a b \<longleftrightarrow> (a, b) \<in> (edge_rel d)\<^sup>*"
  unfolding reaches_def edge_rel_def by (subst reach_from_set) auto

section \<open>Nodes\<close>

definition add_node :: "project_id \<Rightarrow> dag_node \<Rightarrow> db \<Rightarrow> db" where
  "add_node p n d = d\<lparr>t_nodes := t_nodes d @ [(p, n)]\<rparr>"

definition insert_node :: "project_id \<Rightarrow> node_type \<Rightarrow> payload \<Rightarrow> dag_node tx" where
  "insert_node p ty payload =
     andthen (require_project p) (\<lambda>_.
     andthen now (\<lambda>t.
     andthen (fresh_id ''node'') (\<lambda>i.
       (let n = \<lparr>nd_id = i, nd_type = ty, nd_payload = payload, nd_created_at = t,
                 nd_updated_at = t\<rparr>
        in andthen (execute (node_violation p n) (add_node p n)) (\<lambda>_. ret n)))))"

definition node_of :: "db \<Rightarrow> node_id \<Rightarrow> dag_node option" where
  "node_of d i = map_option snd (node_row d i)"

definition node_order :: "dag_node \<Rightarrow> timestamp \<times> node_id" where
  "node_order n = (nd_created_at n, nd_id n)"

definition nodes_of :: "db \<Rightarrow> project_id \<Rightarrow> dag_node list" where
  "nodes_of d p = sort_key node_order (map snd (filter (\<lambda>row. fst row = p) (t_nodes d)))"

definition set_payload :: "node_id \<Rightarrow> payload \<Rightarrow> timestamp \<Rightarrow> db \<Rightarrow> db" where
  "set_payload i payload t d =
     d\<lparr>t_nodes := map (\<lambda>(p, n). (p, if nd_id n = i then n\<lparr>nd_payload := payload, nd_updated_at := t\<rparr>
                                     else n)) (t_nodes d)\<rparr>"

definition update_node_payload :: "node_id \<Rightarrow> payload \<Rightarrow> dag_node tx" where
  "update_node_payload i payload =
     andthen now (\<lambda>t.
     andthen (execute (\<lambda>_. None) (set_payload i payload t)) (\<lambda>_.
       require (Not_Found ''node'' (ident_str i)) (\<lambda>d. node_of d i)))"

section \<open>Edges\<close>

definition edge_error ::
  "db \<Rightarrow> project_id \<Rightarrow> node_id \<Rightarrow> node_id \<Rightarrow> edge_type \<Rightarrow> dag_violation option" where
  "edge_error d p from to ty =
     (if \<not> node_in_project d p from then Some (Unknown_Node from)
      else if \<not> node_in_project d p to then Some (Unknown_Node to)
      else if from = to then Some (Self_Loop from)
      else if list_ex (\<lambda>row. edge_key (snd row) = (from, to, ty)) (t_edges d)
      then Some (Duplicate_Edge from to ty)
      else if reaches d to from then Some (Cycle from to ty)
      else None)"

definition validate_edge :: "project_id \<Rightarrow> node_id \<Rightarrow> node_id \<Rightarrow> edge_type \<Rightarrow> unit tx" where
  "validate_edge p from to ty =
     query (\<lambda>d. edge_error d p from to ty)
       (\<lambda>v. case v of Some violation \<Rightarrow> throw (Dag violation) | None \<Rightarrow> ret ())"

definition add_edge :: "project_id \<Rightarrow> dag_edge \<Rightarrow> db \<Rightarrow> db" where
  "add_edge p e d = d\<lparr>t_edges := t_edges d @ [(p, e)]\<rparr>"

definition insert_edge :: "project_id \<Rightarrow> node_id \<Rightarrow> node_id \<Rightarrow> edge_type \<Rightarrow> dag_edge tx" where
  "insert_edge p from to ty =
     andthen (require_project p) (\<lambda>_.
     andthen (validate_edge p from to ty) (\<lambda>_.
     andthen (fresh_id ''edge'') (\<lambda>i.
     andthen now (\<lambda>t.
       (let e = \<lparr>ed_id = i, ed_from = from, ed_to = to, ed_type = ty, ed_created_at = t\<rparr>
        in andthen (execute (edge_violation p e) (add_edge p e)) (\<lambda>_. ret e))))))"

definition edge_of :: "db \<Rightarrow> edge_id \<Rightarrow> dag_edge option" where
  "edge_of d i = map_option snd (edge_row d i)"

definition edge_order :: "dag_edge \<Rightarrow> timestamp \<times> edge_id" where
  "edge_order e = (ed_created_at e, ed_id e)"

definition edges_of :: "db \<Rightarrow> project_id \<Rightarrow> dag_edge list" where
  "edges_of d p = sort_key edge_order (map snd (filter (\<lambda>row. fst row = p) (t_edges d)))"

section \<open>What a successful operation did\<close>

lemma validate_edge_Inr:
  "validate_edge p from to ty s = (Inr x, u) \<longleftrightarrow> edge_error (conn s) p from to ty = None \<and> u = s"
  by (auto simp: validate_edge_def query_def split: option.splits)

lemma insert_node_Inr:
  assumes "insert_node p ty payload s = (Inr n, u)"
  shows "conn u = add_node p n (conn s) \<and> node_violation p n (conn s) = None \<and>
    nd_type n = ty \<and> nd_payload n = payload \<and> project_row (conn s) p \<noteq> None \<and>
    nd_created_at n = clock s (ticks s) \<and> nd_updated_at n = clock s (ticks s)"
  using assms unfolding insert_node_def require_project_def
  by (auto simp: tx_Inr Let_def)

lemma update_node_payload_Inr:
  assumes "update_node_payload i payload s = (Inr n, u)"
  shows "conn u = set_payload i payload (clock s (ticks s)) (conn s) \<and> node_of (conn u) i = Some n"
  using assms unfolding update_node_payload_def by (auto simp: tx_Inr)

lemma insert_edge_Inr:
  assumes "insert_edge p from to ty s = (Inr e, u)"
  shows "conn u = add_edge p e (conn s) \<and> edge_violation p e (conn s) = None \<and>
    edge_error (conn s) p from to ty = None \<and> ed_from e = from \<and> ed_to e = to \<and> ed_type e = ty"
  using assms unfolding insert_edge_def require_project_def
  by (auto simp: tx_Inr Let_def validate_edge_Inr)

lemma duplicate_edge_iff:
  "list_ex (\<lambda>row. edge_key (snd row) = k) rows \<longleftrightarrow> k \<in> (edge_key \<circ> snd) ` set rows"
  by (induction rows) auto

lemma edge_error_None_iff:
  "edge_error d p from to ty = None \<longleftrightarrow>
     node_in_project d p from \<and> node_in_project d p to \<and> from \<noteq> to \<and>
     (from, to, ty) \<notin> (edge_key \<circ> snd) ` set (t_edges d) \<and> (to, from) \<notin> (edge_rel d)\<^sup>*"
  by (auto simp: edge_error_def reaches_rtrancl duplicate_edge_iff)

lemma edge_rel_add_edge [simp]:
  "edge_rel (add_edge p e d) = insert (ed_from e, ed_to e) (edge_rel d)"
  by (simp add: edge_rel_def edge_pairs_def add_edge_def)

section \<open>Properties\<close>

text \<open>The store's reachability query answers exactly whether a directed path leads from one node to
  another over the edges stored; the closure that computes it terminates on every set of rows,
  cyclic ones included.\<close>

theorem reaches_correct:
  "reaches d start target \<longleftrightarrow>
     (start, target) \<in> {(ed_from (snd row), ed_to (snd row)) | row. row \<in> set (t_edges d)}\<^sup>*"
proof -
  have "edge_rel d = {(ed_from (snd row), ed_to (snd row)) | row. row \<in> set (t_edges d)}"
    unfolding edge_rel_def edge_pairs_def by (simp only: set_map) blast
  then show ?thesis using reaches_rtrancl [of d] by simp
qed

text \<open>An edge is refused for the first rule it breaks, in the order of the code, and for nothing else:
  an endpoint outside the project, a self-loop, a duplicate, a cycle. A refused edge leaves the
  database as it was, and if none of the rules is broken the validation lets it through.\<close>

theorem validate_edge_outcome:
  "validate_edge p from to ty s =
     (if \<not> node_in_project (conn s) p from then (Inl (Dag (Unknown_Node from)), s)
      else if \<not> node_in_project (conn s) p to then (Inl (Dag (Unknown_Node to)), s)
      else if from = to then (Inl (Dag (Self_Loop from)), s)
      else if (from, to, ty) \<in> (edge_key \<circ> snd) ` set (t_edges (conn s))
      then (Inl (Dag (Duplicate_Edge from to ty)), s)
      else if (to, from) \<in> (edge_rel (conn s))\<^sup>* then (Inl (Dag (Cycle from to ty)), s)
      else (Inr (), s))"
  by (simp add: validate_edge_def query_def edge_error_def reaches_rtrancl duplicate_edge_iff)

text \<open>C8. A successful \<open>insert_edge\<close> keeps the graph acyclic and really stores the edge: the new row joins
  the named nodes with the named type, all other rows stay as they were, and the project owns both
  endpoints.\<close>

theorem insert_edge_keeps_acyclic:
  assumes "insert_edge p from to ty s = (Inr e, u)" and "acyclic (edge_rel (conn s))"
  shows "acyclic (edge_rel (conn u)) \<and> (from, to) \<in> edge_rel (conn u) \<and>
    edge_rel (conn s) \<subseteq> edge_rel (conn u) \<and> node_in_project (conn u) p from \<and>
    node_in_project (conn u) p to \<and> conn u = (conn s)\<lparr>t_edges := t_edges (conn s) @ [(p, e)]\<rparr>"
  using insert_edge_Inr [OF assms(1)] assms(2)
  by (auto simp: edge_error_None_iff acyclic_insert node_in_project_def add_edge_def edge_rel_def
      edge_pairs_def)

text \<open>A project with three nodes and one edge, for the witness.\<close>

definition dag_demo_node :: "nat \<Rightarrow> project_id \<times> dag_node" where
  "dag_demo_node k =
     (Ident ''proj_1'', \<lparr>nd_id = Ident (''node_'' @ show_nat k), nd_type = Task, nd_payload = [],
        nd_created_at = Timestamp 0, nd_updated_at = Timestamp 0\<rparr>)"

definition dag_demo :: store where
  "dag_demo =
     \<lparr>conn = empty_db\<lparr>t_projects := [\<lparr>pr_id = Ident ''proj_1'', pr_name = ''demo'', pr_created_at = Timestamp 0\<rparr>],
        t_nodes := map dag_demo_node [1, 2, 3],
        t_edges := [(Ident ''proj_1'', \<lparr>ed_id = Ident ''edge_1'', ed_from = Ident ''node_1'',
          ed_to = Ident ''node_2'', ed_type = Depends_On, ed_created_at = Timestamp 0\<rparr>)]\<rparr>,
      clock = (\<lambda>n. Timestamp (int n)), ticks = 0, ids = sequential_ids, id_log = [],
      listening = False, appended = None, observed = []\<rparr>"

lemma insert_edge_keeps_acyclic_witness:
  "acyclic (edge_rel (conn (snd
     (insert_edge (Ident ''proj_1'') (Ident ''node_2'') (Ident ''node_3'') Produces dag_demo))))"
proof -
  have "isl (fst (insert_edge (Ident ''proj_1'') (Ident ''node_2'') (Ident ''node_3'') Produces dag_demo)) = False"
    by code_simp
  then obtain e u where run:
      "insert_edge (Ident ''proj_1'') (Ident ''node_2'') (Ident ''node_3'') Produces dag_demo = (Inr e, u)"
    by (metis isl_def old.sum.exhaust prod.collapse)
  have "edge_rel (conn dag_demo) = {(Ident ''node_1'', Ident ''node_2'')}"
    by (simp add: edge_rel_def edge_pairs_def dag_demo_def)
  moreover have "acyclic {(Ident ''node_1'' :: node_id, Ident ''node_2'')}"
    by (subst acyclic_insert) (simp add: acyclic_def)
  ultimately have "acyclic (edge_rel (conn dag_demo))" by simp
  then show ?thesis using insert_edge_keeps_acyclic [OF run] unfolding run snd_conv by blast
qed

end
