(* ===== verification/Run_Store.thy ===== *)
theory Run_Store
  imports Dag_Store
begin

text \<open>
  \<open>store/projects.rs\<close>, \<open>store/conversations.rs\<close>, \<open>store/events.rs\<close>, \<open>store/runs.rs\<close> and
  \<open>store/defaults.rs\<close>: the repositories that keep projects, threads of runs and the append-only history
  of each run. Every method of \<open>Tx\<close> is one definition; a read is a function of the database, an
  operation that writes or can fail is an effect.
\<close>

section \<open>Projects\<close>

definition add_project :: "project \<Rightarrow> db \<Rightarrow> db" where
  "add_project p d = d\<lparr>t_projects := t_projects d @ [p]\<rparr>"

definition create_project :: "string \<Rightarrow> project tx" where
  "create_project name =
     andthen (fresh_id ''proj'') (\<lambda>i.
     andthen now (\<lambda>t.
       (let p = \<lparr>pr_id = i, pr_name = name, pr_created_at = t\<rparr>
        in andthen (execute (project_violation p) (add_project p)) (\<lambda>_. ret p))))"

definition set_project_name :: "project_id \<Rightarrow> string \<Rightarrow> db \<Rightarrow> db" where
  "set_project_name i name d =
     d\<lparr>t_projects := map (\<lambda>p. if pr_id p = i then p\<lparr>pr_name := name\<rparr> else p) (t_projects d)\<rparr>"

definition rename_project :: "project_id \<Rightarrow> string \<Rightarrow> project tx" where
  "rename_project i name0 =
     (let name = trim name0 in
      if name = [] then throw (Invalid ''the project name is empty'')
      else
        andthen (require_project i) (\<lambda>_.
        andthen (execute (\<lambda>d. violated [(sql_nonempty name, Check_Failed ''projects'')])
                   (set_project_name i name)) (\<lambda>_.
          require (Panic ''project exists after update'') (\<lambda>d. project_row d i))))"

definition projects_list :: "db \<Rightarrow> project list" where
  "projects_list d = sort_key (\<lambda>p. (pr_created_at p, pr_id p)) (t_projects d)"

section \<open>Conversations\<close>

definition max_title_chars :: nat where
  "max_title_chars = 80"

definition clean_title :: "string \<Rightarrow> string option" where
  "clean_title title =
     (let line = join '' '' (split_whitespace title) in
      if line = [] then None
      else
        (let short = take_chars max_title_chars line in
         Some (if max_title_chars < length (chars_of line) then trim_end short @ ellipsis
               else short)))"

definition add_conversation :: "conversation \<Rightarrow> db \<Rightarrow> db" where
  "add_conversation c d = d\<lparr>t_conversations := t_conversations d @ [c]\<rparr>"

definition update_conversation ::
  "conversation_id \<Rightarrow> (conversation \<Rightarrow> conversation) \<Rightarrow> db \<Rightarrow> db" where
  "update_conversation i f d =
     d\<lparr>t_conversations := map (\<lambda>c. if cv_id c = i then f c else c) (t_conversations d)\<rparr>"

definition create_conversation :: "project_id \<Rightarrow> string \<Rightarrow> conversation tx" where
  "create_conversation p title =
     andthen (require_project p) (\<lambda>_.
     andthen now (\<lambda>t.
     andthen (fresh_id ''conv'') (\<lambda>i.
       (let c = \<lparr>cv_id = i, cv_project = p,
                 cv_title = (case clean_title title of Some s \<Rightarrow> s | None \<Rightarrow> ''New conversation''),
                 cv_created_at = t, cv_updated_at = t, cv_archived_at = None\<rparr>
        in andthen (execute (conversation_violation c) (add_conversation c)) (\<lambda>_. ret c)))))"

definition require_conversation :: "conversation_id \<Rightarrow> conversation tx" where
  "require_conversation i =
     require (Not_Found ''conversation'' (ident_str i)) (\<lambda>d. conversation_row d i)"

text \<open>\<open>ORDER BY updated_at DESC, id DESC\<close>.\<close>

definition conversations_of :: "db \<Rightarrow> project_id \<Rightarrow> conversation list" where
  "conversations_of d p =
     rev (sort_key (\<lambda>c. (cv_updated_at c, cv_id c))
       (filter (\<lambda>c. cv_project c = p) (t_conversations d)))"

definition latest_conversation :: "db \<Rightarrow> project_id \<Rightarrow> conversation option" where
  "latest_conversation d p = find (\<lambda>c. cv_archived_at c = None) (conversations_of d p)"

definition rename_conversation :: "conversation_id \<Rightarrow> string \<Rightarrow> conversation tx" where
  "rename_conversation i title0 =
     (case clean_title title0 of
        None \<Rightarrow> throw (Invalid ''the title is empty'')
      | Some title \<Rightarrow>
          andthen (require_conversation i) (\<lambda>_.
          andthen (execute (\<lambda>d. violated [(sql_nonempty title, Check_Failed ''conversations'')])
                     (update_conversation i (\<lambda>c. c\<lparr>cv_title := title\<rparr>))) (\<lambda>_.
            require_conversation i)))"

definition set_conversation_archived :: "conversation_id \<Rightarrow> bool \<Rightarrow> conversation tx" where
  "set_conversation_archived i archived =
     andthen (require_conversation i) (\<lambda>current.
     andthen (case (archived, cv_archived_at current) of
                (True, Some t) \<Rightarrow> ret (Some t)
              | (True, None) \<Rightarrow> andthen now (\<lambda>t. ret (Some t))
              | (False, _) \<Rightarrow> ret None) (\<lambda>archived_at.
     andthen (execute (\<lambda>_. None)
                (update_conversation i (\<lambda>c. c\<lparr>cv_archived_at := archived_at\<rparr>))) (\<lambda>_.
       require_conversation i)))"

definition touch_conversation :: "conversation_id \<Rightarrow> unit tx" where
  "touch_conversation i =
     andthen now (\<lambda>t.
       execute (\<lambda>_. None)
         (update_conversation i (\<lambda>c. c\<lparr>cv_updated_at := t, cv_archived_at := None\<rparr>)))"

section \<open>Events\<close>

definition require_running :: "run_id \<Rightarrow> run tx" where
  "require_running i =
     andthen (require (Not_Found ''run'' (ident_str i)) (\<lambda>d. run_row d i)) (\<lambda>r.
       if rn_status r = Running then ret r
       else throw (Run_Finished (rn_id r) (rn_status r)))"

definition run_events :: "db \<Rightarrow> run_id \<Rightarrow> event list" where
  "run_events d r = filter (\<lambda>e. ev_run e = r) (t_events d)"

text \<open>\<open>COALESCE(MAX(sequence), 0) + 1\<close>.\<close>

definition next_sequence :: "db \<Rightarrow> run_id \<Rightarrow> nat" where
  "next_sequence d r = fold max (map ev_sequence (run_events d r)) 0 + 1"

definition add_event :: "event \<Rightarrow> db \<Rightarrow> db" where
  "add_event e d = d\<lparr>t_events := t_events d @ [e]\<rparr>"

definition note_appended :: "event \<Rightarrow> unit tx" where
  "note_appended e = update (\<lambda>s. s\<lparr>appended := map_option (\<lambda>es. es @ [e]) (appended s)\<rparr>)"

definition append_event :: "run_id \<Rightarrow> event_data \<Rightarrow> event tx" where
  "append_event r data =
     andthen (require_running r) (\<lambda>_.
     query (\<lambda>d. next_sequence d r) (\<lambda>sequence.
     andthen (fresh_id ''evt'') (\<lambda>i.
     andthen now (\<lambda>t.
       (let e = \<lparr>ev_id = i, ev_run = r, ev_sequence = sequence, ev_data = data,
                 ev_created_at = t\<rparr>
        in andthen (execute (event_violation e) (add_event e)) (\<lambda>_.
           andthen (note_appended e) (\<lambda>_. ret e)))))))"

definition events_after :: "db \<Rightarrow> run_id \<Rightarrow> nat \<Rightarrow> event list" where
  "events_after d r after =
     sort_key ev_sequence (filter (\<lambda>e. ev_run e = r \<and> after < ev_sequence e) (t_events d))"

definition events_of :: "db \<Rightarrow> run_id \<Rightarrow> event list" where
  "events_of d r = events_after d r 0"

definition events_of_types :: "db \<Rightarrow> run_id \<Rightarrow> string list \<Rightarrow> event list" where
  "events_of_types d r types =
     sort_key ev_sequence
       (filter (\<lambda>e. ev_run e = r \<and> event_type (ev_data e) \<in> set types) (t_events d))"

section \<open>Runs\<close>

definition run_order :: "run \<Rightarrow> timestamp \<times> run_id" where
  "run_order r = (rn_started_at r, rn_id r)"

definition add_run :: "run \<Rightarrow> db \<Rightarrow> db" where
  "add_run r d = d\<lparr>t_runs := t_runs d @ [r]\<rparr>"

definition create_run_in :: "conversation_id \<Rightarrow> run_config \<Rightarrow> run tx" where
  "create_run_in c config =
     andthen (require_conversation c) (\<lambda>conversation.
     query (\<lambda>d. running_in d (cv_project conversation)) (\<lambda>running.
       case running of
         Some r \<Rightarrow> throw (Run_In_Progress (rn_id r))
       | None \<Rightarrow>
           andthen (touch_conversation c) (\<lambda>_.
           andthen (fresh_id ''run'') (\<lambda>i.
           andthen now (\<lambda>t.
             (let r = \<lparr>rn_id = i, rn_project = cv_project conversation, rn_conversation = c,
                       rn_provider = rc_provider config, rn_model = rc_model config,
                       rn_prompt = rc_prompt config, rn_status = Running, rn_started_at = t,
                       rn_completed_at = None, rn_error = None\<rparr>
              in andthen (execute (run_violation r) (add_run r)) (\<lambda>_.
                 andthen (append_event i
                           (Run_Started (rn_provider r) (rn_model r) (rn_prompt r))) (\<lambda>_.
                   ret r))))))))"

definition create_run :: "project_id \<Rightarrow> run_config \<Rightarrow> run tx" where
  "create_run p config =
     andthen (require_project p) (\<lambda>_.
     query (\<lambda>d. latest_conversation d p) (\<lambda>latest.
     andthen (case latest of
                Some c \<Rightarrow> ret c
              | None \<Rightarrow> create_conversation p ''New conversation'') (\<lambda>c.
       create_run_in (cv_id c) config)))"

definition runs_of :: "db \<Rightarrow> project_id \<Rightarrow> run list" where
  "runs_of d p = sort_key run_order (filter (\<lambda>r. rn_project r = p) (t_runs d))"

definition conversation_runs :: "db \<Rightarrow> conversation_id \<Rightarrow> run list" where
  "conversation_runs d c = sort_key run_order (filter (\<lambda>r. rn_conversation r = c) (t_runs d))"

definition last_run_before :: "db \<Rightarrow> run \<Rightarrow> run option" where
  "last_run_before d r =
     (case rev (sort_key run_order
                  (filter (\<lambda>q. rn_conversation q = rn_conversation r \<and> run_order q < run_order r)
                     (t_runs d))) of
        [] \<Rightarrow> None
      | q # _ \<Rightarrow> Some q)"

definition previous_run :: "run_id \<Rightarrow> run option tx" where
  "previous_run i =
     andthen (require (Not_Found ''run'' (ident_str i)) (\<lambda>d. run_row d i)) (\<lambda>r.
       query (\<lambda>d. last_run_before d r) ret)"

definition running_runs :: "db \<Rightarrow> run list" where
  "running_runs d = sort_key run_order (filter (\<lambda>r. rn_status r = Running) (t_runs d))"

definition finished_run :: "run_status \<Rightarrow> timestamp \<Rightarrow> error_code option \<Rightarrow> run \<Rightarrow> run" where
  "finished_run st t err r = r\<lparr>rn_status := st, rn_completed_at := Some t, rn_error := err\<rparr>"

definition update_run :: "run_id \<Rightarrow> (run \<Rightarrow> run) \<Rightarrow> db \<Rightarrow> db" where
  "update_run i f d = d\<lparr>t_runs := map (\<lambda>r. if rn_id r = i then f r else r) (t_runs d)\<rparr>"

definition finish_run :: "run_id \<Rightarrow> run_status \<Rightarrow> error_code option \<Rightarrow> run tx" where
  "finish_run i st err =
     andthen now (\<lambda>t.
     andthen (execute
                (\<lambda>d. violated
                   [(list_all (\<lambda>r. rn_id r = i \<longrightarrow> run_checks (finished_run st t err r)) (t_runs d),
                     Check_Failed ''runs'')])
                (update_run i (finished_run st t err))) (\<lambda>_.
       require (Panic ''run exists after update'') (\<lambda>d. run_row d i)))"

definition complete_run :: "run_id \<Rightarrow> run tx" where
  "complete_run i = andthen (append_event i Run_Completed) (\<lambda>_. finish_run i Completed None)"

definition fail_run :: "run_id \<Rightarrow> error_code \<Rightarrow> string \<Rightarrow> run tx" where
  "fail_run i code message =
     andthen (append_event i (Run_Failed code message)) (\<lambda>_. finish_run i Failed (Some code))"

section \<open>Defaults\<close>

definition run_defaults_of :: "db \<Rightarrow> project_id \<Rightarrow> run_config option" where
  "run_defaults_of d p = map_option (\<lambda>row. fst (snd row)) (find (\<lambda>row. fst row = p) (t_defaults d))"

text \<open>\<open>INSERT ... ON CONFLICT (project_id) DO UPDATE\<close>.\<close>

definition upsert_defaults :: "project_id \<Rightarrow> run_config \<Rightarrow> timestamp \<Rightarrow> db \<Rightarrow> db" where
  "upsert_defaults p config t d =
     (if p \<in> fst ` set (t_defaults d)
      then d\<lparr>t_defaults := map (\<lambda>row. if fst row = p then (p, config, t) else row) (t_defaults d)\<rparr>
      else d\<lparr>t_defaults := t_defaults d @ [(p, config, t)]\<rparr>)"

definition set_run_defaults :: "project_id \<Rightarrow> run_config \<Rightarrow> unit tx" where
  "set_run_defaults p config =
     andthen (require_project p) (\<lambda>_.
     andthen now (\<lambda>t.
       execute (defaults_violation p config) (upsert_defaults p config t)))"

section \<open>What a successful operation did\<close>

lemma require_running_Inr:
  "require_running i s = (Inr r, u) \<longleftrightarrow>
     run_row (conn s) i = Some r \<and> rn_status r = Running \<and> u = s"
  by (auto simp: require_running_def tx_Inr split: if_splits)

lemma run_row_id: "run_row d i = Some r \<Longrightarrow> rn_id r = i \<and> r \<in> set (t_runs d)"
  unfolding run_row_def by (auto dest: find_Some_in)

lemma project_row_id: "project_row d i = Some p \<Longrightarrow> pr_id p = i \<and> p \<in> set (t_projects d)"
  unfolding project_row_def by (auto dest: find_Some_in)

lemma conversation_row_id:
  "conversation_row d i = Some c \<Longrightarrow> cv_id c = i \<and> c \<in> set (t_conversations d)"
  unfolding conversation_row_def by (auto dest: find_Some_in)

text \<open>The event that \<open>append_event\<close> stores.\<close>

definition next_event :: "store \<Rightarrow> run_id \<Rightarrow> event_data \<Rightarrow> event \<Rightarrow> bool" where
  "next_event s r data e \<longleftrightarrow> ev_run e = r \<and> ev_data e = data \<and>
     ev_sequence e = next_sequence (conn s) r \<and> ev_created_at e = clock s (ticks s)"

lemma append_event_Inr:
  assumes "append_event r data s = (Inr e, u)"
  shows "conn u = add_event e (conn s) \<and> event_violation e (conn s) = None \<and>
    next_event s r data e \<and> (\<exists>q. run_row (conn s) r = Some q \<and> rn_status q = Running) \<and>
    appended u = map_option (\<lambda>es. es @ [e]) (appended s) \<and> observed u = observed s"
  using assms unfolding append_event_def note_appended_def next_event_def
  by (auto simp: tx_Inr Let_def require_running_Inr)

lemma touch_conversation_Inr:
  "touch_conversation i s = (Inr x, u) \<Longrightarrow>
     conn u = update_conversation i (\<lambda>c. c\<lparr>cv_updated_at := clock s (ticks s), cv_archived_at := None\<rparr>)
       (conn s)"
  by (auto simp: touch_conversation_def tx_Inr)

lemma finish_run_Inr:
  assumes "finish_run i st err s = (Inr r, u)"
  shows "conn u = update_run i (finished_run st (clock s (ticks s)) err) (conn s) \<and>
    run_row (conn u) i = Some r \<and>
    (\<forall>q \<in> set (t_runs (conn s)). rn_id q = i \<longrightarrow>
       run_checks (finished_run st (clock s (ticks s)) err q))"
  using assms unfolding finish_run_def
  by (auto simp: tx_Inr list_all_iff split: if_splits)

end
