(* ===== verification/Context_Store.thy ===== *)
theory Context_Store
  imports Run_Store
begin

text \<open>
  \<open>store/context.rs\<close>: the active context of a run, a set of references to durable nodes that is
  written as a whole. \<open>context_rows\<close> says what \<open>replace_context\<close> stores: one row per member, ordered
  by the node's creation. \<open>sort\<close> on \<open>(created_at, id, source)\<close> compares the source only for equal IDs,
  which the duplicate check has excluded, so the sort key here leaves it out.
\<close>

section \<open>Definitions\<close>

type_synonym membership = "node_id \<times> context_source"

definition context_of :: "db \<Rightarrow> run_id \<Rightarrow> context_member list" where
  "context_of d r = sort_key cm_ordering (filter (\<lambda>m. cm_run m = r) (t_context d))"

type_synonym ranked_member = "timestamp \<times> node_id \<times> context_source"

fun rank_members ::
  "db \<Rightarrow> project_id \<Rightarrow> node_id list \<Rightarrow> membership list \<Rightarrow> store_error + ranked_member list" where
  "rank_members d p seen [] = Inr []"
| "rank_members d p seen ((i, source) # members) =
     (if i \<in> set seen then Inl (Duplicate_Context_Member i)
      else if \<not> node_in_project d p i then Inl (Dag (Unknown_Node i))
      else
        (case node_of d i of
           None \<Rightarrow> Inl (Panic ''node exists in the run's project'')
         | Some n \<Rightarrow>
             (case rank_members d p (i # seen) members of
                Inl e \<Rightarrow> Inl e
              | Inr ranked \<Rightarrow> Inr ((nd_created_at n, nd_id n, source) # ranked))))"

definition rank_key :: "ranked_member \<Rightarrow> timestamp \<times> node_id" where
  "rank_key m = (case m of (t, i, source) \<Rightarrow> (t, i))"

definition member_row :: "run_id \<Rightarrow> nat \<times> ranked_member \<Rightarrow> context_member" where
  "member_row r m =
     (case m of (k, t, i, source) \<Rightarrow>
        \<lparr>cm_run = r, cm_node = i, cm_classification = Active, cm_ordering = k,
         cm_source = source\<rparr>)"

definition clear_context :: "run_id \<Rightarrow> db \<Rightarrow> db" where
  "clear_context r d = d\<lparr>t_context := filter (\<lambda>m. cm_run m \<noteq> r) (t_context d)\<rparr>"

definition add_member :: "context_member \<Rightarrow> db \<Rightarrow> db" where
  "add_member m d = d\<lparr>t_context := t_context d @ [m]\<rparr>"

definition replace_context :: "run_id \<Rightarrow> membership list \<Rightarrow> context_member list tx" where
  "replace_context r members =
     andthen (require_running r) (\<lambda>run.
     query (\<lambda>d. rank_members d (rn_project run) [] members) (\<lambda>result.
       case result of
         Inl e \<Rightarrow> throw e
       | Inr ranked \<Rightarrow>
           andthen (execute (\<lambda>_. None) (clear_context r)) (\<lambda>_.
           andthen (for_each (map (member_row r) (enumerate 0 (sort_key rank_key ranked)))
                      (\<lambda>m. execute (member_violation m) (add_member m))) (\<lambda>_.
             query (\<lambda>d. context_of d r) ret))))"

section \<open>What a successful replacement did\<close>

definition created_at :: "db \<Rightarrow> node_id \<Rightarrow> timestamp" where
  "created_at d i = (case node_of d i of Some n \<Rightarrow> nd_created_at n | None \<Rightarrow> Timestamp 0)"

definition ranked :: "db \<Rightarrow> membership list \<Rightarrow> ranked_member list" where
  "ranked d members = map (\<lambda>(i, source). (created_at d i, i, source)) members"

definition context_rows :: "db \<Rightarrow> run_id \<Rightarrow> membership list \<Rightarrow> context_member list" where
  "context_rows d r members =
     map (member_row r) (enumerate 0 (sort_key rank_key (ranked d members)))"

lemma node_of_id: "node_of d i = Some n \<Longrightarrow> nd_id n = i"
  by (auto simp: node_of_def node_row_def dest: find_Some_in)

lemma rank_members_Inr:
  "rank_members d p seen members = Inr rs \<Longrightarrow>
     rs = ranked d members \<and> distinct (map fst members) \<and> set (map fst members) \<inter> set seen = {} \<and>
     (\<forall>m \<in> set members. node_in_project d p (fst m) \<and> node_of d (fst m) \<noteq> None)"
proof (induction members arbitrary: seen rs)
  case (Cons m members)
  obtain i source where m: "m = (i, source)" by (cases m)
  from Cons.prems obtain n rs' where n: "node_of d i = Some n" "i \<notin> set seen" "node_in_project d p i"
    and rec: "rank_members d p (i # seen) members = Inr rs'"
    and rs: "rs = (nd_created_at n, nd_id n, source) # rs'"
    by (auto simp: m split: if_splits option.splits sum.splits)
  from Cons.IH [OF rec] show ?case
    using n by (auto simp: m rs ranked_def created_at_def node_of_id)
qed (simp add: ranked_def)

lemma for_each_execute:
  "for_each xs (\<lambda>x. execute (v x) (c x)) s = (Inr y, u) \<Longrightarrow> u = s\<lparr>conn := fold c xs (conn s)\<rparr>"
proof (induction xs arbitrary: s)
  case (Cons x xs)
  then have "for_each xs (\<lambda>x. execute (v x) (c x)) (s\<lparr>conn := c x (conn s)\<rparr>) = (Inr y, u)"
    by (simp add: andthen_Inr_iff execute_Inr)
  from Cons.IH [OF this] show ?case by simp
qed simp

lemma fold_add_member: "fold add_member ms d = d\<lparr>t_context := t_context d @ ms\<rparr>"
  by (induction ms arbitrary: d) (simp_all add: add_member_def)

lemma member_row_simps [simp]:
  "cm_run (member_row r x) = r" "cm_ordering (member_row r x) = fst x"
  "cm_node (member_row r x) = fst (snd (snd x))" "cm_source (member_row r x) = snd (snd (snd x))"
  "cm_classification (member_row r x) = Active"
  by (simp_all add: member_row_def split: prod.split)

lemma map_enumerate_fst: "map (\<lambda>x. fst x) (enumerate n xs) = [n..<n + length xs]"
  by (induction xs arbitrary: n) (auto simp: upt_rec)

lemma map_enumerate_snd: "map (\<lambda>x. g (f (snd x))) (enumerate n xs) = map (\<lambda>x. g (f x)) xs"
  by (induction xs arbitrary: n) simp_all

lemma context_rows_ordering: "map cm_ordering (context_rows d r ms) = [0..<length ms]"
  by (simp add: context_rows_def comp_def ranked_def map_enumerate_fst)

lemma context_rows_run: "m \<in> set (context_rows d r ms) \<Longrightarrow> cm_run m = r \<and> cm_classification m = Active"
  by (auto simp: context_rows_def)

lemma sort_key_sorted_map: "sorted (map k xs) \<Longrightarrow> sort_key k xs = xs"
  by (induction xs) (simp_all add: insort_is_Cons)

lemma context_of_replaced:
  "context_of (d\<lparr>t_context := filter (\<lambda>m. cm_run m \<noteq> r) (t_context d) @ context_rows d r ms\<rparr>) r =
     context_rows d r ms"
proof -
  have "filter (\<lambda>m. cm_run m = r) (context_rows d r ms) = context_rows d r ms"
    by (rule filter_True) (simp add: context_rows_run)
  moreover have "sorted (map cm_ordering (context_rows d r ms))"
    by (simp add: context_rows_ordering)
  ultimately show ?thesis by (simp add: context_of_def sort_key_sorted_map)
qed

lemma replace_context_Inr:
  assumes "replace_context r ms s = (Inr cs, u)"
  shows "\<exists>q. run_row (conn s) r = Some q \<and> rn_status q = Running \<and> distinct (map fst ms) \<and>
      (\<forall>m \<in> set ms. node_in_project (conn s) (rn_project q) (fst m) \<and> node_of (conn s) (fst m) \<noteq> None) \<and>
      cs = context_rows (conn s) r ms \<and>
      conn u = (conn s)\<lparr>t_context := filter (\<lambda>m. cm_run m \<noteq> r) (t_context (conn s)) @ cs\<rparr> \<and>
      u = s\<lparr>conn := conn u\<rparr>"
proof -
  from assms obtain q where q: "run_row (conn s) r = Some q" "rn_status q = Running"
    and "(case rank_members (conn s) (rn_project q) [] ms of
       Inl e \<Rightarrow> throw e
     | Inr rs \<Rightarrow>
         andthen (execute (\<lambda>_. None) (clear_context r)) (\<lambda>_.
         andthen (for_each (map (member_row r) (enumerate 0 (sort_key rank_key rs)))
           (\<lambda>m. execute (member_violation m) (add_member m))) (\<lambda>_.
           query (\<lambda>d. context_of d r) ret))) s = (Inr cs, u)"
    unfolding replace_context_def
    by (auto simp: andthen_Inr_iff require_running_Inr query_def)
  then obtain rs where rank: "rank_members (conn s) (rn_project q) [] ms = Inr rs"
    and rest: "andthen (execute (\<lambda>_. None) (clear_context r)) (\<lambda>_.
        andthen (for_each (map (member_row r) (enumerate 0 (sort_key rank_key rs)))
          (\<lambda>m. execute (member_violation m) (add_member m))) (\<lambda>_.
          query (\<lambda>d. context_of d r) ret)) s = (Inr cs, u)"
    by (cases "rank_members (conn s) (rn_project q) [] ms") simp_all
  note R = rank_members_Inr [OF rank]
  let ?rows = "context_rows (conn s) r ms"
  have rows: "map (member_row r) (enumerate 0 (sort_key rank_key rs)) = ?rows"
    using R by (simp add: context_rows_def)
  obtain v y where v: "for_each ?rows (\<lambda>m. execute (member_violation m) (add_member m))
      (s\<lparr>conn := clear_context r (conn s)\<rparr>) = (Inr y, v)"
    and out: "cs = context_of (conn v) r" "u = v"
    using rest unfolding rows by (auto simp: andthen_Inr_iff execute_Inr query_def)
  have "v = s\<lparr>conn := (conn s)\<lparr>t_context := filter (\<lambda>m. cm_run m \<noteq> r) (t_context (conn s)) @ ?rows\<rparr>\<rparr>"
    using for_each_execute [OF v] by (simp add: fold_add_member clear_context_def)
  then show ?thesis
    using q R out by (simp add: context_of_replaced)
qed

lemma context_rows_nodes: "cm_node ` set (context_rows d r ms) = fst ` set ms"
proof -
  have "map cm_node (context_rows d r ms) = map (\<lambda>m. fst (snd m)) (sort_key rank_key (ranked d ms))"
    using map_enumerate_snd [of fst snd 0 "sort_key rank_key (ranked d ms)"]
    by (simp add: context_rows_def comp_def)
  then have "cm_node ` set (context_rows d r ms) = (\<lambda>m. fst (snd m)) ` set (ranked d ms)"
    by (metis set_map set_sort)
  then show ?thesis by (force simp: ranked_def image_image)
qed

end
