(* ===== verification/Store_Steps.thy ===== *)
theory Store_Steps
  imports Context_Store
begin

text \<open>
  The abstract view of the store: \<open>db_step\<close> lists every way in which a successful operation of \<open>Tx\<close>
  changes the database, with the conditions under which it does. \<open>moves_steps\<close> says that an effect moves
  the database along such steps only; it is proved for every operation of the repositories and
  composes over the monad, so whatever the layers above write in a transaction is a sequence of
  steps. An invariant of \<open>db_step\<close> therefore holds in every state that the store reaches.

  Two pairs of statements are one step, because nothing in between survives on its own: a run is
  inserted together with its \<open>run.started\<close> event, and a run's status changes together with its
  terminal event (a failure in between is an error, and the transaction rolls back).
\<close>

section \<open>Steps\<close>

fun lifecycle :: "event_data \<Rightarrow> bool" where
  "lifecycle (Run_Started _ _ _) = True"
| "lifecycle Run_Completed = True"
| "lifecycle (Run_Failed _ _) = True"
| "lifecycle _ = False"

text \<open>The event that records that a run ended with this status and error code.\<close>

fun terminal :: "event_data \<Rightarrow> run_status \<Rightarrow> error_code option \<Rightarrow> bool" where
  "terminal Run_Completed st err \<longleftrightarrow> st = Completed \<and> err = None"
| "terminal (Run_Failed code _) st err \<longleftrightarrow> st = Failed \<and> err = Some code"
| "terminal _ _ _ \<longleftrightarrow> False"

definition appendable :: "db \<Rightarrow> event \<Rightarrow> bool" where
  "appendable d e \<longleftrightarrow> event_violation e d = None \<and> ev_sequence e = next_sequence d (ev_run e) \<and>
     (\<exists>q. run_row d (ev_run e) = Some q \<and> rn_status q = Running)"

definition same_thread :: "(conversation \<Rightarrow> conversation) \<Rightarrow> bool" where
  "same_thread f \<longleftrightarrow> (\<forall>c. cv_id (f c) = cv_id c \<and> cv_project (f c) = cv_project c \<and>
     cv_created_at (f c) = cv_created_at c \<and> (sql_nonempty (cv_title c) \<longrightarrow> sql_nonempty (cv_title (f c))))"

inductive db_step :: "db \<Rightarrow> db \<Rightarrow> bool" where
  Add_Project: "project_violation p d = None \<Longrightarrow> db_step d (add_project p d)"
| Rename_Project: "sql_nonempty name \<Longrightarrow> db_step d (set_project_name i name d)"
| Add_Conversation: "conversation_violation c d = None \<Longrightarrow> db_step d (add_conversation c d)"
| Update_Conversation: "same_thread f \<Longrightarrow> db_step d (update_conversation i f d)"
| Add_Node: "node_violation p n d = None \<Longrightarrow> db_step d (add_node p n d)"
| Set_Payload: "db_step d (set_payload i payload t d)"
| Add_Edge: "edge_violation p e d = None \<Longrightarrow>
    edge_error d p (ed_from e) (ed_to e) (ed_type e) = None \<Longrightarrow> db_step d (add_edge p e d)"
| Start_Run: "run_violation r d = None \<Longrightarrow> rn_status r = Running \<Longrightarrow>
    conversation_row d (rn_conversation r) = Some c \<Longrightarrow> cv_project c = rn_project r \<Longrightarrow>
    appendable (add_run r d) e \<Longrightarrow> ev_run e = rn_id r \<Longrightarrow>
    ev_data e = Run_Started (rn_provider r) (rn_model r) (rn_prompt r) \<Longrightarrow>
    db_step d (add_event e (add_run r d))"
| Append: "appendable d e \<Longrightarrow> \<not> lifecycle (ev_data e) \<Longrightarrow> db_step d (add_event e d)"
| Finish: "appendable d e \<Longrightarrow> terminal (ev_data e) st err \<Longrightarrow>
    db_step d (update_run (ev_run e) (finished_run st t err) (add_event e d))"
| Replace_Context: "run_row d r = Some q \<Longrightarrow> rn_status q = Running \<Longrightarrow> distinct (map fst ms) \<Longrightarrow>
    \<forall>m \<in> set ms. node_in_project d (rn_project q) (fst m) \<and> node_of d (fst m) \<noteq> None \<Longrightarrow>
    db_step d (d\<lparr>t_context := filter (\<lambda>m. cm_run m \<noteq> r) (t_context d) @ context_rows d r ms\<rparr>)"
| Set_Defaults: "defaults_violation p c d = None \<Longrightarrow> db_step d (upsert_defaults p c t d)"

abbreviation db_steps :: "db \<Rightarrow> db \<Rightarrow> bool" where
  "db_steps \<equiv> db_step\<^sup>*\<^sup>*"

interpretation steps: database_order db_steps
  by unfold_locales auto

section \<open>Every repository operation is a sequence of steps\<close>

lemma moves_step:
  "(\<And>s a u. m s = (Inr a, u) \<Longrightarrow> db_step (conn s) (conn u)) \<Longrightarrow> moves db_steps m"
  by (auto simp: moves_def)

named_theorems steps_intros \<open>effects that move the database along steps\<close>

declare steps.moves_rules [steps_intros]

lemma execute_moves: "(\<And>d. v d = None \<Longrightarrow> db_step d (c d)) \<Longrightarrow> moves db_steps (execute v c)"
  by (rule moves_step) (auto simp: execute_Inr)

lemma create_project_moves [steps_intros]: "moves db_steps (create_project name)"
  by (rule moves_step)
     (auto simp: create_project_def tx_Inr Let_def split: if_splits intro: Add_Project)

lemma rename_project_moves [steps_intros]: "moves db_steps (rename_project i name)"
  by (rule moves_step)
     (auto simp: rename_project_def require_project_def tx_Inr Let_def split: if_splits
        intro: Rename_Project)

lemma create_conversation_moves [steps_intros]: "moves db_steps (create_conversation p title)"
  by (rule moves_step)
     (auto simp: create_conversation_def require_project_def tx_Inr Let_def intro: Add_Conversation)

lemma update_conversation_step:
  "(\<And>c. cv_id (f c) = cv_id c \<and> cv_project (f c) = cv_project c \<and> cv_created_at (f c) = cv_created_at c \<and>
      (sql_nonempty (cv_title c) \<longrightarrow> sql_nonempty (cv_title (f c)))) \<Longrightarrow>
   db_step d (update_conversation i f d)"
  by (rule Update_Conversation) (simp add: same_thread_def)

lemma rename_conversation_moves [steps_intros]: "moves db_steps (rename_conversation i title)"
  by (rule moves_step)
     (auto simp: rename_conversation_def require_conversation_def tx_Inr split: option.splits if_splits
        intro!: update_conversation_step)

lemma set_conversation_archived_moves [steps_intros]:
  "moves db_steps (set_conversation_archived i archived)"
proof -
  have at_choice: "moves db_steps (case (archived, at') of
      (True, Some t) \<Rightarrow> ret (Some t) | (True, None) \<Rightarrow> andthen now (\<lambda>t. ret (Some t))
    | (False, _) \<Rightarrow> ret None)" for at' :: "timestamp option"
    by (cases archived; cases at') (auto intro: steps_intros)
  show ?thesis
    unfolding set_conversation_archived_def require_conversation_def
    by (intro steps_intros at_choice execute_moves update_conversation_step) simp
qed

lemma touch_conversation_moves [steps_intros]: "moves db_steps (touch_conversation i)"
  by (rule moves_step) (auto dest!: touch_conversation_Inr intro!: update_conversation_step)

lemma insert_node_moves [steps_intros]: "moves db_steps (insert_node p ty payload)"
  by (rule moves_step) (auto dest!: insert_node_Inr intro: Add_Node)

lemma update_node_payload_moves [steps_intros]: "moves db_steps (update_node_payload i payload)"
  by (rule moves_step) (auto dest!: update_node_payload_Inr intro: Set_Payload)

lemma insert_edge_moves [steps_intros]: "moves db_steps (insert_edge p from to ty)"
  by (rule moves_step) (auto dest!: insert_edge_Inr intro: Add_Edge)

lemma append_event_appendable:
  "append_event r data s = (Inr e, u) \<Longrightarrow>
     appendable (conn s) e \<and> ev_run e = r \<and> ev_data e = data \<and> conn u = add_event e (conn s)"
  using append_event_Inr [of r data s e u] by (auto simp: appendable_def next_event_def)

lemma append_event_moves: "\<not> lifecycle data \<Longrightarrow> moves db_steps (append_event r data)"
  by (rule moves_step) (auto dest!: append_event_appendable intro: Append)

lemmas append_event_moves' [steps_intros] =
  append_event_moves [of "Message_Recorded a b" for a b, simplified]
  append_event_moves [of "Context_Carried a b" for a b, simplified]
  append_event_moves [of "Jev_Requested a b" for a b, simplified]
  append_event_moves [of "Jev_Classified a" for a, simplified]
  append_event_moves [of "Jev_Rejected a b" for a b, simplified]
  append_event_moves [of "Jev_Fallback a b" for a b, simplified]
  append_event_moves [of "Context_Expanded a" for a, simplified]
  append_event_moves [of "Context_Added a" for a, simplified]
  append_event_moves [of "Context_Removed a" for a, simplified]
  append_event_moves [of "Ir_Compiled a" for a, simplified]
  append_event_moves [of "Inference_Started a b" for a b, simplified]
  append_event_moves [of "Inference_Delta a" for a, simplified]
  append_event_moves [of "Inference_Completed a" for a, simplified]
  append_event_moves [of "Tool_Requested a b c" for a b c, simplified]
  append_event_moves [of "Tool_Decided a b c e" for a b c e, simplified]
  append_event_moves [of "Tool_Finished a b c" for a b c, simplified]
  append_event_moves [of "Review_Completed a b c e" for a b c e, simplified]
  append_event_moves [of "Response_Validated a" for a, simplified]
  append_event_moves [of "Response_Rejected a" for a, simplified]
  append_event_moves [of "Dag_Node_Created a b c" for a b c, simplified]
  append_event_moves [of "Dag_Edge_Created a b c e" for a b c e, simplified]

lemma create_run_in_Inr:
  assumes "create_run_in c config s = (Inr r, u)"
  obtains cv cv' d e where "conversation_row (conn s) c = Some cv"
    and "running_in (conn s) (cv_project cv) = None" and "db_step (conn s) d"
    and "conversation_row d c = Some cv'" and "cv_project cv' = cv_project cv"
    and "run_violation r d = None" and "rn_status r = Running" and "rn_conversation r = c"
    and "rn_project r = cv_project cv" and "run_config_of r = config"
    and "rn_started_at r = clock s (Suc (ticks s))"
    and "appendable (add_run r d) e" and "ev_run e = rn_id r"
    and "ev_data e = Run_Started (rn_provider r) (rn_model r) (rn_prompt r)"
    and "conn u = add_event e (add_run r d)"
proof -
  let ?f = "\<lambda>c. c\<lparr>cv_updated_at := clock s (ticks s), cv_archived_at := None\<rparr>"
  define d where "d = update_conversation c ?f (conn s)"
  from assms obtain cv where cv: "conversation_row (conn s) c = Some cv"
    and none: "running_in (conn s) (cv_project cv) = None"
    unfolding create_run_in_def require_conversation_def
    by (auto simp: tx_Inr split: option.splits)
  from assms obtain i v e where
      e: "append_event i (Run_Started (rc_provider config) (rc_model config) (rc_prompt config)) v = (Inr e, u)"
    and v: "conn v = add_run r d" and viol: "run_violation r d = None"
    and r: "r = \<lparr>rn_id = i, rn_project = cv_project cv, rn_conversation = c,
        rn_provider = rc_provider config, rn_model = rc_model config, rn_prompt = rc_prompt config,
        rn_status = Running, rn_started_at = clock s (Suc (ticks s)), rn_completed_at = None,
        rn_error = None\<rparr>"
    unfolding create_run_in_def require_conversation_def touch_conversation_def d_def
    by (auto simp: tx_Inr Let_def cv none)
  have step: "db_step (conn s) d" unfolding d_def by (rule update_conversation_step) simp
  have row: "conversation_row d c = Some (?f cv)"
    using cv conversation_row_id [OF cv] unfolding conversation_row_def d_def update_conversation_def
    by (simp add: find_map_same)
  show ?thesis
    by (rule that [of cv d "?f cv" e, OF cv none step row _ viol])
       (use append_event_appendable [OF e] v in \<open>simp_all add: r run_config_of_def\<close>)
qed

lemma create_run_in_moves [steps_intros]: "moves db_steps (create_run_in c config)"
proof
  fix s r u
  assume "create_run_in c config s = (Inr r, u)"
  then show "db_steps (conn s) (conn u)"
  proof (rule create_run_in_Inr)
    fix cv cv' d e
    assume A: "db_step (conn s) d" "conversation_row d c = Some cv'" "cv_project cv' = cv_project cv"
      "run_violation r d = None" "rn_status r = Running" "rn_conversation r = c"
      "rn_project r = cv_project cv" "appendable (add_run r d) e" "ev_run e = rn_id r"
      "ev_data e = Run_Started (rn_provider r) (rn_model r) (rn_prompt r)"
      "conn u = add_event e (add_run r d)"
    then have "db_step d (conn u)" by (auto intro: Start_Run)
    with A(1) show ?thesis by auto
  qed
qed

lemma create_run_moves [steps_intros]: "moves db_steps (create_run p config)"
  unfolding create_run_def require_project_def by (intro steps_intros)

lemma finish_moves:
  assumes "terminal data st err"
  shows "moves db_steps (andthen (append_event i data) (\<lambda>_. finish_run i st err))"
proof (rule moves_step)
  fix s a u
  assume "andthen (append_event i data) (\<lambda>_. finish_run i st err) s = (Inr a, u)"
  then obtain e v where e: "append_event i data s = (Inr e, v)" and f: "finish_run i st err v = (Inr a, u)"
    by (auto simp: andthen_Inr_iff)
  note E = append_event_appendable [OF e] and F = finish_run_Inr [OF f]
  have "db_step (conn s)
      (update_run (ev_run e) (finished_run st (clock v (ticks v)) err) (add_event e (conn s)))"
    using E assms by (intro Finish) auto
  then show "db_step (conn s) (conn u)" using E F by simp
qed

lemma complete_run_moves [steps_intros]: "moves db_steps (complete_run i)"
  unfolding complete_run_def by (rule finish_moves) simp

lemma fail_run_moves [steps_intros]: "moves db_steps (fail_run i code message)"
  unfolding fail_run_def by (rule finish_moves) simp

lemma previous_run_moves [steps_intros]: "moves db_steps (previous_run i)"
  unfolding previous_run_def by (intro steps_intros)

lemma replace_context_moves [steps_intros]: "moves db_steps (replace_context r ms)"
proof (rule moves_step)
  fix s a u
  assume "replace_context r ms s = (Inr a, u)"
  from replace_context_Inr [OF this] obtain q where q: "run_row (conn s) r = Some q" "rn_status q = Running"
    "distinct (map fst ms)"
    "\<forall>m \<in> set ms. node_in_project (conn s) (rn_project q) (fst m) \<and> node_of (conn s) (fst m) \<noteq> None"
    and u: "a = context_rows (conn s) r ms"
      "conn u = (conn s)\<lparr>t_context := filter (\<lambda>m. cm_run m \<noteq> r) (t_context (conn s)) @ a\<rparr>"
    by blast
  show "db_step (conn s) (conn u)" unfolding u by (rule Replace_Context [OF q])
qed

lemma set_run_defaults_moves [steps_intros]: "moves db_steps (set_run_defaults p config)"
  by (rule moves_step)
     (auto simp: set_run_defaults_def require_project_def tx_Inr intro: Set_Defaults)

end
