(* ===== verification/Store_Invariants.thy ===== *)
theory Store_Invariants
  imports Store_Steps
begin

text \<open>
  Invariants of the store. The locale \<open>store_invariant\<close> is the contract between an invariant and the
  layers above: a predicate that every step keeps holds after any effect that moves along steps, and
  after every transaction of one. It is interpreted for the integrity that the SQL schema declares
  (\<open>db_ok\<close>) and for acyclicity, and in \<open>Run_History\<close> for the lifecycle of runs.
\<close>

locale store_invariant =
  fixes I :: "db \<Rightarrow> bool"
  assumes step_keeps: "db_step d d' \<Longrightarrow> I d \<Longrightarrow> I d'"
begin

lemma steps_keep: "db_steps d d' \<Longrightarrow> I d \<Longrightarrow> I d'"
  by (induction rule: rtranclp_induct) (auto intro: step_keeps)

lemma effect_keeps: "moves db_steps m \<Longrightarrow> m s = (Inr a, u) \<Longrightarrow> I (conn s) \<Longrightarrow> I (conn u)"
  by (meson movesD steps_keep)

lemma transaction_keeps: "moves db_steps m \<Longrightarrow> I (conn s) \<Longrightarrow> I (conn (snd (transaction m s)))"
  by (meson steps.transaction_moves steps_keep)

end

section \<open>Lookups and updates\<close>

lemma project_row_None [simp]: "project_row d p = None \<longleftrightarrow> p \<notin> pr_id ` set (t_projects d)"
  by (auto simp: project_row_def find_None_iff)

lemma conversation_row_None [simp]:
  "conversation_row d c = None \<longleftrightarrow> c \<notin> cv_id ` set (t_conversations d)"
  by (auto simp: conversation_row_def find_None_iff)

lemma run_row_None [simp]: "run_row d r = None \<longleftrightarrow> r \<notin> rn_id ` set (t_runs d)"
  by (auto simp: run_row_def find_None_iff)

lemma node_row_None [simp]: "node_row d i = None \<longleftrightarrow> i \<notin> (nd_id \<circ> snd) ` set (t_nodes d)"
  by (force simp: node_row_def find_None_iff)

lemma node_of_None [simp]: "node_of d i = None \<longleftrightarrow> i \<notin> (nd_id \<circ> snd) ` set (t_nodes d)"
  by (simp add: node_of_def)

lemma node_in_project_iff: "node_in_project d p i \<longleftrightarrow> (p, i) \<in> (\<lambda>row. (fst row, nd_id (snd row))) ` set (t_nodes d)"
  by (force simp: node_in_project_def)

lemma image_map_same: "(\<And>x. k (f x) = k x) \<Longrightarrow> k ` set (map f xs) = k ` set xs"
  by (simp add: image_image)

lemma map_map_same: "(\<And>x. k (f x) = k x) \<Longrightarrow> map k (map f xs) = map k xs"
  by (induction xs) auto

text \<open>The tables and keys that each change leaves alone.\<close>

lemma change_simps [simp]:
  "t_projects (add_project p d) = t_projects d @ [p]"
  "t_conversations (add_project p d) = t_conversations d" "t_nodes (add_project p d) = t_nodes d"
  "t_edges (add_project p d) = t_edges d" "t_runs (add_project p d) = t_runs d"
  "t_events (add_project p d) = t_events d" "t_context (add_project p d) = t_context d"
  "t_defaults (add_project p d) = t_defaults d"
  "t_conversations (set_project_name i nm d) = t_conversations d" "t_nodes (set_project_name i nm d) = t_nodes d"
  "t_edges (set_project_name i nm d) = t_edges d" "t_runs (set_project_name i nm d) = t_runs d"
  "t_events (set_project_name i nm d) = t_events d" "t_context (set_project_name i nm d) = t_context d"
  "t_defaults (set_project_name i nm d) = t_defaults d"
  "t_projects (add_conversation c d) = t_projects d"
  "t_conversations (add_conversation c d) = t_conversations d @ [c]" "t_nodes (add_conversation c d) = t_nodes d"
  "t_edges (add_conversation c d) = t_edges d" "t_runs (add_conversation c d) = t_runs d"
  "t_events (add_conversation c d) = t_events d" "t_context (add_conversation c d) = t_context d"
  "t_defaults (add_conversation c d) = t_defaults d"
  "t_projects (update_conversation j f d) = t_projects d" "t_nodes (update_conversation j f d) = t_nodes d"
  "t_edges (update_conversation j f d) = t_edges d" "t_runs (update_conversation j f d) = t_runs d"
  "t_events (update_conversation j f d) = t_events d" "t_context (update_conversation j f d) = t_context d"
  "t_defaults (update_conversation j f d) = t_defaults d"
  by (simp_all add: add_project_def set_project_name_def add_conversation_def update_conversation_def)

lemma change_simps2 [simp]:
  "t_projects (add_node p n d) = t_projects d" "t_conversations (add_node p n d) = t_conversations d"
  "t_nodes (add_node p n d) = t_nodes d @ [(p, n)]"
  "t_edges (add_node p n d) = t_edges d" "t_runs (add_node p n d) = t_runs d"
  "t_events (add_node p n d) = t_events d" "t_context (add_node p n d) = t_context d"
  "t_defaults (add_node p n d) = t_defaults d"
  "t_projects (set_payload i pl t d) = t_projects d" "t_conversations (set_payload i pl t d) = t_conversations d"
  "t_edges (set_payload i pl t d) = t_edges d" "t_runs (set_payload i pl t d) = t_runs d"
  "t_events (set_payload i pl t d) = t_events d" "t_context (set_payload i pl t d) = t_context d"
  "t_defaults (set_payload i pl t d) = t_defaults d"
  "t_projects (add_edge p e d) = t_projects d" "t_conversations (add_edge p e d) = t_conversations d"
  "t_nodes (add_edge p e d) = t_nodes d" "t_edges (add_edge p e d) = t_edges d @ [(p, e)]"
  "t_runs (add_edge p e d) = t_runs d"
  "t_events (add_edge p e d) = t_events d" "t_context (add_edge p e d) = t_context d"
  "t_defaults (add_edge p e d) = t_defaults d"
  by (simp_all add: add_node_def set_payload_def add_edge_def)

lemma change_simps3 [simp]:
  "t_projects (add_run r d) = t_projects d" "t_conversations (add_run r d) = t_conversations d"
  "t_nodes (add_run r d) = t_nodes d" "t_edges (add_run r d) = t_edges d"
  "t_runs (add_run r d) = t_runs d @ [r]" "t_events (add_run r d) = t_events d"
  "t_context (add_run r d) = t_context d" "t_defaults (add_run r d) = t_defaults d"
  "t_projects (add_event e d) = t_projects d" "t_conversations (add_event e d) = t_conversations d"
  "t_nodes (add_event e d) = t_nodes d" "t_edges (add_event e d) = t_edges d"
  "t_runs (add_event e d) = t_runs d" "t_events (add_event e d) = t_events d @ [e]"
  "t_context (add_event e d) = t_context d" "t_defaults (add_event e d) = t_defaults d"
  "t_projects (update_run i g d) = t_projects d" "t_conversations (update_run i g d) = t_conversations d"
  "t_nodes (update_run i g d) = t_nodes d" "t_edges (update_run i g d) = t_edges d"
  "t_events (update_run i g d) = t_events d" "t_context (update_run i g d) = t_context d"
  "t_defaults (update_run i g d) = t_defaults d"
  "t_projects (upsert_defaults p c t d) = t_projects d" "t_conversations (upsert_defaults p c t d) = t_conversations d"
  "t_nodes (upsert_defaults p c t d) = t_nodes d" "t_edges (upsert_defaults p c t d) = t_edges d"
  "t_runs (upsert_defaults p c t d) = t_runs d" "t_events (upsert_defaults p c t d) = t_events d"
  "t_context (upsert_defaults p c t d) = t_context d"
  by (simp_all add: add_run_def add_event_def update_run_def upsert_defaults_def)

lemma update_maps [simp]:
  "map pr_id (t_projects (set_project_name i nm d)) = map pr_id (t_projects d)"
  "map (nd_id \<circ> snd) (t_nodes (set_payload j pl t d)) = map (nd_id \<circ> snd) (t_nodes d)"
  "map (\<lambda>row. (fst row, nd_id (snd row))) (t_nodes (set_payload j pl t d)) =
     map (\<lambda>row. (fst row, nd_id (snd row))) (t_nodes d)"
  "map fst (t_nodes (set_payload j pl t d)) = map fst (t_nodes d)"
  "map rn_id (t_runs (update_run r (finished_run st u err) d)) = map rn_id (t_runs d)"
  by (auto simp: set_project_name_def set_payload_def update_run_def finished_run_def)

lemma update_conversation_ids: "same_thread f \<Longrightarrow>
    map cv_id (t_conversations (update_conversation c f d)) = map cv_id (t_conversations d)"
  by (auto simp: update_conversation_def same_thread_def)

lemma same_images: "map k xs = map k ys \<Longrightarrow> k ` set xs = k ` set ys"
  by (metis set_map)

lemmas update_keys [simp] = update_maps [THEN same_images]

lemma update_node_in_project [simp]: "node_in_project (set_payload j pl t d) p i = node_in_project d p i"
  by (simp only: node_in_project_iff update_keys)

lemma node_in_project_mono:
  "set (t_nodes d) \<subseteq> set (t_nodes d') \<Longrightarrow> node_in_project d p i \<Longrightarrow> node_in_project d' p i"
  by (auto simp: node_in_project_def)

section \<open>The integrity that the schema declares\<close>

definition projects_ok :: "db \<Rightarrow> bool" where
  "projects_ok d \<longleftrightarrow> distinct (map pr_id (t_projects d)) \<and>
     (\<forall>p \<in> set (t_projects d). sql_nonempty (pr_name p))"

definition conversations_ok :: "db \<Rightarrow> bool" where
  "conversations_ok d \<longleftrightarrow> distinct (map cv_id (t_conversations d)) \<and>
     (\<forall>c \<in> set (t_conversations d). sql_nonempty (cv_title c) \<and>
        cv_project c \<in> pr_id ` set (t_projects d))"

definition nodes_ok :: "db \<Rightarrow> bool" where
  "nodes_ok d \<longleftrightarrow> distinct (map (nd_id \<circ> snd) (t_nodes d)) \<and>
     (\<forall>row \<in> set (t_nodes d). fst row \<in> pr_id ` set (t_projects d))"

definition edges_ok :: "db \<Rightarrow> bool" where
  "edges_ok d \<longleftrightarrow> distinct (map (ed_id \<circ> snd) (t_edges d)) \<and>
     distinct (map (edge_key \<circ> snd) (t_edges d)) \<and>
     (\<forall>row \<in> set (t_edges d). ed_from (snd row) \<noteq> ed_to (snd row) \<and>
        fst row \<in> pr_id ` set (t_projects d) \<and> node_in_project d (fst row) (ed_from (snd row)) \<and>
        node_in_project d (fst row) (ed_to (snd row)))"

definition runs_ok :: "db \<Rightarrow> bool" where
  "runs_ok d \<longleftrightarrow> distinct (map rn_id (t_runs d)) \<and>
     distinct (map rn_project (filter (\<lambda>r. rn_status r = Running) (t_runs d))) \<and>
     (\<forall>r \<in> set (t_runs d). run_checks r \<and> rn_project r \<in> pr_id ` set (t_projects d) \<and>
        rn_conversation r \<in> cv_id ` set (t_conversations d))"

definition events_ok :: "db \<Rightarrow> bool" where
  "events_ok d \<longleftrightarrow> distinct (map ev_id (t_events d)) \<and>
     distinct (map (\<lambda>e. (ev_run e, ev_sequence e)) (t_events d)) \<and>
     (\<forall>e \<in> set (t_events d). 1 \<le> ev_sequence e \<and> ev_run e \<in> rn_id ` set (t_runs d))"

definition context_rows_ok :: "db \<Rightarrow> bool" where
  "context_rows_ok d \<longleftrightarrow> distinct (map (\<lambda>m. (cm_run m, cm_node m)) (t_context d)) \<and>
     distinct (map (\<lambda>m. (cm_run m, cm_ordering m)) (t_context d)) \<and>
     (\<forall>m \<in> set (t_context d). cm_classification m = Active \<and> cm_run m \<in> rn_id ` set (t_runs d) \<and>
        cm_node m \<in> (nd_id \<circ> snd) ` set (t_nodes d))"

definition defaults_ok :: "db \<Rightarrow> bool" where
  "defaults_ok d \<longleftrightarrow> distinct (map fst (t_defaults d)) \<and>
     (\<forall>row \<in> set (t_defaults d). fst row \<in> pr_id ` set (t_projects d) \<and>
        sql_nonempty (provider_str (rc_provider (fst (snd row)))) \<and>
        sql_nonempty (model_str (rc_model (fst (snd row)))))"

definition db_ok :: "db \<Rightarrow> bool" where
  "db_ok d \<longleftrightarrow> projects_ok d \<and> conversations_ok d \<and> nodes_ok d \<and> edges_ok d \<and> runs_ok d \<and>
     events_ok d \<and> context_rows_ok d \<and> defaults_ok d"

lemmas db_ok_defs = projects_ok_def conversations_ok_def nodes_ok_def edges_ok_def runs_ok_def
  events_ok_def context_rows_ok_def defaults_ok_def

lemma set_updates:
  "set (t_projects (set_project_name i nm d)) =
     (\<lambda>p. if pr_id p = i then p\<lparr>pr_name := nm\<rparr> else p) ` set (t_projects d)"
  "set (t_conversations (update_conversation c f d)) =
     (\<lambda>x. if cv_id x = c then f x else x) ` set (t_conversations d)"
  "set (t_runs (update_run r g d)) = (\<lambda>q. if rn_id q = r then g q else q) ` set (t_runs d)"
  by (simp_all add: set_project_name_def update_conversation_def update_run_def)

lemma projects_ok_step: "db_step d d' \<Longrightarrow> projects_ok d \<Longrightarrow> projects_ok d'"
  by (cases rule: db_step.cases)
     (auto simp: projects_ok_def project_violation_def set_updates split: if_splits)

lemma project_ids_mono: "db_step d d' \<Longrightarrow> pr_id ` set (t_projects d) \<subseteq> pr_id ` set (t_projects d')"
  by (cases rule: db_step.cases) auto

lemma conversation_ids_mono:
  "db_step d d' \<Longrightarrow> cv_id ` set (t_conversations d) \<subseteq> cv_id ` set (t_conversations d')"
  by (cases rule: db_step.cases) (auto simp: same_images [OF update_conversation_ids])

lemma node_ids_mono:
  assumes "db_step d d'"
  shows "(nd_id \<circ> snd) ` set (t_nodes d) \<subseteq> (nd_id \<circ> snd) ` set (t_nodes d')"
  using assms
proof cases
  case (Set_Payload i payload t)
  then show ?thesis by (simp only: update_keys)
qed auto

lemma run_ids_mono: "db_step d d' \<Longrightarrow> rn_id ` set (t_runs d) \<subseteq> rn_id ` set (t_runs d')"
  by (cases rule: db_step.cases) auto

lemma node_in_project_step:
  assumes "db_step d d'" and "node_in_project d p i"
  shows "node_in_project d' p i"
  using assms(1)
proof cases
  case (Add_Node q n)
  then show ?thesis using assms(2) by (auto simp: node_in_project_def)
next
  case (Set_Payload i payload t)
  then show ?thesis using assms(2) by simp
qed (use assms(2) in \<open>simp_all add: node_in_project_def\<close>)

lemma conversations_ok_step:
  assumes step: "db_step d d'" and ok: "conversations_ok d"
  shows "conversations_ok d'"
  using step
proof cases
  case (Add_Conversation c)
  then show ?thesis using ok by (auto simp: conversations_ok_def conversation_violation_def split: if_splits)
next
  case (Update_Conversation f i)
  then show ?thesis using ok
    by (auto simp: conversations_ok_def update_conversation_ids set_updates(2) same_thread_def)
qed (use ok project_ids_mono [OF step] in \<open>auto simp: conversations_ok_def\<close>)

lemma nodes_ok_step:
  assumes step: "db_step d d'" and ok: "nodes_ok d"
  shows "nodes_ok d'"
  using step
proof cases
  case (Add_Node p n)
  then show ?thesis using ok by (auto simp: nodes_ok_def node_violation_def split: if_splits)
next
  case (Set_Payload i payload t)
  have "fst ` set (t_nodes d') = fst ` set (t_nodes d)"
    unfolding Set_Payload by (rule same_images) simp
  moreover have "fst ` set (t_nodes d) \<subseteq> pr_id ` set (t_projects d)"
    using ok unfolding nodes_ok_def by blast
  ultimately have "\<forall>row \<in> set (t_nodes d'). fst row \<in> pr_id ` set (t_projects d)" by blast
  then show ?thesis using ok unfolding nodes_ok_def Set_Payload by simp
qed (use ok project_ids_mono [OF step] in \<open>auto simp: nodes_ok_def\<close>)

lemma edges_ok_step:
  assumes step: "db_step d d'" and ok: "edges_ok d"
  shows "edges_ok d'"
proof -
  have old: "\<forall>row \<in> set (t_edges d). ed_from (snd row) \<noteq> ed_to (snd row) \<and>
        fst row \<in> pr_id ` set (t_projects d') \<and> node_in_project d' (fst row) (ed_from (snd row)) \<and>
        node_in_project d' (fst row) (ed_to (snd row))"
    using ok project_ids_mono [OF step] node_in_project_step [OF step] by (auto simp: edges_ok_def)
  show ?thesis
    using step
  proof cases
    case (Add_Edge p e)
    have "project_row d p \<noteq> None" "ed_id e \<notin> (ed_id \<circ> snd) ` set (t_edges d)" "ed_from e \<noteq> ed_to e"
        "edge_key e \<notin> (edge_key \<circ> snd) ` set (t_edges d)"
        "node_in_project d p (ed_from e)" "node_in_project d p (ed_to e)"
      using Add_Edge(2) by (auto simp: edge_violation_def split: if_splits)
    moreover have "node_in_project d' = node_in_project d"
      using Add_Edge(1) by (simp add: fun_eq_iff node_in_project_def)
    ultimately show ?thesis
      using ok old by (simp add: edges_ok_def Add_Edge(1))
  qed (use ok old in \<open>simp_all add: edges_ok_def\<close>)
qed

lemma filter_update_run:
  "filter (\<lambda>r. rn_status r = Running) (t_runs (update_run i (finished_run st t err) d)) =
     filter (\<lambda>r. rn_status r = Running \<and> rn_id r \<noteq> i) (t_runs d)" if "st \<noteq> Running"
proof -
  have "filter (\<lambda>r. rn_status r = Running) (map (\<lambda>r. if rn_id r = i then finished_run st t err r else r) xs) =
      filter (\<lambda>r. rn_status r = Running \<and> rn_id r \<noteq> i) xs" for xs
    using that by (induction xs) (auto simp: finished_run_def)
  then show ?thesis by (simp add: update_run_def)
qed

lemma distinct_map_filter_conj:
  "distinct (map k (filter P xs)) \<Longrightarrow> distinct (map k (filter (\<lambda>x. P x \<and> Q x) xs))"
  by (induction xs) (auto split: if_splits)

lemma terminal_not_running: "terminal data st err \<Longrightarrow> st \<noteq> Running \<and> (st = Failed \<longleftrightarrow> err \<noteq> None)"
  by (cases data) auto

lemma runs_ok_step:
  assumes step: "db_step d d'" and ok: "runs_ok d"
  shows "runs_ok d'"
proof -
  have old: "\<forall>r \<in> set (t_runs d). run_checks r \<and> rn_project r \<in> pr_id ` set (t_projects d') \<and>
      rn_conversation r \<in> cv_id ` set (t_conversations d')"
    using ok project_ids_mono [OF step] conversation_ids_mono [OF step] by (auto simp: runs_ok_def)
  show ?thesis
    using step
  proof cases
    case (Start_Run r c e)
    have "rn_id r \<notin> rn_id ` set (t_runs d)" "run_checks r" "running_in d (rn_project r) = None"
        "project_row d (rn_project r) \<noteq> None" "conversation_row d (rn_conversation r) \<noteq> None"
      using Start_Run(2,3) by (auto simp: run_violation_def split: if_splits)
    then show ?thesis
      using ok old by (auto simp: runs_ok_def Start_Run(1) running_in_def find_None_iff)
  next
    case (Finish e st err t)
    note t = terminal_not_running [OF Finish(3)]
    have "run_checks (finished_run st t err r)" if "run_checks r" for r
      using that t by (auto simp: run_checks_def finished_run_def)
    moreover have "distinct (map rn_project (filter (\<lambda>r. rn_status r = Running) (t_runs d')))"
      using ok t unfolding Finish(1)
      by (simp add: filter_update_run runs_ok_def distinct_map_filter_conj)
    moreover have "distinct (map rn_id (t_runs d'))"
      using ok by (simp add: runs_ok_def Finish(1))
    ultimately show ?thesis
      using old unfolding runs_ok_def Finish(1)
      by (auto simp: set_updates(3)) (auto simp: finished_run_def)
  qed (use ok old in \<open>simp_all add: runs_ok_def\<close>)
qed

lemma events_ok_add:
  "events_ok d \<Longrightarrow> event_violation e d = None \<Longrightarrow> events_ok (add_event e d)"
  by (auto simp: events_ok_def event_violation_def split: if_splits)

lemma events_ok_step:
  assumes step: "db_step d d'" and ok: "events_ok d"
  shows "events_ok d'"
  using step
proof cases
  case (Start_Run r c e)
  have "events_ok (add_run r d)" using ok by (auto simp: events_ok_def)
  then show ?thesis using Start_Run(1,6) by (simp add: events_ok_add appendable_def)
next
  case (Append e)
  then show ?thesis using ok by (simp add: events_ok_add appendable_def)
next
  case (Finish e st err t)
  then have "events_ok (add_event e d)" using ok by (simp add: events_ok_add appendable_def)
  then show ?thesis by (simp add: events_ok_def Finish(1))
qed (use ok in \<open>simp_all add: events_ok_def\<close>)

lemma context_rows_distinct:
  assumes "distinct (map fst ms)"
  shows "distinct (map cm_node (context_rows d r ms))"
proof -
  have "map cm_node (context_rows d r ms) = map (\<lambda>m. fst (snd m)) (sort_key rank_key (ranked d ms))"
    using map_enumerate_snd [of fst snd 0 "sort_key rank_key (ranked d ms)"]
    by (simp add: context_rows_def comp_def)
  moreover have "distinct (map (\<lambda>m. fst (snd m)) (ranked d ms))"
    using assms by (simp add: ranked_def comp_def case_prod_unfold)
  ultimately show ?thesis
    by (simp add: distinct_map)
qed

lemma distinct_pair_append:
  assumes "distinct (map (\<lambda>m. (f m, g m)) xs)" and "distinct (map g ys)" and "\<forall>y \<in> set ys. f y = r"
  shows "distinct (map (\<lambda>m. (f m, g m)) (filter (\<lambda>m. f m \<noteq> r) xs @ ys))"
proof -
  have "distinct (map (\<lambda>m. (f m, g m)) ys)"
    using assms(2) by (auto simp: distinct_map inj_on_def)
  then show ?thesis
    using assms distinct_map_filterI [of "\<lambda>m. (f m, g m)" xs "\<lambda>m. f m \<noteq> r"] by auto
qed

lemma context_rows_ok_step:
  assumes step: "db_step d d'" and ok: "context_rows_ok d"
  shows "context_rows_ok d'"
proof -
  have old: "\<forall>m \<in> set (t_context d). cm_classification m = Active \<and> cm_run m \<in> rn_id ` set (t_runs d') \<and>
        cm_node m \<in> (nd_id \<circ> snd) ` set (t_nodes d')"
    using ok run_ids_mono [OF step] node_ids_mono [OF step] unfolding context_rows_ok_def
    by (meson subsetD)
  show ?thesis
    using step
  proof cases
    case (Replace_Context r q ms)
    let ?rows = "context_rows d r ms"
    have "distinct (map cm_ordering ?rows)" by (simp add: context_rows_ordering)
    moreover have "\<forall>m \<in> set ?rows. cm_run m = r \<and> cm_classification m = Active"
      by (auto dest: context_rows_run)
    moreover have "r \<in> rn_id ` set (t_runs d')" using Replace_Context by (auto dest!: run_row_id)
    moreover have "\<forall>m \<in> set ?rows. cm_node m \<in> (nd_id \<circ> snd) ` set (t_nodes d')"
    proof
      fix m assume "m \<in> set ?rows"
      then have "cm_node m \<in> fst ` set ms" using context_rows_nodes [of d r ms] by blast
      then obtain x where x: "x \<in> set ms" "cm_node m = fst x" by blast
      then have "node_of d (cm_node m) \<noteq> None" using Replace_Context(5) by simp
      then have "cm_node m \<in> (nd_id \<circ> snd) ` set (t_nodes d)"
        by (simp only: node_of_None not_not)
      then show "cm_node m \<in> (nd_id \<circ> snd) ` set (t_nodes d')" by (simp add: Replace_Context(1))
    qed
    ultimately show ?thesis
      using ok old context_rows_distinct [OF Replace_Context(4), of d r]
        distinct_pair_append [of cm_run cm_node "t_context d" ?rows r]
        distinct_pair_append [of cm_run cm_ordering "t_context d" ?rows r]
      unfolding context_rows_ok_def Replace_Context(1) by auto
  qed (use ok old in \<open>simp_all add: context_rows_ok_def\<close>)
qed

lemma defaults_ok_step:
  assumes step: "db_step d d'" and ok: "defaults_ok d"
  shows "defaults_ok d'"
proof -
  have old: "\<forall>row \<in> set (t_defaults d). fst row \<in> pr_id ` set (t_projects d') \<and>
        sql_nonempty (provider_str (rc_provider (fst (snd row)))) \<and>
        sql_nonempty (model_str (rc_model (fst (snd row))))"
    using ok project_ids_mono [OF step] unfolding defaults_ok_def by (meson subsetD)
  show ?thesis
    using step
  proof cases
    case (Set_Defaults p c t)
    have new: "sql_nonempty (provider_str (rc_provider c))" "sql_nonempty (model_str (rc_model c))"
        "p \<in> pr_id ` set (t_projects d)"
      using Set_Defaults(2) by (auto simp: defaults_violation_def split: if_splits)
    have "map fst (map (\<lambda>row. if fst row = p then (p, c, t) else row) xs) = map fst xs" for xs
      by (induction xs) auto
    then have "distinct (map fst (t_defaults d'))"
      using ok unfolding Set_Defaults(1) upsert_defaults_def defaults_ok_def
      by (cases "p \<in> fst ` set (t_defaults d)") (simp_all del: map_map)
    moreover have "set (t_defaults d') \<subseteq> insert (p, c, t) (set (t_defaults d))"
      unfolding Set_Defaults(1) upsert_defaults_def by auto
    ultimately show ?thesis
      using ok new unfolding defaults_ok_def Set_Defaults(1) by fastforce
  qed (use ok old in \<open>simp_all add: defaults_ok_def\<close>)
qed

interpretation schema: store_invariant db_ok
proof
  fix d d'
  assume step: "db_step d d'" and ok: "db_ok d"
  show "db_ok d'"
    using ok projects_ok_step [OF step] conversations_ok_step [OF step] nodes_ok_step [OF step]
      edges_ok_step [OF step] runs_ok_step [OF step] events_ok_step [OF step]
      context_rows_ok_step [OF step] defaults_ok_step [OF step]
    unfolding db_ok_def by blast
qed

section \<open>Acyclicity\<close>

interpretation acyclic_dag: store_invariant "\<lambda>d. acyclic (edge_rel d)"
proof
  fix d d'
  assume step: "db_step d d'" and ok: "acyclic (edge_rel d)"
  show "acyclic (edge_rel d')"
    using step
  proof cases
    case (Add_Edge p e)
    then show ?thesis using ok by (simp add: edge_error_None_iff acyclic_insert)
  qed (use ok in \<open>simp_all add: edge_rel_def edge_pairs_def\<close>)
qed

lemma empty_db_ok: "db_ok empty_db"
  by (simp add: db_ok_def db_ok_defs empty_db_def)

lemma empty_db_acyclic: "acyclic (edge_rel empty_db)"
  by (simp add: edge_rel_def edge_pairs_def empty_db_def acyclic_def)

end
