(* ===== verification/Run_History.thy ===== *)
theory Run_History
  imports Store_Invariants "HOL-Library.Sublist"
begin

text \<open>
  The lifecycle of runs as their event histories record it (\<open>store/runs.rs\<close>, \<open>store/events.rs\<close>): each
  run's events are numbered 1, 2, 3, ... without a gap, begin with \<open>run.started\<close>, end with the terminal
  event that its status names, and hold no lifecycle event in between. Then what never changes: a
  finished run with its events and context, every edge and event, and the identity of every node.
\<close>

section \<open>Well-formed histories\<close>

definition started :: "run \<Rightarrow> event_data" where
  "started r = Run_Started (rn_provider r) (rn_model r) (rn_prompt r)"

definition history_shape :: "run \<Rightarrow> event_data list \<Rightarrow> bool" where
  "history_shape r ds \<longleftrightarrow>
     (\<exists>mid. (\<forall>x \<in> set mid. \<not> lifecycle x) \<and>
        (if rn_status r = Running then ds = started r # mid
         else (\<exists>x. terminal x (rn_status r) (rn_error r) \<and> ds = started r # mid @ [x])))"

definition numbered :: "event list \<Rightarrow> bool" where
  "numbered es \<longleftrightarrow> map ev_sequence es = [1..<Suc (length es)]"

definition history_ok :: "db \<Rightarrow> bool" where
  "history_ok d \<longleftrightarrow> (\<forall>r \<in> set (t_runs d). numbered (run_events d (rn_id r)) \<and>
     history_shape r (map ev_data (run_events d (rn_id r))))"

lemma run_events_simps [simp]:
  "run_events (add_event e d) i = run_events d i @ (if ev_run e = i then [e] else [])"
  "run_events (add_run r d) i = run_events d i"
  "run_events (update_run j g d) i = run_events d i"
  by (simp_all add: run_events_def)

lemma run_events_same: "t_events d' = t_events d \<Longrightarrow> run_events d' = run_events d"
  by (simp add: run_events_def fun_eq_iff)

lemma fold_max_upt: "fold max [Suc 0..<Suc n] 0 = n"
  by (induction n) auto

lemma next_sequence_numbered: "numbered (run_events d i) \<Longrightarrow> next_sequence d i = Suc (length (run_events d i))"
  by (simp add: next_sequence_def numbered_def fold_max_upt del: upt_Suc)

lemma numbered_snoc: "numbered es \<Longrightarrow> ev_sequence e = Suc (length es) \<Longrightarrow> numbered (es @ [e])"
  by (simp add: numbered_def)

lemma run_row_unique:
  assumes "runs_ok d" and "run_row d i = Some q" and "r \<in> set (t_runs d)" and "rn_id r = i"
  shows "r = q"
  using assms run_row_id [OF assms(2)] by (auto simp: runs_ok_def distinct_map dest: inj_onD)

lemma run_row_member: "runs_ok d \<Longrightarrow> r \<in> set (t_runs d) \<Longrightarrow> run_row d (rn_id r) = Some r"
  using run_row_unique by (metis imageI not_None_eq run_row_None)

lemma no_events_of_new_run:
  "events_ok d \<Longrightarrow> i \<notin> rn_id ` set (t_runs d) \<Longrightarrow> run_events d i = []"
  by (force simp: run_events_def events_ok_def filter_empty_conv)

lemma history_append:
  assumes "numbered (run_events d (ev_run e))" and "ev_sequence e = next_sequence d (ev_run e)"
  shows "numbered (run_events (add_event e d) i) \<longleftrightarrow>
    (if ev_run e = i then True else numbered (run_events d i))"
  using assms by (auto simp: next_sequence_numbered numbered_snoc)

lemma history_ok_step:
  assumes step: "db_step d d'" and ok: "db_ok d" "history_ok d"
  shows "history_ok d'"
proof -
  have runs: "runs_ok d" and events: "events_ok d" using ok(1) by (auto simp: db_ok_def)
  have other: "numbered (run_events d (rn_id r)) \<and> history_shape r (map ev_data (run_events d (rn_id r)))"
    if "r \<in> set (t_runs d)" for r
    using ok(2) that unfolding history_ok_def by blast
  have running: "\<exists>q. q \<in> set (t_runs d) \<and> rn_id q = ev_run e \<and> rn_status q = Running \<and>
      (\<forall>r \<in> set (t_runs d). rn_id r = ev_run e \<longrightarrow> r = q)" if app: "appendable d e" for e
  proof -
    obtain q where q: "run_row d (ev_run e) = Some q" "rn_status q = Running"
      using app by (auto simp: appendable_def)
    with run_row_id [OF q(1)] run_row_unique [OF runs q(1)] show ?thesis by blast
  qed
  show ?thesis
    using step
  proof cases
    case (Start_Run r c e)
    have fresh: "rn_id r \<notin> rn_id ` set (t_runs d)"
      using Start_Run(2) by (auto simp: run_violation_def split: if_splits)
    note none = no_events_of_new_run [OF events fresh]
    have seq: "ev_sequence e = 1"
      using Start_Run(6,7) none by (simp add: appendable_def next_sequence_def)
    show ?thesis
      unfolding history_ok_def Start_Run(1)
    proof
      fix x assume "x \<in> set (t_runs (add_event e (add_run r d)))"
      then have "x = r \<or> x \<in> set (t_runs d)" by auto
      then consider "x = r" | "x \<in> set (t_runs d)" "rn_id x \<noteq> rn_id r" using fresh by (metis imageI)
      then show "numbered (run_events (add_event e (add_run r d)) (rn_id x)) \<and>
          history_shape x (map ev_data (run_events (add_event e (add_run r d)) (rn_id x)))"
      proof cases
        case 1
        then show ?thesis
          using Start_Run(3,7,8) none seq by (simp add: numbered_def history_shape_def started_def)
      next
        case 2
        then show ?thesis using other [of x] Start_Run(7) by simp
      qed
    qed
  next
    case (Append e)
    obtain q where q: "q \<in> set (t_runs d)" "rn_id q = ev_run e" "rn_status q = Running"
      and uniq: "\<forall>r \<in> set (t_runs d). rn_id r = ev_run e \<longrightarrow> r = q"
      using running [OF Append(2)] by blast
    have num: "numbered (run_events d (ev_run e))" using other [OF q(1)] q(2) by simp
    have seq: "ev_sequence e = Suc (length (run_events d (ev_run e)))"
      using Append(2) next_sequence_numbered [OF num] by (simp add: appendable_def)
    show ?thesis
      unfolding history_ok_def Append(1)
    proof
      fix x assume "x \<in> set (t_runs (add_event e d))"
      then have x: "x \<in> set (t_runs d)" by simp
      show "numbered (run_events (add_event e d) (rn_id x)) \<and>
          history_shape x (map ev_data (run_events (add_event e d) (rn_id x)))"
      proof (cases "rn_id x = ev_run e")
        case True
        then have "x = q" using uniq x by blast
        moreover obtain mid where "\<forall>y \<in> set mid. \<not> lifecycle y"
            "map ev_data (run_events d (ev_run e)) = started q # mid"
          using other [OF q(1)] q(2,3) by (auto simp: history_shape_def)
        ultimately show ?thesis
          using True q(3) num seq Append(3)
          by (auto simp: numbered_snoc history_shape_def intro!: exI [of _ "mid @ [ev_data e]"])
      next
        case False
        then show ?thesis using other [OF x] by simp
      qed
    qed
  next
    case (Finish e st err t)
    obtain q where q: "q \<in> set (t_runs d)" "rn_id q = ev_run e" "rn_status q = Running"
      and uniq: "\<forall>r \<in> set (t_runs d). rn_id r = ev_run e \<longrightarrow> r = q"
      using running [OF Finish(2)] by blast
    have num: "numbered (run_events d (ev_run e))" using other [OF q(1)] q(2) by simp
    have seq: "ev_sequence e = Suc (length (run_events d (ev_run e)))"
      using Finish(2) next_sequence_numbered [OF num] by (simp add: appendable_def)
    show ?thesis
      unfolding history_ok_def Finish(1)
    proof
      fix x assume "x \<in> set (t_runs (update_run (ev_run e) (finished_run st t err) (add_event e d)))"
      then obtain y where y: "y \<in> set (t_runs d)"
        and x: "x = (if rn_id y = ev_run e then finished_run st t err y else y)"
        by (auto simp: set_updates(3))
      show "numbered (run_events (update_run (ev_run e) (finished_run st t err) (add_event e d)) (rn_id x)) \<and>
          history_shape x (map ev_data (run_events
            (update_run (ev_run e) (finished_run st t err) (add_event e d)) (rn_id x)))"
      proof (cases "rn_id y = ev_run e")
        case True
        then have yq: "y = q" using uniq y by blast
        obtain mid where "\<forall>z \<in> set mid. \<not> lifecycle z"
            "map ev_data (run_events d (ev_run e)) = started q # mid"
          using other [OF q(1)] q(2,3) by (auto simp: history_shape_def)
        then show ?thesis
          using True yq num seq Finish(3) terminal_not_running [OF Finish(3)]
          by (auto simp: x numbered_snoc history_shape_def finished_run_def started_def)
      next
        case False
        then show ?thesis using other [OF y] by (simp add: x)
      qed
    qed
  qed (use ok(2) in \<open>simp_all add: history_ok_def run_events_def\<close>)
qed

interpretation history: store_invariant "\<lambda>d. db_ok d \<and> history_ok d"
  using schema.step_keeps history_ok_step by unfold_locales blast

lemma empty_history_ok: "history_ok empty_db"
  by (simp add: history_ok_def empty_db_def)

text \<open>In a well-formed history the order of sequence numbers is the order of insertion.\<close>

lemma sort_key_sorted: "sorted (map k xs) \<Longrightarrow> sort_key k xs = xs"
  by (induction xs) (simp_all add: insort_is_Cons)

lemma events_of_numbered: "numbered (run_events d i) \<Longrightarrow> events_of d i = run_events d i"
proof -
  assume num: "numbered (run_events d i)"
  then have "\<forall>n \<in> set (map ev_sequence (run_events d i)). 0 < n" by (simp add: numbered_def del: upt_Suc)
  then have "filter (\<lambda>e. ev_run e = i \<and> 0 < ev_sequence e) (t_events d) = run_events d i"
    by (auto simp: run_events_def intro!: filter_cong)
  moreover have "sorted (map ev_sequence (run_events d i))"
    using num unfolding numbered_def by (simp only: sorted_upt)
  ultimately show ?thesis by (simp add: events_of_def events_after_def sort_key_sorted)
qed

section \<open>Durability\<close>

definition node_identity :: "project_id \<times> dag_node \<Rightarrow> project_id \<times> node_id \<times> node_type \<times> timestamp" where
  "node_identity row = (fst row, nd_id (snd row), nd_type (snd row), nd_created_at (snd row))"

definition run_identity :: "run \<Rightarrow> run_id \<times> project_id \<times> conversation_id \<times> run_config \<times> timestamp" where
  "run_identity r = (rn_id r, rn_project r, rn_conversation r, run_config_of r, rn_started_at r)"

definition conversation_identity :: "conversation \<Rightarrow> conversation_id \<times> project_id \<times> timestamp" where
  "conversation_identity c = (cv_id c, cv_project c, cv_created_at c)"

text \<open>What no operation ever takes back.\<close>

definition durable :: "db \<Rightarrow> db \<Rightarrow> bool" where
  "durable d d' \<longleftrightarrow> prefix (map node_identity (t_nodes d)) (map node_identity (t_nodes d')) \<and>
     prefix (t_edges d) (t_edges d') \<and> prefix (t_events d) (t_events d') \<and>
     prefix (map run_identity (t_runs d)) (map run_identity (t_runs d')) \<and>
     prefix (map conversation_identity (t_conversations d))
       (map conversation_identity (t_conversations d'))"

interpretation durable: database_order durable
  by unfold_locales (auto simp: durable_def intro: prefix_order.trans)

lemma identity_maps:
  "map node_identity (t_nodes (set_payload i payload t d)) = map node_identity (t_nodes d)"
  "map run_identity (t_runs (update_run j (finished_run st u err) d)) = map run_identity (t_runs d)"
  "same_thread f \<Longrightarrow> map conversation_identity (t_conversations (update_conversation c f d)) =
     map conversation_identity (t_conversations d)"
  by (auto simp: set_payload_def update_run_def update_conversation_def node_identity_def
      run_identity_def conversation_identity_def finished_run_def run_config_of_def same_thread_def)

lemma step_durable: "db_step d d' \<Longrightarrow> durable d d'"
  by (cases rule: db_step.cases) (auto simp: durable_def identity_maps)

lemma steps_durable: "db_steps d d' \<Longrightarrow> durable d d'"
  by (induction rule: rtranclp_induct) (auto intro: durable.refl durable.trans step_durable)

section \<open>Finished runs are frozen\<close>

definition frozen :: "db \<Rightarrow> db \<Rightarrow> bool" where
  "frozen d d' \<longleftrightarrow> (\<forall>i q. run_row d i = Some q \<longrightarrow> rn_status q \<noteq> Running \<longrightarrow>
     run_row d' i = Some q \<and> run_events d' i = run_events d i \<and> context_of d' i = context_of d i)"

lemma run_row_same: "t_runs d' = t_runs d \<Longrightarrow> run_row d' = run_row d"
  by (simp add: run_row_def fun_eq_iff)

lemma step_frozen:
  assumes step: "db_step d d'" and ok: "db_ok d"
  shows "frozen d d'"
  unfolding frozen_def
proof (intro allI impI)
  fix i q assume q: "run_row d i = Some q" "rn_status q \<noteq> Running"
  have other: "i \<noteq> ev_run e" if "appendable d e" for e
    using that q by (auto simp: appendable_def)
  show "run_row d' i = Some q \<and> run_events d' i = run_events d i \<and> context_of d' i = context_of d i"
    using step
  proof cases
    case (Start_Run r c e)
    have "rn_id r \<notin> rn_id ` set (t_runs d)"
      using Start_Run(2) by (auto simp: run_violation_def split: if_splits)
    then have "i \<noteq> rn_id r" using run_row_id [OF q(1)] by (metis imageI)
    then show ?thesis
      using q(1) Start_Run(7) by (simp add: Start_Run(1) run_row_def find_append context_of_def)
  next
    case (Append e)
    then show ?thesis using q(1) other [OF Append(2)]
      by (simp add: Append(1) run_row_def context_of_def)
  next
    case (Finish e st err t)
    have "find (\<lambda>r. rn_id r = i)
        (map (\<lambda>r. if rn_id r = ev_run e then finished_run st t err r else r) (t_runs d)) = Some q"
      using q(1) other [OF Finish(2)] run_row_id [OF q(1)] unfolding run_row_def
      by (subst find_map_same) (auto simp: finished_run_def)
    then show ?thesis using other [OF Finish(2)]
      by (simp add: Finish(1) run_row_def context_of_def update_run_def) (simp add: run_events_def add_event_def)
  next
    case (Replace_Context r q' ms)
    have "r \<noteq> i" using Replace_Context(2,3) q by auto
    then have "filter (\<lambda>m. cm_run m = i) (context_rows d r ms) = []"
      by (auto simp: filter_empty_conv dest: context_rows_run)
    moreover have "filter (\<lambda>x. cm_run x \<noteq> r \<and> cm_run x = i) xs = filter (\<lambda>m. cm_run m = i) xs"
      for xs :: "context_member list"
      using \<open>r \<noteq> i\<close> by (induction xs) auto
    ultimately show ?thesis using q(1)
      by (simp add: Replace_Context(1) run_row_def run_events_def context_of_def)
  qed (use q in \<open>simp_all add: run_row_def run_events_def context_of_def\<close>)
qed

lemma steps_frozen: "db_steps d d' \<Longrightarrow> db_ok d \<Longrightarrow> frozen d d'"
proof (induction rule: rtranclp_induct)
  case base
  then show ?case by (simp add: frozen_def)
next
  case (step d1 d2)
  have "frozen d d1" using step by blast
  moreover have "frozen d1 d2"
    using step schema.steps_keep step_frozen by blast
  ultimately show ?case unfolding frozen_def by metis
qed

end
