(* ===== verification/Store_Api.thy ===== *)
theory Store_Api
  imports Run_History
begin

text \<open>
  The public interface of \<open>Tx\<close> as a whole: \<open>tx_op\<close> names every public operation that writes,
  \<open>exec_op\<close> runs it, and a session is a list of transactions of such operations, in any order, run
  against a fresh database. The properties of the store are stated for every session.

  \<open>append_event\<close> is public and takes any event; a client that appends lifecycle events itself could
  contradict the run's status, so sessions are restricted to the other events, which is what all code
  under \<open>src/\<close> appends (\<open>create_run_in\<close>, \<open>complete_run\<close> and \<open>fail_run\<close> append theirs).
\<close>

section \<open>Sessions\<close>

datatype tx_op =
    Op_Create_Project string
  | Op_Rename_Project project_id string
  | Op_Create_Conversation project_id string
  | Op_Rename_Conversation conversation_id string
  | Op_Archive_Conversation conversation_id bool
  | Op_Insert_Node project_id node_type payload
  | Op_Update_Node node_id payload
  | Op_Insert_Edge project_id node_id node_id edge_type
  | Op_Create_Run project_id run_config
  | Op_Create_Run_In conversation_id run_config
  | Op_Append_Event run_id event_data
  | Op_Complete_Run run_id
  | Op_Fail_Run run_id error_code string
  | Op_Replace_Context run_id "membership list"
  | Op_Set_Defaults project_id run_config

fun exec_op :: "tx_op \<Rightarrow> unit tx" where
  "exec_op (Op_Create_Project name) = discard (create_project name)"
| "exec_op (Op_Rename_Project p name) = discard (rename_project p name)"
| "exec_op (Op_Create_Conversation p title) = discard (create_conversation p title)"
| "exec_op (Op_Rename_Conversation c title) = discard (rename_conversation c title)"
| "exec_op (Op_Archive_Conversation c b) = discard (set_conversation_archived c b)"
| "exec_op (Op_Insert_Node p ty payload) = discard (insert_node p ty payload)"
| "exec_op (Op_Update_Node n payload) = discard (update_node_payload n payload)"
| "exec_op (Op_Insert_Edge p from to ty) = discard (insert_edge p from to ty)"
| "exec_op (Op_Create_Run p config) = discard (create_run p config)"
| "exec_op (Op_Create_Run_In c config) = discard (create_run_in c config)"
| "exec_op (Op_Append_Event r data) = discard (append_event r data)"
| "exec_op (Op_Complete_Run r) = discard (complete_run r)"
| "exec_op (Op_Fail_Run r code message) = discard (fail_run r code message)"
| "exec_op (Op_Replace_Context r members) = discard (replace_context r members)"
| "exec_op (Op_Set_Defaults p config) = discard (set_run_defaults p config)"

fun ordinary :: "tx_op \<Rightarrow> bool" where
  "ordinary (Op_Append_Event r data) \<longleftrightarrow> \<not> lifecycle data"
| "ordinary _ \<longleftrightarrow> True"

definition exec_ops :: "tx_op list \<Rightarrow> unit tx" where
  "exec_ops ops = for_each ops exec_op"

text \<open>A session: each transaction commits or rolls back, then the next one runs.\<close>

fun session :: "tx_op list list \<Rightarrow> store \<Rightarrow> store" where
  "session [] s = s"
| "session (ops # rest) s = session rest (snd (transaction (exec_ops ops) s))"

lemma exec_op_moves: "ordinary op \<Longrightarrow> moves db_steps (exec_op op)"
proof (cases op)
  case (Op_Append_Event r data)
  assume "ordinary op"
  then show ?thesis
    unfolding Op_Append_Event exec_op.simps discard_def
    by (intro steps_intros append_event_moves) simp
qed (simp_all only: exec_op.simps discard_def, (intro steps_intros)+)

lemma exec_ops_moves: "list_all ordinary ops \<Longrightarrow> moves db_steps (exec_ops ops)"
proof (induction ops)
  case (Cons op ops)
  then show ?case
    unfolding exec_ops_def for_each.simps by (intro steps.moves_andthen exec_op_moves) simp_all
qed (simp add: exec_ops_def steps.moves_ret)

lemma session_steps: "list_all (list_all ordinary) txs \<Longrightarrow> db_steps (conn s) (conn (session txs s))"
proof (induction txs arbitrary: s)
  case (Cons ops txs)
  then have "db_steps (conn s) (conn (snd (transaction (exec_ops ops) s)))"
    by (intro steps.transaction_moves exec_ops_moves) simp
  with Cons show ?case by (fastforce intro: rtranclp_trans)
qed simp

section \<open>What the listener sees\<close>

text \<open>
  \<open>logs m\<close>: an effect adds events to the database by appending them, and, when events are collected,
  collects exactly those; it never calls the listener and never switches collecting on or off.
\<close>

definition logs :: "'a tx \<Rightarrow> bool" where
  "logs m \<longleftrightarrow> (\<forall>s r u. m s = (r, u) \<longrightarrow> observed u = observed s \<and> listening u = listening s \<and>
     (\<exists>es. t_events (conn u) = t_events (conn s) @ es \<and>
        appended u = map_option (\<lambda>xs. xs @ es) (appended s)))"

lemma logsD:
  assumes "logs m" and "m s = (r, u)"
  obtains es where "observed u = observed s" "listening u = listening s"
    "t_events (conn u) = t_events (conn s) @ es" "appended u = map_option (\<lambda>xs. xs @ es) (appended s)"
  using assms unfolding logs_def by blast

lemma logsI:
  "(\<And>s r u. m s = (r, u) \<Longrightarrow> observed u = observed s \<and> listening u = listening s \<and>
     (\<exists>es. t_events (conn u) = t_events (conn s) @ es \<and>
        appended u = map_option (\<lambda>xs. xs @ es) (appended s))) \<Longrightarrow> logs m"
  unfolding logs_def by blast

lemma logs_same:
  assumes "\<And>s r u. m s = (r, u) \<Longrightarrow> observed u = observed s \<and> listening u = listening s \<and>
    t_events (conn u) = t_events (conn s) \<and> appended u = appended s"
  shows "logs m"
proof (rule logsI)
  fix s r u assume "m s = (r, u)"
  from assms [OF this] show "observed u = observed s \<and> listening u = listening s \<and>
     (\<exists>es. t_events (conn u) = t_events (conn s) @ es \<and>
        appended u = map_option (\<lambda>xs. xs @ es) (appended s))"
    by (auto intro!: exI [of _ "[]"] simp: option.map_ident)
qed

named_theorems logs_intros \<open>effects whose events are exactly what they collect\<close>

lemma logs_ret [logs_intros]: "logs (ret a)" and logs_throw [logs_intros]: "logs (throw e)"
  by (rule logs_same; simp)+

lemma logs_now [logs_intros]: "logs now"
  by (rule logs_same) (auto simp: now_def)

lemma logs_fresh_id [logs_intros]: "logs (fresh_id p)"
  by (rule logs_same) (auto simp: fresh_id_def split: option.splits)

lemma logs_require [logs_intros]: "logs (require e f)"
  by (rule logs_same) (auto simp: require_def split: option.splits)

lemma logs_query [logs_intros]: "(\<And>a. logs (g a)) \<Longrightarrow> logs (query f g)"
  by (simp add: logs_def query_def)

lemma logs_andthen [logs_intros]:
  assumes "logs m" and "\<And>a. logs (f a)"
  shows "logs (andthen m f)"
proof (rule logsI)
  fix s r u assume run: "andthen m f s = (r, u)"
  obtain r1 v where m: "m s = (r1, v)" by force
  obtain es where es: "observed v = observed s" "listening v = listening s"
      "t_events (conn v) = t_events (conn s) @ es" "appended v = map_option (\<lambda>xs. xs @ es) (appended s)"
    using logsD [OF assms(1) m] .
  show "observed u = observed s \<and> listening u = listening s \<and>
     (\<exists>es. t_events (conn u) = t_events (conn s) @ es \<and>
        appended u = map_option (\<lambda>xs. xs @ es) (appended s))"
  proof (cases r1)
    case (Inl e)
    then show ?thesis using run m es by (auto simp: andthen_def)
  next
    case (Inr a)
    then have "f a v = (r, u)" using run m by (simp add: andthen_def)
    then obtain fs where "observed u = observed v" "listening u = listening v"
        "t_events (conn u) = t_events (conn v) @ fs" "appended u = map_option (\<lambda>xs. xs @ fs) (appended v)"
      by (rule logsD [OF assms(2)])
    with es show ?thesis
      by (auto intro!: exI [of _ "es @ fs"] simp: option.map_comp comp_def)
  qed
qed

lemma logs_execute [logs_intros]:
  "(\<And>d. t_events (c d) = t_events d) \<Longrightarrow> logs (execute v c)"
  by (rule logs_same) (auto simp: execute_def split: option.splits)

lemma logs_for_each [logs_intros]: "(\<And>x. logs (f x)) \<Longrightarrow> logs (for_each xs f)"
  by (induction xs) (auto intro: logs_intros)

lemma logs_if [logs_intros]: "logs m \<Longrightarrow> logs n \<Longrightarrow> logs (if b then m else n)"
  by simp

lemma logs_option [logs_intros]:
  "logs m \<Longrightarrow> (\<And>x. logs (f x)) \<Longrightarrow> logs (case v of None \<Rightarrow> m | Some x \<Rightarrow> f x)"
  by (cases v) auto

lemma logs_sum [logs_intros]:
  "(\<And>x. logs (f x)) \<Longrightarrow> (\<And>y. logs (g y)) \<Longrightarrow> logs (case v of Inl x \<Rightarrow> f x | Inr y \<Rightarrow> g y)"
  by (cases v) auto

lemma logs_record_event: "logs (andthen (execute (event_violation e) (add_event e))
    (\<lambda>_. andthen (note_appended e) (\<lambda>_. ret e)))"
proof (rule logsI)
  fix s r u
  assume "andthen (execute (event_violation e) (add_event e))
    (\<lambda>_. andthen (note_appended e) (\<lambda>_. ret e)) s = (r, u)"
  then consider "u = s" | "u = s\<lparr>conn := add_event e (conn s),
      appended := map_option (\<lambda>es. es @ [e]) (appended s)\<rparr>"
    by (auto simp: andthen_def execute_def note_appended_def split: option.splits)
  then show "observed u = observed s \<and> listening u = listening s \<and>
     (\<exists>es. t_events (conn u) = t_events (conn s) @ es \<and>
        appended u = map_option (\<lambda>xs. xs @ es) (appended s))"
    by cases (auto intro: exI [of _ "[]"] exI [of _ "[e]"] simp: option.map_ident)
qed

lemma logs_append_event [logs_intros]: "logs (append_event r data)"
  unfolding append_event_def require_running_def Let_def by (intro logs_intros logs_record_event)

lemma logs_exec_op [logs_intros]: "logs (exec_op op)"
proof (cases op)
  case (Op_Archive_Conversation c b)
  have choice: "logs (case (b, at') of
      (True, Some t) \<Rightarrow> ret (Some t) | (True, None) \<Rightarrow> andthen now (\<lambda>t. ret (Some t))
    | (False, _) \<Rightarrow> ret None)" for at' :: "timestamp option"
    by (cases b; cases at') (auto intro: logs_intros)
  show ?thesis
    unfolding Op_Archive_Conversation exec_op.simps discard_def set_conversation_archived_def
      require_conversation_def
    by (intro logs_intros choice) simp
next
  case (Op_Replace_Context r ms)
  show ?thesis
    unfolding Op_Replace_Context exec_op.simps discard_def replace_context_def require_running_def
    by (intro logs_intros) (simp_all add: clear_context_def add_member_def)
qed (simp_all only: exec_op.simps discard_def create_project_def rename_project_def
      create_conversation_def rename_conversation_def insert_node_def update_node_payload_def
      insert_edge_def validate_edge_def create_run_def create_run_in_def touch_conversation_def
      complete_run_def fail_run_def finish_run_def set_run_defaults_def require_project_def
      require_conversation_def Let_def,
     ((intro logs_intros; simp)+))

lemma logs_exec_ops: "logs (exec_ops ops)"
  unfolding exec_ops_def by (intro logs_intros)

text \<open>A store just opened on a new database.\<close>

definition open_store :: "(nat \<Rightarrow> timestamp) \<Rightarrow> id_source \<Rightarrow> bool \<Rightarrow> store" where
  "open_store clk gen listens =
     \<lparr>conn = empty_db, clock = clk, ticks = 0, ids = gen, id_log = [], listening = listens,
      appended = None, observed = []\<rparr>"

lemma transaction_logs:
  assumes "logs m"
  shows "case transaction m s of
    (Inl e, u) \<Rightarrow> conn u = conn s \<and> observed u = observed s \<and> listening u = listening s
  | (Inr x, u) \<Rightarrow> listening u = listening s \<and> (\<exists>es. t_events (conn u) = t_events (conn s) @ es \<and>
      observed u = observed s @ (if listening s \<and> es \<noteq> [] then [es] else []))"
proof -
  obtain r v where m: "m (s\<lparr>appended := (if listening s then Some [] else None)\<rparr>) = (r, v)" by force
  obtain es where "observed v = observed s" "listening v = listening s"
      "t_events (conn v) = t_events (conn s) @ es"
      "appended v = map_option (\<lambda>xs. xs @ es) (if listening s then Some [] else None)"
    by (rule logsD [OF assms m]) simp
  then show ?thesis
    by (cases r) (auto simp: transaction_def m Let_def split: if_splits)
qed

lemma session_observed:
  "listening s \<Longrightarrow> concat (observed s) = t_events (conn s) \<Longrightarrow>
   concat (observed (session txs s)) = t_events (conn (session txs s))"
proof (induction txs arbitrary: s)
  case (Cons ops txs)
  obtain r u where u: "transaction (exec_ops ops) s = (r, u)" by force
  have "listening u \<and> concat (observed u) = t_events (conn u)"
    using transaction_logs [OF logs_exec_ops, of s ops] Cons.prems u
    by (cases r) (auto split: if_splits)
  then show ?case using Cons.IH [of u] u by simp
qed simp

lemma session_append: "session (txs @ later) s = session later (session txs s)"
  by (induction txs arbitrary: s) simp_all

lemma session_keeps:
  assumes "list_all (list_all ordinary) txs"
  shows "db_ok (conn (session txs (open_store clk gen l))) \<and>
    history_ok (conn (session txs (open_store clk gen l))) \<and>
    acyclic (edge_rel (conn (session txs (open_store clk gen l))))"
proof -
  have "db_steps empty_db (conn (session txs (open_store clk gen l)))"
    using session_steps [OF assms, of "open_store clk gen l"] by (simp add: open_store_def)
  then show ?thesis
    using history.steps_keep acyclic_dag.steps_keep empty_db_ok empty_history_ok empty_db_acyclic
    by blast
qed

section \<open>Properties\<close>

text \<open>C5. However a client uses the store, every committed state satisfies the integrity that the
  schema declares (unique keys, existing references, at most one running run per project, edges
  inside one project between different nodes, status agreeing with completion time and error
  code), and the graph of each and all projects is acyclic.\<close>

theorem session_integrity:
  assumes "list_all (list_all ordinary) txs"
  shows "db_ok (conn (session txs (open_store clk gen l))) \<and>
    acyclic (edge_rel (conn (session txs (open_store clk gen l))))"
  using session_keeps [OF assms] by blast

lemma session_integrity_witness:
  "db_ok (conn (session [[Op_Create_Project ''demo''], [Op_Create_Project ''other'']]
     (open_store (\<lambda>n. Timestamp (int n)) sequential_ids True)))"
  using session_integrity [of "[[Op_Create_Project ''demo''], [Op_Create_Project ''other'']]"] by simp

text \<open>C6. Every run's history tells its life, whatever was done through the store: its events carry the
  sequence numbers 1, 2, 3, ... in order; the first is \<open>run.started\<close> with the run's own provider, model
  and prompt; a running run has no terminal event; a completed run ends with \<open>run.completed\<close> and a failed
  run with \<open>run.failed\<close> and the run's error code, and nothing is recorded after that.\<close>

theorem session_histories:
  assumes "list_all (list_all ordinary) txs"
    and "d = conn (session txs (open_store clk gen l))" and "r \<in> set (t_runs d)"
  shows "map ev_sequence (events_of d (rn_id r)) = [1..<Suc (length (events_of d (rn_id r)))] \<and>
    history_shape r (map ev_data (events_of d (rn_id r)))"
proof -
  have "history_ok d" using session_keeps [OF assms(1)] assms(2) by blast
  then have "numbered (run_events d (rn_id r))" "history_shape r (map ev_data (run_events d (rn_id r)))"
    using assms(3) by (auto simp: history_ok_def)
  then show ?thesis by (simp add: events_of_numbered numbered_def)
qed

text \<open>A session for the witnesses: a project, a run in a new conversation, two nodes and an edge between
  them, and a context of both. IDs count all IDs made so far.\<close>

definition demo_config :: run_config where
  "demo_config = \<lparr>rc_provider = Provider_Id ''fake'', rc_model = Model_Id ''fake-echo'', rc_prompt = []\<rparr>"

definition demo_session :: "tx_op list list" where
  "demo_session =
     [[Op_Create_Project ''demo''],
      [Op_Create_Run (Ident ''proj_0'') demo_config],
      [Op_Insert_Node (Ident ''proj_0'') Task [], Op_Insert_Node (Ident ''proj_0'') Decision []],
      [Op_Insert_Edge (Ident ''proj_0'') (Ident ''node_5'') (Ident ''node_4'') Depends_On],
      [Op_Replace_Context (Ident ''run_2'') [(Ident ''node_5'', By_Jev), (Ident ''node_4'', Carried)]]]"

definition demo_store :: store where
  "demo_store =
     session demo_session (open_store (\<lambda>n. Timestamp (int n)) (\<lambda>h p. show_nat (length h)) True)"

lemma demo_store_contents:
  "map rn_id (t_runs (conn demo_store)) = [Ident ''run_2''] \<and>
   map (nd_id \<circ> snd) (t_nodes (conn demo_store)) = [Ident ''node_4'', Ident ''node_5''] \<and>
   map (ed_id \<circ> snd) (t_edges (conn demo_store)) = [Ident ''edge_6''] \<and>
   map cm_node (context_of (conn demo_store) (Ident ''run_2'')) = [Ident ''node_4'', Ident ''node_5'']"
  by code_simp

lemma demo_store_ok: "db_ok (conn demo_store)"
proof -
  have "list_all (list_all ordinary) demo_session" by (simp add: demo_session_def)
  then show ?thesis unfolding demo_store_def by (blast dest: session_keeps)
qed

lemma session_histories_witness:
  "history_shape (hd (t_runs (conn demo_store)))
     (map ev_data (events_of (conn demo_store) (rn_id (hd (t_runs (conn demo_store))))))"
proof -
  have "t_runs (conn demo_store) \<noteq> []" using demo_store_contents by auto
  then show ?thesis
    using session_histories [of demo_session "conn demo_store" "\<lambda>n. Timestamp (int n)"
        "\<lambda>h p. show_nat (length h)" True
        "hd (t_runs (conn demo_store))"]
    by (simp add: demo_store_def demo_session_def)
qed

text \<open>C36. Nothing durable is ever lost: in every continuation of a session the nodes (with project, type
  and creation time), edges, events, runs (with their configuration) and conversations stored so far
  are all still there, in order; and a finished run is frozen: its record, its events and its
  context never change again.\<close>

theorem session_durable:
  assumes "list_all (list_all ordinary) txs" and "list_all (list_all ordinary) later"
  shows "durable (conn (session txs (open_store clk gen l)))
      (conn (session (txs @ later) (open_store clk gen l))) \<and>
    frozen (conn (session txs (open_store clk gen l)))
      (conn (session (txs @ later) (open_store clk gen l)))"
proof -
  have steps: "db_steps (conn (session txs (open_store clk gen l)))
      (conn (session (txs @ later) (open_store clk gen l)))"
    unfolding session_append by (rule session_steps [OF assms(2)])
  have "db_ok (conn (session txs (open_store clk gen l)))" using session_keeps [OF assms(1)] by blast
  then show ?thesis by (intro conjI steps_durable [OF steps] steps_frozen [OF steps])
qed

lemma session_durable_witness:
  "durable (conn (session [[Op_Create_Project ''demo'']] (open_store (\<lambda>n. Timestamp 0) sequential_ids False)))
     (conn (session ([[Op_Create_Project ''demo'']] @ [[Op_Rename_Project (Ident ''proj_000001'') ''new'']])
        (open_store (\<lambda>n. Timestamp 0) sequential_ids False)))"
  using session_durable [of "[[Op_Create_Project ''demo'']]" "[[Op_Rename_Project (Ident ''proj_000001'') ''new'']]"]
  by simp

text \<open>Transactions are atomic and the listener sees exactly what was committed: a failed transaction
  leaves the database as it was and is not observed; a successful one is reported once, with all
  the events it appended in order, and only if it appended any.\<close>

theorem transaction_atomic:
  "case transaction (exec_ops ops) s of
     (Inl e, u) \<Rightarrow> conn u = conn s \<and> observed u = observed s
   | (Inr x, u) \<Rightarrow> \<exists>es. t_events (conn u) = t_events (conn s) @ es \<and>
       observed u = observed s @ (if listening s \<and> es \<noteq> [] then [es] else [])"
proof -
  obtain r u where ru: "transaction (exec_ops ops) s = (r, u)" by force
  then show ?thesis
    using transaction_logs [OF logs_exec_ops, of s ops] by (cases r) simp_all
qed

text \<open>Over a whole session, the batches that the listener received are, put together, exactly the
  events table: nothing committed is missed, nothing rolled back is seen, and the order is the
  order of the commits.\<close>

theorem listener_sees_history:
  "concat (observed (session txs (open_store clk gen True))) =
     t_events (conn (session txs (open_store clk gen True)))"
  by (rule session_observed) (simp_all add: open_store_def empty_db_def)

end
