(* ===== verification/Store_Reads.thy ===== *)
theory Store_Reads
  imports Store_Api "HOL-Library.Multiset"
begin

text \<open>
  What the reads of the store return and what replacing a context does, stated over the demonstration
  session of \<open>Store_Api\<close> in the witnesses.
\<close>

section \<open>Ordering\<close>

lemma last_in_sorted:
  assumes "sorted (map f xs)" and "xs \<noteq> []" and "x \<in> set xs"
  shows "f x \<le> f (last xs)"
proof -
  obtain i where i: "i < length xs" "xs ! i = x" using assms(3) by (auto simp: in_set_conv_nth)
  have "map f xs ! i \<le> map f xs ! (length xs - 1)"
    by (rule sorted_nth_mono [OF assms(1)]) (use i in auto)
  then show ?thesis using assms(2) i by (simp add: last_conv_nth)
qed

definition earlier_runs :: "db \<Rightarrow> run \<Rightarrow> run set" where
  "earlier_runs d r =
     {q \<in> set (t_runs d). rn_conversation q = rn_conversation r \<and> run_order q < run_order r}"

lemma last_run_before_last:
  "last_run_before d r =
     (let xs = sort_key run_order
        (filter (\<lambda>q. rn_conversation q = rn_conversation r \<and> run_order q < run_order r) (t_runs d))
      in if xs = [] then None else Some (last xs))"
  by (auto simp: last_run_before_def Let_def hd_rev [symmetric] split: list.split
      simp del: hd_rev)

lemma last_run_before_greatest:
  "case last_run_before d r of
     None \<Rightarrow> earlier_runs d r = {}
   | Some q \<Rightarrow> q \<in> earlier_runs d r \<and> (\<forall>q' \<in> earlier_runs d r. run_order q' \<le> run_order q)"
proof -
  define xs where "xs = sort_key run_order
    (filter (\<lambda>q. rn_conversation q = rn_conversation r \<and> run_order q < run_order r) (t_runs d))"
  have set: "set xs = earlier_runs d r" by (auto simp: xs_def earlier_runs_def)
  have sorted: "sorted (map run_order xs)" by (simp add: xs_def)
  have eq: "last_run_before d r = (if xs = [] then None else Some (last xs))"
    by (simp add: last_run_before_last xs_def Let_def)
  show ?thesis
  proof (cases "xs = []")
    case False
    then show ?thesis
      using last_in_sorted [OF sorted False] last_in_set [OF False] by (simp add: eq flip: set)
  qed (use set in \<open>simp add: eq\<close>)
qed

lemma sort_key_permutation:
  assumes "mset xs = mset ys" and "distinct (map k xs)"
  shows "sort_key k xs = sort_key k ys"
proof (rule sort_key_set_unique)
  show "set xs = set ys" using assms(1) by (rule mset_eq_setD)
  show "distinct xs" using assms(2) by (simp add: distinct_map)
  then show "distinct ys" using assms(1) by (metis mset_eq_imp_distinct_iff)
  show "inj_on k (set xs)" using assms(2) by (simp add: distinct_map)
qed

lemma ranked_distinct: "distinct (map fst ms) \<Longrightarrow> distinct (map rank_key (ranked d ms))"
proof (induction ms)
  case (Cons m ms)
  have "rank_key (created_at d i, i, source) = (created_at d i, i)" for i source
    by (simp add: rank_key_def)
  with Cons show ?case by (cases m) (force simp: ranked_def)
qed (simp add: ranked_def)

lemma context_rows_permutation:
  assumes "mset ms = mset ms'" and "distinct (map fst ms)"
  shows "context_rows d r ms = context_rows d r ms'"
proof -
  have "mset (ranked d ms) = mset (ranked d ms')" using assms(1) by (simp add: ranked_def)
  then have "sort_key rank_key (ranked d ms) = sort_key rank_key (ranked d ms')"
    by (rule sort_key_permutation) (rule ranked_distinct [OF assms(2)])
  then show ?thesis by (simp add: context_rows_def)
qed

lemma context_rows_sorted:
  "sorted (map (\<lambda>m. (created_at d (cm_node m), cm_node m)) (context_rows d r ms))"
proof -
  have "map (\<lambda>m. (created_at d (cm_node m), cm_node m)) (context_rows d r ms) =
      map (\<lambda>x. (created_at d (fst (snd x)), fst (snd x))) (sort_key rank_key (ranked d ms))"
    using map_enumerate_snd [of "\<lambda>x. (created_at d (fst (snd x)), fst (snd x))" "\<lambda>x. x" 0
        "sort_key rank_key (ranked d ms)"]
    by (simp add: context_rows_def comp_def)
  also have "\<dots> = map rank_key (sort_key rank_key (ranked d ms))"
    by (rule map_cong) (auto simp: ranked_def rank_key_def)
  finally show ?thesis by simp
qed

lemma replace_context_spec:
  assumes "replace_context r ms s = (Inr cs, u)" and "mset ms = mset ms'"
  shows "context_of (conn u) r = cs \<and> cs = context_rows (conn s) r ms' \<and>
    cm_node ` set cs = fst ` set ms \<and> map cm_ordering cs = [0..<length ms] \<and>
    sorted (map (\<lambda>m. (created_at (conn s) (cm_node m), cm_node m)) cs) \<and>
    (\<exists>ctx. conn u = (conn s)\<lparr>t_context := ctx\<rparr>) \<and>
    (\<forall>r'. r' \<noteq> r \<longrightarrow> context_of (conn u) r' = context_of (conn s) r')"
proof -
  from replace_context_Inr [OF assms(1)] have d: "distinct (map fst ms)"
    and cs: "cs = context_rows (conn s) r ms"
    and u: "conn u = (conn s)\<lparr>t_context := filter (\<lambda>m. cm_run m \<noteq> r) (t_context (conn s)) @ cs\<rparr>"
    by blast+
  have other: "context_of (conn u) r' = context_of (conn s) r'" if "r' \<noteq> r" for r'
  proof -
    have "filter (\<lambda>m. cm_run m = r') cs = []"
      using that by (auto simp: cs filter_empty_conv dest: context_rows_run)
    moreover have "filter (\<lambda>m. cm_run m = r') (filter (\<lambda>m. cm_run m \<noteq> r) (t_context (conn s))) =
        filter (\<lambda>m. cm_run m = r') (t_context (conn s))"
      using that by (auto intro: filter_cong)
    ultimately show ?thesis by (simp add: context_of_def u)
  qed
  show ?thesis
    using context_of_replaced [where d = "conn s" and r = r and ms = ms] context_rows_permutation [OF assms(2) d]
      context_rows_nodes [of "conn s" r ms] context_rows_ordering [of "conn s" r ms]
      context_rows_sorted [of "conn s" r ms] other
    by (auto simp: u cs)
qed

section \<open>Properties\<close>

text \<open>Replacing a run's context stores exactly the given set: its nodes are the given nodes, numbered
  0, 1, 2, ... in the order of their creation; the order in which the members are given does not
  matter; every other table, and the context of every other run, stays as it was.\<close>

theorem replace_context_effect:
  assumes "replace_context r ms s = (Inr cs, u)" and "mset ms = mset ms'"
  shows "context_of (conn u) r = cs \<and> cs = context_rows (conn s) r ms' \<and>
    cm_node ` set cs = fst ` set ms \<and> map cm_ordering cs = [0..<length ms] \<and>
    sorted (map (\<lambda>m. (created_at (conn s) (cm_node m), cm_node m)) cs) \<and>
    (\<exists>ctx. conn u = (conn s)\<lparr>t_context := ctx\<rparr>) \<and>
    (\<forall>r'. r' \<noteq> r \<longrightarrow> context_of (conn u) r' = context_of (conn s) r')"
  by (rule replace_context_spec [OF assms])

lemma replace_context_effect_witness:
  "map cm_ordering (context_of (conn (snd (replace_context (Ident ''run_2'')
      [(Ident ''node_5'', By_Jev), (Ident ''node_4'', By_Jev)] demo_store))) (Ident ''run_2'')) = [0..<2]"
proof -
  have "\<not> isl (fst (replace_context (Ident ''run_2'')
      [(Ident ''node_5'', By_Jev), (Ident ''node_4'', By_Jev)] demo_store))"
    by code_simp
  then obtain cs u where run: "replace_context (Ident ''run_2'')
      [(Ident ''node_5'', By_Jev), (Ident ''node_4'', By_Jev)] demo_store = (Inr cs, u)"
    by (metis isl_def old.sum.exhaust prod.collapse)
  have "context_of (conn u) (Ident ''run_2'') = cs" "map cm_ordering cs = [0..<2]"
    using replace_context_effect [OF run refl] unfolding list.size numeral_2_eq_2 One_nat_def
      add_0 add_Suc_right add_0_right by blast+
  then show ?thesis unfolding run snd_conv by blast
qed

text \<open>\<open>previous_run\<close> of an existing run is the conversation's latest run before it in (start, ID)
  order, if there is any; it fails only for an unknown run and never writes.\<close>

theorem previous_run_correct:
  "case previous_run i s of
     (Inl e, u) \<Rightarrow> run_row (conn s) i = None \<and> e = Not_Found ''run'' (ident_str i) \<and> u = s
   | (Inr q, u) \<Rightarrow> u = s \<and> (\<exists>r. run_row (conn s) i = Some r \<and>
       (case q of
          None \<Rightarrow> earlier_runs (conn s) r = {}
        | Some q' \<Rightarrow> q' \<in> earlier_runs (conn s) r \<and>
            earlier_runs (conn s) r \<subseteq> {x. run_order x \<le> run_order q'}))"
proof (cases "run_row (conn s) i")
  case (Some r)
  then show ?thesis
    using last_run_before_greatest [of "conn s" r]
    by (cases "last_run_before (conn s) r")
       (auto simp: previous_run_def andthen_def require_def query_def)
qed (simp add: previous_run_def andthen_def require_def del: run_row_None)

end
