(* ===== verification/Projection.thy ===== *)
theory Projection
  imports Contracts Store_Reads
begin

text \<open>
  \<open>context/projection.rs\<close>: carrying context between runs, the request to Jev, the validation of its
  answer and its application. A function of \<open>Tx\<close> that only reads is a function of the database.
\<close>

section \<open>Definitions\<close>

datatype classification_error =
    Classification_Contract contract_error
  | Unknown_Candidate node_id
  | Duplicate_Classification node_id
  | Unknown_Tool string
  | Duplicate_Tool string

fun classification_error_str :: "classification_error \<Rightarrow> string" where
  "classification_error_str (Classification_Contract e) = contract_error_str e"
| "classification_error_str (Unknown_Candidate n) =
     ''node `'' @ ident_str n @ ''` was not a candidate in the classification request''"
| "classification_error_str (Duplicate_Classification n) =
     ''node `'' @ ident_str n @ ''` was classified more than once''"
| "classification_error_str (Unknown_Tool t) =
     ''tool `'' @ t @ ''` was not a candidate in the classification request''"
| "classification_error_str (Duplicate_Tool t) = ''tool `'' @ t @ ''` was classified more than once''"

record context_changes =
  ch_added :: "node_id list"
  ch_removed :: "node_id list"
  ch_members :: "context_member list"

definition carried_members :: "db \<Rightarrow> run option \<Rightarrow> membership list" where
  "carried_members d previous =
     (case previous of
        Some q \<Rightarrow> map (\<lambda>m. (cm_node m, Carried)) (context_of d (rn_id q))
      | None \<Rightarrow> [])"

definition carry_context :: "run_id \<Rightarrow> context_member list tx" where
  "carry_context r =
     andthen (previous_run r) (\<lambda>previous.
     query (\<lambda>d. carried_members d previous) (\<lambda>carried.
     andthen (replace_context r carried) (\<lambda>members.
     andthen (append_event r (Context_Carried (map_option rn_id previous) (map cm_node members))) (\<lambda>_.
       ret members))))"

definition classification_request :: "db \<Rightarrow> run \<Rightarrow> node_id \<Rightarrow> string \<Rightarrow> jev_request" where
  "classification_request d r task message =
     (let in_context = map cm_node (context_of d (rn_id r));
          candidates = map (\<lambda>n. \<lparr>jc_node = nd_id n, jc_type = nd_type n, jc_payload = nd_payload n,
                                 jc_in_context = nd_id n \<in> set in_context\<rparr>)
            (filter (\<lambda>n. nd_id n \<noteq> task) (nodes_of d (rn_project r)));
          ids = map jc_node candidates;
          edges = map (\<lambda>e. \<lparr>je_from = ed_from e, je_to = ed_to e, je_type = ed_type e\<rparr>)
            (filter (\<lambda>e. ed_from e \<in> set ids \<and> ed_to e \<in> set ids) (edges_of d (rn_project r)))
      in \<lparr>jr_message = message, jr_candidates = candidates, jr_edges = edges, jr_tools = []\<rparr>)"

text \<open>The two loops of \<open>validate_classification\<close>: each entry is a candidate and is new.\<close>

fun check_entries :: "('a \<Rightarrow> 'e) \<Rightarrow> ('a \<Rightarrow> 'e) \<Rightarrow> 'a list \<Rightarrow> 'a list \<Rightarrow> 'a list \<Rightarrow> 'e option" where
  "check_entries unknown duplicate candidates seen [] = None"
| "check_entries unknown duplicate candidates seen (x # xs) =
     (if x \<notin> set candidates then Some (unknown x)
      else if x \<in> set seen then Some (duplicate x)
      else check_entries unknown duplicate candidates (x # seen) xs)"

definition check_classification ::
  "jev_request \<Rightarrow> context_classification \<Rightarrow> classification_error option" where
  "check_classification request output =
     (case check_entries Unknown_Candidate Duplicate_Classification
             (map jc_node (jr_candidates request)) [] (map nc_node (cc_nodes output)) of
        Some e \<Rightarrow> Some e
      | None \<Rightarrow>
          check_entries Unknown_Tool Duplicate_Tool
            (map jt_name (jr_tools request)) [] (map tc_name (cc_tools output)))"

definition validate_classification ::
  "codec \<Rightarrow> jev_request \<Rightarrow> string \<Rightarrow> classification_error + context_classification" where
  "validate_classification cx request raw =
     (case contract_parse cx Jev_Context_Contract (read_classification cx) raw of
        Inl e \<Rightarrow> Inl (Classification_Contract e)
      | Inr output \<Rightarrow>
          (case check_classification request output of
             Some e \<Rightarrow> Inl e
           | None \<Rightarrow> Inr output))"

definition context_map :: "context_member list \<Rightarrow> (node_id, context_source) btree" where
  "context_map ms = bt_of_list (map (\<lambda>m. (cm_node m, cm_source m)) ms)"

definition apply_entry ::
  "(node_id, context_source) btree \<Rightarrow> node_classification \<Rightarrow> (node_id, context_source) btree" where
  "apply_entry membership entry =
     (case nc_classification entry of
        Active \<Rightarrow> bt_insert (nc_node entry) By_Jev membership
      | Inactive \<Rightarrow> bt_remove (nc_node entry) membership)"

definition added_nodes :: "context_member list \<Rightarrow> context_member list \<Rightarrow> node_id list" where
  "added_nodes before after = map cm_node (filter (\<lambda>m. cm_node m \<notin> cm_node ` set before) after)"

definition apply_classification :: "run_id \<Rightarrow> context_classification \<Rightarrow> context_changes tx" where
  "apply_classification r classification =
     query (\<lambda>d. context_of d r) (\<lambda>before.
       (let membership = foldl apply_entry (context_map before) (cc_nodes classification)
        in andthen (replace_context r membership) (\<lambda>members.
           (let added = added_nodes before members; removed = added_nodes members before
            in andthen (append_event r (Jev_Classified classification)) (\<lambda>_.
               andthen (for_each added (\<lambda>n. discard (append_event r (Context_Added n)))) (\<lambda>_.
               andthen (for_each removed (\<lambda>n. discard (append_event r (Context_Removed n)))) (\<lambda>_.
                 ret \<lparr>ch_added = added, ch_removed = removed, ch_members = members\<rparr>)))))))"

section \<open>Every operation is a sequence of steps\<close>

lemma carry_context_moves [steps_intros]: "moves db_steps (carry_context r)"
  unfolding carry_context_def by (intro steps_intros)

lemma discard_moves [steps_intros]: "moves db_steps m \<Longrightarrow> moves db_steps (discard m)"
  unfolding discard_def by (intro steps_intros)

lemma apply_classification_moves [steps_intros]: "moves db_steps (apply_classification r c)"
  unfolding apply_classification_def Let_def by (intro steps_intros)

section \<open>Validation\<close>

lemma check_entries_None:
  "check_entries u dup cs seen xs = None \<longleftrightarrow> set xs \<subseteq> set cs \<and> distinct xs \<and> set xs \<inter> set seen = {}"
  by (induction xs arbitrary: seen) auto

lemma check_classification_None:
  "check_classification req out = None \<longleftrightarrow>
     nc_node ` set (cc_nodes out) \<subseteq> jc_node ` set (jr_candidates req) \<and> distinct (map nc_node (cc_nodes out)) \<and>
     tc_name ` set (cc_tools out) \<subseteq> jt_name ` set (jr_tools req) \<and> distinct (map tc_name (cc_tools out))"
proof -
  have "(case x of Some e \<Rightarrow> Some e | None \<Rightarrow> y) = None \<longleftrightarrow> x = None \<and> y = None"
    for x y :: "classification_error option"
    by (cases x) auto
  then show ?thesis by (simp add: check_classification_def check_entries_None)
qed

lemma validate_classification_Inr:
  "validate_classification cx req raw = Inr out \<longleftrightarrow>
     contract_parse cx Jev_Context_Contract (read_classification cx) raw = Inr out \<and>
     check_classification req out = None"
  by (auto simp: validate_classification_def split: sum.splits option.splits)

section \<open>Application\<close>

lemma append_events_Inr:
  "for_each xs (\<lambda>x. discard (append_event r (f x))) s = (Inr y, u) \<Longrightarrow>
     \<exists>es. conn u = (conn s)\<lparr>t_events := t_events (conn s) @ es\<rparr> \<and> map ev_data es = map f xs \<and>
       list_all (\<lambda>e. ev_run e = r) es"
proof (induction xs arbitrary: s)
  case (Cons x xs)
  then obtain e v where e: "append_event r (f x) s = (Inr e, v)"
    and rest: "for_each xs (\<lambda>x. discard (append_event r (f x))) v = (Inr y, u)"
    by (auto simp: andthen_Inr_iff discard_Inr)
  from Cons.IH [OF rest] obtain es where es: "conn u = (conn v)\<lparr>t_events := t_events (conn v) @ es\<rparr>"
    "map ev_data es = map f xs" "list_all (\<lambda>e. ev_run e = r) es" by blast
  from append_event_Inr [OF e] have "conn v = add_event e (conn s)" "ev_run e = r" "ev_data e = f x"
    by (auto simp: next_event_def)
  with es show ?case by (intro exI [of _ "e # es"]) (simp add: add_event_def)
qed (simp add: exI [of _ "[]"])

lemma context_rows_sources:
  "(\<lambda>m. (cm_node m, cm_source m)) ` set (context_rows d r ms) = set ms"
proof -
  have "map (\<lambda>m. (cm_node m, cm_source m)) (context_rows d r ms) =
      map snd (sort_key rank_key (ranked d ms))"
    using map_enumerate_snd [of snd "\<lambda>x. x" 0 "sort_key rank_key (ranked d ms)"]
    by (simp add: context_rows_def comp_def)
  then have "set (map (\<lambda>m. (cm_node m, cm_source m)) (context_rows d r ms)) = set (map snd (sort_key rank_key (ranked d ms)))"
    by (rule arg_cong)
  then have "(\<lambda>m. (cm_node m, cm_source m)) ` set (context_rows d r ms) = snd ` set (ranked d ms)"
    by (simp only: set_map set_sort)
  also have "snd ` set (ranked d ms) = (\<lambda>m. m) ` set ms"
    unfolding ranked_def set_map image_image by (rule image_cong) auto
  finally show ?thesis by simp
qed

lemma map_of_rev: "distinct (map fst xs) \<Longrightarrow> map_of (rev xs) = map_of xs"
  by (subst map_of_inject_set) (simp_all add: rev_map [symmetric])

definition entry_edit :: "node_classification \<Rightarrow> node_id \<times> context_source option" where
  "entry_edit e = (nc_node e, if nc_classification e = Active then Some By_Jev else None)"

lemma apply_entry_edit: "apply_entry m e = btree.apply_edit m (entry_edit e)"
  by (cases "nc_classification e") (simp_all add: apply_entry_def btree.apply_edit_def entry_edit_def)

lemma foldl_apply_entry: "foldl apply_entry m es = foldl btree.apply_edit m (map entry_edit es)"
  by (induction es arbitrary: m) (simp_all add: apply_entry_edit)

text \<open>The membership after the entries: the last entry of each node decides.\<close>

lemma membership_lookup:
  assumes "distinct (map cm_node before)" and "distinct (map nc_node es)"
  shows "map_of (foldl apply_entry (context_map before) es) n =
     (case map_of (map entry_edit es) n of
        Some v \<Rightarrow> v
      | None \<Rightarrow> map_of (map (\<lambda>m. (cm_node m, cm_source m)) before) n)"
proof -
  have "distinct (map fst (map entry_edit es))"
    using assms(2) by (simp add: comp_def entry_edit_def)
  then have rev_es: "map_of (rev (map entry_edit es)) = map_of (map entry_edit es)"
    by (rule map_of_rev)
  have "distinct (map fst (map (\<lambda>m. (cm_node m, cm_source m)) before))"
    using assms(1) by (simp add: comp_def)
  then have rev_before: "map_of (rev (map (\<lambda>m. (cm_node m, cm_source m)) before)) =
      map_of (map (\<lambda>m. (cm_node m, cm_source m)) before)"
    by (rule map_of_rev)
  show ?thesis
    unfolding foldl_apply_entry context_map_def
    by (subst btree.edits_lookup [OF bt_of_list_wf]) (simp only: rev_es map_of_bt_of_list rev_before)
qed

lemma membership_wf: "bt_wf (foldl apply_entry (context_map before) es)"
  unfolding foldl_apply_entry context_map_def by (rule btree.edits_wf [OF bt_of_list_wf])

lemma context_distinct:
  assumes "db_ok d"
  shows "distinct (map cm_node (context_of d r))"
proof -
  let ?rows = "filter (\<lambda>m. cm_run m = r) (t_context d)"
  have "distinct (map (\<lambda>m. (cm_run m, cm_node m)) (t_context d))"
    using assms by (simp add: db_ok_def context_rows_ok_def)
  then have "distinct (map (\<lambda>m. (cm_run m, cm_node m)) ?rows)" by (rule distinct_map_filterI)
  moreover have "map (\<lambda>m. (cm_run m, cm_node m)) ?rows = map (Pair r) (map cm_node ?rows)"
    by (induct "t_context d") auto
  ultimately have "distinct (map cm_node ?rows)"
    using distinct_map [of "Pair r" "map cm_node ?rows"] by metis
  then show ?thesis by (simp add: context_of_def distinct_map)
qed

lemma membership_set:
  assumes "distinct (map cm_node before)" and "distinct (map nc_node es)"
  shows "set (foldl apply_entry (context_map before) es) =
    {(nc_node e, By_Jev) | e. e \<in> set es \<and> nc_classification e = Active} \<union>
    {(cm_node m, cm_source m) | m. m \<in> set before \<and> cm_node m \<notin> nc_node ` set es}"
    (is "set ?m = ?joined \<union> ?kept")
proof -
  have entries: "map_of (map entry_edit es) n = Some v \<longleftrightarrow> (\<exists>e \<in> set es. entry_edit e = (n, v))" for n v
    using assms(2) by (subst map_of_eq_Some_iff) (auto simp: comp_def entry_edit_def)
  have none: "map_of (map entry_edit es) n = None \<longleftrightarrow> n \<notin> nc_node ` set es" for n
    by (simp add: map_of_eq_None_iff image_image entry_edit_def)
  have old: "map_of (map (\<lambda>m. (cm_node m, cm_source m)) before) n = Some v \<longleftrightarrow>
      (\<exists>m \<in> set before. (cm_node m, cm_source m) = (n, v))" for n v
    using assms(1) by (subst map_of_eq_Some_iff) (auto simp: comp_def)
  have "(n, v) \<in> set ?m \<longleftrightarrow> map_of ?m n = Some v" for n v
    using membership_wf [of before es] by (simp add: bt_wf_def)
  also have "map_of ?m n = Some v \<longleftrightarrow> map_of (map entry_edit es) n = Some (Some v) \<or>
      map_of (map entry_edit es) n = None \<and> map_of (map (\<lambda>m. (cm_node m, cm_source m)) before) n = Some v"
    for n v
    unfolding membership_lookup [OF assms] by (simp split: option.split)
  also have "\<dots> n v \<longleftrightarrow> (n, v) \<in> ?joined \<union> ?kept" for n v
    unfolding entries none old by (auto simp: entry_edit_def split: if_splits)
  finally show ?thesis by auto
qed

lemma replaced_members:
  assumes "replace_context r ms s = (Inr cs, u)"
  shows "conn u = (conn s)\<lparr>t_context := t_context (conn u)\<rparr> \<and> context_of (conn u) r = cs \<and>
    (\<lambda>m. (cm_node m, cm_source m)) ` set cs = set ms \<and> cm_node ` set cs = fst ` set ms"
  using replace_context_Inr [OF assms] context_of_replaced [where d = "conn s" and r = r and ms = ms]
    context_rows_sources [of "conn s" r ms] context_rows_nodes [of "conn s" r ms]
  by auto

lemma context_of_events [simp]: "context_of (d\<lparr>t_events := es\<rparr>) r = context_of d r"
  by (simp add: context_of_def)

lemma set_added_nodes:
  "set (added_nodes before after) = cm_node ` set after - cm_node ` set before"
  by (auto simp: added_nodes_def)

lemma apply_classification_Inr:
  assumes "apply_classification r c s = (Inr ch, u)"
  obtains members v es where
    "replace_context r (foldl apply_entry (context_map (context_of (conn s) r)) (cc_nodes c)) s =
       (Inr members, v)"
    and "ch = \<lparr>ch_added = added_nodes (context_of (conn s) r) members,
       ch_removed = added_nodes members (context_of (conn s) r), ch_members = members\<rparr>"
    and "conn u = (conn v)\<lparr>t_events := t_events (conn v) @ es\<rparr>"
    and "map ev_data es = Jev_Classified c # map Context_Added (ch_added ch) @
       map Context_Removed (ch_removed ch)"
    and "list_all (\<lambda>e. ev_run e = r) es"
proof -
  let ?before = "context_of (conn s) r"
  from assms obtain members v e w x y where
      replace: "replace_context r (foldl apply_entry (context_map ?before) (cc_nodes c)) s = (Inr members, v)"
    and first: "append_event r (Jev_Classified c) v = (Inr e, w)"
    and added: "for_each (added_nodes ?before members) (\<lambda>n. discard (append_event r (Context_Added n))) w = (Inr (), x)"
    and removed: "for_each (added_nodes members ?before) (\<lambda>n. discard (append_event r (Context_Removed n))) x = (Inr (), y)"
    and ch: "ch = \<lparr>ch_added = added_nodes ?before members, ch_removed = added_nodes members ?before,
       ch_members = members\<rparr>" and u: "u = y"
    unfolding apply_classification_def Let_def query_def by (auto simp: andthen_Inr_iff)
  from append_event_Inr [OF first] have E: "conn w = add_event e (conn v)" "ev_run e = r"
    "ev_data e = Jev_Classified c"
    by (auto simp: next_event_def)
  from append_events_Inr [OF added] obtain as where A: "conn x = (conn w)\<lparr>t_events := t_events (conn w) @ as\<rparr>"
    "map ev_data as = map Context_Added (added_nodes ?before members)" "list_all (\<lambda>e. ev_run e = r) as"
    by blast
  from append_events_Inr [OF removed] obtain rs where R: "conn y = (conn x)\<lparr>t_events := t_events (conn x) @ rs\<rparr>"
    "map ev_data rs = map Context_Removed (added_nodes members ?before)" "list_all (\<lambda>e. ev_run e = r) rs"
    by blast
  show ?thesis
    by (rule that [OF replace ch, of "e # as @ rs"]) (use E A R in \<open>simp_all add: ch u add_event_def\<close>)
qed

section \<open>Properties\<close>

text \<open>Jev's answer is accepted exactly if it is JSON that satisfies the contract's schema and
  deserializes, every classified node and tool was a candidate of the request, and none is
  classified twice; it is then accepted unchanged. Everything else is rejected as a whole.\<close>

theorem validate_classification_iff:
  "validate_classification cx req raw = Inr out \<longleftrightarrow>
     (\<exists>doc. json_read cx raw = Inr doc \<and> schema_errors cx Jev_Context_Contract doc = [] \<and>
        read_classification cx doc = Inr out) \<and>
     nc_node ` set (cc_nodes out) \<subseteq> jc_node ` set (jr_candidates req) \<and>
     distinct (map nc_node (cc_nodes out)) \<and>
     tc_name ` set (cc_tools out) \<subseteq> jt_name ` set (jr_tools req) \<and>
     distinct (map tc_name (cc_tools out))"
  unfolding validate_classification_Inr contract_parse_Inr check_classification_None by blast

text \<open>Applying a validated classification changes active-context membership only, and exactly as
  classified: afterwards the members are the nodes classified active (with source \<open>jev\<close>) and those
  members that were not classified (with their old source). Projects, conversations, nodes, edges,
  runs and defaults are untouched, and the events appended are \<open>jev.classified\<close> followed by one event
  per node that joined or left.\<close>

theorem apply_classification_effect:
  assumes "apply_classification r c s = (Inr ch, u)" and "db_ok (conn s)"
    and "distinct (map nc_node (cc_nodes c))"
  shows "(\<lambda>m. (cm_node m, cm_source m)) ` set (context_of (conn u) r) =
      {(nc_node e, By_Jev) | e. e \<in> set (cc_nodes c) \<and> nc_classification e = Active} \<union>
      {(cm_node m, cm_source m) | m. m \<in> set (context_of (conn s) r) \<and>
         cm_node m \<notin> nc_node ` set (cc_nodes c)} \<and>
    set (ch_added ch) = cm_node ` set (context_of (conn u) r) - cm_node ` set (context_of (conn s) r) \<and>
    set (ch_removed ch) = cm_node ` set (context_of (conn s) r) - cm_node ` set (context_of (conn u) r) \<and>
    (\<exists>ctx es. conn u = (conn s)\<lparr>t_context := ctx, t_events := t_events (conn s) @ es\<rparr> \<and>
       map ev_data es = Jev_Classified c # map Context_Added (ch_added ch) @
         map Context_Removed (ch_removed ch) \<and> ev_run ` set es \<subseteq> {r})"
proof -
  let ?m = "foldl apply_entry (context_map (context_of (conn s) r)) (cc_nodes c)"
  from assms(1) obtain members v es where replace: "replace_context r ?m s = (Inr members, v)"
    and ch: "ch = \<lparr>ch_added = added_nodes (context_of (conn s) r) members,
       ch_removed = added_nodes members (context_of (conn s) r), ch_members = members\<rparr>"
    and u: "conn u = (conn v)\<lparr>t_events := t_events (conn v) @ es\<rparr>"
    and es: "map ev_data es = Jev_Classified c # map Context_Added (ch_added ch) @
       map Context_Removed (ch_removed ch)" "list_all (\<lambda>e. ev_run e = r) es"
    by (rule apply_classification_Inr)
  note R = replaced_members [OF replace]
  have after: "context_of (conn u) r = members" using R by (simp add: u)
  obtain ctx where ctx: "conn v = (conn s)\<lparr>t_context := ctx\<rparr>" using R by blast
  have frame: "conn u = (conn s)\<lparr>t_context := ctx, t_events := t_events (conn s) @ es\<rparr>"
    unfolding u ctx by simp
  have runs: "ev_run ` set es \<subseteq> {r}" using es(2) by (auto simp: list_all_iff)
  have sources: "(\<lambda>m. (cm_node m, cm_source m)) ` set members = set ?m" using R by blast
  note set = membership_set [OF context_distinct [OF assms(2)] assms(3), of r]
  show ?thesis
    unfolding after sources set
    by (intro conjI exI [of _ ctx] exI [of _ es] frame es(1) runs)
       (simp_all add: ch set_added_nodes)
qed

lemma apply_classification_effect_witness:
  "cm_node ` set (context_of (conn (snd (apply_classification (Ident ''run_2'')
     \<lparr>cc_nodes = [\<lparr>nc_node = Ident ''node_5'', nc_classification = Inactive\<rparr>], cc_tools = []\<rparr> demo_store)))
     (Ident ''run_2'')) \<subseteq> cm_node ` set (context_of (conn demo_store) (Ident ''run_2''))"
proof -
  let ?c = "\<lparr>cc_nodes = [\<lparr>nc_node = Ident ''node_5'', nc_classification = Inactive\<rparr>], cc_tools = []\<rparr>"
  have "\<not> isl (fst (apply_classification (Ident ''run_2'') ?c demo_store))"
    by code_simp
  then obtain ch u where run: "apply_classification (Ident ''run_2'') ?c demo_store = (Inr ch, u)"
    by (metis isl_def old.sum.exhaust prod.collapse)
  have "(\<lambda>m. (cm_node m, cm_source m)) ` set (context_of (conn u) (Ident ''run_2'')) =
      {(nc_node e, By_Jev) | e. e \<in> set (cc_nodes ?c) \<and> nc_classification e = Active} \<union>
      {(cm_node m, cm_source m) | m. m \<in> set (context_of (conn demo_store) (Ident ''run_2'')) \<and>
         cm_node m \<notin> nc_node ` set (cc_nodes ?c)}"
    using apply_classification_effect [OF run demo_store_ok] by simp
  then have "fst ` (\<lambda>m. (cm_node m, cm_source m)) ` set (context_of (conn u) (Ident ''run_2'')) \<subseteq>
      cm_node ` set (context_of (conn demo_store) (Ident ''run_2''))"
    by auto
  then show ?thesis unfolding run snd_conv by (simp add: image_image)
qed

end
