(* ===== verification/Fake_Jev.thy ===== *)
theory Fake_Jev
  imports Projection
begin

text \<open>
  \<open>context/fake_jev.rs\<close> and the interface of \<open>context/jev.rs\<close>. A classifier answers at some point or
  never does; a call that the caller bounds by a deadline or abandons has one of three outcomes
  (\<open>reply\<close>). The fake's \<open>classify\<close> is a function of the request: \<open>None\<close> is the hanging mode.
\<close>

section \<open>The classifier interface\<close>

text \<open>
  What awaiting a call under a deadline gives: its result, the deadline, or the signal that the run
  was stopped while it waited.
\<close>

datatype 'a reply = Answer 'a | Elapsed | Stopped

record recall_chunk =
  ck_id :: string
  ck_text :: string

record noul_question =
  nq_key :: string
  nq_instructions :: json
  nq_if_true :: string
  nq_if_false :: string

datatype jev_error = Jev_Error string

fun jev_error_str :: "jev_error \<Rightarrow> string" where
  "jev_error_str (Jev_Error reason) = ''Jev classifier unavailable: '' @ reason"

section \<open>The fake\<close>

datatype jev_mode = Mode_Policy nat | Mode_Scripted string | Mode_Unavailable string | Mode_Hanging

definition default_conversation_window :: nat where
  "default_conversation_window = 6"

definition superseded_nodes :: "jev_request \<Rightarrow> node_id list" where
  "superseded_nodes request = map je_to (filter (\<lambda>e. je_type e = Supersedes) (jr_edges request))"

definition recent_conversation :: "jev_request \<Rightarrow> nat \<Rightarrow> node_id list" where
  "recent_conversation request window =
     map jc_node (take window (filter (\<lambda>c. jc_type c = Conversation_Node) (rev (jr_candidates request))))"

definition classify_by_policy :: "jev_request \<Rightarrow> nat \<Rightarrow> context_classification" where
  "classify_by_policy request window =
     (let superseded = superseded_nodes request; recent = recent_conversation request window
      in \<lparr>cc_nodes = map (\<lambda>c.
            (let active = jc_node c \<notin> set superseded \<and>
                   (jc_type c \<noteq> Conversation_Node \<or> jc_node c \<in> set recent)
             in \<lparr>nc_node = jc_node c, nc_classification = (if active then Active else Inactive)\<rparr>))
            (jr_candidates request),
          cc_tools = []\<rparr>)"

fun fake_classify :: "codec \<Rightarrow> jev_mode \<Rightarrow> jev_request \<Rightarrow> (jev_error + string) option" where
  "fake_classify cx (Mode_Policy window) request =
     Some (Inr (text_of_classification cx (classify_by_policy request window)))"
| "fake_classify cx (Mode_Scripted raw) request = Some (Inr raw)"
| "fake_classify cx (Mode_Unavailable reason) request = Some (Inl (Jev_Error reason))"
| "fake_classify cx Mode_Hanging request = None"

section \<open>What the policy decides\<close>

lemma policy_nodes [simp]:
  "map nc_node (cc_nodes (classify_by_policy request window)) = map jc_node (jr_candidates request)"
  by (simp add: classify_by_policy_def Let_def comp_def)

lemma policy_tools [simp]: "cc_tools (classify_by_policy request window) = []"
  by (simp add: classify_by_policy_def Let_def)

lemma policy_checked:
  "distinct (map jc_node (jr_candidates request)) \<Longrightarrow>
     check_classification request (classify_by_policy request window) = None"
  unfolding check_classification_None
  by (metis dual_order.refl empty_set empty_subsetI image_empty list.simps(8) distinct.simps(1) policy_nodes
      policy_tools set_map)

text \<open>The nodes of one project are distinct, so a request of the runtime satisfies the hypothesis above.\<close>

lemma distinct_map_sort_key: "distinct (map f (sort_key k xs)) = distinct (map f xs)"
  by (simp add: distinct_map)

lemma request_candidates_distinct:
  assumes "db_ok d"
  shows "distinct (map jc_node (jr_candidates (classification_request d r task message)))"
proof -
  have "distinct (map (nd_id \<circ> snd) (t_nodes d))" using assms by (simp add: db_ok_def nodes_ok_def)
  then have "distinct (map nd_id (map snd (filter (\<lambda>row. fst row = rn_project r) (t_nodes d))))"
    unfolding map_map by (rule distinct_map_filterI)
  then have "distinct (map nd_id (nodes_of d (rn_project r)))"
    unfolding nodes_of_def distinct_map_sort_key map_map .
  then show ?thesis
    by (simp add: classification_request_def Let_def comp_def distinct_map_filterI)
qed

lemma recent_conversation_subset:
  "set (recent_conversation request window) \<subseteq> jc_node ` set (jr_candidates request)"
  by (auto simp: recent_conversation_def dest!: in_set_takeD)

lemma superseded_inactive:
  "je_to ` {e \<in> set (jr_edges req). je_type e = Supersedes} \<inter>
     nc_node ` {e \<in> set (cc_nodes (classify_by_policy req window)). nc_classification e = Active} = {}"
proof (rule equals0I, elim IntE)
  fix n
  assume to: "n \<in> je_to ` {e \<in> set (jr_edges req). je_type e = Supersedes}"
    and "n \<in> nc_node ` {e \<in> set (cc_nodes (classify_by_policy req window)). nc_classification e = Active}"
  then have "n \<notin> set (superseded_nodes req)"
    by (auto simp: classify_by_policy_def Let_def split: if_splits)
  then show False using to by (auto simp: superseded_nodes_def)
qed

section \<open>Properties\<close>

text \<open>The fake Jev's policy is a valid answer to every request the runtime builds: with a codec that
  reads back what it prints and accepts it, its output passes validation unchanged. It labels every
  candidate, at most \<open>window\<close> conversation nodes active, and a superseded node never.\<close>

theorem policy_output_validates:
  assumes "db_ok d"
    and "req = (classification_request d r task message)\<lparr>jr_tools := tools\<rparr>"
    and "out = classify_by_policy req window"
    and "json_read cx (text_of_classification cx out) = Inr doc"
    and "schema_errors cx Jev_Context_Contract doc = []" and "read_classification cx doc = Inr out"
  shows "fake_classify cx (Mode_Policy window) req = Some (Inr (text_of_classification cx out)) \<and>
    validate_classification cx req (text_of_classification cx out) = Inr out \<and>
    map nc_node (cc_nodes out) = map jc_node (jr_candidates req) \<and>
    card {c \<in> set (jr_candidates req). jc_type c = Conversation_Node \<and>
      \<lparr>nc_node = jc_node c, nc_classification = Active\<rparr> \<in> set (cc_nodes out)} \<le> window \<and>
    je_to ` {e \<in> set (jr_edges req). je_type e = Supersedes} \<inter>
      nc_node ` {e \<in> set (cc_nodes out). nc_classification e = Active} = {}"
proof -
  have distinct: "distinct (map jc_node (jr_candidates req))"
    using request_candidates_distinct [OF assms(1)] by (simp add: assms(2))
  have valid: "validate_classification cx req (text_of_classification cx out) = Inr out"
    using policy_checked [OF distinct, of window] assms(4-6)
    by (simp add: validate_classification_Inr contract_parse_Inr assms(3))
  let ?recent = "take window (filter (\<lambda>c. jc_type c = Conversation_Node) (rev (jr_candidates req)))"
  have "{c \<in> set (jr_candidates req). jc_type c = Conversation_Node \<and>
      \<lparr>nc_node = jc_node c, nc_classification = Active\<rparr> \<in> set (cc_nodes out)} \<subseteq> set ?recent"
  proof clarify
    fix c
    assume c: "c \<in> set (jr_candidates req)" "jc_type c = Conversation_Node"
      and "\<lparr>nc_node = jc_node c, nc_classification = Active\<rparr> \<in> set (cc_nodes out)"
    then obtain c' where c': "c' \<in> set (jr_candidates req)" "jc_node c' = jc_node c"
      "jc_type c' \<noteq> Conversation_Node \<or> jc_node c' \<in> set (recent_conversation req window)"
      by (auto simp: assms(3) classify_by_policy_def Let_def split: if_splits)
    then have "c' = c" using distinct c(1) by (metis distinct_map inj_onD)
    then have "jc_node c \<in> jc_node ` set ?recent" using c' c(2) by (simp add: recent_conversation_def)
    moreover have "set ?recent \<subseteq> set (jr_candidates req)" by (auto dest!: in_set_takeD)
    ultimately show "c \<in> set ?recent" using distinct c(1) by (metis distinct_map inj_on_image_mem_iff)
  qed
  then have "card {c \<in> set (jr_candidates req). jc_type c = Conversation_Node \<and>
      \<lparr>nc_node = jc_node c, nc_classification = Active\<rparr> \<in> set (cc_nodes out)} \<le> card (set ?recent)"
    by (rule card_mono [rotated]) simp
  also have "card (set ?recent) \<le> window" by (rule order.trans [OF card_length]) simp
  finally show ?thesis
    using valid superseded_inactive [of req window] by (simp add: assms(3))
qed

text \<open>A codec for the witness: every text is read as the policy's classification of the demonstration
  request.\<close>

definition demo_request :: jev_request where
  "demo_request =
     (classification_request (conn demo_store) (hd (t_runs (conn demo_store))) (Ident ''node_4'') ''hello'')
       \<lparr>jr_tools := []\<rparr>"

definition demo_codec :: codec where
  "demo_codec =
     \<lparr>json_read = (\<lambda>s. Inr (JStr s)), json_text = (\<lambda>j. []), schema_errors = (\<lambda>c j. []),
      read_classification = (\<lambda>j. Inr (classify_by_policy demo_request 6)),
      text_of_classification = (\<lambda>c. ''classified''),
      read_response = (\<lambda>j. Inl ''none''), text_of_response = (\<lambda>r. []),
      value_of_ir = (\<lambda>ir. JNull), text_of_ir = (\<lambda>ir. [])\<rparr>"

lemma policy_output_validates_witness:
  "validate_classification demo_codec demo_request ''classified'' = Inr (classify_by_policy demo_request 6)"
proof -
  have "text_of_classification demo_codec (classify_by_policy demo_request 6) = ''classified''"
    by (simp add: demo_codec_def)
  then show ?thesis
    using policy_output_validates [OF demo_store_ok demo_request_def refl, of demo_codec 6 "JStr ''classified''"]
    by (simp add: demo_codec_def)
qed

end
