(* ===== verification/Recall.thy ===== *)
theory Recall
  imports Fake_Jev
begin

text \<open>
  \<open>context/recall.rs\<close>: the earlier turns that Jev may recall, the text of a turn, and the selection by
  relevance. The functions only read the database. \<open>walk_back\<close> is the loop of \<open>recall_candidates\<close> and
  \<open>ir.rs\<close> that follows \<open>previous_run\<close> a bounded number of times.
\<close>

section \<open>Walking back through a conversation\<close>

definition previous_of :: "db \<Rightarrow> run_id \<Rightarrow> store_error + run option" where
  "previous_of d i =
     (case run_row d i of
        None \<Rightarrow> Inl (Not_Found ''run'' (ident_str i))
      | Some r \<Rightarrow> Inr (last_run_before d r))"

fun walk_back :: "db \<Rightarrow> nat \<Rightarrow> run_id \<Rightarrow> store_error + run list" where
  "walk_back d 0 cursor = Inr []"
| "walk_back d (Suc n) cursor =
     (case previous_of d cursor of
        Inl e \<Rightarrow> Inl e
      | Inr None \<Rightarrow> Inr []
      | Inr (Some q) \<Rightarrow>
          (case walk_back d n (rn_id q) of Inl e \<Rightarrow> Inl e | Inr qs \<Rightarrow> Inr (q # qs)))"

section \<open>Turns as text\<close>

definition recall_threshold :: rat where
  "recall_threshold = 1 / 2"

definition recall_chunk_chars :: nat where
  "recall_chunk_chars = 4000"

definition compact_min_chars :: nat where
  "compact_min_chars = 2000"

definition tool_output_chars :: nat where
  "tool_output_chars = 500"

definition turn_events :: "string list" where
  "turn_events = [''message.recorded'', ''tool.requested'', ''tool.completed'', ''response.validated'',
     ''review.completed'', ''run.failed'']"

definition cut :: "string \<Rightarrow> nat \<Rightarrow> string" where
  "cut s limit = (if limit < length (chars_of s) then take_chars limit s @ ellipsis else s)"

text \<open>The lines that one event contributes to \<open>turn_text\<close>.\<close>

fun turn_lines :: "codec \<Rightarrow> nat option \<Rightarrow> event_data \<Rightarrow> string list" where
  "turn_lines cx excerpt (Message_Recorded n s) = [''user: '' @ s]"
| "turn_lines cx excerpt (Tool_Requested i name arguments) =
     [''tool call '' @ name @ '' '' @ json_text cx (JObj arguments)]"
| "turn_lines cx excerpt (Tool_Finished i output is_error) =
     (let label = (if is_error then ''tool error'' else ''tool result'');
          s = tool_output_text (json_text cx) output
      in [label @ '': '' @ (case excerpt of None \<Rightarrow> s | Some limit \<Rightarrow> cut s limit)])"
| "turn_lines cx excerpt (Response_Validated response) = [''assistant: '' @ re_prose response]"
| "turn_lines cx excerpt (Run_Failed code message) = [''failed: '' @ message]"
| "turn_lines cx excerpt (Review_Completed rnd judged findings err) =
     map (\<lambda>f. ''lint round '' @ show_nat rnd @ '': '' @ if_text f @ '' '' @ if_function f @ '' ('' @
            if_file f @ '':'' @ show_nat (if_line f) @ '')'') findings"
| "turn_lines cx excerpt _ = []"

definition turn_text :: "codec \<Rightarrow> event_data list \<Rightarrow> nat option \<Rightarrow> string" where
  "turn_text cx events excerpt = join ''\<newline>'' (concat (map (turn_lines cx excerpt) events))"

section \<open>Candidates\<close>

record recall_candidate =
  rq_turn :: ir_recalled_turn
  rq_chunk :: recall_chunk

definition left_quote :: string where
  "left_quote = [CHR 0xE2, CHR 0x80, CHR 0x9C]"

definition right_quote :: string where
  "right_quote = [CHR 0xE2, CHR 0x80, CHR 0x9D]"

definition recall_candidate_of :: "codec \<Rightarrow> db \<Rightarrow> (conversation_id, string) btree \<Rightarrow> run \<Rightarrow> recall_candidate" where
  "recall_candidate_of cx d titles turn =
     (let events = map ev_data (events_of_types d (rn_id turn) turn_events);
          chat = (case map_of titles (rn_conversation turn) of Some t \<Rightarrow> t | None \<Rightarrow> []);
          judged = cut (turn_text cx events (Some tool_output_chars)) recall_chunk_chars
      in \<lparr>rq_turn = \<lparr>rt_run = rn_id turn, rt_chat = chat, rt_text = turn_text cx events None\<rparr>,
          rq_chunk = \<lparr>ck_id = ident_str (rn_id turn),
             ck_text = ''chat '' @ left_quote @ chat @ right_quote @ ''\<newline>'' @ judged\<rparr>\<rparr>)"

definition recall_candidates :: "codec \<Rightarrow> db \<Rightarrow> run_id \<Rightarrow> nat \<Rightarrow> store_error + recall_candidate list" where
  "recall_candidates cx d i window =
     (case run_row d i of
        None \<Rightarrow> Inl (Not_Found ''run'' (ident_str i))
      | Some r \<Rightarrow>
          (case walk_back d window (rn_id r) of
             Inl e \<Rightarrow> Inl e
           | Inr earlier \<Rightarrow>
               (let in_ir = rn_id r # map rn_id earlier;
                    titles = bt_of_list (map (\<lambda>c. (cv_id c, cv_title c)) (conversations_of d (rn_project r)));
                    runs = filter (\<lambda>q. rn_id q \<notin> set in_ir \<and> rn_status q \<noteq> Running)
                             (runs_of d (rn_project r))
                in Inr (map (recall_candidate_of cx d titles) runs))))"

definition select_recalled ::
  "recall_candidate list \<Rightarrow> f64 list \<Rightarrow> (ir_recalled_turn \<times> f64) list" where
  "select_recalled candidates scores =
     map (\<lambda>(c, score). (rq_turn c, score))
       (filter (\<lambda>(c, score). f64_le (Fin recall_threshold) score) (zip candidates scores))"

section \<open>Facts\<close>

lemma walk_back_length: "walk_back d n i = Inr qs \<Longrightarrow> length qs \<le> n"
  by (induction n arbitrary: i qs) (auto split: sum.splits option.splits)

lemma walk_back_runs: "walk_back d n i = Inr qs \<Longrightarrow> set qs \<subseteq> set (t_runs d)"
proof (induction n arbitrary: i qs)
  case (Suc n)
  show ?case
  proof (cases "previous_of d i")
    case (Inr p)
    show ?thesis
    proof (cases p)
      case (Some q)
      obtain r where r: "last_run_before d r = Some q"
        using Inr Some by (auto simp: previous_of_def split: option.splits)
      then have q: "q \<in> set (t_runs d)"
        using last_run_before_greatest [of d r] by (simp add: earlier_runs_def)
      obtain rest where "walk_back d n (rn_id q) = Inr rest" "qs = q # rest"
        using Suc.prems Inr Some by (auto split: sum.splits)
      then show ?thesis using Suc.IH q by auto
    qed (use Suc.prems Inr in simp)
  qed (use Suc.prems in simp)
qed simp

text \<open>A smaller window sees a suffix of what a larger one sees: the most recent turns.\<close>

lemma walk_back_prefix:
  "walk_back d n i = Inr qs \<Longrightarrow> m \<le> n \<Longrightarrow> walk_back d m i = Inr (take m qs)"
proof (induction n arbitrary: m i qs)
  case (Suc n)
  show ?case
  proof (cases m)
    case (Suc k)
    then show ?thesis
      using Suc.prems \<open>m = Suc k\<close>
      by (auto split: sum.splits option.splits dest!: Suc.IH [of _ _ k])
  qed simp
qed simp

text \<open>In a database with unique run IDs the walk never fails.\<close>

lemma walk_back_total:
  assumes "run_row d i \<noteq> None"
  shows "\<exists>qs. walk_back d n i = Inr qs"
  using assms
proof (induction n arbitrary: i)
  case (Suc n)
  then obtain r where r: "run_row d i = Some r" by blast
  show ?case
  proof (cases "last_run_before d r")
    case (Some q)
    then have "q \<in> set (t_runs d)"
      using last_run_before_greatest [of d r] by (simp add: earlier_runs_def)
    then have "run_row d (rn_id q) \<noteq> None" by simp
    from Suc.IH [OF this] show ?thesis using r Some by (auto simp: previous_of_def)
  qed (simp add: r previous_of_def)
qed simp

lemma cut_length: "length (chars_of (cut s limit)) \<le> Suc limit"
proof (cases "limit < length (chars_of s)")
  case True
  then show ?thesis
    using chars_of_append [of ellipsis "take_chars limit s"] by (simp add: cut_def ellipsis_head)
qed (simp add: cut_def)

lemma recall_candidate_run [simp]: "rt_run (rq_turn (recall_candidate_of cx d ts q)) = rn_id q"
  by (simp add: recall_candidate_of_def Let_def)

lemma recall_candidates_Inr:
  assumes "recall_candidates cx d i window = Inr cs"
  obtains r earlier where "run_row d i = Some r" and "walk_back d window i = Inr earlier"
    and "map (rt_run \<circ> rq_turn) cs = map rn_id (filter (\<lambda>q. rn_id q \<notin> set (i # map rn_id earlier) \<and>
           rn_status q \<noteq> Running) (runs_of d (rn_project r)))"
proof -
  obtain r where r: "run_row d i = Some r" using assms by (auto simp: recall_candidates_def split: option.splits)
  then have "rn_id r = i" by (blast dest: run_row_id)
  with assms r obtain earlier where e: "walk_back d window i = Inr earlier"
    by (auto simp: recall_candidates_def split: sum.splits)
  show ?thesis
    by (rule that [OF r e])
       (use assms r e \<open>rn_id r = i\<close> in \<open>auto simp: recall_candidates_def Let_def comp_def\<close>)
qed

end
