(* ===== verification/Ir_Compile.thy ===== *)
theory Ir_Compile
  imports Recall
begin

text \<open>
  \<open>ir.rs\<close>: the compilation of a run's durable state into inference IR. It only reads, so it is a
  function of the database; \<open>history\<close> carries what Jev decided about the past.
\<close>

section \<open>Definitions\<close>

definition recent_run_outcomes_default :: nat where
  "recent_run_outcomes_default = 8"

record ir_history =
  hi_window :: nat
  hi_recalled :: "ir_recalled_turn list"
  hi_omitted :: "string list"
  hi_review :: "ir_review option"

datatype compile_error =
    Compile_Store store_error
  | Invalid_Task node_id
  | Compile_Contract contract_violation

fun compile_error_str :: "(constraint \<Rightarrow> string) \<Rightarrow> compile_error \<Rightarrow> string" where
  "compile_error_str sqlite (Compile_Store e) = store_error_str sqlite e"
| "compile_error_str sqlite (Invalid_Task n) =
     ''task node `'' @ ident_str n @ ''` is not a user conversation turn''"
| "compile_error_str sqlite (Compile_Contract v) = contract_violation_str v"

definition task_message :: "dag_node \<Rightarrow> string option" where
  "task_message task =
     (case turn_from_payload (nd_payload task) of
        Some t \<Rightarrow> if nd_type task = Conversation_Node \<and> tn_role t = User then Some (tn_text t) else None
      | None \<Rightarrow> None)"

fun context_items ::
  "db \<Rightarrow> dag_edge list \<Rightarrow> node_id list \<Rightarrow> context_member list \<Rightarrow> store_error + ir_context_item list" where
  "context_items d edges in_ir [] = Inr []"
| "context_items d edges in_ir (m # members) =
     (case node_of d (cm_node m) of
        None \<Rightarrow> Inl (Not_Found ''node'' (ident_str (cm_node m)))
      | Some n \<Rightarrow>
          (let relations = map (\<lambda>e. \<lparr>il_type = ed_type e, il_to = ed_to e\<rparr>)
                 (filter (\<lambda>e. ed_from e = nd_id n \<and> ed_to e \<in> set in_ir) edges)
           in case context_items d edges in_ir members of
                Inl e \<Rightarrow> Inl e
              | Inr items \<Rightarrow>
                  Inr (\<lparr>ic_node = nd_id n, ic_type = nd_type n, ic_payload = nd_payload n,
                        ic_relations = relations\<rparr> # items)))"

subsection \<open>Recent turns\<close>

fun message_text :: "event_data \<Rightarrow> string option" where
  "message_text (Message_Recorded n s) = Some s"
| "message_text _ = None"

fun response_prose :: "event_data \<Rightarrow> string option" where
  "response_prose (Response_Validated response) = Some (re_prose response)"
| "response_prose _ = None"

fun failure_message :: "event_data \<Rightarrow> string option" where
  "failure_message (Run_Failed code message) = Some message"
| "failure_message _ = None"

text \<open>\<open>Iterator::find_map\<close>.\<close>

fun find_map :: "('a \<Rightarrow> 'b option) \<Rightarrow> 'a list \<Rightarrow> 'b option" where
  "find_map f [] = None"
| "find_map f (x # xs) = (case f x of Some y \<Rightarrow> Some y | None \<Rightarrow> find_map f xs)"

definition run_outcome :: "db \<Rightarrow> run \<Rightarrow> ir_event option" where
  "run_outcome d r =
     (let events = map ev_data (events_of d (rn_id r)); request = find_map message_text events
      in case rn_status r of
           Completed \<Rightarrow>
             Some \<lparr>ie_run = rn_id r, ie_type = Ir_Run_Completed, ie_request = request, ie_error = None,
                   ie_message = None, ie_prose = find_map response_prose (rev events)\<rparr>
         | Failed \<Rightarrow>
             Some \<lparr>ie_run = rn_id r, ie_type = Ir_Run_Failed, ie_request = request,
                   ie_error = Some (case rn_error r of Some c \<Rightarrow> c | None \<Rightarrow> Internal),
                   ie_message = find_map failure_message (rev events), ie_prose = None\<rparr>
         | Running \<Rightarrow> None)"

definition recent_run_outcomes :: "db \<Rightarrow> run_id \<Rightarrow> nat \<Rightarrow> store_error + ir_event list" where
  "recent_run_outcomes d i window =
     (case walk_back d window i of
        Inl e \<Rightarrow> Inl e
      | Inr earlier \<Rightarrow> Inr (List.map_filter (run_outcome d) (rev earlier)))"

subsection \<open>Tool results\<close>

definition omitted_output :: "codec \<Rightarrow> json \<Rightarrow> json" where
  "omitted_output cx output =
     (let size = length (chars_of (tool_output_text (json_text cx) output))
      in JObj [(''omitted'', JStr (''Left out: Jev judged this '' @ show_nat size @
           ''-character result not needed for the current step. DAGOS brings it back if it becomes relevant.''))])"

text \<open>\<open>if let Some(result) = results.iter_mut().find(..)\<close>.\<close>

fun update_result :: "string \<Rightarrow> (ir_tool_result \<Rightarrow> ir_tool_result) \<Rightarrow> ir_tool_result list \<Rightarrow> ir_tool_result list" where
  "update_result call f [] = []"
| "update_result call f (r # rs) = (if ir_call r = call then f r # rs else r # update_result call f rs)"

fun tool_event :: "codec \<Rightarrow> string list \<Rightarrow> ir_tool_result list \<Rightarrow> event_data \<Rightarrow> ir_tool_result list" where
  "tool_event cx omitted results (Tool_Requested call name arguments) =
     results @ [\<lparr>ir_call = call, ir_name = name, ir_arguments = arguments, ir_status = Tool_Denied,
                 ir_output = None, ir_reason = Some ''no decision was recorded''\<rparr>]"
| "tool_event cx omitted results (Tool_Decided call allowed decider reason) =
     update_result call (\<lambda>r.
       (let r1 = r\<lparr>ir_reason := (if allowed then None else reason)\<rparr>
        in if allowed
           then r1\<lparr>ir_status := Tool_Failed,
                   ir_output := Some (JObj [(''error'', JStr ''the call did not finish'')])\<rparr>
           else r1)) results"
| "tool_event cx omitted results (Tool_Finished call output is_error) =
     update_result call (\<lambda>r.
       r\<lparr>ir_status := (if is_error then Tool_Failed else Tool_Completed),
         ir_output := Some (if call \<in> set omitted then omitted_output cx output else output),
         ir_reason := None\<rparr>) results"
| "tool_event cx omitted results _ = results"

definition tool_results :: "codec \<Rightarrow> db \<Rightarrow> run_id \<Rightarrow> string list \<Rightarrow> ir_tool_result list" where
  "tool_results cx d i omitted = foldl (tool_event cx omitted) [] (map ev_data (events_of d i))"

subsection \<open>Compilation\<close>

definition compile_with ::
  "codec \<Rightarrow> db \<Rightarrow> run_id \<Rightarrow> node_id \<Rightarrow> ir_tool list \<Rightarrow> ir_history \<Rightarrow> compile_error + inference_ir" where
  "compile_with cx d i task_node tools history =
     (case run_row d i of
        None \<Rightarrow> Inl (Compile_Store (Not_Found ''run'' (ident_str i)))
      | Some r \<Rightarrow>
     (case node_of d task_node of
        None \<Rightarrow> Inl (Compile_Store (Not_Found ''node'' (ident_str task_node)))
      | Some task \<Rightarrow>
     (case task_message task of
        None \<Rightarrow> Inl (Invalid_Task (nd_id task))
      | Some message \<Rightarrow>
     (let members = context_of d i;
          in_ir = map cm_node members @ [task_node]
      in case context_items d (edges_of d (rn_project r)) in_ir members of
        Inl e \<Rightarrow> Inl (Compile_Store e)
      | Inr items \<Rightarrow>
     (case recent_run_outcomes d i (hi_window history) of
        Inl e \<Rightarrow> Inl (Compile_Store e)
      | Inr recent \<Rightarrow>
     (let ir = \<lparr>ii_prompt = rn_prompt r, ii_task = \<lparr>ik_node = nd_id task, ik_message = message\<rparr>,
                ii_context = items, ii_recent = recent, ii_tools = tools,
                ii_results = tool_results cx d i (hi_omitted history),
                ii_recalled = hi_recalled history, ii_review = hi_review history\<rparr>
      in case contract_validate cx Inference_Ir_Contract (value_of_ir cx ir) of
           Inl v \<Rightarrow> Inl (Compile_Contract v)
         | Inr _ \<Rightarrow> Inr ir))))))"

definition compile :: "codec \<Rightarrow> db \<Rightarrow> run_id \<Rightarrow> node_id \<Rightarrow> ir_tool list \<Rightarrow> compile_error + inference_ir" where
  "compile cx d i task_node tools =
     compile_with cx d i task_node tools
       \<lparr>hi_window = recent_run_outcomes_default, hi_recalled = [], hi_omitted = [], hi_review = None\<rparr>"

section \<open>Facts\<close>

lemma context_items_Inr:
  "context_items d edges in_ir ms = Inr items \<Longrightarrow>
     map ic_node items = map cm_node ms \<and>
     list_all (\<lambda>it. \<exists>n. node_of d (ic_node it) = Some n \<and> ic_type it = nd_type n \<and> ic_payload it = nd_payload n \<and>
       ic_relations it = map (\<lambda>e. \<lparr>il_type = ed_type e, il_to = ed_to e\<rparr>)
         (filter (\<lambda>e. ed_from e = ic_node it \<and> ed_to e \<in> set in_ir) edges)) items"
proof (induction ms arbitrary: items)
  case (Cons m ms)
  then obtain n rest where n: "node_of d (cm_node m) = Some n"
    and rest: "context_items d edges in_ir ms = Inr rest"
    and items: "items = \<lparr>ic_node = nd_id n, ic_type = nd_type n, ic_payload = nd_payload n,
      ic_relations = map (\<lambda>e. \<lparr>il_type = ed_type e, il_to = ed_to e\<rparr>)
        (filter (\<lambda>e. ed_from e = nd_id n \<and> ed_to e \<in> set in_ir) edges)\<rparr> # rest"
    by (auto simp: Let_def split: option.splits sum.splits)
  then show ?case using Cons.IH [OF rest] node_of_id [OF n] by (simp add: items)
qed simp

lemma compile_with_Inr:
  assumes "compile_with cx d i task_node tools h = Inr ir"
  obtains r task message items recent where "run_row d i = Some r" and "node_of d task_node = Some task"
    and "task_message task = Some message"
    and "context_items d (edges_of d (rn_project r)) (map cm_node (context_of d i) @ [task_node])
           (context_of d i) = Inr items"
    and "recent_run_outcomes d i (hi_window h) = Inr recent"
    and "ir = \<lparr>ii_prompt = rn_prompt r, ii_task = \<lparr>ik_node = task_node, ik_message = message\<rparr>,
           ii_context = items, ii_recent = recent, ii_tools = tools,
           ii_results = tool_results cx d i (hi_omitted h), ii_recalled = hi_recalled h,
           ii_review = hi_review h\<rparr>"
    and "schema_errors cx Inference_Ir_Contract (value_of_ir cx ir) = []"
proof -
  from assms obtain r where r: "run_row d i = Some r"
    by (auto simp: compile_with_def split: option.splits)
  from assms r obtain task where t: "node_of d task_node = Some task"
    by (auto simp: compile_with_def split: option.splits)
  from assms r t obtain message where m: "task_message task = Some message"
    by (auto simp: compile_with_def split: option.splits)
  let ?items = "context_items d (edges_of d (rn_project r)) (map cm_node (context_of d i) @ [task_node])
      (context_of d i)"
  from assms r t m obtain items where c: "?items = Inr items"
    by (cases ?items) (simp_all add: compile_with_def Let_def)
  from assms r t m c obtain recent where o: "recent_run_outcomes d i (hi_window h) = Inr recent"
    by (cases "recent_run_outcomes d i (hi_window h)") (simp_all add: compile_with_def Let_def)
  let ?ir = "\<lparr>ii_prompt = rn_prompt r, ii_task = \<lparr>ik_node = task_node, ik_message = message\<rparr>,
           ii_context = items, ii_recent = recent, ii_tools = tools,
           ii_results = tool_results cx d i (hi_omitted h), ii_recalled = hi_recalled h,
           ii_review = hi_review h\<rparr>"
  have "(case contract_validate cx Inference_Ir_Contract (value_of_ir cx ?ir) of
      Inl v \<Rightarrow> Inl (Compile_Contract v) | Inr _ \<Rightarrow> Inr ?ir) = Inr ir"
    using assms r t m c o node_of_id [OF t] by (simp add: compile_with_def Let_def)
  then have "ir = ?ir \<and> schema_errors cx Inference_Ir_Contract (value_of_ir cx ?ir) = []"
    by (auto simp: contract_validate_def Let_def split: sum.splits if_splits)
  then show ?thesis using that [OF r t m c o] by simp
qed

lemma recent_run_outcomes_length:
  assumes "recent_run_outcomes d i window = Inr recent"
  shows "length recent \<le> window"
proof -
  obtain earlier where e: "walk_back d window i = Inr earlier"
    and r: "recent = List.map_filter (run_outcome d) (rev earlier)"
    using assms by (auto simp: recent_run_outcomes_def split: sum.splits)
  have "length recent \<le> length earlier"
    unfolding r List.map_filter_def length_map by (rule order.trans [OF length_filter_le]) simp
  then show ?thesis using walk_back_length [OF e] by simp
qed

subsection \<open>Tool results\<close>

text \<open>What a request contributes, and what the later events can never change about it.\<close>

fun requested :: "event_data \<Rightarrow> (string \<times> string \<times> payload) option" where
  "requested (Tool_Requested call name arguments) = Some (call, name, arguments)"
| "requested _ = None"

definition result_identity :: "ir_tool_result \<Rightarrow> string \<times> string \<times> payload" where
  "result_identity r = (ir_call r, ir_name r, ir_arguments r)"

lemma update_result_identity:
  "(\<And>r. result_identity (f r) = result_identity r) \<Longrightarrow>
     map result_identity (update_result call f rs) = map result_identity rs"
  by (induction rs) auto

lemma tool_event_identity:
  "map result_identity (tool_event cx omitted rs e) =
     map result_identity rs @ (case requested e of Some q \<Rightarrow> [q] | None \<Rightarrow> [])"
  by (cases e) (simp_all add: update_result_identity result_identity_def Let_def)

lemma foldl_tool_event_identity:
  "map result_identity (foldl (tool_event cx omitted) rs es) =
     map result_identity rs @ List.map_filter requested es"
  by (induction es arbitrary: rs)
     (auto simp: tool_event_identity map_filter_simps split: option.splits)

section \<open>An example\<close>

text \<open>Two runs of one conversation, for the witnesses: the first is completed, the second is running and
  has its task \<open>node_9\<close> and the first one's message in its context.\<close>

definition chat_session :: "tx_op list list" where
  "chat_session =
     [[Op_Create_Project ''demo''],
      [Op_Create_Run (Ident ''proj_0'') demo_config],
      [Op_Insert_Node (Ident ''proj_0'') Conversation_Node (turn_to_payload (user_turn ''hi''))],
      [Op_Append_Event (Ident ''run_2'') (Message_Recorded (Ident ''node_4'') ''hi'')],
      [Op_Complete_Run (Ident ''run_2'')],
      [Op_Create_Run (Ident ''proj_0'') demo_config],
      [Op_Insert_Node (Ident ''proj_0'') Conversation_Node (turn_to_payload (user_turn ''more''))],
      [Op_Replace_Context (Ident ''run_7'') [(Ident ''node_4'', Carried)]]]"

definition chat_store :: store where
  "chat_store =
     session chat_session (open_store (\<lambda>n. Timestamp (int n)) (\<lambda>h p. show_nat (length h)) True)"

lemma chat_store_ok: "db_ok (conn chat_store)"
proof -
  have "list_all (list_all ordinary) chat_session" by (simp add: chat_session_def)
  then show ?thesis unfolding chat_store_def by (blast dest: session_keeps)
qed

end
