(* ===== verification/Responses.thy ===== *)
theory Responses
  imports Ir_Compile
begin

text \<open>
  \<open>response.rs\<close> and \<open>apply_response\<close> of \<open>runtime.rs\<close>: provider output is parsed and validated against the IR
  it answers, and only then may its emissions be applied to the DAG, nodes first and then edges.
\<close>

section \<open>Validation\<close>

datatype response_error =
    Response_Contract contract_error
  | Duplicate_Ref emission_ref
  | Unknown_Endpoint endpoint

fun response_error_str :: "response_error \<Rightarrow> string" where
  "response_error_str (Response_Contract e) = contract_error_str e"
| "response_error_str (Duplicate_Ref r) = ''emission ref `'' @ ref_str r @ ''` is declared more than once''"
| "response_error_str (Unknown_Endpoint e) =
     ''edge endpoint `'' @ endpoint_str e @
     ''` is neither a ref declared in this response nor a node in the IR''"

datatype validated_response = Validated_Response (response_of: inference_response)

fun check_refs :: "emission_ref list \<Rightarrow> emission list \<Rightarrow> response_error + emission_ref list" where
  "check_refs refs [] = Inr refs"
| "check_refs refs (Node_Emission ref ty payload # es) =
     (if ref \<in> set refs then Inl (Duplicate_Ref ref) else check_refs (ref # refs) es)"
| "check_refs refs (Edge_Emission from to ty # es) = check_refs refs es"

fun known_endpoint :: "emission_ref list \<Rightarrow> node_id list \<Rightarrow> endpoint \<Rightarrow> bool" where
  "known_endpoint refs visible (Ref_End ref) \<longleftrightarrow> ref \<in> set refs"
| "known_endpoint refs visible (Node_End n) \<longleftrightarrow> n \<in> set visible"

fun check_edges :: "emission_ref list \<Rightarrow> node_id list \<Rightarrow> emission list \<Rightarrow> response_error option" where
  "check_edges refs visible [] = None"
| "check_edges refs visible (Node_Emission ref ty payload # es) = check_edges refs visible es"
| "check_edges refs visible (Edge_Emission from to ty # es) =
     (if \<not> known_endpoint refs visible from then Some (Unknown_Endpoint from)
      else if \<not> known_endpoint refs visible to then Some (Unknown_Endpoint to)
      else check_edges refs visible es)"

definition validate_response ::
  "codec \<Rightarrow> string \<Rightarrow> inference_ir \<Rightarrow> response_error + validated_response" where
  "validate_response cx raw ir =
     (case contract_parse cx Inference_Response_Contract (read_response cx) raw of
        Inl e \<Rightarrow> Inl (Response_Contract e)
      | Inr response \<Rightarrow>
          (case check_refs [] (re_emissions response) of
             Inl e \<Rightarrow> Inl e
           | Inr refs \<Rightarrow>
               (let visible = map ic_node (ii_context ir) @ [ik_node (ii_task ir)]
                in case check_edges refs visible (re_emissions response) of
                     Some e \<Rightarrow> Inl e
                   | None \<Rightarrow> Inr (Validated_Response response))))"

section \<open>Application\<close>

fun apply_nodes ::
  "run \<Rightarrow> (emission_ref, node_id) btree \<Rightarrow> emission list \<Rightarrow> (emission_ref, node_id) btree tx" where
  "apply_nodes r created [] = ret created"
| "apply_nodes r created (Node_Emission ref ty payload # es) =
     andthen (insert_node (rn_project r) ty payload) (\<lambda>n.
     andthen (append_event (rn_id r) (Dag_Node_Created (nd_id n) ty ref)) (\<lambda>_.
       apply_nodes r (bt_insert ref (nd_id n) created) es))"
| "apply_nodes r created (Edge_Emission from to ty # es) = apply_nodes r created es"

fun resolve :: "(emission_ref, node_id) btree \<Rightarrow> endpoint \<Rightarrow> node_id tx" where
  "resolve created (Ref_End ref) =
     (case map_of created ref of
        Some n \<Rightarrow> ret n
      | None \<Rightarrow> throw (Panic ''validated refs name emitted nodes''))"
| "resolve created (Node_End n) = ret n"

fun apply_edges :: "run \<Rightarrow> (emission_ref, node_id) btree \<Rightarrow> emission list \<Rightarrow> unit tx" where
  "apply_edges r created [] = ret ()"
| "apply_edges r created (Node_Emission ref ty payload # es) = apply_edges r created es"
| "apply_edges r created (Edge_Emission from to ty # es) =
     andthen (resolve created from) (\<lambda>a.
     andthen (resolve created to) (\<lambda>b.
     andthen (insert_edge (rn_project r) a b ty) (\<lambda>e.
     andthen (append_event (rn_id r) (Dag_Edge_Created (ed_id e) (ed_from e) (ed_to e) (ed_type e))) (\<lambda>_.
       apply_edges r created es))))"

definition apply_response :: "run \<Rightarrow> validated_response \<Rightarrow> unit tx" where
  "apply_response r v =
     andthen (append_event (rn_id r) (Response_Validated (response_of v))) (\<lambda>_.
     andthen (apply_nodes r [] (re_emissions (response_of v))) (\<lambda>created.
       apply_edges r created (re_emissions (response_of v))))"

lemma apply_nodes_moves [steps_intros]: "moves db_steps (apply_nodes r created es)"
  by (induction r created es rule: apply_nodes.induct)
     (simp_all only: apply_nodes.simps, (intro steps_intros; assumption)+)

lemma resolve_moves [steps_intros]: "moves db_steps (resolve created e)"
  by (cases e) (simp_all only: resolve.simps, (intro steps_intros)+)

lemma apply_edges_moves [steps_intros]: "moves db_steps (apply_edges r created es)"
  by (induction r created es rule: apply_edges.induct)
     (simp_all only: apply_edges.simps, (intro steps_intros; assumption)+)

lemma apply_response_moves [steps_intros]: "moves db_steps (apply_response r v)"
  unfolding apply_response_def by (intro steps_intros)

section \<open>What validation establishes\<close>

fun emitted_ref :: "emission \<Rightarrow> emission_ref option" where
  "emitted_ref (Node_Emission ref ty payload) = Some ref"
| "emitted_ref (Edge_Emission from to ty) = None"

definition declared_refs :: "emission list \<Rightarrow> emission_ref list" where
  "declared_refs es = List.map_filter emitted_ref es"

lemma declared_refs_simps [simp]:
  "declared_refs [] = []"
  "declared_refs (Node_Emission ref ty payload # es) = ref # declared_refs es"
  "declared_refs (Edge_Emission from to ety # es) = declared_refs es"
  by (simp_all add: declared_refs_def map_filter_simps)

definition edge_ends :: "emission list \<Rightarrow> endpoint set" where
  "edge_ends es = {x. \<exists>from to ty. Edge_Emission from to ty \<in> set es \<and> (x = from \<or> x = to)}"

lemma edge_ends_simps [simp]:
  "edge_ends [] = {}"
  "edge_ends (Node_Emission ref ty payload # es) = edge_ends es"
  "edge_ends (Edge_Emission from to ety # es) = {from, to} \<union> edge_ends es"
  by (auto simp: edge_ends_def)

lemma check_refs_Inr:
  "check_refs refs es = Inr out \<longleftrightarrow>
     out = rev (declared_refs es) @ refs \<and> distinct (declared_refs es) \<and>
     set (declared_refs es) \<inter> set refs = {}"
  by (induction refs es rule: check_refs.induct) auto

lemma check_edges_None:
  "check_edges refs visible es = None \<longleftrightarrow> (\<forall>x \<in> edge_ends es. known_endpoint refs visible x)"
  by (induction refs visible es rule: check_edges.induct) auto

lemma known_endpoint_set:
  "set refs = set refs' \<Longrightarrow> set vs = set vs' \<Longrightarrow> known_endpoint refs vs e = known_endpoint refs' vs' e"
  by (cases e) auto

lemma validate_response_Inr:
  "validate_response cx raw ir = Inr v \<longleftrightarrow>
     contract_parse cx Inference_Response_Contract (read_response cx) raw = Inr (response_of v) \<and>
     distinct (declared_refs (re_emissions (response_of v))) \<and>
     (\<forall>x \<in> edge_ends (re_emissions (response_of v)).
        known_endpoint (declared_refs (re_emissions (response_of v)))
          (ik_node (ii_task ir) # map ic_node (ii_context ir)) x)"
  (is "?L \<longleftrightarrow> ?P \<and> ?D \<and> ?K")
proof (cases "contract_parse cx Inference_Response_Contract (read_response cx) raw")
  case (Inr response)
  let ?es = "re_emissions response"
  let ?visible = "map ic_node (ii_context ir) @ [ik_node (ii_task ir)]"
  have known: "known_endpoint (rev (declared_refs ?es)) ?visible x =
      known_endpoint (declared_refs ?es) (ik_node (ii_task ir) # map ic_node (ii_context ir)) x" for x
    by (rule known_endpoint_set) auto
  show ?thesis
  proof (cases "check_refs [] ?es")
    case (Inl e)
    then have "\<not> distinct (declared_refs ?es)"
      using check_refs_Inr [of "[]" ?es "rev (declared_refs ?es)"] by auto
    with Inr Inl show ?thesis by (auto simp: validate_response_def)
  next
    case (Inr refs)
    with check_refs_Inr [of "[]" ?es refs] have "refs = rev (declared_refs ?es)" "distinct (declared_refs ?es)"
      by auto
    moreover have "check_edges (rev (declared_refs ?es)) ?visible ?es = None \<longleftrightarrow>
        (\<forall>x \<in> edge_ends ?es. known_endpoint (declared_refs ?es) (ik_node (ii_task ir) # map ic_node (ii_context ir)) x)"
      by (simp add: check_edges_None known)
    ultimately show ?thesis
      using \<open>contract_parse cx Inference_Response_Contract (read_response cx) raw = Inr response\<close> Inr
      by (cases v) (auto simp: validate_response_def Let_def split: option.split)
  qed
qed (auto simp: validate_response_def)

section \<open>Which errors an effect can end with\<close>

definition raises :: "(store_error \<Rightarrow> bool) \<Rightarrow> 'a tx \<Rightarrow> bool" where
  "raises E m \<longleftrightarrow> (\<forall>s e u. m s = (Inl e, u) \<longrightarrow> E e)"

named_theorems raises_intros \<open>effects whose errors satisfy a predicate\<close>

lemma raises_ret [raises_intros]: "raises E (ret a)"
  by (simp add: raises_def)

lemma raises_throw [raises_intros]: "E e \<Longrightarrow> raises E (throw e)"
  by (simp add: raises_def)

lemma raises_andthen [raises_intros]: "raises E m \<Longrightarrow> (\<And>a. raises E (f a)) \<Longrightarrow> raises E (andthen m f)"
  unfolding raises_def andthen_Inl_iff by blast

lemma raises_now [raises_intros]: "raises E now"
  by (simp add: raises_def)

lemma raises_fresh_id [raises_intros]:
  "E (Panic ''IdGenerator returned an invalid suffix'') \<Longrightarrow> raises E (fresh_id p)"
  by (auto simp: raises_def fresh_id_def split: option.splits)

lemma raises_query [raises_intros]: "(\<And>a. raises E (g a)) \<Longrightarrow> raises E (query f g)"
  by (simp add: raises_def query_def)

lemma raises_require [raises_intros]: "E e \<Longrightarrow> raises E (require e f)"
  by (auto simp: raises_def require_Inl)

lemma raises_execute [raises_intros]: "(\<And>k. E (Sqlite k)) \<Longrightarrow> raises E (execute v c)"
  by (auto simp: raises_def execute_Inl)

lemma raises_if [raises_intros]: "raises E m \<Longrightarrow> raises E n \<Longrightarrow> raises E (if b then m else n)"
  by simp

lemma raises_option [raises_intros]:
  "raises E m \<Longrightarrow> (\<And>x. raises E (f x)) \<Longrightarrow> raises E (case v of None \<Rightarrow> m | Some x \<Rightarrow> f x)"
  by (cases v) auto

text \<open>The store's own errors: everything but a panic of the layers above.\<close>

fun own_error :: "store_error \<Rightarrow> bool" where
  "own_error (Panic p) \<longleftrightarrow> p = ''IdGenerator returned an invalid suffix''"
| "own_error _ \<longleftrightarrow> True"

lemma raises_note_appended [raises_intros]: "raises E (note_appended e)"
  by (simp add: raises_def note_appended_def)

lemma append_event_raises [raises_intros]: "raises own_error (append_event r data)"
  unfolding append_event_def require_running_def Let_def by (intro raises_intros) simp_all

lemma insert_node_raises [raises_intros]: "raises own_error (insert_node p ty payload)"
  unfolding insert_node_def require_project_def Let_def by (intro raises_intros) simp_all

lemma insert_edge_raises [raises_intros]: "raises own_error (insert_edge p from to ty)"
  unfolding insert_edge_def require_project_def validate_edge_def Let_def
  by (intro raises_intros) simp_all

lemma apply_nodes_raises [raises_intros]: "raises own_error (apply_nodes r created es)"
  by (induction r created es rule: apply_nodes.induct)
     (simp_all only: apply_nodes.simps, (intro raises_intros; assumption)+)

section \<open>What application does\<close>

fun emitted_node :: "emission \<Rightarrow> (node_type \<times> payload) option" where
  "emitted_node (Node_Emission ref ty payload) = Some (ty, payload)"
| "emitted_node (Edge_Emission from to ty) = None"

definition created_map :: "(emission_ref, node_id) btree \<Rightarrow> (emission_ref \<times> dag_node) list \<Rightarrow> (emission_ref, node_id) btree" where
  "created_map created pairs = foldl (\<lambda>m (ref, n). bt_insert ref (nd_id n) m) created pairs"

lemma map_of_created_map:
  "map_of (created_map created pairs) =
     map_of created ++ map_of (rev (map (\<lambda>(ref, n). (ref, nd_id n)) pairs))"
  unfolding created_map_def
proof (induction pairs rule: rev_induct)
  case (snoc p pairs)
  then show ?case by (cases p) (simp add: map_of_bt_insert map_add_upd_left fun_eq_iff map_add_def)
qed simp

lemma apply_nodes_Inr:
  assumes "apply_nodes r created es s = (Inr created', u)"
  shows "\<exists>ns evs. conn u = (conn s)\<lparr>t_nodes := t_nodes (conn s) @ map (Pair (rn_project r)) ns,
        t_events := t_events (conn s) @ evs\<rparr> \<and>
      map (\<lambda>n. (nd_type n, nd_payload n)) ns = List.map_filter emitted_node es \<and>
      length ns = length (declared_refs es) \<and>
      map ev_data evs = map (\<lambda>(ref, n). Dag_Node_Created (nd_id n) (nd_type n) ref) (zip (declared_refs es) ns) \<and>
      ev_run ` set evs \<subseteq> {rn_id r} \<and> created' = created_map created (zip (declared_refs es) ns)"
  using assms
proof (induction r created es arbitrary: s rule: apply_nodes.induct)
  case (1 r created)
  then show ?case
    by (intro exI [of _ "[]"]) (simp add: map_filter_simps created_map_def)
next
  case (2 r created ref ty payload es)
  from "2.prems" obtain n v e w where n: "insert_node (rn_project r) ty payload s = (Inr n, v)"
    and e: "append_event (rn_id r) (Dag_Node_Created (nd_id n) ty ref) v = (Inr e, w)"
    and rest: "apply_nodes r (bt_insert ref (nd_id n) created) es w = (Inr created', u)"
    by (auto simp: andthen_Inr_iff)
  from "2.IH" [OF rest] obtain ns evs where R: "conn u = (conn w)\<lparr>t_nodes := t_nodes (conn w) @
        map (Pair (rn_project r)) ns, t_events := t_events (conn w) @ evs\<rparr>"
    "map (\<lambda>n. (nd_type n, nd_payload n)) ns = List.map_filter emitted_node es"
    "length ns = length (declared_refs es)"
    "map ev_data evs = map (\<lambda>(ref, n). Dag_Node_Created (nd_id n) (nd_type n) ref) (zip (declared_refs es) ns)"
    "ev_run ` set evs \<subseteq> {rn_id r}"
    "created' = created_map (bt_insert ref (nd_id n) created) (zip (declared_refs es) ns)"
    by blast
  note N = insert_node_Inr [OF n] and E = append_event_Inr [OF e]
  have "conn u = (conn s)\<lparr>t_nodes := t_nodes (conn s) @ map (Pair (rn_project r)) (n # ns),
      t_events := t_events (conn s) @ e # evs\<rparr>"
    using N E R(1) by (simp add: add_node_def add_event_def)
  then show ?case
    using N E R(2-6)
    by (intro exI [of _ "n # ns"] exI [of _ "e # evs"])
       (simp add: map_filter_simps next_event_def created_map_def)
next
  case (3 r created source target ty es)
  then show ?case by (simp add: map_filter_simps)
qed

fun resolved :: "(emission_ref \<rightharpoonup> node_id) \<Rightarrow> endpoint \<Rightarrow> node_id option" where
  "resolved m (Ref_End ref) = m ref"
| "resolved m (Node_End n) = Some n"

fun emitted_edge ::
  "(emission_ref \<rightharpoonup> node_id) \<Rightarrow> emission \<Rightarrow> (node_id option \<times> node_id option \<times> edge_type) option" where
  "emitted_edge m (Node_Emission ref ty payload) = None"
| "emitted_edge m (Edge_Emission from to ty) = Some (resolved m from, resolved m to, ty)"

lemma resolve_Inr: "resolve created e s = (Inr n, u) \<longleftrightarrow> resolved (map_of created) e = Some n \<and> u = s"
  by (cases e) (auto split: option.splits)

lemma apply_edges_Inr:
  assumes "apply_edges r created es s = (Inr x, u)"
  shows "\<exists>eds evs. conn u = (conn s)\<lparr>t_edges := t_edges (conn s) @ map (Pair (rn_project r)) eds,
        t_events := t_events (conn s) @ evs\<rparr> \<and>
      map (\<lambda>e. (Some (ed_from e), Some (ed_to e), ed_type e)) eds =
        List.map_filter (emitted_edge (map_of created)) es \<and>
      map ev_data evs = map (\<lambda>e. Dag_Edge_Created (ed_id e) (ed_from e) (ed_to e) (ed_type e)) eds \<and>
      ev_run ` set evs \<subseteq> {rn_id r}"
  using assms
proof (induction r created es arbitrary: s rule: apply_edges.induct)
  case (1 r created)
  then show ?case by (intro exI [of _ "[]"]) (simp add: map_filter_simps)
next
  case (2 r created ref ty payload es)
  then show ?case by (simp add: map_filter_simps)
next
  case (3 r created source target ty es)
  from "3.prems" obtain a b e ev v w where
      a: "resolved (map_of created) source = Some a" and b: "resolved (map_of created) target = Some b"
    and e: "insert_edge (rn_project r) a b ty s = (Inr e, v)"
    and ev: "append_event (rn_id r) (Dag_Edge_Created (ed_id e) (ed_from e) (ed_to e) (ed_type e)) v = (Inr ev, w)"
    and rest: "apply_edges r created es w = (Inr x, u)"
    by (auto simp: andthen_Inr_iff resolve_Inr)
  from "3.IH" [OF rest] obtain eds evs where R: "conn u = (conn w)\<lparr>t_edges := t_edges (conn w) @
        map (Pair (rn_project r)) eds, t_events := t_events (conn w) @ evs\<rparr>"
    "map (\<lambda>e. (Some (ed_from e), Some (ed_to e), ed_type e)) eds =
        List.map_filter (emitted_edge (map_of created)) es"
    "map ev_data evs = map (\<lambda>e. Dag_Edge_Created (ed_id e) (ed_from e) (ed_to e) (ed_type e)) eds"
    "ev_run ` set evs \<subseteq> {rn_id r}"
    by blast
  note N = insert_edge_Inr [OF e] and E = append_event_Inr [OF ev]
  have "conn u = (conn s)\<lparr>t_edges := t_edges (conn s) @ map (Pair (rn_project r)) (e # eds),
      t_events := t_events (conn s) @ ev # evs\<rparr>"
    using N E R(1) by (simp add: add_edge_def add_event_def)
  then show ?case
    using N E R(2-4) a b
    by (intro exI [of _ "e # eds"] exI [of _ "ev # evs"])
       (simp add: map_filter_simps next_event_def)
qed

lemma created_map_zip:
  assumes "distinct refs" and "length refs = length ns"
  shows "map_of (created_map [] (zip refs ns)) = map_of (zip refs (map nd_id ns))"
proof -
  have "map (\<lambda>(ref, n). (ref, nd_id n)) (zip refs ns) = zip refs (map nd_id ns)"
    by (simp add: zip_map2)
  moreover have "distinct (map fst (zip refs (map nd_id ns)))" using assms by simp
  ultimately show ?thesis by (simp add: map_of_created_map map_of_rev)
qed

lemma created_map_dom:
  "length refs = length ns \<Longrightarrow> dom (map_of (created_map created (zip refs ns))) = dom (map_of created) \<union> set refs"
  by (simp add: map_of_created_map dom_map_of_conv_image_fst image_image case_prod_beta)
     (metis Un_commute list.set_map map_fst_zip)

text \<open>With every ref known, no edge runs into the \<open>expect\<close>.\<close>

lemma resolve_raises:
  "(\<And>ref. e = Ref_End ref \<Longrightarrow> map_of created ref \<noteq> None) \<Longrightarrow> raises own_error (resolve created e)"
  by (cases e) (auto simp: raises_def split: option.splits)

lemma apply_edges_raises:
  "(\<And>ref. Ref_End ref \<in> edge_ends es \<Longrightarrow> map_of created ref \<noteq> None) \<Longrightarrow>
     raises own_error (apply_edges r created es)"
proof (induction r created es rule: apply_edges.induct)
  case (3 r created source target ty es)
  have "raises own_error (resolve created source)" "raises own_error (resolve created target)"
    using "3.prems" by (auto intro!: resolve_raises)
  moreover have "raises own_error (apply_edges r created es)"
    using "3.prems" by (intro "3.IH") simp
  ultimately show ?case
    unfolding apply_edges.simps by (intro raises_intros)
qed (simp_all add: raises_def)

section \<open>Properties\<close>

text \<open>Provider output is accepted exactly if it is JSON that satisfies the response schema and
  deserializes, every emitted node declares a fresh ref, and every edge endpoint is such a ref or a
  node that the IR showed. Everything else is rejected as a whole.\<close>

theorem validate_response_iff:
  "validate_response cx raw ir = Inr (Validated_Response resp) \<longleftrightarrow>
     (\<exists>doc. json_read cx raw = Inr doc \<and> schema_errors cx Inference_Response_Contract doc = [] \<and>
        read_response cx doc = Inr resp) \<and>
     distinct (declared_refs (re_emissions resp)) \<and>
     edge_ends (re_emissions resp) \<subseteq>
       Ref_End ` set (declared_refs (re_emissions resp)) \<union>
       Node_End ` insert (ik_node (ii_task ir)) (ic_node ` set (ii_context ir))"
proof -
  have known: "known_endpoint refs (n # ns) x \<longleftrightarrow> x \<in> Ref_End ` set refs \<union> Node_End ` insert n (set ns)"
    for refs n ns x
    by (cases x) auto
  show ?thesis
    unfolding validate_response_Inr known contract_parse_Inr validated_response.sel set_map by blast
qed

text \<open>Once a response is validated, applying it never hits the \<open>expect\<close> on unknown refs: whatever the
  state of the store, it succeeds or fails with an error of the store itself.\<close>

theorem validated_refs_resolve:
  assumes "validate_response cx raw ir = Inr v"
  shows "case apply_response r v s of (Inl e, u) \<Rightarrow> own_error e | (Inr x, u) \<Rightarrow> True"
proof -
  let ?es = "re_emissions (response_of v)"
  have known: "Ref_End ref \<in> edge_ends ?es \<Longrightarrow> ref \<in> set (declared_refs ?es)" for ref
    using assms by (auto simp: validate_response_Inr)
  have "raises own_error (apply_edges r created ?es)"
    if made: "apply_nodes r [] ?es s' = (Inr created, u')" for created s' u'
  proof (rule apply_edges_raises)
    fix ref
    assume "Ref_End ref \<in> edge_ends ?es"
    then have "ref \<in> set (declared_refs ?es)" by (rule known)
    moreover obtain ns where "length ns = length (declared_refs ?es)"
      "created = created_map [] (zip (declared_refs ?es) ns)"
      using apply_nodes_Inr [OF made] by blast
    ultimately have "ref \<in> dom (map_of created)" using created_map_dom [of "declared_refs ?es" ns "[]"] by simp
    then show "map_of created ref \<noteq> None" by blast
  qed
  then have "m s = (Inl e, u) \<Longrightarrow> own_error e"
    if "m = andthen (apply_nodes r [] ?es) (\<lambda>created. apply_edges r created ?es)" for m s e u
    using apply_nodes_raises [of r "[]" ?es] unfolding that andthen_Inl_iff raises_def by blast
  then have "raises own_error (andthen (apply_nodes r [] ?es) (\<lambda>created. apply_edges r created ?es))"
    unfolding raises_def by blast
  then have "raises own_error (apply_response r v)"
    unfolding apply_response_def by (rule raises_andthen [OF append_event_raises])
  then show ?thesis by (auto simp: raises_def split: prod.split sum.split)
qed

text \<open>A response with a node and an edge, and a codec that reads it, for the witnesses.\<close>

definition demo_response :: inference_response where
  "demo_response =
     \<lparr>re_prose = ''done'',
      re_emissions = [Node_Emission (Emission_Ref ''obs'') Observation [],
        Edge_Emission (Ref_End (Emission_Ref ''obs'')) (Node_End (Ident ''node_9'')) Observed_From],
      re_tool_calls = [], re_metadata = None\<rparr>"

definition response_codec :: codec where
  "response_codec = demo_codec\<lparr>read_response := (\<lambda>j. Inr demo_response)\<rparr>"

definition demo_ir :: inference_ir where
  "demo_ir =
     \<lparr>ii_prompt = [], ii_task = \<lparr>ik_node = Ident ''node_9'', ik_message = ''more''\<rparr>, ii_context = [],
      ii_recent = [], ii_tools = [], ii_results = [], ii_recalled = [], ii_review = None\<rparr>"

definition chat_run :: run where
  "chat_run = hd (running_runs (conn chat_store))"

lemma demo_validated: "validate_response response_codec ''x'' demo_ir = Inr (Validated_Response demo_response)"
  by code_simp

lemma validated_refs_resolve_witness:
  "case apply_response chat_run (Validated_Response demo_response) chat_store of
     (Inl e, u) \<Rightarrow> own_error e | (Inr x, u) \<Rightarrow> True"
  by (rule validated_refs_resolve [OF demo_validated])

lemma apply_response_Inr:
  assumes "validate_response cx raw ir = Inr v" and "apply_response r v s = (Inr x, u)"
    and "acyclic (edge_rel (conn s))"
  shows "\<exists>ns eds evs.
    conn u = (conn s)\<lparr>t_nodes := t_nodes (conn s) @ map (Pair (rn_project r)) ns,
      t_edges := t_edges (conn s) @ map (Pair (rn_project r)) eds, t_events := t_events (conn s) @ evs\<rparr> \<and>
    map (\<lambda>n. (nd_type n, nd_payload n)) ns = List.map_filter emitted_node (re_emissions (response_of v)) \<and>
    map (\<lambda>e. (Some (ed_from e), Some (ed_to e), ed_type e)) eds =
      List.map_filter (emitted_edge (map_of (zip (declared_refs (re_emissions (response_of v))) (map nd_id ns))))
        (re_emissions (response_of v)) \<and>
    map ev_data evs = Response_Validated (response_of v) #
      map (\<lambda>(ref, n). Dag_Node_Created (nd_id n) (nd_type n) ref)
        (zip (declared_refs (re_emissions (response_of v))) ns) @
      map (\<lambda>e. Dag_Edge_Created (ed_id e) (ed_from e) (ed_to e) (ed_type e)) eds \<and>
    ev_run ` set evs \<subseteq> {rn_id r} \<and> acyclic (edge_rel (conn u))"
proof -
  let ?es = "re_emissions (response_of v)"
  from assms(2) obtain e w created y where
      e: "append_event (rn_id r) (Response_Validated (response_of v)) s = (Inr e, w)"
    and n: "apply_nodes r [] ?es w = (Inr created, y)" and d: "apply_edges r created ?es y = (Inr x, u)"
    by (auto simp: apply_response_def andthen_Inr_iff)
  from apply_nodes_Inr [OF n] obtain ns nevs where N: "conn y = (conn w)\<lparr>t_nodes := t_nodes (conn w) @
        map (Pair (rn_project r)) ns, t_events := t_events (conn w) @ nevs\<rparr>"
    "map (\<lambda>n. (nd_type n, nd_payload n)) ns = List.map_filter emitted_node ?es"
    "length ns = length (declared_refs ?es)"
    "map ev_data nevs = map (\<lambda>(ref, n). Dag_Node_Created (nd_id n) (nd_type n) ref) (zip (declared_refs ?es) ns)"
    "ev_run ` set nevs \<subseteq> {rn_id r}" "created = created_map [] (zip (declared_refs ?es) ns)"
    by blast
  from apply_edges_Inr [OF d] obtain eds devs where D: "conn u = (conn y)\<lparr>t_edges := t_edges (conn y) @
        map (Pair (rn_project r)) eds, t_events := t_events (conn y) @ devs\<rparr>"
    "map (\<lambda>e. (Some (ed_from e), Some (ed_to e), ed_type e)) eds =
        List.map_filter (emitted_edge (map_of created)) ?es"
    "map ev_data devs = map (\<lambda>e. Dag_Edge_Created (ed_id e) (ed_from e) (ed_to e) (ed_type e)) eds"
    "ev_run ` set devs \<subseteq> {rn_id r}"
    by blast
  have E: "conn w = add_event e (conn s)" "ev_run e = rn_id r" "ev_data e = Response_Validated (response_of v)"
    using append_event_Inr [OF e] by (auto simp: next_event_def)
  have lookup: "map_of created = map_of (zip (declared_refs ?es) (map nd_id ns))"
    using assms(1) N(3) by (simp add: N(6) created_map_zip validate_response_Inr)
  have frame: "conn u = (conn s)\<lparr>t_nodes := t_nodes (conn s) @ map (Pair (rn_project r)) ns,
      t_edges := t_edges (conn s) @ map (Pair (rn_project r)) eds, t_events := t_events (conn s) @ e # nevs @ devs\<rparr>"
    unfolding D(1) N(1) E(1) by (simp add: add_event_def)
  have acyclic: "acyclic (edge_rel (conn u))"
    by (rule acyclic_dag.effect_keeps [OF apply_response_moves assms(2,3)])
  show ?thesis
    by (intro exI [of _ ns] exI [of _ eds] exI [of _ "e # nevs @ devs"] conjI frame N(2) acyclic)
       (use D N E lookup in \<open>simp_all add: image_Un\<close>)
qed

text \<open>C7. Applying a validated response adds exactly what it emits, and nothing else changes: one node per
  node emission in order, with its type and payload, in the run's project; then one edge per edge
  emission in order, between the nodes that its endpoints name; one event for the response and one
  per record created. The graph stays acyclic.\<close>

theorem apply_response_effect:
  assumes "validate_response cx raw ir = Inr v" and "apply_response r v s = (Inr x, u)"
    and "acyclic (edge_rel (conn s))"
  shows "\<exists>ns eds evs.
    conn u = (conn s)\<lparr>t_nodes := t_nodes (conn s) @ map (Pair (rn_project r)) ns,
      t_edges := t_edges (conn s) @ map (Pair (rn_project r)) eds, t_events := t_events (conn s) @ evs\<rparr> \<and>
    map (\<lambda>n. (nd_type n, nd_payload n)) ns = List.map_filter emitted_node (re_emissions (response_of v)) \<and>
    map (\<lambda>e. (Some (ed_from e), Some (ed_to e), ed_type e)) eds =
      List.map_filter (emitted_edge (map_of (zip (declared_refs (re_emissions (response_of v))) (map nd_id ns))))
        (re_emissions (response_of v)) \<and>
    map ev_data evs = Response_Validated (response_of v) #
      map (\<lambda>(ref, n). Dag_Node_Created (nd_id n) (nd_type n) ref)
        (zip (declared_refs (re_emissions (response_of v))) ns) @
      map (\<lambda>e. Dag_Edge_Created (ed_id e) (ed_from e) (ed_to e) (ed_type e)) eds \<and>
    ev_run ` set evs \<subseteq> {rn_id r} \<and> acyclic (edge_rel (conn u))"
  by (rule apply_response_Inr [OF assms])

lemma apply_response_effect_witness:
  "length (t_nodes (conn (snd (apply_response chat_run (Validated_Response demo_response) chat_store)))) =
     Suc (length (t_nodes (conn chat_store)))"
proof -
  have "\<not> isl (fst (apply_response chat_run (Validated_Response demo_response) chat_store))"
    by code_simp
  then obtain x u where run: "apply_response chat_run (Validated_Response demo_response) chat_store = (Inr x, u)"
    by (metis isl_def old.sum.exhaust prod.collapse)
  have "list_all (list_all ordinary) chat_session" by (simp add: chat_session_def)
  then have "acyclic (edge_rel (conn chat_store))"
    unfolding chat_store_def by (blast dest: session_keeps)
  from apply_response_effect [OF demo_validated run this] obtain ns :: "dag_node list" and eds evs where
    "conn u = (conn chat_store)\<lparr>t_nodes := t_nodes (conn chat_store) @ map (Pair (rn_project chat_run)) ns,
       t_edges := t_edges (conn chat_store) @ map (Pair (rn_project chat_run)) eds,
       t_events := t_events (conn chat_store) @ evs\<rparr>"
    and "map (\<lambda>n. (nd_type n, nd_payload n)) ns =
       List.map_filter emitted_node (re_emissions (response_of (Validated_Response demo_response)))"
    by blast
  moreover from this(2) have "length ns = 1"
    using map_eq_imp_length_eq by (fastforce simp: demo_response_def map_filter_simps)
  ultimately show ?thesis by (simp add: run)
qed

end
