(* ===== verification/Runtime_State.thy ===== *)
theory Runtime_State
  imports Responses
begin

text \<open>
  The interfaces of \<open>tools.rs\<close> and \<open>provider.rs\<close>, the runtime's configuration and the state in which a run
  executes (\<open>runtime.rs\<close>).

  Jev, providers, the tool gate, the executor and the reviewer are trait objects supplied from outside.
  Each is a record of functions from the trace of all calls made so far, so it may keep any state of
  its own. A call under a deadline ends in a \<open>reply\<close> (an answer, the deadline, or the stop signal while
  it waited); a call without one ends in an option (\<open>None\<close> is the stop signal). While a run waits for a
  call, other clients may commit transactions to the same store: \<open>ru_others\<close> says which.
\<close>

section \<open>Tools\<close>

record tool_request =
  tq_call :: string
  tq_name :: string
  tq_arguments :: payload

datatype tool_decision = Allow tool_decider "string option" | Deny tool_decider string

record tool_output =
  to_output :: json
  to_is_error :: bool

record review =
  rv_findings :: "ir_finding list"
  rv_judged :: nat
  rv_fingerprint :: string

definition empty_review :: review where
  "empty_review = \<lparr>rv_findings = [], rv_judged = 0, rv_fingerprint = []\<rparr>"

datatype provider_error = Unknown_Model model_id | Request_Failed string

fun provider_error_str :: "provider_error \<Rightarrow> string" where
  "provider_error_str (Unknown_Model m) =
     ''model `'' @ model_str m @ ''` is not available from this provider''"
| "provider_error_str (Request_Failed reason) = ''inference request failed: '' @ reason"

section \<open>Calls to the outside\<close>

datatype ext_call =
    Call_Classify string jev_request
  | Call_Relevance string "recall_chunk list"
  | Call_Decide json "noul_question list"
  | Call_Window model_id
  | Call_Infer model_id inference_ir
  | Call_Gate run_id tool_request
  | Call_Before run_id tool_request
  | Call_Tool tool_request
  | Call_Review run_id
  | Call_End run_id

type_synonym trace = "ext_call list"

record jev =
  jv_id :: string
  jv_classify :: "trace \<Rightarrow> jev_request \<Rightarrow> (jev_error + string) reply"
  jv_relevance :: "trace \<Rightarrow> string \<Rightarrow> recall_chunk list \<Rightarrow> (jev_error + f64 list option) reply"
  jv_decide :: "trace \<Rightarrow> json \<Rightarrow> noul_question list \<Rightarrow> (jev_error + f64 list option) reply"

text \<open>An inference gives the deltas streamed before it ended, and how it ended.\<close>

record provider =
  pv_id :: provider_id
  pv_window :: "trace \<Rightarrow> model_id \<Rightarrow> nat option option"
  pv_infer :: "trace \<Rightarrow> model_id \<Rightarrow> inference_ir \<Rightarrow> string list \<times> (provider_error + string) reply"

record tool_runner =
  tr_decide :: "trace \<Rightarrow> run_id \<Rightarrow> tool_request \<Rightarrow> tool_decision option"
  tr_call :: "trace \<Rightarrow> tool_request \<Rightarrow> (string + tool_output) reply"

record reviewer =
  rw_before :: "trace \<Rightarrow> run_id \<Rightarrow> tool_request \<Rightarrow> unit option"
  rw_review :: "trace \<Rightarrow> run_id \<Rightarrow> (string + review) reply"

text \<open>\<open>AllowAll\<close>, the gate for tests and fully trusted setups.\<close>

definition allow_all :: "trace \<Rightarrow> run_id \<Rightarrow> tool_request \<Rightarrow> tool_decision option" where
  "allow_all tr i request = Some (Allow By_Policy None)"

section \<open>Configuration\<close>

instantiation provider_id :: linorder
begin

definition less_eq_provider_id :: "provider_id \<Rightarrow> provider_id \<Rightarrow> bool" where
  "less_eq_provider_id a b \<longleftrightarrow> provider_str a \<le> provider_str b"

definition less_provider_id :: "provider_id \<Rightarrow> provider_id \<Rightarrow> bool" where
  "less_provider_id a b \<longleftrightarrow> provider_str a < provider_str b"

instance
  by standard (auto simp: less_eq_provider_id_def less_provider_id_def provider_id.expand)

end

text \<open>
  The deadlines appear only as the text that \<open>Duration\<close>'s \<open>Debug\<close> prints for them. \<open>ru_stop_first\<close> says
  whether the stop signal wins the race against the pipeline's first step.
\<close>

record runtime =
  ru_codec :: codec
  ru_sqlite :: "constraint \<Rightarrow> string"
  ru_jev :: jev
  ru_fallback :: "jev option"
  ru_providers :: "(provider_id, provider) btree"
  ru_tools :: "ir_tool list"
  ru_runner :: "tool_runner option"
  ru_max_tool_steps :: nat
  ru_window :: nat
  ru_reviewer :: "reviewer option"
  ru_max_reviews :: nat
  ru_tool_timeout :: string
  ru_inference_timeout :: string
  ru_jev_timeout :: string
  ru_others :: "trace \<Rightarrow> tx_op list list"
  ru_stop_first :: "trace \<Rightarrow> bool"

definition default_max_review_rounds :: nat where
  "default_max_review_rounds = 3"

definition default_max_tool_steps :: nat where
  "default_max_tool_steps = 8"

text \<open>\<open>Runtime::new\<close> over the parameters that stand for the outside.\<close>

definition new_runtime ::
  "codec \<Rightarrow> (constraint \<Rightarrow> string) \<Rightarrow> (trace \<Rightarrow> tx_op list list) \<Rightarrow> (trace \<Rightarrow> bool) \<Rightarrow> jev \<Rightarrow> runtime" where
  "new_runtime cx sqlite others stop_first jev =
     \<lparr>ru_codec = cx, ru_sqlite = sqlite, ru_jev = jev, ru_fallback = None, ru_providers = [],
      ru_tools = [], ru_runner = None, ru_max_tool_steps = default_max_tool_steps,
      ru_window = recent_run_outcomes_default, ru_reviewer = None,
      ru_max_reviews = default_max_review_rounds, ru_tool_timeout = ''120s'',
      ru_inference_timeout = ''180s'', ru_jev_timeout = ''60s'', ru_others = others,
      ru_stop_first = stop_first\<rparr>"

definition with_provider :: "provider \<Rightarrow> runtime \<Rightarrow> runtime" where
  "with_provider p rt = rt\<lparr>ru_providers := bt_insert (pv_id p) p (ru_providers rt)\<rparr>"

definition with_tools :: "ir_tool list \<Rightarrow> runtime \<Rightarrow> runtime" where
  "with_tools tools rt = rt\<lparr>ru_tools := tools\<rparr>"

definition with_jev_fallback :: "jev \<Rightarrow> runtime \<Rightarrow> runtime" where
  "with_jev_fallback fallback rt = rt\<lparr>ru_fallback := Some fallback\<rparr>"

definition with_tool_runner :: "tool_runner \<Rightarrow> runtime \<Rightarrow> runtime" where
  "with_tool_runner runner rt = rt\<lparr>ru_runner := Some runner\<rparr>"

definition with_max_tool_steps :: "nat \<Rightarrow> runtime \<Rightarrow> runtime" where
  "with_max_tool_steps steps rt = rt\<lparr>ru_max_tool_steps := steps\<rparr>"

definition with_reviewer :: "reviewer \<Rightarrow> nat \<Rightarrow> runtime \<Rightarrow> runtime" where
  "with_reviewer reviewer max_rounds rt = rt\<lparr>ru_reviewer := Some reviewer, ru_max_reviews := max_rounds\<rparr>"

definition with_conversation_window :: "nat \<Rightarrow> runtime \<Rightarrow> runtime" where
  "with_conversation_window turns rt = rt\<lparr>ru_window := turns\<rparr>"

section \<open>State and failures\<close>

record world =
  w_store :: store
  w_trace :: trace
  w_stops :: "run_id list"

record stage_failure =
  sf_code :: error_code
  sf_message :: string
  sf_evidence :: "event_data option"

text \<open>A stage fails, the stop signal abandons the pipeline, or the code panics (recorded nowhere).\<close>

datatype run_error = Failure stage_failure | Cancelled_Run | Panicked string

type_synonym 'a stage = "(world, run_error, 'a) eff"

definition failure :: "error_code \<Rightarrow> string \<Rightarrow> run_error" where
  "failure code message = Failure \<lparr>sf_code = code, sf_message = message, sf_evidence = None\<rparr>"

definition failure_with :: "error_code \<Rightarrow> string \<Rightarrow> event_data \<Rightarrow> run_error" where
  "failure_with code message evidence =
     Failure \<lparr>sf_code = code, sf_message = message, sf_evidence = Some evidence\<rparr>"

text \<open>\<open>impl From<StoreError> for StageFailure\<close>.\<close>

fun of_store_error :: "(constraint \<Rightarrow> string) \<Rightarrow> store_error \<Rightarrow> run_error" where
  "of_store_error sqlite (Panic p) = Panicked p"
| "of_store_error sqlite e = failure Internal (store_error_str sqlite e)"

text \<open>A transaction of the run, and a step that only uses the store.\<close>

definition on_store :: "(store, 'e, 'a) eff \<Rightarrow> (world, 'e, 'a) eff" where
  "on_store m w = (case m (w_store w) of (r, s) \<Rightarrow> (r, w\<lparr>w_store := s\<rparr>))"

definition commit :: "runtime \<Rightarrow> 'a tx \<Rightarrow> 'a stage" where
  "commit rt work = map_err (of_store_error (ru_sqlite rt)) (on_store (transaction work))"

text \<open>A call to the outside: it is traced, other clients use the store meanwhile, and it is answered.\<close>

definition ask :: "runtime \<Rightarrow> ext_call \<Rightarrow> (trace \<Rightarrow> 'a) \<Rightarrow> 'a stage" where
  "ask rt call answer w =
     (Inr (answer (w_trace w)),
      w\<lparr>w_trace := w_trace w @ [call], w_store := session (ru_others rt (w_trace w)) (w_store w)\<rparr>)"

text \<open>Awaiting an answer inside \<open>execute\<close>, which the stop signal abandons.\<close>

fun answered :: "'a reply \<Rightarrow> 'a option stage" where
  "answered (Answer a) = ret (Some a)"
| "answered Elapsed = ret None"
| "answered Stopped = throw Cancelled_Run"

fun waited :: "'a option \<Rightarrow> 'a stage" where
  "waited (Some a) = ret a"
| "waited None = throw Cancelled_Run"

section \<open>Evaluation rules\<close>

lemma ret_Inr: "ret x s = (Inr y, t) \<longleftrightarrow> y = x \<and> t = s"
  by auto

lemma on_store_Inr: "on_store m w = (Inr a, v) \<longleftrightarrow> (\<exists>s. m (w_store w) = (Inr a, s) \<and> v = w\<lparr>w_store := s\<rparr>)"
  by (auto simp: on_store_def split: prod.splits)

lemma on_store_Inl: "on_store m w = (Inl e, v) \<longleftrightarrow> (\<exists>s. m (w_store w) = (Inl e, s) \<and> v = w\<lparr>w_store := s\<rparr>)"
  by (auto simp: on_store_def split: prod.splits)

lemma commit_Inr:
  "commit rt m w = (Inr a, v) \<longleftrightarrow> (\<exists>s. transaction m (w_store w) = (Inr a, s) \<and> v = w\<lparr>w_store := s\<rparr>)"
  by (simp add: commit_def on_store_Inr)

lemma commit_Inl:
  "commit rt m w = (Inl e, v) \<longleftrightarrow>
     (\<exists>s x. transaction m (w_store w) = (Inl x, s) \<and> e = of_store_error (ru_sqlite rt) x \<and> v = w\<lparr>w_store := s\<rparr>)"
  by (auto simp: commit_def map_err_Inl_iff on_store_Inl)

lemma ask_Inr:
  "ask rt call answer w = (Inr a, v) \<longleftrightarrow> a = answer (w_trace w) \<and>
     v = w\<lparr>w_trace := w_trace w @ [call], w_store := session (ru_others rt (w_trace w)) (w_store w)\<rparr>"
  by (auto simp: ask_def)

lemma ask_Inl [simp]: "ask rt call answer w \<noteq> (Inl e, v)"
  by (simp add: ask_def)

lemma answered_Inr: "answered r w = (Inr x, v) \<longleftrightarrow>
    v = w \<and> ((\<exists>a. r = Answer a \<and> x = Some a) \<or> r = Elapsed \<and> x = None)"
  by (cases r) auto

lemma waited_Inr: "waited r w = (Inr x, v) \<longleftrightarrow> v = w \<and> r = Some x"
  by (cases r) auto

end
