(* ===== verification/Run_Stages.thy ===== *)
theory Run_Stages
  imports Runtime_State
begin

text \<open>
  The stages of a run's pipeline (\<open>runtime.rs\<close>): classification with its fallback, relevance judgments,
  recall and compaction, tool calls, reviews, inference.
\<close>

section \<open>Tools and budget\<close>

definition jev_tool_description_chars :: nat where
  "jev_tool_description_chars = 300"

definition tool_candidate :: "ir_tool \<Rightarrow> jev_tool" where
  "tool_candidate tool =
     (let description = take_chars jev_tool_description_chars (it_description tool)
      in \<lparr>jt_name = it_name tool,
          jt_description = (if length description < length (it_description tool)
                            then description @ ellipsis else description)\<rparr>)"

definition exposed_tools :: "ir_tool list \<Rightarrow> context_classification \<Rightarrow> ir_tool list" where
  "exposed_tools tools classification =
     (let hidden = map tc_name (filter (\<lambda>e. tc_classification e = Inactive) (cc_tools classification))
      in filter (\<lambda>tool. it_name tool \<notin> set hidden) tools)"

definition reserved_tokens :: nat where
  "reserved_tokens = 16000"

definition chars_per_token :: nat where
  "chars_per_token = 3"

definition ir_budget :: "nat \<Rightarrow> nat" where
  "ir_budget tokens = (tokens - reserved_tokens) * chars_per_token"

section \<open>Classification\<close>

definition classify_with :: "runtime \<Rightarrow> jev \<Rightarrow> jev_request \<Rightarrow> context_classification stage" where
  "classify_with rt jev request =
     andthen (ask rt (Call_Classify (jv_id jev) request) (\<lambda>tr. jv_classify jev tr request)) (\<lambda>r.
     andthen (answered r) (\<lambda>a.
       case a of
         None \<Rightarrow> throw (failure Jev_Failed (''no classification within '' @ ru_jev_timeout rt))
       | Some (Inl e) \<Rightarrow> throw (failure Jev_Failed (jev_error_str e))
       | Some (Inr raw) \<Rightarrow>
           (case validate_classification (ru_codec rt) request raw of
              Inl e \<Rightarrow> throw (failure_with Jev_Invalid_Output
                        (''Jev output rejected: '' @ classification_error_str e)
                        (Jev_Rejected (classification_error_str e) raw))
            | Inr c \<Rightarrow> ret c)))"

definition apply_stage :: "runtime \<Rightarrow> run \<Rightarrow> context_classification \<Rightarrow> unit stage" where
  "apply_stage rt r c = commit rt (discard (apply_classification (rn_id r) c))"

definition request_classification :: "runtime \<Rightarrow> run \<Rightarrow> node_id \<Rightarrow> string \<Rightarrow> jev_request tx" where
  "request_classification rt r task message =
     query (\<lambda>d. classification_request d r task message) (\<lambda>request0.
       (let request = request0\<lparr>jr_tools := map tool_candidate (ru_tools rt)\<rparr>
        in andthen (append_event (rn_id r) (Jev_Requested (jv_id (ru_jev rt)) request)) (\<lambda>_. ret request)))"

definition record_fallback :: "run \<Rightarrow> stage_failure \<Rightarrow> jev \<Rightarrow> unit tx" where
  "record_fallback r f fallback =
     andthen (case sf_evidence f of
                Some evidence \<Rightarrow> discard (append_event (rn_id r) evidence)
              | None \<Rightarrow> ret ()) (\<lambda>_.
       discard (append_event (rn_id r) (Jev_Fallback (jv_id fallback) (sf_message f))))"

definition classify_context :: "runtime \<Rightarrow> run \<Rightarrow> node_id \<Rightarrow> string \<Rightarrow> context_classification stage" where
  "classify_context rt r task message =
     andthen (commit rt (request_classification rt r task message)) (\<lambda>request w.
       (case classify_with rt (ru_jev rt) request w of
          (Inr c, w1) \<Rightarrow> andthen (apply_stage rt r c) (\<lambda>_. ret c) w1
        | (Inl (Failure f), w1) \<Rightarrow>
            (case ru_fallback rt of
               None \<Rightarrow> (Inl (Failure f), w1)
             | Some fallback \<Rightarrow>
                 andthen (commit rt (record_fallback r f fallback)) (\<lambda>_.
                 andthen (classify_with rt fallback request) (\<lambda>c.
                 andthen (apply_stage rt r c) (\<lambda>_. ret c))) w1)
        | (Inl e, w1) \<Rightarrow> (Inl e, w1)))"

section \<open>Relevance\<close>

definition valid_scores :: "recall_chunk list \<Rightarrow> f64 list \<Rightarrow> bool" where
  "valid_scores chunks scores \<longleftrightarrow>
     length scores = length chunks \<and> list_all (f64_within 0 1) scores"

definition judge :: "runtime \<Rightarrow> string \<Rightarrow> recall_chunk list \<Rightarrow> f64 list option stage" where
  "judge rt q chunks =
     andthen (ask rt (Call_Relevance q chunks) (\<lambda>tr. jv_relevance (ru_jev rt) tr q chunks)) (\<lambda>r.
     andthen (answered r) (\<lambda>a.
       ret (case a of
              Some (Inr (Some scores)) \<Rightarrow> if valid_scores chunks scores then Some scores else None
            | _ \<Rightarrow> None)))"

definition recall_turns :: "runtime \<Rightarrow> run \<Rightarrow> string \<Rightarrow> (ir_recalled_turn \<times> f64) list stage" where
  "recall_turns rt r message =
     andthen (commit rt (query (\<lambda>d. recall_candidates (ru_codec rt) d (rn_id r) (ru_window rt)) of_result))
       (\<lambda>candidates.
       if candidates = [] then ret []
       else
         andthen (judge rt message (map rq_chunk candidates)) (\<lambda>scores.
           ret (case scores of Some s \<Rightarrow> select_recalled candidates s | None \<Rightarrow> [])))"

definition wants_everything_question :: noul_question where
  "wants_everything_question =
     \<lparr>nq_key = ''wants_everything'',
      nq_instructions = JObj [(''task'', JStr (
        ''Decide whether the user's message in `state.message` asks to load, use, '' @
        ''or see all available context (every earlier turn, chat, and note of the '' @
        ''project) rather than asking about something specific.''))],
      nq_if_true = ''The message asks for everything available, e.g. \"load all context\" or '' @
        ''\"use everything from all our chats\".'',
      nq_if_false = ''The message asks about something specific, or does not ask for more '' @
        ''context at all.''\<rparr>"

text \<open>\<open>RECALL_THRESHOLD..=1.0\<close> on the first answer.\<close>

definition wants_everything :: "runtime \<Rightarrow> string \<Rightarrow> f64 option stage" where
  "wants_everything rt message =
     (let state = JObj [(''message'', JStr message)]; questions = [wants_everything_question]
      in andthen (ask rt (Call_Decide state questions) (\<lambda>tr. jv_decide (ru_jev rt) tr state questions)) (\<lambda>r.
         andthen (answered r) (\<lambda>a.
           ret (case a of
                  Some (Inr (Some (p # _))) \<Rightarrow> if f64_within recall_threshold 1 p then Some p else None
                | _ \<Rightarrow> None))))"

definition rank_all :: "recall_candidate list \<Rightarrow> (ir_recalled_turn \<times> f64) list" where
  "rank_all candidates =
     (let count = max (length candidates) 1
      in map (\<lambda>(index, c). (rq_turn c, Fin (of_nat (index + 1) / of_nat count)))
           (enumerate 0 candidates))"

definition recall_everything :: "runtime \<Rightarrow> run \<Rightarrow> (ir_recalled_turn \<times> f64) list stage" where
  "recall_everything rt r =
     andthen (commit rt (query (\<lambda>d. recall_candidates (ru_codec rt) d (rn_id r) (ru_window rt)) of_result))
       (\<lambda>candidates. ret (rank_all candidates))"

text \<open>The chunks of \<open>compact_tool_results\<close>: large results of earlier rounds, with their requests.\<close>

fun compact_chunks ::
  "codec \<Rightarrow> string list \<Rightarrow> (string, string \<times> payload) btree \<Rightarrow> event_data list \<Rightarrow> recall_chunk list" where
  "compact_chunks cx latest requests [] = []"
| "compact_chunks cx latest requests (Tool_Requested call name arguments # es) =
     compact_chunks cx latest (bt_insert call (name, arguments) requests) es"
| "compact_chunks cx latest requests (Tool_Finished call output is_error # es) =
     (let s = tool_output_text (json_text cx) output
      in if call \<in> set latest \<or> length (chars_of s) < compact_min_chars
         then compact_chunks cx latest requests es
         else case map_of requests call of
                None \<Rightarrow> compact_chunks cx latest requests es
              | Some (name, arguments) \<Rightarrow>
                  \<lparr>ck_id = call,
                   ck_text = ''tool call '' @ name @ '' '' @ json_text cx (JObj arguments) @
                     ''\<newline>result:\<newline>'' @ cut s recall_chunk_chars\<rparr>
                  # compact_chunks cx latest requests es)"
| "compact_chunks cx latest requests (_ # es) = compact_chunks cx latest requests es"

definition irrelevant :: "recall_chunk list \<Rightarrow> f64 list \<Rightarrow> string list" where
  "irrelevant chunks scores =
     map (\<lambda>(c, _). ck_id c) (filter (\<lambda>(_, score). f64_lt score (Fin recall_threshold)) (zip chunks scores))"

definition compact_tool_results ::
  "runtime \<Rightarrow> run \<Rightarrow> string \<Rightarrow> string \<Rightarrow> string list \<Rightarrow> string list stage" where
  "compact_tool_results rt r message latest_step latest_round =
     andthen (commit rt (query (\<lambda>d. events_of_types d (rn_id r) [''tool.requested'', ''tool.completed'']) ret))
       (\<lambda>events.
       (let chunks = compact_chunks (ru_codec rt) latest_round [] (map ev_data events)
        in if chunks = [] then ret []
           else
             andthen (judge rt
                 (message @ ''\<newline>\<newline>The assistant's latest step: '' @ latest_step) chunks) (\<lambda>scores.
               ret (case scores of Some s \<Rightarrow> irrelevant chunks s | None \<Rightarrow> []))))"

section \<open>Expanding the context\<close>

fun missing_nodes ::
  "node_id \<Rightarrow> (node_id, context_source) btree \<Rightarrow> dag_node list \<Rightarrow> node_id list \<times> (node_id, context_source) btree" where
  "missing_nodes task members [] = ([], members)"
| "missing_nodes task members (n # ns) =
     (if nd_id n \<noteq> task \<and> map_of members (nd_id n) = None
      then (case missing_nodes task (bt_insert (nd_id n) By_Jev members) ns of
              (added, m) \<Rightarrow> (nd_id n # added, m))
      else missing_nodes task members ns)"

definition expand_context :: "run \<Rightarrow> node_id \<Rightarrow> f64 \<Rightarrow> unit tx" where
  "expand_context r task probability =
     query (\<lambda>d. missing_nodes task (context_map (context_of d (rn_id r))) (nodes_of d (rn_project r)))
       (\<lambda>(added, members).
         andthen (replace_context (rn_id r) members) (\<lambda>_.
         andthen (append_event (rn_id r) (Context_Expanded probability)) (\<lambda>_.
           for_each added (\<lambda>n. discard (append_event (rn_id r) (Context_Added n))))))"

section \<open>Inference\<close>

text \<open>\<open>RecordDeltas\<close>: each delta is its own transaction; after a store error nothing more is recorded.\<close>

fun record_deltas :: "runtime \<Rightarrow> run \<Rightarrow> string list \<Rightarrow> unit stage" where
  "record_deltas rt r [] = ret ()"
| "record_deltas rt r (text # texts) =
     andthen (commit rt (discard (append_event (rn_id r) (Inference_Delta text)))) (\<lambda>_.
       record_deltas rt r texts)"

text \<open>The stop signal while a step runs: what the step recorded stays, its outcome is dropped.\<close>

definition cancelling :: "'a stage \<Rightarrow> 'b stage" where
  "cancelling m w =
     (case m w of
        (Inl (Panicked msg), v) \<Rightarrow> (Inl (Panicked msg), v)
      | (_, v) \<Rightarrow> (Inl Cancelled_Run, v))"

definition infer :: "runtime \<Rightarrow> run \<Rightarrow> inference_ir \<Rightarrow> provider \<Rightarrow> string stage" where
  "infer rt r ir p =
     andthen (commit rt (append_event (rn_id r) (Inference_Started (rn_provider r) (rn_model r)))) (\<lambda>_.
     andthen (ask rt (Call_Infer (rn_model r) ir) (\<lambda>tr. pv_infer p tr (rn_model r) ir)) (\<lambda>(deltas, r1).
       (if r1 = Stopped
        then cancelling (record_deltas rt r deltas)
        else
          andthen (record_deltas rt r deltas) (\<lambda>_.
            case r1 of
              Elapsed \<Rightarrow> throw (failure Provider_Timeout
                 (''no final response within '' @ ru_inference_timeout rt))
            | Answer (Inl e) \<Rightarrow> throw (failure Provider_Failed (provider_error_str e))
            | Answer (Inr raw) \<Rightarrow>
                andthen (commit rt (append_event (rn_id r) (Inference_Completed raw))) (\<lambda>_. ret raw)
            | Stopped \<Rightarrow> throw Cancelled_Run))))"

end
