(* ===== verification/Run_Tools.thy ===== *)
theory Run_Tools
  imports Run_Stages
begin

text \<open>
  Tool calls and reviews of a run (\<open>Runtime::run_tool\<close>, \<open>Runtime::review\<close>, \<open>record_findings\<close>).
\<close>

section \<open>Tool calls\<close>

definition tool_gate_decision ::
  "runtime \<Rightarrow> run \<Rightarrow> inference_ir \<Rightarrow> tool_request \<Rightarrow> bool \<Rightarrow> tool_decision stage" where
  "tool_gate_decision rt r ir request over_limit =
     (let listed = list_ex (\<lambda>tool. it_name tool = tq_name request) (ii_tools ir)
      in if over_limit
         then ret (Deny By_Limit (''the run reached its limit of '' @ show_nat (ru_max_tool_steps rt) @
                '' tool rounds''))
         else case ru_runner rt of
           Some runner \<Rightarrow>
             if listed
             then andthen (ask rt (Call_Gate (rn_id r) request) (\<lambda>tr. tr_decide runner tr (rn_id r) request))
                    waited
             else ret (Deny By_Unavailable (''no tool named `'' @ tq_name request @
                    ''` is available to this run''))
         | None \<Rightarrow> ret (Deny By_Unavailable (''no tool named `'' @ tq_name request @
                    ''` is available to this run'')))"

definition before_call :: "runtime \<Rightarrow> run \<Rightarrow> tool_request \<Rightarrow> unit stage" where
  "before_call rt r request =
     (case ru_reviewer rt of
        None \<Rightarrow> ret ()
      | Some rw \<Rightarrow>
          andthen (ask rt (Call_Before (rn_id r) request) (\<lambda>tr. rw_before rw tr (rn_id r) request)) waited)"

definition error_output :: "string \<Rightarrow> tool_output" where
  "error_output message = \<lparr>to_output = JObj [(''error'', JStr message)], to_is_error = True\<rparr>"

definition call_tool :: "runtime \<Rightarrow> tool_runner \<Rightarrow> tool_request \<Rightarrow> tool_output stage" where
  "call_tool rt runner request =
     andthen (ask rt (Call_Tool request) (\<lambda>tr. tr_call runner tr request)) (\<lambda>reply.
     andthen (answered reply) (\<lambda>a.
       ret (case a of
              Some (Inr result) \<Rightarrow> result
            | Some (Inl e) \<Rightarrow> error_output e
            | None \<Rightarrow> error_output (''no result within '' @ ru_tool_timeout rt))))"

definition run_tool :: "runtime \<Rightarrow> run \<Rightarrow> inference_ir \<Rightarrow> tool_request \<Rightarrow> bool \<Rightarrow> unit stage" where
  "run_tool rt r ir request over_limit =
     andthen (commit rt (append_event (rn_id r)
                (Tool_Requested (tq_call request) (tq_name request) (tq_arguments request)))) (\<lambda>_.
     andthen (tool_gate_decision rt r ir request over_limit) (\<lambda>decision.
     (let (allowed, decider, reason) =
            (case decision of
               Allow d note \<Rightarrow> (True, d, note)
             | Deny d why \<Rightarrow> (False, d, Some why))
      in andthen (commit rt (append_event (rn_id r)
                    (Tool_Decided (tq_call request) allowed decider reason))) (\<lambda>_.
         case (if allowed then ru_runner rt else None) of
           None \<Rightarrow> ret ()
         | Some runner \<Rightarrow>
             andthen (before_call rt r request) (\<lambda>_.
             andthen (call_tool rt runner request) (\<lambda>result.
               commit rt (discard (append_event (rn_id r)
                 (Tool_Finished (tq_call request) (to_output result) (to_is_error result))))))))))"

section \<open>Reviews\<close>

definition same_finding :: "ir_finding \<Rightarrow> payload \<Rightarrow> bool" where
  "same_finding f p \<longleftrightarrow>
     payload_str ''kind'' p = Some ''lint_finding'' \<and> payload_str ''rule'' p = Some (if_rule f) \<and>
     payload_str ''file'' p = Some (if_file f) \<and> payload_str ''function'' p = Some (if_function f)"

text \<open>A JSON number; \<open>serde_json\<close> has no infinities and no NaN and writes null for them.\<close>

definition json_of_f64 :: "f64 \<Rightarrow> json" where
  "json_of_f64 x = (case x of Fin q \<Rightarrow> JFloat x | _ \<Rightarrow> JNull)"

definition finding_payload :: "ir_finding \<Rightarrow> payload" where
  "finding_payload f =
     [(''file'', JStr (if_file f)), (''function'', JStr (if_function f)), (''kind'', JStr ''lint_finding''),
      (''line'', JInt (int (if_line f))), (''probability'', json_of_f64 (if_probability f)),
      (''rule'', JStr (if_rule f)),
      (''text'', JStr (''Lint: '' @ if_text f @ '' `'' @ if_function f @ ''` ('' @ if_file f @ '':'' @
         show_nat (if_line f) @ '')''))]"

fun record_each :: "run \<Rightarrow> payload list \<Rightarrow> nat \<Rightarrow> ir_finding list \<Rightarrow> unit tx" where
  "record_each r existing index [] = ret ()"
| "record_each r existing index (f # fs) =
     (if list_ex (same_finding f) existing then record_each r existing (Suc index) fs
      else
        andthen (insert_node (rn_project r) Observation (finding_payload f)) (\<lambda>n.
        (case parse_emission_ref (''review-finding-'' @ show_nat (index + 1)) of
           Inl e \<Rightarrow> throw (Panic ''review finding refs are valid'')
         | Inr reference \<Rightarrow>
             andthen (append_event (rn_id r) (Dag_Node_Created (nd_id n) Observation reference)) (\<lambda>_.
               record_each r existing (Suc index) fs))))"

definition record_findings :: "run \<Rightarrow> ir_finding list \<Rightarrow> unit tx" where
  "record_findings r findings =
     query (\<lambda>d. map nd_payload (filter (\<lambda>n. nd_type n = Observation) (nodes_of d (rn_project r))))
       (\<lambda>existing. record_each r existing 0 findings)"

record review_state =
  rs_rounds :: nat
  rs_fingerprint :: "string option"

text \<open>The counts a review records are cut to \<open>u32\<close>, as \<open>as u32\<close> does.\<close>

definition as_u32 :: "nat \<Rightarrow> nat" where
  "as_u32 n = n mod 2 ^ 32"

definition review_outcome :: "runtime \<Rightarrow> (string + review) option \<Rightarrow> review \<times> string option" where
  "review_outcome rt a =
     (case a of
        Some (Inr rv) \<Rightarrow> (rv, None)
      | Some (Inl e) \<Rightarrow> (empty_review, Some e)
      | None \<Rightarrow> (empty_review, Some (''no review within '' @ ru_tool_timeout rt)))"

text \<open>\<open>Runtime::review\<close> after the reviewer answered.\<close>

definition settle_review ::
  "runtime \<Rightarrow> run \<Rightarrow> review_state \<Rightarrow> review \<Rightarrow> string option \<Rightarrow> (ir_review option \<times> review_state) stage" where
  "settle_review rt r st rv err =
     (if rv_judged rv = 0 \<and> err = None then ret (None, st)
      else
        andthen (commit rt (append_event (rn_id r)
          (Review_Completed (as_u32 (rs_rounds st + 1)) (as_u32 (rv_judged rv)) (rv_findings rv) err))) (\<lambda>_.
        if rv_findings rv = [] then ret (None, st\<lparr>rs_rounds := rs_rounds st + 1\<rparr>)
        else if rs_fingerprint st = Some (rv_fingerprint rv) \<or> ru_max_reviews rt \<le> rs_rounds st + 1
        then andthen (commit rt (record_findings r (rv_findings rv))) (\<lambda>_.
               ret (None, st\<lparr>rs_rounds := rs_rounds st + 1\<rparr>))
        else ret (Some \<lparr>iv_round = as_u32 (rs_rounds st + 1), iv_max_rounds = as_u32 (ru_max_reviews rt),
                        iv_findings = rv_findings rv\<rparr>,
                  \<lparr>rs_rounds = rs_rounds st + 1, rs_fingerprint = Some (rv_fingerprint rv)\<rparr>)))"

definition review_stage :: "runtime \<Rightarrow> run \<Rightarrow> review_state \<Rightarrow> (ir_review option \<times> review_state) stage" where
  "review_stage rt r st =
     (case ru_reviewer rt of
        None \<Rightarrow> ret (None, st)
      | Some rw \<Rightarrow>
          if ru_max_reviews rt \<le> rs_rounds st then ret (None, st)
          else
            andthen (ask rt (Call_Review (rn_id r)) (\<lambda>tr. rw_review rw tr (rn_id r))) (\<lambda>reply.
            andthen (answered reply) (\<lambda>a.
              settle_review rt r st (fst (review_outcome rt a)) (snd (review_outcome rt a)))))"

lemma settle_review_Some:
  assumes "settle_review rt r st rv err w = (Inr (Some rv1, st'), v)"
  shows "rs_rounds st' = Suc (rs_rounds st) \<and> rs_rounds st' < ru_max_reviews rt \<and>
    rs_fingerprint st' = Some (rv_fingerprint rv) \<and> rs_fingerprint st' \<noteq> rs_fingerprint st \<and>
    iv_findings rv1 = rv_findings rv \<and> rv_findings rv \<noteq> []"
  using assms unfolding settle_review_def
  by (auto simp: andthen_Inr_iff ret_Inr split: if_splits)

lemma review_stage_Some:
  assumes "review_stage rt r st w = (Inr (Some rv1, st'), v)"
  shows "rs_rounds st' = Suc (rs_rounds st) \<and> rs_rounds st' < ru_max_reviews rt"
proof -
  from assms obtain rv err u where "settle_review rt r st rv err u = (Inr (Some rv1, st'), v)"
    unfolding review_stage_def
    by (auto simp: andthen_Inr_iff ret_Inr split: option.splits if_splits)
  then show ?thesis by (auto dest: settle_review_Some)
qed

end
