(* ===== verification/Ir_Fit.thy ===== *)
theory Ir_Fit
  imports Run_Tools
begin

text \<open>
  \<open>Runtime::compile_ir\<close>: compiling a step's IR and fitting it to the model's window. \<open>fit_free\<close> is the inner
  loop that leaves out enough, by size, to get under the budget; \<open>fit\<close> is the outer loop that compiles
  again. Both terminate: every round leaves out a recalled turn, the output of a tool call or a turn
  of the chat, or finds that nothing is left to leave out. The database does not change meanwhile,
  because all of it happens in one transaction.
\<close>

section \<open>Definitions\<close>

record step =
  sp_recalled :: "(ir_recalled_turn \<times> f64) list"
  sp_omitted :: "string list"
  sp_latest :: "string list"
  sp_review :: "ir_review option"
  sp_budget :: "nat option"

record fit_state =
  ft_kept :: "bool list"
  ft_order :: "nat list"
  ft_omitted :: "string list"
  ft_window :: nat
  ft_exhausted :: bool

definition fit_start :: "nat \<Rightarrow> step \<Rightarrow> fit_state" where
  "fit_start window sp =
     \<lparr>ft_kept = replicate (length (sp_recalled sp)) True,
      ft_order = sort_by_score (\<lambda>i. snd (sp_recalled sp ! i)) [0..<length (sp_recalled sp)],
      ft_omitted = sp_omitted sp, ft_window = window, ft_exhausted = False\<rparr>"

definition kept_turns :: "step \<Rightarrow> fit_state \<Rightarrow> ir_recalled_turn list" where
  "kept_turns sp st =
     map (\<lambda>((turn, _), _). turn) (filter (\<lambda>(_, kept). kept) (zip (sp_recalled sp) (ft_kept st)))"

definition fit_history :: "step \<Rightarrow> fit_state \<Rightarrow> ir_history" where
  "fit_history sp st =
     \<lparr>hi_window = ft_window st, hi_recalled = kept_turns sp st, hi_omitted = ft_omitted st,
      hi_review = sp_review sp\<rparr>"

text \<open>\<open>step.budget.and_then(|budget| size.checked_sub(budget))\<close>.\<close>

definition over_budget :: "step \<Rightarrow> nat \<Rightarrow> nat option" where
  "over_budget sp n =
     (case sp_budget sp of
        None \<Rightarrow> None
      | Some budget \<Rightarrow> if budget \<le> n then Some (n - budget) else None)"

definition droppable :: "step \<Rightarrow> string list \<Rightarrow> ir_tool_result \<Rightarrow> bool" where
  "droppable sp omitted r \<longleftrightarrow>
     ir_call r \<notin> set (sp_latest sp) \<and> ir_call r \<notin> set omitted \<and> ir_output r \<noteq> None"

function fit_free :: "codec \<Rightarrow> step \<Rightarrow> inference_ir \<Rightarrow> nat \<Rightarrow> nat \<Rightarrow> fit_state \<Rightarrow> fit_state" where
  "fit_free cx sp ir over freed st =
     (if over < freed then st
      else
        (case ft_order st of
           i # rest \<Rightarrow>
             fit_free cx sp ir over (freed + length (rt_text (fst (sp_recalled sp ! i))))
               (st\<lparr>ft_kept := (ft_kept st)[i := False], ft_order := rest\<rparr>)
         | [] \<Rightarrow>
             (case find (droppable sp (ft_omitted st)) (ii_results ir) of
                Some r \<Rightarrow>
                  fit_free cx sp ir over
                    (freed + (case ir_output r of None \<Rightarrow> 0 | Some result \<Rightarrow> length (json_text cx result)))
                    (st\<lparr>ft_omitted := ir_call r # ft_omitted st\<rparr>)
              | None \<Rightarrow>
                  if 0 < ft_window st \<and> ii_recent ir \<noteq> []
                  then fit_free cx sp ir over (over + 1) (st\<lparr>ft_window := length (ii_recent ir) - 1\<rparr>)
                  else st\<lparr>ft_exhausted := True\<rparr>)))"
  by pat_completeness auto

definition pending_calls :: "inference_ir \<Rightarrow> fit_state \<Rightarrow> nat" where
  "pending_calls ir st = card (ir_call ` set (ii_results ir) - set (ft_omitted st))"

lemma pending_calls_drop:
  assumes "find (droppable sp (ft_omitted st)) (ii_results ir) = Some r"
  shows "pending_calls ir (st\<lparr>ft_omitted := ir_call r # ft_omitted st\<rparr>) < pending_calls ir st"
proof -
  from find_Some_in [OF assms] have r: "r \<in> set (ii_results ir)" "ir_call r \<notin> set (ft_omitted st)"
    by (auto simp: droppable_def)
  then show ?thesis
    unfolding pending_calls_def by (intro psubset_card_mono) auto
qed

termination fit_free
proof (relation "measure (\<lambda>(cx, sp, ir, over, freed, st).
    length (ft_order st) + pending_calls ir st + (if over < freed then 0 else 1))", goal_cases)
  case (3 cx sp ir over freed st r)
  then show ?case using pending_calls_drop [of sp st ir r] by auto
qed (auto simp: pending_calls_def)

declare fit_free.simps [simp del]

function fit ::
  "codec \<Rightarrow> db \<Rightarrow> run_id \<Rightarrow> node_id \<Rightarrow> ir_tool list \<Rightarrow> step \<Rightarrow> fit_state \<Rightarrow> compile_error + inference_ir" where
  "fit cx d i task tools sp st =
     (case compile_with cx d i task tools (fit_history sp st) of
        Inl e \<Rightarrow> Inl e
      | Inr ir \<Rightarrow>
          (case over_budget sp (length (text_of_ir cx ir)) of
             None \<Rightarrow> Inr ir
           | Some over \<Rightarrow>
               if ft_exhausted st then Inr ir
               else fit cx d i task tools sp (fit_free cx sp ir over 0 st)))"
  by pat_completeness auto

text \<open>What is still there to leave out: recalled turns, calls not yet omitted, turns of the window.\<close>

definition fit_size :: "codec \<Rightarrow> db \<Rightarrow> run_id \<Rightarrow> fit_state \<Rightarrow> nat" where
  "fit_size cx d i st =
     length (ft_order st) + card (ir_call ` set (tool_results cx d i []) - set (ft_omitted st)) +
     ft_window st + (if ft_exhausted st then 0 else 1)"

lemma result_calls:
  "ir_call ` set (tool_results cx d i omitted) = ir_call ` set (tool_results cx d i [])"
proof -
  have "map result_identity (tool_results cx d i omitted) = map result_identity (tool_results cx d i [])"
    by (simp add: tool_results_def foldl_tool_event_identity)
  then have "fst ` set (map result_identity (tool_results cx d i omitted)) =
      fst ` set (map result_identity (tool_results cx d i []))"
    by (rule arg_cong)
  then show ?thesis by (simp add: image_image result_identity_def)
qed

lemma compile_with_results:
  assumes "compile_with cx d i task tools h = Inr ir"
  shows "ii_results ir = tool_results cx d i (hi_omitted h) \<and> length (ii_recent ir) \<le> hi_window h \<and>
    ii_recalled ir = hi_recalled h \<and> recent_run_outcomes d i (hi_window h) = Inr (ii_recent ir)"
proof (rule compile_with_Inr [OF assms])
  fix r t message items recent
  assume o: "recent_run_outcomes d i (hi_window h) = Inr recent"
    and ir: "ir = \<lparr>ii_prompt = rn_prompt r, ii_task = \<lparr>ik_node = task, ik_message = message\<rparr>,
           ii_context = items, ii_recent = recent, ii_tools = tools,
           ii_results = tool_results cx d i (hi_omitted h), ii_recalled = hi_recalled h,
           ii_review = hi_review h\<rparr>"
  show ?thesis using recent_run_outcomes_length [OF o] o by (simp add: ir)
qed

text \<open>What the inner loop can do to the state.\<close>

lemma fit_free_progress:
  assumes "length (ii_recent ir) \<le> ft_window st"
  shows "length (ft_order (fit_free cx sp ir over freed st)) \<le> length (ft_order st) \<and>
    set (ft_omitted st) \<subseteq> set (ft_omitted (fit_free cx sp ir over freed st)) \<and>
    ft_window (fit_free cx sp ir over freed st) \<le> ft_window st \<and>
    (ft_exhausted st \<longrightarrow> ft_exhausted (fit_free cx sp ir over freed st)) \<and>
    (freed \<le> over \<longrightarrow>
       length (ft_order (fit_free cx sp ir over freed st)) < length (ft_order st) \<or>
       (\<exists>r \<in> set (ii_results ir). ir_call r \<notin> set (ft_omitted st) \<and>
          ir_call r \<in> set (ft_omitted (fit_free cx sp ir over freed st))) \<or>
       ft_window (fit_free cx sp ir over freed st) < ft_window st \<or>
       ft_exhausted (fit_free cx sp ir over freed st))"
  using assms
proof (induction cx sp ir over freed st rule: fit_free.induct)
  case (1 cx sp ir over freed st)
  show ?case
  proof (cases "over < freed")
    case True
    then show ?thesis by (simp add: fit_free.simps [of cx sp ir over freed st])
  next
    case False
    show ?thesis
    proof (cases "ft_order st")
      case (Cons j rest)
      with False 1 show ?thesis
        by (fastforce simp: fit_free.simps [of cx sp ir over freed st])
    next
      case Nil
      show ?thesis
      proof (cases "find (droppable sp (ft_omitted st)) (ii_results ir)")
        case (Some r)
        then have r: "r \<in> set (ii_results ir)" "ir_call r \<notin> set (ft_omitted st)"
          by (auto dest!: find_Some_in simp: droppable_def)
        from "1.IH"(2) [OF False Nil Some] "1.prems" False Nil Some r show ?thesis
          by (auto simp: fit_free.simps [of cx sp ir over freed st])
      next
        case None
        show ?thesis
        proof (cases "0 < ft_window st \<and> ii_recent ir \<noteq> []")
          case True
          then have "length (ii_recent ir) - 1 < ft_window st" using "1.prems" by (cases "ii_recent ir") auto
          then show ?thesis
            using False Nil None True
            by (simp add: fit_free.simps [of cx sp ir over freed st] fit_free.simps [of cx sp ir over "Suc over"])
        next
          case no: False
          then show ?thesis
            using False Nil None by (auto simp: fit_free.simps [of cx sp ir over freed st])
        qed
      qed
    qed
  qed
qed

lemma fit_free_size:
  assumes "compile_with cx d i task tools (fit_history sp st) = Inr ir" and "\<not> ft_exhausted st"
  shows "fit_size cx d i (fit_free cx sp ir over 0 st) < fit_size cx d i st"
proof -
  let ?st = "fit_free cx sp ir over 0 st"
  let ?calls = "ir_call ` set (tool_results cx d i [])"
  note C = compile_with_results [OF assms(1)]
  have "length (ii_recent ir) \<le> ft_window st" using C by (simp add: fit_history_def)
  note P = fit_free_progress [OF this, of cx sp over 0]
  have calls: "ir_call ` set (ii_results ir) = ?calls"
    using C result_calls [of cx d i "hi_omitted (fit_history sp st)"] by simp
  have fin: "finite (?calls - set (ft_omitted st))" by simp
  have sub: "?calls - set (ft_omitted ?st) \<subseteq> ?calls - set (ft_omitted st)" using P by blast
  then have le: "card (?calls - set (ft_omitted ?st)) \<le> card (?calls - set (ft_omitted st))"
    by (rule card_mono [OF fin])
  have lt: "card (?calls - set (ft_omitted ?st)) < card (?calls - set (ft_omitted st))"
    if "r \<in> set (ii_results ir)" "ir_call r \<notin> set (ft_omitted st)" "ir_call r \<in> set (ft_omitted ?st)" for r
  proof -
    have "ir_call r \<in> ?calls - set (ft_omitted st)" using that(1,2) calls by blast
    then show ?thesis using sub that(3) by (intro psubset_card_mono [OF fin]) blast
  qed
  show ?thesis using P le lt assms(2) unfolding fit_size_def by fastforce
qed

termination fit
  by (relation "measure (\<lambda>(cx, d, i, task, tools, sp, st). fit_size cx d i st)")
     (simp_all add: fit_free_size)

declare fit.simps [simp del]

fun of_compile_error :: "compile_error \<Rightarrow> (constraint \<Rightarrow> string) \<Rightarrow> run_error" where
  "of_compile_error (Compile_Contract v) sqlite = failure Ir_Invalid (contract_violation_str v)"
| "of_compile_error (Compile_Store (Panic p)) sqlite = Panicked p"
| "of_compile_error e sqlite = failure Internal (compile_error_str sqlite e)"

text \<open>The closure of \<open>compile_ir\<close> runs in one transaction and fails with a stage failure of its own.\<close>

definition compile_ir_in ::
  "runtime \<Rightarrow> run \<Rightarrow> node_id \<Rightarrow> ir_tool list \<Rightarrow> step \<Rightarrow> (store, run_error, inference_ir) eff" where
  "compile_ir_in rt r task tools sp s =
     (case fit (ru_codec rt) (conn s) (rn_id r) task tools sp (fit_start (ru_window rt) sp) of
        Inl e \<Rightarrow> (Inl (of_compile_error e (ru_sqlite rt)), s)
      | Inr ir \<Rightarrow>
          andthen (map_err (of_store_error (ru_sqlite rt)) (append_event (rn_id r) (Ir_Compiled ir)))
            (\<lambda>_. ret ir) s)"

definition compile_ir :: "runtime \<Rightarrow> run \<Rightarrow> node_id \<Rightarrow> ir_tool list \<Rightarrow> step \<Rightarrow> inference_ir stage" where
  "compile_ir rt r task tools sp = on_store (transaction (compile_ir_in rt r task tools sp))"

section \<open>What fitting leaves out\<close>

text \<open>
  An invariant of the loops: nothing of the latest round is left out by fitting, the window never
  grows, and a recalled turn is marked as left out exactly when it is no longer in the drop order.
\<close>

definition fit_inv :: "step \<Rightarrow> nat \<Rightarrow> fit_state \<Rightarrow> bool" where
  "fit_inv sp window st \<longleftrightarrow>
     set (ft_omitted st) \<inter> set (sp_latest sp) \<subseteq> set (sp_omitted sp) \<and>
     set (sp_omitted sp) \<subseteq> set (ft_omitted st) \<and> ft_window st \<le> window \<and>
     length (ft_kept st) = length (sp_recalled sp) \<and> distinct (ft_order st) \<and>
     {i. i < length (ft_kept st) \<and> ft_kept st ! i} = set (ft_order st)"

lemma fit_start_inv: "fit_inv sp window (fit_start window sp)"
  by (auto simp: fit_inv_def fit_start_def)

lemma fit_inv_drop:
  assumes "fit_inv sp window st" and "ft_order st = i # rest"
  shows "fit_inv sp window (st\<lparr>ft_kept := (ft_kept st)[i := False], ft_order := rest\<rparr>)"
proof -
  have "i < length (ft_kept st)" using assms by (auto simp: fit_inv_def)
  then have "{k. k < length (ft_kept st) \<and> (ft_kept st)[i := False] ! k} =
      {k. k < length (ft_kept st) \<and> ft_kept st ! k} - {i}"
    by (auto simp: nth_list_update split: if_splits)
  also have "\<dots> = set rest" using assms by (auto simp: fit_inv_def)
  finally show ?thesis using assms by (simp add: fit_inv_def)
qed

lemma fit_free_inv:
  "fit_inv sp window st \<Longrightarrow> length (ii_recent ir) \<le> ft_window st \<Longrightarrow>
     fit_inv sp window (fit_free cx sp ir over freed st)"
proof (induction cx sp ir over freed st rule: fit_free.induct)
  case (1 cx sp ir over freed st)
  note step = fit_free.simps [of cx sp ir over freed st]
  show ?case
  proof (cases "over < freed")
    case False
    show ?thesis
    proof (cases "ft_order st")
      case (Cons j rest)
      then show ?thesis using "1.IH"(3) [OF False Cons] fit_inv_drop [OF "1.prems"(1) Cons] "1.prems"(2) False
        by (simp add: step)
    next
      case Nil
      show ?thesis
      proof (cases "find (droppable sp (ft_omitted st)) (ii_results ir)")
        case (Some r)
        then have "ir_call r \<notin> set (sp_latest sp)" by (auto dest!: find_Some_in simp: droppable_def)
        then have "fit_inv sp window (st\<lparr>ft_omitted := ir_call r # ft_omitted st\<rparr>)"
          using "1.prems"(1) by (auto simp: fit_inv_def)
        then show ?thesis using "1.IH"(2) [OF False Nil Some] "1.prems"(2) False Nil Some by (simp add: step)
      next
        case None
        show ?thesis
          using "1.prems" False Nil None
          by (auto simp: step fit_free.simps [of cx sp ir over "Suc over"] fit_inv_def)
      qed
    qed
  qed (simp add: step "1.prems")
qed

text \<open>When the inner loop gives up, nothing that may be left out remains.\<close>

definition nothing_left :: "step \<Rightarrow> inference_ir \<Rightarrow> fit_state \<Rightarrow> bool" where
  "nothing_left sp ir st \<longleftrightarrow> ft_order st = [] \<and>
     (\<forall>r \<in> set (ii_results ir). \<not> droppable sp (ft_omitted st) r) \<and>
     (ft_window st = 0 \<or> ii_recent ir = [])"

lemma fit_free_gives_up:
  "\<not> ft_exhausted st \<Longrightarrow> ft_exhausted (fit_free cx sp ir over freed st) \<Longrightarrow>
     nothing_left sp ir (fit_free cx sp ir over freed st) \<and>
     ft_window (fit_free cx sp ir over freed st) = ft_window st"
proof (induction cx sp ir over freed st rule: fit_free.induct)
  case (1 cx sp ir over freed st)
  note step = fit_free.simps [of cx sp ir over freed st]
  have running: "\<not> over < freed" using "1.prems" step by auto
  show ?case
  proof (cases "ft_order st")
    case (Cons j rest)
    then show ?thesis using "1.IH"(3) [OF running Cons] "1.prems" running by (simp add: step)
  next
    case Nil
    show ?thesis
    proof (cases "find (droppable sp (ft_omitted st)) (ii_results ir)")
      case (Some r)
      then show ?thesis using "1.IH"(2) [OF running Nil Some] "1.prems" running Nil by (simp add: step)
    next
      case None
      then show ?thesis
        using "1.prems" running Nil
        by (auto simp: step fit_free.simps [of cx sp ir over "Suc over"] nothing_left_def
            dest: find_None_all [THEN iffD1] split: if_splits)
    qed
  qed
qed

text \<open>Which calls have an output does not depend on what is omitted.\<close>

definition output_sign :: "ir_tool_result \<Rightarrow> string \<times> bool" where
  "output_sign r = (ir_call r, ir_output r = None)"

lemma update_result_sign:
  assumes "map output_sign rs = map output_sign rs'"
    and "\<And>r r'. output_sign r = output_sign r' \<Longrightarrow> output_sign (f r) = output_sign (g r')"
  shows "map output_sign (update_result call f rs) = map output_sign (update_result call g rs')"
  using assms(1)
proof (induction rs arbitrary: rs')
  case (Cons r rs)
  then obtain r' rest where rs': "rs' = r' # rest" by (cases rs') auto
  with Cons have "output_sign r = output_sign r'" "map output_sign rs = map output_sign rest" by auto
  moreover from this(1) have "ir_call r = ir_call r'" by (simp add: output_sign_def)
  ultimately show ?case using Cons.IH assms(2) by (simp add: rs')
qed simp

lemma tool_event_sign:
  assumes "map output_sign rs = map output_sign rs'"
  shows "map output_sign (tool_event cx om rs e) = map output_sign (tool_event cx om' rs' e)"
proof (cases e)
  case (Tool_Decided call allowed decider reason)
  show ?thesis unfolding Tool_Decided tool_event.simps
    by (rule update_result_sign [OF assms]) (simp add: output_sign_def Let_def)
next
  case (Tool_Finished call result is_error)
  show ?thesis unfolding Tool_Finished tool_event.simps
    by (rule update_result_sign [OF assms]) (simp add: output_sign_def)
qed (simp_all add: assms output_sign_def)

lemma tool_results_sign:
  "map output_sign (tool_results cx d i om) = map output_sign (tool_results cx d i om')"
proof -
  have "map output_sign rs = map output_sign rs' \<Longrightarrow>
      map output_sign (foldl (tool_event cx om) rs es) = map output_sign (foldl (tool_event cx om') rs' es)"
    for rs rs' es
  proof (induction es arbitrary: rs rs')
    case (Cons e es)
    then show ?case using Cons.IH [OF tool_event_sign [OF Cons.prems]] by simp
  qed simp
  then show ?thesis by (simp add: tool_results_def)
qed

lemma droppable_sign: "droppable sp om r \<longleftrightarrow>
    (case output_sign r of (call, none) \<Rightarrow> call \<notin> set (sp_latest sp) \<and> call \<notin> set om \<and> \<not> none)"
  by (simp add: droppable_def output_sign_def)

text \<open>Giving up on one compilation means nothing is left for the next one, which has the same window.\<close>

lemma nothing_left_again:
  assumes "compile_with cx d i task tools h = Inr ir" and "compile_with cx d i task tools (fit_history sp st) = Inr ir'"
    and "hi_window h = ft_window st" and "nothing_left sp ir st"
  shows "nothing_left sp ir' st"
proof -
  have "\<forall>x \<in> set (map output_sign (ii_results ir')). \<not> (case x of (call, none) \<Rightarrow>
      call \<notin> set (sp_latest sp) \<and> call \<notin> set (ft_omitted st) \<and> \<not> none)"
    using assms(4) compile_with_results [OF assms(1)] compile_with_results [OF assms(2)]
      tool_results_sign [of cx d i "hi_omitted h" "hi_omitted (fit_history sp st)"]
    unfolding nothing_left_def droppable_sign by (metis (no_types, lifting) imageE image_eqI list.set_map)
  moreover have "ii_recent ir' = ii_recent ir"
    using compile_with_results [OF assms(1)] compile_with_results [OF assms(2)] assms(3)
    by (simp add: fit_history_def)
  ultimately show ?thesis
    using assms(4) unfolding nothing_left_def droppable_sign by (metis (no_types, lifting) imageI list.set_map)
qed

lemma kept_turns_none:
  assumes "fit_inv sp window st" and "ft_order st = []"
  shows "kept_turns sp st = []"
proof -
  have "list_all (\<lambda>k. \<not> k) (ft_kept st)"
    using assms by (auto simp: fit_inv_def list_all_length)
  then have "filter (\<lambda>(_, kept). kept) (zip (sp_recalled sp) (ft_kept st)) = []"
    by (auto simp: filter_empty_conv list_all_iff dest: set_zip_rightD)
  then show ?thesis by (simp add: kept_turns_def)
qed

lemma kept_turns_start: "kept_turns sp (fit_start window sp) = map fst (sp_recalled sp)"
proof -
  have "map (\<lambda>((turn, _), _). turn) (filter (\<lambda>(_, kept). kept) (zip xs (replicate (length xs) True))) = map fst xs"
    for xs :: "(ir_recalled_turn \<times> f64) list"
    by (induction xs) auto
  then show ?thesis by (simp add: kept_turns_def fit_start_def)
qed

lemma fit_reaches:
  assumes "fit cx d i task tools sp st = Inr ir" and "fit_inv sp window st"
    and "ft_exhausted st \<Longrightarrow> \<exists>h ir'. compile_with cx d i task tools h = Inr ir' \<and>
      hi_window h = ft_window st \<and> nothing_left sp ir' st"
  shows "\<exists>st'. compile_with cx d i task tools (fit_history sp st') = Inr ir \<and> fit_inv sp window st' \<and>
    (over_budget sp (length (text_of_ir cx ir)) = None \<or> nothing_left sp ir st')"
  using assms
proof (induction cx d i task tools sp st rule: fit.induct)
  case (1 cx d i task tools sp st)
  from "1.prems"(1) obtain ir1 where c: "compile_with cx d i task tools (fit_history sp st) = Inr ir1"
    by (auto simp: fit.simps [of cx d i task tools sp st] split: sum.splits)
  show ?case
  proof (cases "over_budget sp (length (text_of_ir cx ir1))")
    case None
    then have "ir = ir1" using "1.prems"(1) c by (simp add: fit.simps [of cx d i task tools sp st])
    then show ?thesis using c None "1.prems"(2) by blast
  next
    case (Some over)
    show ?thesis
    proof (cases "ft_exhausted st")
      case True
      then have "ir = ir1" using "1.prems"(1) c Some by (simp add: fit.simps [of cx d i task tools sp st])
      moreover have "nothing_left sp ir1 st"
        using "1.prems"(3) [OF True] nothing_left_again [OF _ c] by blast
      ultimately show ?thesis using c "1.prems"(2) by blast
    next
      case False
      let ?st = "fit_free cx sp ir1 over 0 st"
      have again: "fit cx d i task tools sp ?st = Inr ir"
        using "1.prems"(1) c Some False by (simp add: fit.simps [of cx d i task tools sp st])
      have recent: "length (ii_recent ir1) \<le> ft_window st"
        using compile_with_results [OF c] by (simp add: fit_history_def)
      have inv: "fit_inv sp window ?st" by (rule fit_free_inv [OF "1.prems"(2) recent])
      have up: "\<exists>h ir'. compile_with cx d i task tools h = Inr ir' \<and> hi_window h = ft_window ?st \<and> nothing_left sp ir' ?st"
        if "ft_exhausted ?st"
        using fit_free_gives_up [OF False that] c by (intro exI [of _ "fit_history sp st"]) (simp add: fit_history_def)
      show ?thesis by (rule "1.IH" [OF c Some False again inv up])
    qed
  qed
qed

section \<open>Properties\<close>

text \<open>C4. Fitting always ends, and what it ends with is right: an IR whose size is below the budget as it is
  goes out complete; otherwise every result of the latest round keeps its output (unless it was
  omitted before), no turns beyond the window appear, and if the IR is still not below the budget then
  there is nothing left to leave out: no recalled turn, no output of an earlier round, no recent turn.\<close>

theorem fit_outcome:
  assumes "fit cx d i task tools sp (fit_start window sp) = Inr ir"
  shows "\<exists>h. compile_with cx d i task tools h = Inr ir \<and> hi_window h \<le> window \<and>
    set (hi_omitted h) \<inter> set (sp_latest sp) \<subseteq> set (sp_omitted sp) \<and>
    set (hi_recalled h) \<subseteq> fst ` set (sp_recalled sp) \<and>
    (over_budget sp (length (text_of_ir cx ir)) = None \<or>
       hi_recalled h = [] \<and> (hi_window h = 0 \<or> ii_recent ir = []) \<and>
       {ir_call r | r. r \<in> set (ii_results ir) \<and> ir_output r \<noteq> None} \<subseteq>
         set (sp_latest sp) \<union> set (hi_omitted h)) \<and>
    (case compile_with cx d i task tools \<lparr>hi_window = window, hi_recalled = map fst (sp_recalled sp),
            hi_omitted = sp_omitted sp, hi_review = sp_review sp\<rparr> of
       Inl e \<Rightarrow> False
     | Inr full \<Rightarrow> over_budget sp (length (text_of_ir cx full)) = None \<longrightarrow> ir = full)"
proof -
  let ?start = "fit_start window sp"
  have "\<not> ft_exhausted ?start" by (simp add: fit_start_def)
  from fit_reaches [OF assms fit_start_inv] this obtain st where
      c: "compile_with cx d i task tools (fit_history sp st) = Inr ir" and inv: "fit_inv sp window st"
    and ended: "over_budget sp (length (text_of_ir cx ir)) = None \<or> nothing_left sp ir st"
    by blast
  have left: "kept_turns sp st = [] \<and> (ft_window st = 0 \<or> ii_recent ir = []) \<and>
      {ir_call r | r. r \<in> set (ii_results ir) \<and> ir_output r \<noteq> None} \<subseteq> set (sp_latest sp) \<union> set (ft_omitted st)"
    if "nothing_left sp ir st"
    using that kept_turns_none [OF inv] by (auto simp: nothing_left_def droppable_def)
  have kept: "set (kept_turns sp st) \<subseteq> fst ` set (sp_recalled sp)"
    by (force simp: kept_turns_def dest: set_zip_leftD)
  have start: "fit_history sp ?start = \<lparr>hi_window = window, hi_recalled = map fst (sp_recalled sp),
      hi_omitted = sp_omitted sp, hi_review = sp_review sp\<rparr>"
    unfolding fit_history_def kept_turns_start by (simp add: fit_start_def)
  have full: "case compile_with cx d i task tools (fit_history sp ?start) of
       Inl e \<Rightarrow> False
     | Inr full \<Rightarrow> over_budget sp (length (text_of_ir cx full)) = None \<longrightarrow> ir = full"
    using assms by (auto simp: fit.simps [of cx d i task tools sp ?start] split: sum.splits)
  show ?thesis
    using c inv ended left kept full unfolding start
    by (intro exI [of _ "fit_history sp st"]) (auto simp: fit_history_def fit_inv_def)
qed

definition demo_step :: step where
  "demo_step =
     \<lparr>sp_recalled = [(\<lparr>rt_run = Ident ''run_2'', rt_chat = ''c'', rt_text = ''t''\<rparr>, Fin 1)],
      sp_omitted = [], sp_latest = [], sp_review = None, sp_budget = Some 0\<rparr>"

text \<open>With a budget that nothing meets, the fitted IR has neither recalled nor recent turns left.\<close>

lemma fit_outcome_witness:
  "case fit demo_codec (conn chat_store) (Ident ''run_7'') (Ident ''node_9'') [] demo_step (fit_start 8 demo_step) of
     Inl e \<Rightarrow> False
   | Inr ir \<Rightarrow> ii_recalled ir = []"
proof -
  have "\<not> isl (fit demo_codec (conn chat_store) (Ident ''run_7'') (Ident ''node_9'') [] demo_step (fit_start 8 demo_step))"
    by code_simp
  then obtain ir where ir: "fit demo_codec (conn chat_store) (Ident ''run_7'') (Ident ''node_9'') [] demo_step
      (fit_start 8 demo_step) = Inr ir"
    by (metis isl_def old.sum.exhaust)
  from fit_outcome [OF ir] obtain h where
      "compile_with demo_codec (conn chat_store) (Ident ''run_7'') (Ident ''node_9'') [] h = Inr ir"
    and "over_budget demo_step (length (text_of_ir demo_codec ir)) = None \<or> hi_recalled h = []"
    by blast
  moreover have "over_budget demo_step n \<noteq> None" for n by (simp add: over_budget_def demo_step_def)
  ultimately show ?thesis by (auto simp: ir dest: compile_with_results)
qed

end
