(* ===== verification/Run_Loop.thy ===== *)
theory Run_Loop
  imports Ir_Fit
begin

text \<open>
  The run lifecycle (\<open>Runtime::start_in\<close>, \<open>execute\<close>, \<open>finish\<close>, \<open>recover_runs_except\<close>). One pass of the loop of
  \<open>execute\<close> is \<open>loop_pass\<close>; \<open>run_passes\<close> repeats it and ends, because every pass that continues uses up a round of
  tool calls or a review.
\<close>

section \<open>Starting a run\<close>

datatype thread = Latest project_id | In_Conversation conversation_id | New_Thread project_id

record started_run =
  sr_run :: run
  sr_task :: node_id
  sr_message :: string

datatype runtime_error = Unknown_Provider provider_id | Runtime_Store store_error

definition thread_conversation :: "thread \<Rightarrow> string \<Rightarrow> conversation_id tx" where
  "thread_conversation thread message =
     (case thread of
        In_Conversation i \<Rightarrow> ret i
      | Latest p \<Rightarrow>
          query (\<lambda>d. latest_conversation d p) (\<lambda>latest.
            case latest of
              Some c \<Rightarrow> ret (cv_id c)
            | None \<Rightarrow> andthen (create_conversation p message) (\<lambda>c. ret (cv_id c)))
      | New_Thread p \<Rightarrow> andthen (create_conversation p message) (\<lambda>c. ret (cv_id c)))"

definition start_tx :: "thread \<Rightarrow> string \<Rightarrow> run_config \<Rightarrow> (run \<times> node_id) tx" where
  "start_tx thread message config =
     andthen (thread_conversation thread message) (\<lambda>c.
     andthen (create_run_in c config) (\<lambda>r.
     andthen (insert_node (rn_project r) Conversation_Node (turn_to_payload (user_turn message))) (\<lambda>task.
     andthen (append_event (rn_id r) (Message_Recorded (nd_id task) message)) (\<lambda>_.
     andthen (carry_context (rn_id r)) (\<lambda>_.
       ret (r, nd_id task))))))"

definition start_in ::
  "runtime \<Rightarrow> thread \<Rightarrow> string \<Rightarrow> run_config \<Rightarrow> (world, runtime_error, started_run) eff" where
  "start_in rt thread message config =
     (if map_of (ru_providers rt) (rc_provider config) = None
      then throw (Unknown_Provider (rc_provider config))
      else
        andthen (map_err Runtime_Store (on_store (transaction (start_tx thread message config))))
          (\<lambda>(r, task). ret \<lparr>sr_run = r, sr_task = task, sr_message = message\<rparr>))"

definition start_run ::
  "runtime \<Rightarrow> project_id \<Rightarrow> string \<Rightarrow> run_config \<Rightarrow> (world, runtime_error, started_run) eff" where
  "start_run rt p message config = start_in rt (Latest p) message config"

section \<open>Executing a run\<close>

record loop_state =
  lp_latest_round :: "string list"
  lp_latest_step :: string
  lp_omitted :: "string list"
  lp_review :: "ir_review option"
  lp_reviews :: review_state
  lp_rounds :: nat
  lp_next_call :: nat

definition loop_start :: loop_state where
  "loop_start =
     \<lparr>lp_latest_round = [], lp_latest_step = [], lp_omitted = [], lp_review = None,
      lp_reviews = \<lparr>rs_rounds = 0, rs_fingerprint = None\<rparr>, lp_rounds = 0, lp_next_call = 1\<rparr>"

definition call_name :: "nat \<Rightarrow> string" where
  "call_name n = ''call_'' @ show_nat n"

text \<open>The requests of a round, with the call IDs that count all calls of the run.\<close>

definition round_requests :: "nat \<Rightarrow> tool_call list \<Rightarrow> tool_request list" where
  "round_requests next_call calls =
     map (\<lambda>(k, call). \<lparr>tq_call = call_name k, tq_name = tl_name call, tq_arguments = tl_arguments call\<rparr>)
       (enumerate next_call calls)"

definition apply_response_stage :: "runtime \<Rightarrow> run \<Rightarrow> validated_response \<Rightarrow> unit stage" where
  "apply_response_stage rt r v =
     map_err (\<lambda>e. case e of
         Dag violation \<Rightarrow> failure_with Emission_Rejected
            (''emissions rejected: '' @ dag_violation_str violation)
            (Response_Rejected (dag_violation_str violation))
       | other \<Rightarrow> of_store_error (ru_sqlite rt) other)
       (on_store (transaction (apply_response r v)))"

definition validate_stage :: "runtime \<Rightarrow> string \<Rightarrow> inference_ir \<Rightarrow> validated_response stage" where
  "validate_stage rt raw ir =
     (case validate_response (ru_codec rt) raw ir of
        Inl e \<Rightarrow> throw (failure_with Response_Invalid (''response rejected: '' @ response_error_str e)
                   (Response_Rejected (response_error_str e)))
      | Inr v \<Rightarrow> ret v)"

text \<open>What \<open>execute\<close> passes through its loop unchanged.\<close>

record plan =
  pn_provider :: provider
  pn_task :: node_id
  pn_message :: string
  pn_tools :: "ir_tool list"
  pn_recalled :: "(ir_recalled_turn \<times> f64) list"
  pn_budget :: "nat option"

definition omitted_results :: "runtime \<Rightarrow> run \<Rightarrow> plan \<Rightarrow> loop_state \<Rightarrow> string list stage" where
  "omitted_results rt r pn st =
     (if 0 < lp_rounds st
      then compact_tool_results rt r (pn_message pn) (lp_latest_step st) (lp_latest_round st)
      else ret (lp_omitted st))"

definition step_of :: "plan \<Rightarrow> loop_state \<Rightarrow> string list \<Rightarrow> step" where
  "step_of pn st omitted =
     \<lparr>sp_recalled = pn_recalled pn, sp_omitted = omitted, sp_latest = lp_latest_round st,
      sp_review = lp_review st, sp_budget = pn_budget pn\<rparr>"

text \<open>The tool calls of one round.\<close>

definition tool_round :: "runtime \<Rightarrow> run \<Rightarrow> inference_ir \<Rightarrow> nat \<Rightarrow> nat \<Rightarrow> tool_call list \<Rightarrow> unit stage" where
  "tool_round rt r ir next_call rounds calls =
     for_each (round_requests next_call calls) (\<lambda>request. run_tool rt r ir request (ru_max_tool_steps rt < rounds))"

text \<open>
  What follows the response: a review if it asks for no tools, a round of tool calls otherwise.
  \<open>Some st\<close> continues the loop with the state, \<open>None\<close> breaks out of it.
\<close>

definition after_response ::
  "runtime \<Rightarrow> run \<Rightarrow> inference_ir \<Rightarrow> string list \<Rightarrow> inference_response \<Rightarrow> loop_state \<Rightarrow>
   loop_state option stage" where
  "after_response rt r ir omitted response st =
     (if re_tool_calls response = []
      then andthen (review_stage rt r (lp_reviews st)) (\<lambda>(result, reviews).
             ret (map_option (\<lambda>rv. st\<lparr>lp_omitted := omitted, lp_review := Some rv, lp_reviews := reviews\<rparr>)
                    result))
      else andthen (tool_round rt r ir (lp_next_call st) (lp_rounds st + 1) (re_tool_calls response)) (\<lambda>_.
             ret (if ru_max_tool_steps rt < lp_rounds st + 1 then None
                  else Some (st\<lparr>lp_omitted := omitted, lp_rounds := lp_rounds st + 1,
                              lp_latest_step := re_prose response,
                              lp_latest_round :=
                                map tq_call (round_requests (lp_next_call st) (re_tool_calls response)),
                              lp_next_call := lp_next_call st + length (re_tool_calls response)\<rparr>))))"

definition loop_pass :: "runtime \<Rightarrow> run \<Rightarrow> plan \<Rightarrow> loop_state \<Rightarrow> loop_state option stage" where
  "loop_pass rt r pn st =
     andthen (omitted_results rt r pn st) (\<lambda>omitted.
     andthen (compile_ir rt r (pn_task pn) (pn_tools pn) (step_of pn st omitted)) (\<lambda>ir.
     andthen (infer rt r ir (pn_provider pn)) (\<lambda>raw.
     andthen (validate_stage rt raw ir) (\<lambda>v.
     andthen (apply_response_stage rt r v) (\<lambda>_.
       after_response rt r ir omitted (response_of v) st)))))"

text \<open>Rounds of tool calls and reviews left; the loop's measure.\<close>

definition loop_measure :: "runtime \<Rightarrow> loop_state \<Rightarrow> nat" where
  "loop_measure rt st =
     (ru_max_tool_steps rt - lp_rounds st) + (ru_max_reviews rt - rs_rounds (lp_reviews st))"

lemma after_response_decreases:
  assumes "after_response rt r ir omitted response st w = (Inr (Some st'), v)"
  shows "loop_measure rt st' < loop_measure rt st"
proof (cases "re_tool_calls response = []")
  case True
  then obtain rv reviews where "review_stage rt r (lp_reviews st) w = (Inr (Some rv, reviews), v)"
    and "st' = st\<lparr>lp_omitted := omitted, lp_review := Some rv, lp_reviews := reviews\<rparr>"
    using assms by (auto simp: after_response_def andthen_Inr_iff)
  then show ?thesis by (auto simp: loop_measure_def dest: review_stage_Some)
next
  case False
  then show ?thesis
    using assms by (auto simp: after_response_def andthen_Inr_iff loop_measure_def split: if_splits)
qed

lemma loop_pass_Inr:
  assumes "loop_pass rt r pn st w = (Inr x, v)"
  obtains ir omitted response u where "after_response rt r ir omitted response st u = (Inr x, v)"
  using assms unfolding loop_pass_def andthen_Inr_iff by blast

lemma loop_pass_decreases:
  assumes "loop_pass rt r pn st w = (Inr (Some st'), v)"
  shows "loop_measure rt st' < loop_measure rt st"
  using loop_pass_Inr [OF assms] after_response_decreases by metis

function run_passes :: "runtime \<Rightarrow> run \<Rightarrow> plan \<Rightarrow> loop_state \<Rightarrow> unit stage" where
  "run_passes rt r pn st w =
     (case loop_pass rt r pn st w of
        (Inl e, v) \<Rightarrow> (Inl e, v)
      | (Inr None, v) \<Rightarrow> (Inr (), v)
      | (Inr (Some st'), v) \<Rightarrow> run_passes rt r pn st' v)"
  by pat_completeness auto
termination
  by (relation "measure (\<lambda>(rt, r, pn, st, w). loop_measure rt st)")
     (auto simp: loop_pass_decreases [OF sym])

declare run_passes.simps [simp del]

definition recalled_turns :: "runtime \<Rightarrow> run \<Rightarrow> node_id \<Rightarrow> string \<Rightarrow> (ir_recalled_turn \<times> f64) list stage" where
  "recalled_turns rt r task message =
     andthen (wants_everything rt message) (\<lambda>everything.
       case everything of
         Some probability \<Rightarrow>
           andthen (commit rt (expand_context r task probability)) (\<lambda>_. recall_everything rt r)
       | None \<Rightarrow> recall_turns rt r message)"

definition execute_run :: "runtime \<Rightarrow> run \<Rightarrow> node_id \<Rightarrow> string \<Rightarrow> provider \<Rightarrow> run stage" where
  "execute_run rt r task message p =
     andthen (classify_context rt r task message) (\<lambda>classification.
     andthen (recalled_turns rt r task message) (\<lambda>recalled.
     andthen (ask rt (Call_Window (rn_model r)) (\<lambda>tr. pv_window p tr (rn_model r))) (\<lambda>reply.
     andthen (waited reply) (\<lambda>tokens.
     andthen (run_passes rt r
                \<lparr>pn_provider = p, pn_task = task, pn_message = message,
                 pn_tools = exposed_tools (ru_tools rt) classification, pn_recalled = recalled,
                 pn_budget = map_option ir_budget tokens\<rparr> loop_start) (\<lambda>_.
       commit rt (complete_run (rn_id r)))))))"

section \<open>Finishing a run\<close>

definition outcome_of ::
  "runtime \<Rightarrow> run \<Rightarrow> node_id \<Rightarrow> string \<Rightarrow> run stage" where
  "outcome_of rt r task message =
     (case map_of (ru_providers rt) (rn_provider r) of
        Some p \<Rightarrow>
          (\<lambda>w. if ru_stop_first rt (w_trace w) then (Inl Cancelled_Run, w)
               else execute_run rt r task message p w)
      | None \<Rightarrow> throw (failure Provider_Failed
           (''provider `'' @ provider_str (rn_provider r) @ ''` is not registered'')))"

definition record_failure :: "run \<Rightarrow> stage_failure \<Rightarrow> run tx" where
  "record_failure r f =
     andthen (case sf_evidence f of
                Some evidence \<Rightarrow> discard (append_event (rn_id r) evidence)
              | None \<Rightarrow> ret ()) (\<lambda>_.
       fail_run (rn_id r) (sf_code f) (sf_message f))"

definition end_review :: "runtime \<Rightarrow> run \<Rightarrow> world \<Rightarrow> world" where
  "end_review rt r w =
     (case ru_reviewer rt of
        None \<Rightarrow> w
      | Some rw \<Rightarrow> w\<lparr>w_trace := w_trace w @ [Call_End (rn_id r)]\<rparr>)"

definition finish_failed :: "run \<Rightarrow> stage_failure \<Rightarrow> (world, runtime_error, run) eff" where
  "finish_failed r f = map_err Runtime_Store (on_store (transaction (record_failure r f)))"

definition stop_failure :: stage_failure where
  "stop_failure = \<lparr>sf_code = Cancelled, sf_message = ''stopped by the person'', sf_evidence = None\<rparr>"

text \<open>A panic unwinds through \<open>finish\<close>: the run stays as it is and its stop signal stays registered.\<close>

definition finish :: "runtime \<Rightarrow> started_run \<Rightarrow> (world, runtime_error, run) eff" where
  "finish rt sr w =
     (let r = sr_run sr
      in case outcome_of rt r (sr_task sr) (sr_message sr)
                (w\<lparr>w_stops := rn_id r # w_stops w\<rparr>) of
           (Inl (Panicked p), v) \<Rightarrow> (Inl (Runtime_Store (Panic p)), v)
         | (Inr completed, v) \<Rightarrow>
             (Inr completed, end_review rt r (v\<lparr>w_stops := filter (\<lambda>i. i \<noteq> rn_id r) (w_stops v)\<rparr>))
         | (Inl (Failure f), v) \<Rightarrow>
             finish_failed r f (end_review rt r (v\<lparr>w_stops := filter (\<lambda>i. i \<noteq> rn_id r) (w_stops v)\<rparr>))
         | (Inl Cancelled_Run, v) \<Rightarrow>
             finish_failed r stop_failure
               (end_review rt r (v\<lparr>w_stops := filter (\<lambda>i. i \<noteq> rn_id r) (w_stops v)\<rparr>)))"

text \<open>\<open>Runtime::run\<close> and \<open>Runtime::stop\<close>.\<close>

definition run_message ::
  "runtime \<Rightarrow> project_id \<Rightarrow> string \<Rightarrow> run_config \<Rightarrow> (world, runtime_error, run) eff" where
  "run_message rt p message config = andthen (start_run rt p message config) (finish rt)"

definition stop_run :: "run_id \<Rightarrow> world \<Rightarrow> bool" where
  "stop_run i w \<longleftrightarrow> i \<in> set (w_stops w)"

section \<open>Defaults and recovery\<close>

definition set_defaults :: "runtime \<Rightarrow> project_id \<Rightarrow> run_config \<Rightarrow> (world, runtime_error, unit) eff" where
  "set_defaults rt p config =
     (if map_of (ru_providers rt) (rc_provider config) = None
      then throw (Unknown_Provider (rc_provider config))
      else map_err Runtime_Store (on_store (transaction (set_run_defaults p config))))"

definition recover_runs_except :: "run_id list \<Rightarrow> run list tx" where
  "recover_runs_except executing =
     query running_runs (\<lambda>runs.
       collect (filter (\<lambda>r. rn_id r \<notin> set executing) runs)
         (\<lambda>r. fail_run (rn_id r) Interrupted ''DAGOS stopped before the run finished''))"

definition recover_interrupted_runs :: "run list tx" where
  "recover_interrupted_runs = recover_runs_except []"

end
