(* ===== verification/Run_Behaviour.thy ===== *)
theory Run_Behaviour
  imports Run_Loop
begin

text \<open>
  What a whole run does, whatever Jev, providers, tools, reviewers and other clients of the store do:
  \<open>sound\<close> follows the database through the stages (every change is a sequence of \<open>db_step\<close>s, and a
  failure carries no lifecycle event as its evidence); \<open>makes\<close> follows the calls to the outside.
  Both are proved once per stage and compose over the monad.
\<close>

section \<open>Stages change the database along steps\<close>

definition db_of :: "world \<Rightarrow> db" where
  "db_of w = conn (w_store w)"

text \<open>Other clients append no lifecycle events themselves (see \<open>Store_Api\<close>).\<close>

definition ordinary_others :: "runtime \<Rightarrow> bool" where
  "ordinary_others rt \<longleftrightarrow> (\<forall>tr. list_all (list_all ordinary) (ru_others rt tr))"

fun ordinary_error :: "run_error \<Rightarrow> bool" where
  "ordinary_error (Failure f) \<longleftrightarrow> (\<forall>e. sf_evidence f = Some e \<longrightarrow> \<not> lifecycle e)"
| "ordinary_error _ \<longleftrightarrow> True"

definition sound :: "'a stage \<Rightarrow> bool" where
  "sound m \<longleftrightarrow> (\<forall>w r v. m w = (r, v) \<longrightarrow> db_steps (db_of w) (db_of v) \<and>
     (\<forall>e. r = Inl e \<longrightarrow> ordinary_error e))"

lemma soundI:
  "(\<And>w r v. m w = (r, v) \<Longrightarrow> db_steps (db_of w) (db_of v) \<and> (\<forall>e. r = Inl e \<longrightarrow> ordinary_error e)) \<Longrightarrow> sound m"
  by (simp add: sound_def)

lemma soundD:
  "sound m \<Longrightarrow> m w = (r, v) \<Longrightarrow> db_steps (db_of w) (db_of v) \<and> (\<forall>e. r = Inl e \<longrightarrow> ordinary_error e)"
  unfolding sound_def by blast

named_theorems sound_intros \<open>stages that change the database along steps\<close>

lemma ordinary_failure [simp]:
  "ordinary_error (failure code message)"
  "ordinary_error (failure_with code message e) \<longleftrightarrow> \<not> lifecycle e"
  by (simp_all add: failure_def failure_with_def)

lemma ordinary_of_store_error [simp]: "ordinary_error (of_store_error sqlite e)"
  by (cases e) simp_all

lemma sound_ret [sound_intros]: "sound (ret a)"
  by (rule soundI) auto

lemma sound_throw: "ordinary_error e \<Longrightarrow> sound (throw e)"
  by (rule soundI) auto

lemma sound_andthen [sound_intros]:
  assumes "sound m" and "\<And>a. sound (f a)"
  shows "sound (andthen m f)"
proof (rule soundI)
  fix w r v assume run: "andthen m f w = (r, v)"
  obtain r1 u where m: "m w = (r1, u)" by force
  note M = soundD [OF assms(1) m]
  show "db_steps (db_of w) (db_of v) \<and> (\<forall>e. r = Inl e \<longrightarrow> ordinary_error e)"
  proof (cases r1)
    case (Inl e)
    then show ?thesis using run m M by (auto simp: andthen_def)
  next
    case (Inr a)
    then have "f a u = (r, v)" using run m by (simp add: andthen_def)
    from soundD [OF assms(2) this] M show ?thesis by (meson rtranclp_trans)
  qed
qed

lemma sound_commit [sound_intros]: "moves db_steps m \<Longrightarrow> sound (commit rt m)"
proof (rule soundI)
  fix w r v assume m: "moves db_steps m" and run: "commit rt m w = (r, v)"
  obtain x u where u: "transaction m (w_store w) = (x, u)" by force
  have "db_steps (conn (w_store w)) (conn u)"
    using steps.transaction_moves [OF m, of "w_store w"] by (simp add: u)
  with run u show "db_steps (db_of w) (db_of v) \<and> (\<forall>e. r = Inl e \<longrightarrow> ordinary_error e)"
    by (cases r) (auto simp: commit_Inr commit_Inl db_of_def)
qed

lemma sound_ask [sound_intros]: "ordinary_others rt \<Longrightarrow> sound (ask rt call answer)"
  by (rule soundI) (auto simp: ask_def db_of_def ordinary_others_def intro: session_steps)

lemma sound_answered [sound_intros]: "sound (answered reply)"
  by (cases reply) (auto intro: sound_ret sound_throw)

lemma sound_waited [sound_intros]: "sound (waited reply)"
  by (cases reply) (auto intro: sound_ret sound_throw)

lemma sound_if [sound_intros]: "sound m \<Longrightarrow> sound n \<Longrightarrow> sound (if b then m else n)"
  by simp

lemma sound_option [sound_intros]:
  "sound m \<Longrightarrow> (\<And>x. sound (f x)) \<Longrightarrow> sound (case v of None \<Rightarrow> m | Some x \<Rightarrow> f x)"
  by (cases v) auto

lemma sound_sum [sound_intros]:
  "(\<And>x. sound (f x)) \<Longrightarrow> (\<And>y. sound (g y)) \<Longrightarrow> sound (case v of Inl x \<Rightarrow> f x | Inr y \<Rightarrow> g y)"
  by (cases v) auto

lemma sound_prod [sound_intros]: "(\<And>x y. sound (f x y)) \<Longrightarrow> sound (case p of (x, y) \<Rightarrow> f x y)"
  by (cases p) auto

lemma sound_for_each [sound_intros]: "(\<And>x. sound (f x)) \<Longrightarrow> sound (for_each xs f)"
  by (induction xs) (auto intro: sound_intros)

lemmas sound_throws [sound_intros] =
  sound_throw [of "failure code message" for code message, simplified]
  sound_throw [of Cancelled_Run, simplified]

subsection \<open>The stages\<close>

lemma moves_of_result [steps_intros]: "moves db_steps (of_result r)"
  by (rule movesI) (auto simp: of_result_def)

lemma request_classification_moves [steps_intros]:
  "moves db_steps (request_classification rt r task message)"
  unfolding request_classification_def Let_def by (intro steps_intros)

lemma record_fallback_moves:
  "ordinary_error (Failure f) \<Longrightarrow> moves db_steps (record_fallback r f fallback)"
  unfolding record_fallback_def
  by (cases "sf_evidence f") (auto intro!: steps_intros append_event_moves)

lemma expand_context_moves [steps_intros]: "moves db_steps (expand_context r task probability)"
  unfolding expand_context_def by (intro steps_intros)

lemma record_each_moves [steps_intros]: "moves db_steps (record_each r existing k fs)"
proof (induction fs arbitrary: k)
  case (Cons f fs)
  show ?case
    unfolding record_each.simps
    by (intro steps_intros Cons.IH) (simp split: sum.splits add: steps.moves_throw steps_intros Cons.IH)
qed (simp add: steps.moves_ret)

lemma record_findings_moves [steps_intros]: "moves db_steps (record_findings r fs)"
  unfolding record_findings_def by (intro steps_intros)

lemma classify_with_sound [sound_intros]: "ordinary_others rt \<Longrightarrow> sound (classify_with rt jev request)"
  unfolding classify_with_def by (intro sound_intros sound_throw; simp)

lemma apply_stage_sound [sound_intros]: "sound (apply_stage rt r c)"
  unfolding apply_stage_def by (intro sound_intros steps_intros)

lemma classify_context_sound [sound_intros]:
  assumes "ordinary_others rt"
  shows "sound (classify_context rt r task message)"
  unfolding classify_context_def
proof (intro sound_andthen sound_commit request_classification_moves)
  fix request :: jev_request
  let ?again = "\<lambda>f fallback. andthen (commit rt (record_fallback r f fallback)) (\<lambda>_.
                 andthen (classify_with rt fallback request) (\<lambda>c.
                 andthen (apply_stage rt r c) (\<lambda>_. ret c)))"
  show "sound (\<lambda>w. case classify_with rt (ru_jev rt) request w of
          (Inr c, w1) \<Rightarrow> andthen (apply_stage rt r c) (\<lambda>_. ret c) w1
        | (Inl (Failure f), w1) \<Rightarrow>
            (case ru_fallback rt of None \<Rightarrow> (Inl (Failure f), w1) | Some fallback \<Rightarrow> ?again f fallback w1)
        | (Inl e, w1) \<Rightarrow> (Inl e, w1))"
  proof (rule soundI)
    fix w x v
    assume run: "(case classify_with rt (ru_jev rt) request w of
          (Inr c, w1) \<Rightarrow> andthen (apply_stage rt r c) (\<lambda>_. ret c) w1
        | (Inl (Failure f), w1) \<Rightarrow>
            (case ru_fallback rt of None \<Rightarrow> (Inl (Failure f), w1) | Some fallback \<Rightarrow> ?again f fallback w1)
        | (Inl e, w1) \<Rightarrow> (Inl e, w1)) = (x, v)"
    obtain y u where first: "classify_with rt (ru_jev rt) request w = (y, u)" by force
    note F = soundD [OF classify_with_sound [OF assms] first]
    have "db_steps (db_of u) (db_of v) \<and> (\<forall>e. x = Inl e \<longrightarrow> ordinary_error e)"
    proof (cases y)
      case (Inr c)
      then have "andthen (apply_stage rt r c) (\<lambda>_. ret c) u = (x, v)" using run first by simp
      then show ?thesis by (rule soundD [rotated]) (intro sound_intros)
    next
      case (Inl e)
      with F have e: "ordinary_error e" by simp
      consider f fallback where "e = Failure f" "ru_fallback rt = Some fallback" "?again f fallback u = (x, v)"
        | "x = Inl e" "v = u"
        using run first Inl by (cases e) (auto split: option.splits)
      then show ?thesis
      proof cases
        case (1 f fallback)
        have "sound (?again f fallback)"
          using e 1 assms by (intro sound_intros record_fallback_moves) simp_all
        from soundD [OF this 1(3)] show ?thesis .
      qed (use e in simp)
    qed
    with F show "db_steps (db_of w) (db_of v) \<and> (\<forall>e. x = Inl e \<longrightarrow> ordinary_error e)"
      by (meson rtranclp_trans)
  qed
qed

lemma judge_sound [sound_intros]: "ordinary_others rt \<Longrightarrow> sound (judge rt q chunks)"
  unfolding judge_def by (intro sound_intros)

lemma recall_sound [sound_intros]:
  "ordinary_others rt \<Longrightarrow> sound (recall_turns rt r message)"
  "sound (recall_everything rt r)"
  unfolding recall_turns_def recall_everything_def by (intro sound_intros steps_intros; assumption)+

lemma wants_everything_sound [sound_intros]: "ordinary_others rt \<Longrightarrow> sound (wants_everything rt message)"
  unfolding wants_everything_def Let_def by (intro sound_intros)

lemma recalled_turns_sound [sound_intros]: "ordinary_others rt \<Longrightarrow> sound (recalled_turns rt r task message)"
  unfolding recalled_turns_def by (intro sound_intros steps_intros)

lemma compact_tool_results_sound [sound_intros]:
  "ordinary_others rt \<Longrightarrow> sound (compact_tool_results rt r message answer latest)"
  unfolding compact_tool_results_def Let_def by (intro sound_intros steps_intros)

lemma record_deltas_sound [sound_intros]: "sound (record_deltas rt r texts)"
  by (induction texts) (simp_all only: record_deltas.simps, (intro sound_intros steps_intros; assumption)+)

lemma sound_cancelling [sound_intros]: "sound m \<Longrightarrow> sound (cancelling m)"
proof (rule soundI)
  fix w :: world and r :: "run_error + 'b" and v
  assume m: "sound m" and run: "cancelling m w = (r, v)"
  obtain x u where u: "m w = (x, u)" by force
  from soundD [OF m u] run show "db_steps (db_of w) (db_of v) \<and> (\<forall>e. r = Inl e \<longrightarrow> ordinary_error e)"
    unfolding cancelling_def u by (auto split: sum.splits run_error.splits)
qed

lemma infer_answer_sound: "sound (case reply of
      Elapsed \<Rightarrow> throw (failure Provider_Timeout message)
    | Answer (Inl e) \<Rightarrow> throw (failure Provider_Failed (provider_error_str e))
    | Answer (Inr raw) \<Rightarrow>
        andthen (commit rt (append_event (rn_id r) (Inference_Completed raw))) (\<lambda>_. ret raw)
    | Stopped \<Rightarrow> throw Cancelled_Run)"
  by (cases reply rule: reply.exhaust [case_product sum.exhaust])
     (auto split: sum.splits intro!: sound_intros append_event_moves')

lemma infer_sound [sound_intros]: "ordinary_others rt \<Longrightarrow> sound (infer rt r ir p)"
  unfolding infer_def by (intro sound_intros infer_answer_sound append_event_moves'; assumption)

lemma tool_gate_sound [sound_intros]:
  "ordinary_others rt \<Longrightarrow> sound (tool_gate_decision rt r ir request over_limit)"
  unfolding tool_gate_decision_def Let_def by (intro sound_intros)

lemma before_call_sound [sound_intros]: "ordinary_others rt \<Longrightarrow> sound (before_call rt r request)"
  unfolding before_call_def by (intro sound_intros)

lemma call_tool_sound [sound_intros]: "ordinary_others rt \<Longrightarrow> sound (call_tool rt runner request)"
  unfolding call_tool_def by (intro sound_intros)

lemma run_tool_sound [sound_intros]:
  "ordinary_others rt \<Longrightarrow> sound (run_tool rt r ir request over_limit)"
  unfolding run_tool_def Let_def by (intro sound_intros steps_intros discard_moves append_event_moves'; assumption)

lemma settle_review_sound [sound_intros]: "sound (settle_review rt r st rv err)"
  unfolding settle_review_def by (intro sound_intros steps_intros append_event_moves')

lemma review_stage_sound [sound_intros]: "ordinary_others rt \<Longrightarrow> sound (review_stage rt r st)"
  unfolding review_stage_def by (intro sound_intros)

lemma apply_response_stage_sound [sound_intros]: "sound (apply_response_stage rt r v)"
proof (rule soundI)
  fix w x u assume run: "apply_response_stage rt r v w = (x, u)"
  obtain y s where t: "transaction (apply_response r v) (w_store w) = (y, s)" by force
  have "db_steps (conn (w_store w)) (conn s)"
    using steps.transaction_moves [OF apply_response_moves [of r v], of "w_store w"] by (simp add: t)
  then show "db_steps (db_of w) (db_of u) \<and> (\<forall>e. x = Inl e \<longrightarrow> ordinary_error e)"
    using run unfolding apply_response_stage_def
    by (cases y) (auto simp: map_err_def on_store_def t db_of_def split: store_error.splits)
qed

lemma validate_stage_sound [sound_intros]: "sound (validate_stage rt raw ir)"
  unfolding validate_stage_def by (intro sound_intros sound_throw) simp

lemma compile_ir_in_moves: "moves db_steps (compile_ir_in rt r task tools sp)"
  by (rule movesI)
     (auto simp: compile_ir_in_def andthen_Inr_iff split: sum.splits
        dest!: append_event_appendable intro!: r_into_rtranclp Append)

lemma of_compile_error_ordinary [simp]: "ordinary_error (of_compile_error e sqlite)"
  by (cases "(e, sqlite)" rule: of_compile_error.cases) simp_all

lemma compile_ir_in_Inl: "compile_ir_in rt r task tools sp s = (Inl e, u) \<Longrightarrow> ordinary_error e"
  by (auto simp: compile_ir_in_def andthen_Inl_iff map_err_Inl_iff split: sum.splits)

lemma transaction_raised: "transaction m s = (Inl e, u) \<Longrightarrow> \<exists>t v. m t = (Inl e, v)"
  by (auto simp: transaction_def Let_def split: prod.splits sum.splits)

lemma compile_ir_sound [sound_intros]: "sound (compile_ir rt r task tools sp)"
proof (rule soundI)
  fix w x u assume run: "compile_ir rt r task tools sp w = (x, u)"
  obtain y s where t: "transaction (compile_ir_in rt r task tools sp) (w_store w) = (y, s)" by force
  have "db_steps (conn (w_store w)) (conn s)"
    using steps.transaction_moves [OF compile_ir_in_moves [of rt r task tools sp], of "w_store w"]
    by (simp add: t)
  then show "db_steps (db_of w) (db_of u) \<and> (\<forall>e. x = Inl e \<longrightarrow> ordinary_error e)"
    using run t unfolding compile_ir_def
    by (auto simp: on_store_def db_of_def dest!: transaction_raised compile_ir_in_Inl)
qed

lemma tool_round_sound [sound_intros]: "ordinary_others rt \<Longrightarrow> sound (tool_round rt r ir k n calls)"
  unfolding tool_round_def by (intro sound_intros)

lemma after_response_sound [sound_intros]:
  "ordinary_others rt \<Longrightarrow> sound (after_response rt r ir omitted response st)"
  unfolding after_response_def by (intro sound_intros)

lemma loop_pass_sound [sound_intros]: "ordinary_others rt \<Longrightarrow> sound (loop_pass rt r pn st)"
  unfolding loop_pass_def omitted_results_def by (intro sound_intros)

lemma run_passes_sound [sound_intros]:
  assumes "ordinary_others rt"
  shows "sound (run_passes rt r pn st)"
proof (rule soundI)
  fix w x v
  show "run_passes rt r pn st w = (x, v) \<Longrightarrow>
    db_steps (db_of w) (db_of v) \<and> (\<forall>e. x = Inl e \<longrightarrow> ordinary_error e)"
    using assms
  proof (induction rt r pn st w rule: run_passes.induct)
    case (1 rt r pn st w)
    obtain y u where pass: "loop_pass rt r pn st w = (y, u)" by force
    note P = soundD [OF loop_pass_sound [OF 1(3)] pass]
    consider e where "y = Inl e" | "y = Inr None" | st' where "y = Inr (Some st')"
      by (metis old.sum.exhaust option.exhaust)
    then show ?case
    proof cases
      case (3 st')
      then have "run_passes rt r pn st' u = (x, v)"
        using 1(2) by (simp add: run_passes.simps [of rt r pn st w] pass)
      with 1(1) [OF pass [symmetric]] 3 1(3) have "db_steps (db_of u) (db_of v) \<and> (\<forall>e. x = Inl e \<longrightarrow> ordinary_error e)"
        by blast
      with P show ?thesis by (meson rtranclp_trans)
    qed (use 1(2) P in \<open>auto simp: run_passes.simps [of rt r pn st w] pass\<close>)
  qed
qed

lemma execute_run_sound [sound_intros]: "ordinary_others rt \<Longrightarrow> sound (execute_run rt r task message p)"
  unfolding execute_run_def by (intro sound_intros steps_intros)

lemma outcome_of_sound [sound_intros]:
  assumes "ordinary_others rt"
  shows "sound (outcome_of rt r task message)"
proof -
  have "sound (\<lambda>w. if ru_stop_first rt (w_trace w) then (Inl Cancelled_Run, w)
      else execute_run rt r task message p w)" for p
    by (rule soundI) (auto split: if_splits dest: soundD [OF execute_run_sound [OF assms]])
  then show ?thesis unfolding outcome_of_def by (intro sound_intros)
qed

end
