(* ===== verification/Run_Traces.thy ===== *)
theory Run_Traces
  imports Run_Behaviour
begin

text \<open>
  The calls a run makes to the outside. \<open>run_trace\<close> is the contract of a property of call sequences
  that the calls to Jev, the provider's window and the reviewer never break; its lemmas carry the
  property through every stage that makes only such calls. It is interpreted twice: for the tool
  gate (\<open>lawful\<close>) and for the number of inferences (\<open>quiet\<close>).
\<close>

section \<open>Properties of call sequences\<close>

definition acts :: "(trace \<Rightarrow> trace \<Rightarrow> bool) \<Rightarrow> 'a stage \<Rightarrow> bool" where
  "acts T m \<longleftrightarrow> (\<forall>w r v. m w = (r, v) \<longrightarrow> (\<exists>cs. w_trace v = w_trace w @ cs \<and> T (w_trace w) cs))"

lemma actsI:
  "(\<And>w r v. m w = (r, v) \<Longrightarrow> \<exists>cs. w_trace v = w_trace w @ cs \<and> T (w_trace w) cs) \<Longrightarrow> acts T m"
  by (simp add: acts_def)

lemma actsD: "acts T m \<Longrightarrow> m w = (r, v) \<Longrightarrow> \<exists>cs. w_trace v = w_trace w @ cs \<and> T (w_trace w) cs"
  by (simp add: acts_def)

lemma acts_mono: "acts T m \<Longrightarrow> (\<And>tr cs. T tr cs \<Longrightarrow> S tr cs) \<Longrightarrow> acts S m"
  unfolding acts_def by blast

lemma acts_seq:
  assumes "acts S m" and "\<And>a. acts T (f a)" and "\<And>tr cs. S tr cs \<Longrightarrow> U tr cs"
    and "\<And>tr cs ds. S tr cs \<Longrightarrow> T (tr @ cs) ds \<Longrightarrow> U tr (cs @ ds)"
  shows "acts U (andthen m f)"
proof (rule actsI)
  fix w r v assume run: "andthen m f w = (r, v)"
  obtain x u where m: "m w = (x, u)" by force
  from actsD [OF assms(1) m] obtain cs where cs: "w_trace u = w_trace w @ cs" "S (w_trace w) cs" by blast
  show "\<exists>cs. w_trace v = w_trace w @ cs \<and> U (w_trace w) cs"
  proof (cases x)
    case (Inl e)
    then show ?thesis using run m cs assms(3) by (auto simp: andthen_def)
  next
    case (Inr a)
    then have "f a u = (r, v)" using run m by (simp add: andthen_def)
    from actsD [OF assms(2) this] cs assms(4) show ?thesis by (metis append.assoc)
  qed
qed

lemma acts_still: "(\<And>w. w_trace (snd (m w)) = w_trace w) \<Longrightarrow> (\<And>tr. T tr []) \<Longrightarrow> acts T m"
  by (rule actsI) (metis append_Nil2 snd_conv)

lemma acts_ask: "(\<And>tr. T tr [c]) \<Longrightarrow> acts T (ask rt c answer)"
  by (rule actsI) (simp add: ask_def)

lemma on_store_trace [simp]: "w_trace (snd (on_store m w)) = w_trace w"
  by (simp add: on_store_def split: prod.splits)

lemma commit_trace [simp]: "w_trace (snd (commit rt m w)) = w_trace w"
  by (simp add: commit_def)

text \<open>Calls that run no tool and no inference.\<close>

fun free_call :: "ext_call \<Rightarrow> bool" where
  "free_call (Call_Infer _ _) \<longleftrightarrow> False"
| "free_call (Call_Gate _ _) \<longleftrightarrow> False"
| "free_call (Call_Tool _) \<longleftrightarrow> False"
| "free_call _ \<longleftrightarrow> True"

named_theorems acts_intros \<open>stages and the calls they make\<close>

locale run_trace =
  fixes T :: "trace \<Rightarrow> trace \<Rightarrow> bool"
  assumes none: "T tr []"
    and append: "T tr cs \<Longrightarrow> T (tr @ cs) ds \<Longrightarrow> T tr (cs @ ds)"
    and free: "free_call c \<Longrightarrow> T tr [c]"
begin

lemma ret_acts [acts_intros]: "acts T (ret a)"
  by (rule acts_still) (simp_all add: none)

lemma throw_acts [acts_intros]: "acts T (throw e)"
  by (rule acts_still) (simp_all add: none)

lemma andthen_acts [acts_intros]: "acts T m \<Longrightarrow> (\<And>a. acts T (f a)) \<Longrightarrow> acts T (andthen m f)"
  by (rule acts_seq [where S = T and T = T]) (auto intro: append)

lemma commit_acts [acts_intros]: "acts T (commit rt m)"
  by (rule acts_still) (simp_all add: none)

lemma answered_acts [acts_intros]: "acts T (answered reply)"
  by (cases reply) (auto intro: ret_acts throw_acts)

lemma waited_acts [acts_intros]: "acts T (waited reply)"
  by (cases reply) (auto intro: ret_acts throw_acts)

lemma ask_acts: "free_call c \<Longrightarrow> acts T (ask rt c answer)"
  by (rule acts_ask) (rule free)

lemma if_acts [acts_intros]: "acts T m \<Longrightarrow> acts T n \<Longrightarrow> acts T (if b then m else n)"
  by simp

lemma option_acts [acts_intros]:
  "acts T m \<Longrightarrow> (\<And>x. acts T (f x)) \<Longrightarrow> acts T (case v of None \<Rightarrow> m | Some x \<Rightarrow> f x)"
  by (cases v) auto

lemma sum_acts [acts_intros]:
  "(\<And>x. acts T (f x)) \<Longrightarrow> (\<And>y. acts T (g y)) \<Longrightarrow> acts T (case v of Inl x \<Rightarrow> f x | Inr y \<Rightarrow> g y)"
  by (cases v) auto

lemma prod_acts [acts_intros]: "(\<And>x y. acts T (f x y)) \<Longrightarrow> acts T (case p of (x, y) \<Rightarrow> f x y)"
  by (cases p) auto

lemma for_each_acts [acts_intros]: "(\<And>x. acts T (f x)) \<Longrightarrow> acts T (for_each xs f)"
  by (induction xs) (auto intro: acts_intros)

lemma cancelling_acts [acts_intros]: "acts T m \<Longrightarrow> acts T (cancelling m)"
  unfolding acts_def cancelling_def by (fastforce split: prod.splits sum.splits run_error.splits)

lemmas free_asks [acts_intros] =
  ask_acts [of "Call_Classify a b" for a b, simplified]
  ask_acts [of "Call_Relevance a b" for a b, simplified]
  ask_acts [of "Call_Decide a b" for a b, simplified]
  ask_acts [of "Call_Window a" for a, simplified]
  ask_acts [of "Call_Before a b" for a b, simplified]
  ask_acts [of "Call_Review a" for a, simplified]

lemma classify_with_acts [acts_intros]: "acts T (classify_with rt jev request)"
  unfolding classify_with_def by (intro acts_intros)

lemma classify_context_acts [acts_intros]: "acts T (classify_context rt r task message)"
proof -
  have applied: "acts T (andthen (apply_stage rt r c) (\<lambda>_. ret c))" for c
    unfolding apply_stage_def by (intro acts_intros)
  have again: "acts T (andthen (commit rt (record_fallback r f fallback)) (\<lambda>_.
                 andthen (classify_with rt fallback request) (\<lambda>c.
                 andthen (apply_stage rt r c) (\<lambda>_. ret c))))" for f fallback request
    by (intro acts_intros applied)
  have "acts T (\<lambda>w. case classify_with rt (ru_jev rt) request w of
          (Inr c, w1) \<Rightarrow> andthen (apply_stage rt r c) (\<lambda>_. ret c) w1
        | (Inl (Failure f), w1) \<Rightarrow>
            (case ru_fallback rt of
               None \<Rightarrow> (Inl (Failure f), w1)
             | Some fallback \<Rightarrow>
                 andthen (commit rt (record_fallback r f fallback)) (\<lambda>_.
                 andthen (classify_with rt fallback request) (\<lambda>c.
                 andthen (apply_stage rt r c) (\<lambda>_. ret c))) w1)
        | (Inl e, w1) \<Rightarrow> (Inl e, w1))" (is "acts T ?m") for request
  proof (rule actsI)
    fix w x v assume run: "?m w = (x, v)"
    obtain y u where first: "classify_with rt (ru_jev rt) request w = (y, u)" by force
    obtain cs where cs: "w_trace u = w_trace w @ cs" "T (w_trace w) cs"
      using actsD [OF classify_with_acts first] by blast
    have "\<exists>ds. w_trace v = w_trace u @ ds \<and> T (w_trace u) ds"
      using run none
      by (auto simp: first split: sum.splits run_error.splits option.splits
          dest: actsD [OF applied] actsD [OF again])
    with cs show "\<exists>cs. w_trace v = w_trace w @ cs \<and> T (w_trace w) cs"
      using append by (metis append.assoc)
  qed
  then show ?thesis unfolding classify_context_def by (intro acts_intros)
qed

lemma judge_acts [acts_intros]: "acts T (judge rt q chunks)"
  unfolding judge_def by (intro acts_intros)

lemma recalled_turns_acts [acts_intros]: "acts T (recalled_turns rt r task message)"
  unfolding recalled_turns_def recall_turns_def recall_everything_def wants_everything_def Let_def
  by (intro acts_intros)

lemma omitted_results_acts [acts_intros]: "acts T (omitted_results rt r pn st)"
  unfolding omitted_results_def compact_tool_results_def Let_def by (intro acts_intros)

lemma compile_ir_acts [acts_intros]: "acts T (compile_ir rt r task tools sp)"
  unfolding compile_ir_def by (rule acts_still) (simp_all add: none)

lemma record_deltas_acts [acts_intros]: "acts T (record_deltas rt r texts)"
  by (induction texts) (simp_all only: record_deltas.simps, (intro acts_intros; assumption)+)

lemma validate_stage_acts [acts_intros]: "acts T (validate_stage rt raw ir)"
  unfolding validate_stage_def by (intro acts_intros)

lemma apply_response_stage_acts [acts_intros]: "acts T (apply_response_stage rt r v)"
  unfolding apply_response_stage_def by (rule acts_still) (simp_all add: none)

lemma before_call_acts [acts_intros]: "acts T (before_call rt r request)"
  unfolding before_call_def by (intro acts_intros)

lemma review_stage_acts [acts_intros]: "acts T (review_stage rt r st)"
  unfolding review_stage_def settle_review_def by (intro acts_intros)

end

section \<open>The gate\<close>

text \<open>
  Which calls a run may make after a trace: the gate is asked only about configured tools, and a tool
  runs only right after the gate, asked about this very request, allowed it (the reviewer may come in between).
\<close>

fun ok_call :: "runtime \<Rightarrow> run_id \<Rightarrow> trace \<Rightarrow> ext_call \<Rightarrow> bool" where
  "ok_call rt i tr (Call_Gate j q) \<longleftrightarrow> j = i \<and> tq_name q \<in> it_name ` set (ru_tools rt)"
| "ok_call rt i tr (Call_Tool q) \<longleftrightarrow> tq_name q \<in> it_name ` set (ru_tools rt) \<and>
     (\<exists>runner pre mid d note. ru_runner rt = Some runner \<and> tr = pre @ Call_Gate i q # mid \<and>
        mid \<in> {[], [Call_Before i q]} \<and> tr_decide runner pre i q = Some (Allow d note))"
| "ok_call rt i tr _ \<longleftrightarrow> True"

fun lawful :: "runtime \<Rightarrow> run_id \<Rightarrow> trace \<Rightarrow> trace \<Rightarrow> bool" where
  "lawful rt i tr [] \<longleftrightarrow> True"
| "lawful rt i tr (c # cs) \<longleftrightarrow> ok_call rt i tr c \<and> lawful rt i (tr @ [c]) cs"

lemma lawful_append: "lawful rt i tr (cs @ ds) \<longleftrightarrow> lawful rt i tr cs \<and> lawful rt i (tr @ cs) ds"
  by (induction cs arbitrary: tr) auto

interpretation lawful: run_trace "lawful rt i" for rt i
proof
  show "lawful rt i tr [c]" if "free_call c" for tr c using that by (cases c) auto
qed (simp_all add: lawful_append)

lemma gate_decides:
  assumes "tool_gate_decision rt r ir q over w = (x, u)"
  shows "w_trace u = w_trace w \<and> (\<forall>d note. x \<noteq> Inr (Allow d note)) \<or>
    \<not> over \<and> tq_name q \<in> it_name ` set (ii_tools ir) \<and> w_trace u = w_trace w @ [Call_Gate (rn_id r) q] \<and>
    (\<exists>runner. ru_runner rt = Some runner \<and>
       (\<forall>d. x = Inr d \<longrightarrow> tr_decide runner (w_trace w) (rn_id r) q = Some d))"
proof (cases "\<not> over \<and> list_ex (\<lambda>tool. it_name tool = tq_name q) (ii_tools ir) \<and> ru_runner rt \<noteq> None")
  case True
  then obtain runner where r: "ru_runner rt = Some runner" by blast
  let ?answer = "tr_decide runner (w_trace w) (rn_id r) q"
  have named: "tq_name q \<in> it_name ` set (ii_tools ir)" using True by (force simp: list_ex_iff)
  have run: "andthen (ask rt (Call_Gate (rn_id r) q) (\<lambda>tr. tr_decide runner tr (rn_id r) q)) waited w = (x, u)"
    using assms True r by (simp add: tool_gate_decision_def)
  define w1 where "w1 = snd (ask rt (Call_Gate (rn_id r) q) (\<lambda>tr. tr_decide runner tr (rn_id r) q) w)"
  have w1: "w_trace w1 = w_trace w @ [Call_Gate (rn_id r) q]" and rest: "waited ?answer w1 = (x, u)"
    using run by (simp_all add: w1_def andthen_def ask_def)
  have "u = w1 \<and> (\<forall>d. x = Inr d \<longrightarrow> ?answer = Some d)" using rest by (cases ?answer) auto
  then show ?thesis using True r named w1 by simp
next
  case False
  then show ?thesis using assms by (auto simp: tool_gate_decision_def split: if_splits option.splits)
qed

lemma call_tool_acts: "acts (\<lambda>tr cs. cs \<in> {[], [Call_Tool q]}) (call_tool rt runner q)"
proof -
  have rest: "acts (\<lambda>tr cs. cs = []) (andthen (answered reply) (\<lambda>a. ret (g a)))"
    for reply :: "(string + tool_output) reply" and g :: "_ \<Rightarrow> tool_output"
    by (cases reply) (auto intro: acts_still)
  show ?thesis
    unfolding call_tool_def
    by (rule acts_seq [where S = "\<lambda>tr cs. cs = [Call_Tool q]", OF acts_ask rest]) auto
qed

lemma after_gate_acts:
  "acts (\<lambda>tr cs. \<exists>mid. mid \<in> {[], [Call_Before (rn_id r) q]} \<and> cs \<in> {mid, mid @ [Call_Tool q]})
     (andthen (before_call rt r q) (\<lambda>_. andthen (call_tool rt runner q) (\<lambda>result. commit rt (g result))))"
proof (rule acts_seq [where S = "\<lambda>tr cs. cs \<in> {[], [Call_Before (rn_id r) q]}"
      and T = "\<lambda>tr cs. cs \<in> {[], [Call_Tool q]}"])
  have w: "acts (\<lambda>tr cs. cs = []) (waited reply)" for reply :: "unit option"
    by (cases reply) (auto intro: acts_still)
  show "acts (\<lambda>tr cs. cs \<in> {[], [Call_Before (rn_id r) q]}) (before_call rt r q)"
  proof (cases "ru_reviewer rt")
    case None
    then show ?thesis by (auto simp: before_call_def intro: acts_still)
  next
    case (Some rw)
    then show ?thesis
      by (auto simp: before_call_def
          intro!: acts_seq [where S = "\<lambda>tr cs. cs = [Call_Before (rn_id r) q]", OF acts_ask w])
  qed
  show "acts (\<lambda>tr cs. cs \<in> {[], [Call_Tool q]}) (andthen (call_tool rt runner q) (\<lambda>result. commit rt (g result)))"
    by (rule acts_seq [OF call_tool_acts, where T = "\<lambda>tr cs. cs = []"]) (auto intro: acts_still)
qed auto

lemma run_tool_lawful:
  assumes names: "it_name ` set (ii_tools ir) \<subseteq> it_name ` set (ru_tools rt)"
  shows "acts (lawful rt (rn_id r)) (run_tool rt r ir q over)"
  unfolding run_tool_def
proof (rule lawful.andthen_acts [OF lawful.commit_acts], rule actsI, goal_cases)
  case (1 _ w x v)
  let ?i = "rn_id r"
  obtain y u where gate: "tool_gate_decision rt r ir q over w = (y, u)" by force
  note G = gate_decides [OF gate]
  show ?case
  proof (cases y)
    case (Inl e)
    then have "v = u" using 1 gate by (simp add: andthen_def)
    then show ?thesis using G names by auto
  next
    case (Inr decision)
    show ?thesis
    proof (cases decision)
      case (Deny d why)
      have "acts (\<lambda>tr cs. cs = []) (andthen (commit rt (append_event ?i
          (Tool_Decided (tq_call q) False d (Some why)))) (\<lambda>_. ret ()))"
        by (rule acts_seq [where S = "\<lambda>tr cs. cs = []" and T = "\<lambda>tr cs. cs = []"]) (auto intro: acts_still)
      then have "w_trace v = w_trace u"
        using 1 gate Inr Deny by (auto simp: andthen_def dest!: actsD split: prod.splits sum.splits)
      then show ?thesis using G names by auto
    next
      case (Allow d why)
      with G Inr obtain runner where r: "ru_runner rt = Some runner"
        and named: "tq_name q \<in> it_name ` set (ru_tools rt)"
        and tr: "w_trace u = w_trace w @ [Call_Gate ?i q]"
        and ok: "tr_decide runner (w_trace w) ?i q = Some (Allow d why)"
        using names by blast
      have "acts (\<lambda>tr cs. \<exists>mid. mid \<in> {[], [Call_Before ?i q]} \<and> cs \<in> {mid, mid @ [Call_Tool q], []})
          (andthen (commit rt (append_event ?i (Tool_Decided (tq_call q) True d why)))
            (\<lambda>_. andthen (before_call rt r q) (\<lambda>_. andthen (call_tool rt runner q) (\<lambda>result.
               commit rt (discard (append_event ?i
                 (Tool_Finished (tq_call q) (to_output result) (to_is_error result))))))))"
        by (rule acts_seq [where S = "\<lambda>tr cs. cs = []", OF _ after_gate_acts]) (auto intro: acts_still)
      from actsD [OF this, of u x v] 1 gate Inr Allow r obtain cs mid where
          v: "w_trace v = w_trace u @ cs" and mid: "mid \<in> {[], [Call_Before ?i q]}"
        and cs: "cs \<in> {mid, mid @ [Call_Tool q], []}"
        by (auto simp: andthen_def)
      have tool: "ok_call rt ?i (w_trace w @ Call_Gate ?i q # mid) (Call_Tool q)"
        if "mid \<in> {[], [Call_Before ?i q]}" for mid
        unfolding ok_call.simps
        by (intro conjI named exI [of _ runner] exI [of _ "w_trace w"] exI [of _ mid] exI [of _ d] exI [of _ why])
          (use that ok r in simp_all)
      have "lawful rt ?i (w_trace w) (Call_Gate ?i q # cs)"
        using mid cs named tool [of "[]"] tool [of "[Call_Before ?i q]"]
        by (auto simp del: ok_call.simps(2))
      then show ?thesis using tr v by (intro exI [of _ "Call_Gate ?i q # cs"]) simp
    qed
  qed
qed

section \<open>Whole runs\<close>

lemma andthen_acts_if:
  assumes "acts T m" and "\<And>w a v. m w = (Inr a, v) \<Longrightarrow> acts T (f a)"
    and "\<And>tr cs ds. T tr cs \<Longrightarrow> T (tr @ cs) ds \<Longrightarrow> T tr (cs @ ds)"
  shows "acts T (andthen m f)"
proof (rule actsI)
  fix w r v assume run: "andthen m f w = (r, v)"
  obtain x u where m: "m w = (x, u)" by force
  from actsD [OF assms(1) m] obtain cs where cs: "w_trace u = w_trace w @ cs" "T (w_trace w) cs" by blast
  show "\<exists>cs. w_trace v = w_trace w @ cs \<and> T (w_trace w) cs"
  proof (cases x)
    case (Inl e)
    then show ?thesis using run m cs by (auto simp: andthen_def)
  next
    case (Inr a)
    then have "f a u = (r, v)" using run m by (simp add: andthen_def)
    from actsD [OF assms(2) this] m Inr cs assms(3) show ?thesis by (metis append.assoc)
  qed
qed

lemma compile_ir_tools: "compile_ir rt r task tools sp w = (Inr ir, v) \<Longrightarrow> ii_tools ir = tools"
proof -
  assume "compile_ir rt r task tools sp w = (Inr ir, v)"
  then obtain s t where "compile_ir_in rt r task tools sp s = (Inr ir, t)"
    unfolding compile_ir_def by (auto simp: on_store_Inr transaction_def Let_def split: prod.splits sum.splits)
  then have "fit (ru_codec rt) (conn s) (rn_id r) task tools sp (fit_start (ru_window rt) sp) = Inr ir"
    by (auto simp: compile_ir_in_def andthen_Inr_iff ret_Inr split: sum.splits)
  from fit_outcome [OF this] obtain h where "compile_with (ru_codec rt) (conn s) (rn_id r) task tools h = Inr ir"
    by blast
  then show ?thesis by (rule compile_with_Inr) simp
qed

lemma infer_lawful: "acts (lawful rt i) (infer rt r ir p)"
proof -
  have "acts (lawful rt i) (ask rt (Call_Infer a b) g)" for a b and g :: "_ \<Rightarrow> 'z"
    by (rule acts_ask) simp
  moreover have "acts (lawful rt i) (case reply of
      Elapsed \<Rightarrow> throw (failure Provider_Timeout message)
    | Answer (Inl e) \<Rightarrow> throw (failure Provider_Failed (provider_error_str e))
    | Answer (Inr raw) \<Rightarrow>
        andthen (commit rt (append_event (rn_id r) (Inference_Completed raw))) (\<lambda>_. ret raw)
    | Stopped \<Rightarrow> throw Cancelled_Run)" for reply message
    by (auto split: reply.splits sum.splits intro!: acts_intros)
  ultimately show ?thesis unfolding infer_def by (intro acts_intros)
qed

lemma after_response_lawful:
  assumes "it_name ` set (ii_tools ir) \<subseteq> it_name ` set (ru_tools rt)"
  shows "acts (lawful rt (rn_id r)) (after_response rt r ir omitted response st)"
  unfolding after_response_def tool_round_def
  by (intro acts_intros run_tool_lawful assms)

lemma loop_pass_lawful:
  assumes "it_name ` set (pn_tools pn) \<subseteq> it_name ` set (ru_tools rt)"
  shows "acts (lawful rt (rn_id r)) (loop_pass rt r pn st)"
  unfolding loop_pass_def
proof (rule lawful.andthen_acts [OF lawful.omitted_results_acts], rule andthen_acts_if, goal_cases)
  case (2 _ w ir v)
  then show ?case
    using assms compile_ir_tools [OF 2]
    by (intro acts_intros infer_lawful after_response_lawful) simp
qed (auto simp: lawful_append intro: acts_intros)

lemma exposed_tools_subset: "set (exposed_tools tools c) \<subseteq> set tools"
  by (auto simp: exposed_tools_def Let_def)

lemma run_passes_acts:
  assumes pass: "\<And>st. acts T (loop_pass rt r pn st)"
    and append: "\<And>tr cs ds. T tr cs \<Longrightarrow> T (tr @ cs) ds \<Longrightarrow> T tr (cs @ ds)"
  shows "acts T (run_passes rt r pn st)"
proof (rule actsI)
  fix w x v
  assume "run_passes rt r pn st w = (x, v)"
  then show "\<exists>cs. w_trace v = w_trace w @ cs \<and> T (w_trace w) cs"
    using pass
  proof (induction rt r pn st w rule: run_passes.induct)
    case (1 rt r pn st w)
    obtain y u where p: "loop_pass rt r pn st w = (y, u)" by force
    from actsD [OF 1(3) p] obtain cs where cs: "w_trace u = w_trace w @ cs" "T (w_trace w) cs" by blast
    show ?case
    proof (cases "\<exists>st'. y = Inr (Some st')")
      case True
      then obtain st' where y: "y = Inr (Some st')" by blast
      have "run_passes rt r pn st' u = (x, v)"
        using 1(2) by (simp add: run_passes.simps [of rt r pn st w] p y)
      from 1(1) [OF p [symmetric] y refl this 1(3)] cs show ?thesis using append by (metis append.assoc)
    next
      case False
      then have "v = u"
        using 1(2) by (auto simp: run_passes.simps [of rt r pn st w] p split: sum.splits option.splits)
      then show ?thesis using cs by blast
    qed
  qed
qed

lemma execute_run_lawful: "acts (lawful rt (rn_id r)) (execute_run rt r task message p)"
proof -
  have "it_name ` set (exposed_tools (ru_tools rt) c) \<subseteq> it_name ` set (ru_tools rt)" for c
    using exposed_tools_subset by (rule image_mono)
  then show ?thesis
    unfolding execute_run_def
    by (intro acts_intros run_passes_acts loop_pass_lawful) (simp_all add: lawful_append)
qed

lemma outcome_of_acts:
  assumes "\<And>p. acts T (execute_run rt r task message p)" and "\<And>tr. T tr []"
  shows "acts T (outcome_of rt r task message)"
proof (cases "map_of (ru_providers rt) (rn_provider r)")
  case None
  then show ?thesis by (auto simp: outcome_of_def assms(2) intro: acts_still)
next
  case (Some p)
  then show ?thesis
    using assms(2) by (auto simp: outcome_of_def intro!: actsI dest: actsD [OF assms(1)] split: if_splits)
qed

text \<open>What \<open>finish\<close> adds around the pipeline: at most the reviewer's \<open>end\<close>.\<close>

lemma finish_trace:
  assumes "acts T (outcome_of rt (sr_run sr) (sr_task sr) (sr_message sr))"
  shows "\<exists>cs. w_trace (snd (finish rt sr w)) = w_trace w @ cs @ [] \<and> T (w_trace w) cs \<or>
    w_trace (snd (finish rt sr w)) = w_trace w @ cs @ [Call_End (rn_id (sr_run sr))] \<and> T (w_trace w) cs"
proof -
  obtain x u where o: "outcome_of rt (sr_run sr) (sr_task sr) (sr_message sr)
      (w\<lparr>w_stops := rn_id (sr_run sr) # w_stops w\<rparr>) = (x, u)" by force
  from actsD [OF assms o] obtain cs where "w_trace u = w_trace w @ cs" "T (w_trace w) cs" by auto
  moreover have "w_trace (snd (finish_failed (sr_run sr) f v)) = w_trace v" for f v
    by (simp add: finish_failed_def)
  ultimately show ?thesis
    unfolding finish_def Let_def o end_review_def
    by (auto split: sum.splits run_error.splits option.splits)
qed

section \<open>Counting inferences\<close>

fun infer_call :: "ext_call \<Rightarrow> bool" where
  "infer_call (Call_Infer _ _) \<longleftrightarrow> True"
| "infer_call _ \<longleftrightarrow> False"

definition infers :: "trace \<Rightarrow> nat" where
  "infers cs = length (filter infer_call cs)"

definition quiet :: "trace \<Rightarrow> trace \<Rightarrow> bool" where
  "quiet tr cs \<longleftrightarrow> infers cs = 0"

lemma infers_append [simp]: "infers (cs @ ds) = infers cs + infers ds"
  by (simp add: infers_def)

interpretation quiet: run_trace quiet
proof
  show "quiet tr [c]" if "free_call c" for tr c using that by (cases c) (auto simp: quiet_def infers_def)
qed (simp_all add: quiet_def, simp add: infers_def)

definition at_most :: "nat \<Rightarrow> trace \<Rightarrow> trace \<Rightarrow> bool" where
  "at_most n tr cs \<longleftrightarrow> infers cs \<le> n"

lemma at_most_seq: "acts quiet m \<Longrightarrow> (\<And>a. acts (at_most n) (f a)) \<Longrightarrow> acts (at_most n) (andthen m f)"
  by (rule acts_seq [where S = quiet and T = "at_most n"]) (auto simp: quiet_def at_most_def)

lemma at_most_then: "acts (at_most n) m \<Longrightarrow> (\<And>a. acts quiet (f a)) \<Longrightarrow> acts (at_most n) (andthen m f)"
  by (rule acts_seq [where S = "at_most n" and T = quiet]) (auto simp: quiet_def at_most_def)

lemma run_tool_quiet: "acts quiet (run_tool rt r ir q over)"
proof -
  have "acts quiet (ask rt (Call_Gate i c) g)" for i c and g :: "_ \<Rightarrow> 'z"
    by (rule acts_ask) (simp add: quiet_def infers_def)
  moreover have "acts quiet (ask rt (Call_Tool c) g)" for c and g :: "_ \<Rightarrow> 'z"
    by (rule acts_ask) (simp add: quiet_def infers_def)
  ultimately show ?thesis
    unfolding run_tool_def tool_gate_decision_def call_tool_def Let_def
    by (intro acts_intros)
qed

lemma infer_once: "acts (at_most 1) (infer rt r ir p)"
proof -
  have "acts (at_most 1) (ask rt (Call_Infer a b) g)" for a b and g :: "_ \<Rightarrow> 'z"
    by (rule acts_ask) (simp add: at_most_def infers_def)
  moreover have "acts quiet (case reply of
      Elapsed \<Rightarrow> throw (failure Provider_Timeout message)
    | Answer (Inl e) \<Rightarrow> throw (failure Provider_Failed (provider_error_str e))
    | Answer (Inr raw) \<Rightarrow>
        andthen (commit rt (append_event (rn_id r) (Inference_Completed raw))) (\<lambda>_. ret raw)
    | Stopped \<Rightarrow> throw Cancelled_Run)" for reply message
    by (auto split: reply.splits sum.splits intro!: acts_intros)
  ultimately show ?thesis
    unfolding infer_def by (intro at_most_seq acts_intros at_most_then)
qed

lemma loop_pass_once: "acts (at_most 1) (loop_pass rt r pn st)"
  unfolding loop_pass_def after_response_def tool_round_def
  by (intro at_most_seq at_most_then infer_once acts_intros run_tool_quiet)

lemma run_passes_infers:
  "run_passes rt r pn st w = (x, v) \<Longrightarrow>
   \<exists>cs. w_trace v = w_trace w @ cs \<and> infers cs \<le> loop_measure rt st + 1"
proof (induction rt r pn st w rule: run_passes.induct)
  case (1 rt r pn st w)
  obtain y u where p: "loop_pass rt r pn st w = (y, u)" by force
  from actsD [OF loop_pass_once p] obtain cs where cs: "w_trace u = w_trace w @ cs" "infers cs \<le> 1"
    by (auto simp: at_most_def)
  show ?case
  proof (cases "\<exists>st'. y = Inr (Some st')")
    case True
    then obtain st' where y: "y = Inr (Some st')" by blast
    have "run_passes rt r pn st' u = (x, v)"
      using 1(2) by (simp add: run_passes.simps [of rt r pn st w] p y)
    from 1(1) [OF p [symmetric] y refl this] obtain ds where
        "w_trace v = w_trace u @ ds" "infers ds \<le> loop_measure rt st' + 1" by blast
    moreover have "loop_measure rt st' < loop_measure rt st"
      using loop_pass_decreases p y by blast
    ultimately show ?thesis using cs by (intro exI [of _ "cs @ ds"]) simp
  next
    case False
    then have "v = u"
      using 1(2) by (auto simp: run_passes.simps [of rt r pn st w] p split: sum.splits option.splits)
    then show ?thesis using cs by auto
  qed
qed

lemma execute_run_infers:
  "acts (at_most (ru_max_tool_steps rt + ru_max_reviews rt + 1)) (execute_run rt r task message p)"
proof -
  have "acts (at_most (ru_max_tool_steps rt + ru_max_reviews rt + 1)) (run_passes rt r pn loop_start)" for pn
    by (rule actsI) (auto simp: at_most_def loop_measure_def loop_start_def dest!: run_passes_infers)
  then show ?thesis
    unfolding execute_run_def by (intro at_most_seq at_most_then acts_intros)
qed

section \<open>Properties\<close>

text \<open>C1. Whatever a model asks for, a run puts only configured tools to the gate, and a tool runs only
  if the gate allowed exactly that request: in the calls of a run, every tool call follows its gate
  decision at once (only the reviewer's \<open>before_call\<close> may come in between).\<close>

theorem tools_only_run_when_allowed:
  "\<exists>cs. w_trace (snd (finish rt sr w)) = w_trace w @ cs \<and> lawful rt (rn_id (sr_run sr)) (w_trace w) cs"
  using finish_trace [OF outcome_of_acts [OF execute_run_lawful], of rt sr w]
  by (auto simp: lawful_append)

text \<open>C9. A run asks the provider at most \<open>max_tool_steps + max_review_rounds + 1\<close> times, whatever the
  provider, the tools and the reviewer answer.\<close>

theorem inference_bound:
  "\<exists>cs. w_trace (snd (finish rt sr w)) = w_trace w @ cs \<and>
     infers cs \<le> ru_max_tool_steps rt + ru_max_reviews rt + 1"
proof -
  have "acts (at_most (ru_max_tool_steps rt + ru_max_reviews rt + 1))
      (outcome_of rt (sr_run sr) (sr_task sr) (sr_message sr))"
    by (rule outcome_of_acts [OF execute_run_infers]) (simp add: at_most_def infers_def)
  from finish_trace [OF this, of w] show ?thesis
    by (auto simp: at_most_def infers_def)
qed

end
