(* ===== verification/Run_Ends.thy ===== *)
theory Run_Ends
  imports Run_Traces
begin

text \<open>
  How runs start and end: what \<open>start_in\<close> stores, what \<open>finish\<close> leaves behind for each outcome of the
  pipeline, what a whole run does to the database, and the recovery of interrupted runs.
\<close>

section \<open>Ending one run\<close>

lemma run_row_update:
  assumes "run_row (update_run i (finished_run st t err) d) i = Some q"
  shows "rn_status q = st \<and> rn_completed_at q = Some t \<and> rn_error q = err"
proof -
  define g where "g r = (if rn_id r = i then finished_run st t err r else r)" for r :: run
  have "t_runs (update_run i (finished_run st t err) d) = map g (t_runs d)"
    unfolding update_run_def g_def by simp
  then obtain r where "q = g r" and "rn_id q = i" using run_row_id [OF assms] by auto
  then show ?thesis by (cases "rn_id r = i") (simp_all add: g_def finished_run_def)
qed

definition running_ids :: "db \<Rightarrow> run_id set" where
  "running_ids d = rn_id ` {r \<in> set (t_runs d). rn_status r = Running}"

lemma running_ids_update:
  "st \<noteq> Running \<Longrightarrow> running_ids (update_run i (finished_run st t err) d) = running_ids d - {i}"
proof (rule set_eqI)
  fix j assume "st \<noteq> Running"
  then show "j \<in> running_ids (update_run i (finished_run st t err) d) \<longleftrightarrow> j \<in> running_ids d - {i}"
    by (force simp: running_ids_def update_run_def finished_run_def)
qed

lemma end_Inr:
  assumes "andthen (append_event i data) (\<lambda>_. finish_run i st err) s = (Inr q, u)"
  obtains e where "run_row (conn u) i = Some q" and "rn_status q = st" and "rn_error q = err"
    and "rn_completed_at q \<noteq> None" and "t_events (conn u) = t_events (conn s) @ [e]"
    and "ev_run e = i" and "ev_data e = data"
    and "st \<noteq> Running \<Longrightarrow> running_ids (conn u) = running_ids (conn s) - {i}"
proof -
  from assms obtain e v where e: "append_event i data s = (Inr e, v)" and f: "finish_run i st err v = (Inr q, u)"
    by (auto simp: andthen_Inr_iff)
  note E = append_event_appendable [OF e] and F = finish_run_Inr [OF f]
  have u: "conn u = update_run i (finished_run st (clock v (ticks v)) err) (conn v)"
    and row: "run_row (conn u) i = Some q"
    using F by blast+
  have v: "conn v = add_event e (conn s)" "ev_run e = i" "ev_data e = data" using E by simp_all
  have "running_ids (conn v) = running_ids (conn s)" by (simp add: v running_ids_def add_event_def)
  then have "st \<noteq> Running \<Longrightarrow> running_ids (conn u) = running_ids (conn s) - {i}"
    unfolding u by (simp add: running_ids_update)
  moreover have "t_events (conn u) = t_events (conn s) @ [e]"
    by (simp add: u v update_run_def add_event_def)
  moreover note run_row_update [OF row [unfolded u]]
  ultimately show thesis using that [OF row] v by simp
qed

lemma fail_run_Inr:
  assumes "fail_run i code message s = (Inr q, u)"
  obtains e where "run_row (conn u) i = Some q" and "rn_status q = Failed" and "rn_error q = Some code"
    and "t_events (conn u) = t_events (conn s) @ [e]" and "ev_run e = i"
    and "ev_data e = Run_Failed code message" and "running_ids (conn u) = running_ids (conn s) - {i}"
  using assms unfolding fail_run_def by (rule end_Inr) simp

lemma complete_run_Inr:
  assumes "complete_run i s = (Inr q, u)"
  obtains e where "run_row (conn u) i = Some q" and "rn_status q = Completed" and "rn_error q = None"
    and "t_events (conn u) = t_events (conn s) @ [e]" and "ev_run e = i" and "ev_data e = Run_Completed"
    and "running_ids (conn u) = running_ids (conn s) - {i}"
  using assms unfolding complete_run_def by (rule end_Inr) simp

lemma transaction_Inr: "transaction m s = (Inr a, u) \<Longrightarrow> \<exists>t v. conn t = conn s \<and> m t = (Inr a, v) \<and> conn u = conn v"
  by (rule exI [of _ "s\<lparr>appended := if listening s then Some [] else None\<rparr>"])
     (auto simp: transaction_def Let_def split: prod.splits sum.splits)

lemma transaction_fails: "transaction m s = (Inl e, u) \<Longrightarrow> conn u = conn s"
  by (auto simp: transaction_def Let_def split: prod.splits sum.splits)

section \<open>Recovery\<close>

lemma recover_collect:
  assumes "collect rs (\<lambda>r. fail_run (rn_id r) code message) s = (Inr qs, u)"
  shows "map rn_id qs = map rn_id rs \<and> (\<forall>q \<in> set qs. rn_status q = Failed \<and> rn_error q = Some code) \<and>
    running_ids (conn u) = running_ids (conn s) - rn_id ` set rs"
  using assms
proof (induction rs arbitrary: s qs)
  case (Cons r rs)
  then obtain q v qs' where q: "fail_run (rn_id r) code message s = (Inr q, v)"
    and rest: "collect rs (\<lambda>r. fail_run (rn_id r) code message) v = (Inr qs', u)" and qs: "qs = q # qs'"
    by (auto simp: andthen_Inr_iff ret_Inr)
  obtain e where "run_row (conn v) (rn_id r) = Some q" "rn_status q = Failed" "rn_error q = Some code"
      "running_ids (conn v) = running_ids (conn s) - {rn_id r}"
    using q by (rule fail_run_Inr) blast
  moreover from this(1) have "rn_id q = rn_id r" using run_row_id by blast
  ultimately show ?case using Cons.IH [OF rest] by (auto simp: qs)
qed (auto simp: ret_Inr)

text \<open>Recovery ends exactly the interrupted runs: afterwards the running runs are those that this
  process executes, and the runs returned are all others that were running, in start order, each
  failed with \<open>interrupted\<close>.\<close>

theorem recover_ends_interrupted_runs:
  assumes "transaction (recover_runs_except executing) s = (Inr qs, u)"
  shows "running_ids (conn u) = running_ids (conn s) \<inter> set executing \<and>
    map rn_id qs = filter (\<lambda>i. i \<notin> set executing) (map rn_id (running_runs (conn s))) \<and>
    (\<forall>q \<in> set qs. rn_status q = Failed \<and> rn_error q = Some Interrupted)"
proof -
  from transaction_Inr [OF assms] obtain t v where t: "conn t = conn s" "conn u = conn v"
    and run: "recover_runs_except executing t = (Inr qs, v)" by blast
  let ?rs = "filter (\<lambda>r. rn_id r \<notin> set executing) (running_runs (conn t))"
  have "collect ?rs (\<lambda>r. fail_run (rn_id r) Interrupted ''DAGOS stopped before the run finished'') t = (Inr qs, v)"
    using run by (simp add: recover_runs_except_def query_def)
  note C = recover_collect [OF this]
  have "rn_id ` set ?rs = running_ids (conn s) - set executing"
    using t by (auto simp: running_runs_def running_ids_def)
  then show ?thesis using C t by (auto simp: filter_map comp_def)
qed

lemma recover_ends_interrupted_runs_witness:
  "\<exists>qs u. transaction recover_interrupted_runs chat_store = (Inr qs, u) \<and> running_ids (conn u) = {} \<and>
     map rn_id qs = [Ident ''run_7'']"
proof -
  have "\<not> isl (fst (transaction (recover_runs_except []) chat_store))" by code_simp
  then obtain qs u where run: "transaction (recover_runs_except []) chat_store = (Inr qs, u)"
    by (metis isl_def old.sum.exhaust prod.collapse)
  have "map rn_id (running_runs (conn chat_store)) = [Ident ''run_7'']" by code_simp
  then show ?thesis
    using recover_ends_interrupted_runs [OF run] run unfolding recover_interrupted_runs_def by auto
qed

section \<open>Finishing\<close>

text \<open>How a run that ended with this outcome is stored.\<close>

definition ended_as :: "db \<Rightarrow> run_id \<Rightarrow> run_error + run \<Rightarrow> run \<Rightarrow> bool" where
  "ended_as d i result q \<longleftrightarrow> run_row d i = Some q \<and> run_events d i \<noteq> [] \<and>
     (case result of
        Inr p \<Rightarrow> q = p \<and> rn_status q = Completed \<and> ev_data (last (run_events d i)) = Run_Completed
      | Inl (Failure f) \<Rightarrow> rn_status q = Failed \<and> rn_error q = Some (sf_code f) \<and>
          ev_data (last (run_events d i)) = Run_Failed (sf_code f) (sf_message f) \<and>
          (\<forall>e. sf_evidence f = Some e \<longrightarrow> ev_data (last (butlast (run_events d i))) = e)
      | Inl Cancelled_Run \<Rightarrow> rn_status q = Failed \<and> rn_error q = Some Cancelled \<and>
          ev_data (last (run_events d i)) = Run_Failed Cancelled ''stopped by the person''
      | Inl (Panicked _) \<Rightarrow> False)"

lemma run_events_snoc:
  "t_events d' = t_events d @ [e] \<Longrightarrow> ev_run e = i \<Longrightarrow> run_events d' i = run_events d i @ [e]"
  by (simp add: run_events_def)

lemma record_failure_Inr:
  assumes "record_failure r f s = (Inr q, u)"
  shows "ended_as (conn u) (rn_id r) (Inl (Failure f)) q"
proof -
  obtain v where v: "(case sf_evidence f of
        Some evidence \<Rightarrow> discard (append_event (rn_id r) evidence) | None \<Rightarrow> ret ()) s = (Inr (), v)"
    and fail: "fail_run (rn_id r) (sf_code f) (sf_message f) v = (Inr q, u)"
    using assms by (auto simp: record_failure_def andthen_Inr_iff)
  obtain e where e: "run_row (conn u) (rn_id r) = Some q" "rn_status q = Failed" "rn_error q = Some (sf_code f)"
      "t_events (conn u) = t_events (conn v) @ [e]" "ev_run e = rn_id r"
      "ev_data e = Run_Failed (sf_code f) (sf_message f)"
    using fail by (rule fail_run_Inr) blast
  have events: "run_events (conn u) (rn_id r) = run_events (conn v) (rn_id r) @ [e]"
    by (rule run_events_snoc [OF e(4,5)])
  have "ev_data (last (run_events (conn v) (rn_id r))) = x" if "sf_evidence f = Some x" for x
  proof -
    from v that obtain e' where "append_event (rn_id r) x s = (Inr e', v)"
      by (auto simp: discard_def andthen_Inr_iff ret_Inr)
    from append_event_appendable [OF this] show ?thesis
      by (simp add: run_events_def add_event_def)
  qed
  then show ?thesis using e by (simp add: ended_as_def events)
qed

lemma finish_failed_Inr:
  assumes "finish_failed r f w = (Inr q, v)"
  shows "ended_as (db_of v) (rn_id r) (Inl (Failure f)) q \<and> w_stops v = w_stops w"
proof -
  from assms obtain s where t: "transaction (record_failure r f) (w_store w) = (Inr q, s)"
    and v: "v = w\<lparr>w_store := s\<rparr>"
    by (auto simp: finish_failed_def on_store_Inr)
  from transaction_Inr [OF t] obtain a b where "record_failure r f a = (Inr q, b)" "conn s = conn b" by blast
  then show ?thesis using record_failure_Inr by (auto simp: v db_of_def)
qed

lemma execute_run_Inr:
  assumes "execute_run rt r task message p w = (Inr q, v)"
  shows "ended_as (db_of v) (rn_id r) (Inr q) q"
proof -
  from assms obtain u where "commit rt (complete_run (rn_id r)) u = (Inr q, v)"
    unfolding execute_run_def andthen_Inr_iff by blast
  then obtain s where t: "transaction (complete_run (rn_id r)) (w_store u) = (Inr q, s)"
    and v: "v = u\<lparr>w_store := s\<rparr>"
    by (auto simp: commit_Inr)
  from transaction_Inr [OF t] obtain a b where c: "complete_run (rn_id r) a = (Inr q, b)" and b: "conn s = conn b"
    by blast
  from c obtain e where "run_row (conn b) (rn_id r) = Some q" "rn_status q = Completed"
      "t_events (conn b) = t_events (conn a) @ [e]" "ev_run e = rn_id r" "ev_data e = Run_Completed"
    by (rule complete_run_Inr) blast
  then show ?thesis by (simp add: ended_as_def v db_of_def b run_events_snoc)
qed

lemma outcome_of_Inr: "outcome_of rt r task message w = (Inr q, v) \<Longrightarrow> ended_as (db_of v) (rn_id r) (Inr q) q"
  by (auto simp: outcome_of_def split: option.splits if_splits dest: execute_run_Inr)

lemma end_review_simps [simp]:
  "w_store (end_review rt r w) = w_store w" "w_stops (end_review rt r w) = w_stops w"
  by (auto simp: end_review_def split: option.splits)

section \<open>Whole runs\<close>

lemma on_store_transaction_steps:
  assumes "moves db_steps m" and "map_err h (on_store (transaction m)) w = (x, v)"
  shows "db_steps (db_of w) (db_of v)"
proof -
  obtain y s where t: "transaction m (w_store w) = (y, s)" by force
  then have "db_steps (conn (w_store w)) (conn s)"
    using steps.transaction_moves [OF assms(1), of "w_store w"] by simp
  then show ?thesis using assms(2) t by (cases y) (auto simp: map_err_def on_store_def db_of_def)
qed

lemma start_tx_moves [steps_intros]: "moves db_steps (start_tx thread message config)"
proof -
  have "moves db_steps (thread_conversation thread message)"
    unfolding thread_conversation_def by (cases thread) (auto intro: steps_intros)
  then show ?thesis unfolding start_tx_def by (intro steps_intros append_event_moves')
qed

lemma start_in_steps: "start_in rt thread message config w = (x, v) \<Longrightarrow> db_steps (db_of w) (db_of v)"
  using on_store_transaction_steps [OF start_tx_moves, of Runtime_Store thread message config w]
  unfolding start_in_def andthen_def by (auto split: if_splits prod.splits sum.splits)

lemma record_failure_moves: "ordinary_error (Failure f) \<Longrightarrow> moves db_steps (record_failure r f)"
  unfolding record_failure_def
  by (cases "sf_evidence f") (auto intro!: steps_intros append_event_moves)

lemma finish_failed_steps:
  "ordinary_error (Failure f) \<Longrightarrow> finish_failed r f w = (x, v) \<Longrightarrow> db_steps (db_of w) (db_of v)"
  unfolding finish_failed_def by (rule on_store_transaction_steps [OF record_failure_moves])

lemma finish_steps:
  assumes "ordinary_others rt" and "finish rt sr w = (x, v)"
  shows "db_steps (db_of w) (db_of v)"
proof -
  let ?r = "sr_run sr"
  obtain y u where o: "outcome_of rt ?r (sr_task sr) (sr_message sr)
      (w\<lparr>w_stops := rn_id ?r # w_stops w\<rparr>) = (y, u)" by force
  note S = soundD [OF outcome_of_sound [OF assms(1)] o]
  have "db_of (w\<lparr>w_stops := rn_id ?r # w_stops w\<rparr>) = db_of w" by (simp add: db_of_def)
  with S have "db_steps (db_of w) (db_of u)" and e: "\<And>e. y = Inl e \<Longrightarrow> ordinary_error e" by auto
  moreover have "db_steps (db_of u) (db_of v)"
  proof -
    have same: "db_of (end_review rt ?r (u\<lparr>w_stops := js\<rparr>)) = db_of u" for js by (simp add: db_of_def)
    have "ordinary_error (Failure stop_failure)" by (simp add: stop_failure_def)
    then show ?thesis
      using assms(2) e
      by (auto simp: finish_def Let_def o same db_of_def [of "_\<lparr>w_stops := _\<rparr>"] split: sum.splits run_error.splits
          dest!: finish_failed_steps [rotated])
  qed
  ultimately show ?thesis by (meson rtranclp_trans)
qed

lemma run_message_steps:
  assumes "ordinary_others rt"
  shows "db_steps (db_of w) (db_of (snd (run_message rt p message config w)))"
proof -
  obtain x u where s: "start_run rt p message config w = (x, u)" by force
  have A: "db_steps (db_of w) (db_of u)" using start_in_steps s unfolding start_run_def by blast
  show ?thesis
  proof (cases x)
    case (Inl e)
    then show ?thesis using A s by (simp add: run_message_def andthen_def)
  next
    case (Inr sr)
    obtain y v where "finish rt sr u = (y, v)" by force
    with finish_steps [OF assms this] A Inr s show ?thesis
      by (simp add: run_message_def andthen_def)
  qed
qed

section \<open>A run whose classification is rejected\<close>

text \<open>Jev classifies a node that was not a candidate; there is no fallback.\<close>

definition stray_jev :: jev where
  "stray_jev =
     \<lparr>jv_id = ''jev'', jv_classify = (\<lambda>tr request. Answer (Inr ''{}'')),
      jv_relevance = (\<lambda>tr q chunks. Answer (Inr None)), jv_decide = (\<lambda>tr state questions. Answer (Inr None))\<rparr>"

definition stray_codec :: codec where
  "stray_codec = demo_codec\<lparr>
     read_classification := (\<lambda>j. Inr \<lparr>cc_nodes = [\<lparr>nc_node = Ident ''node_1'', nc_classification = Active\<rparr>],
       cc_tools = []\<rparr>)\<rparr>"

definition answering :: provider where
  "answering =
     \<lparr>pv_id = rc_provider demo_config, pv_window = (\<lambda>tr m. Some (Some 20000)),
      pv_infer = (\<lambda>tr m ir. ([''do'', ''ne''], Answer (Inr ''{}'')))\<rparr>"

definition demo_runtime :: runtime where
  "demo_runtime =
     with_provider answering (new_runtime stray_codec (\<lambda>k. []) (\<lambda>tr. []) (\<lambda>tr. False) stray_jev)"

definition demo_world :: world where
  "demo_world = \<lparr>w_store = chat_store, w_trace = [], w_stops = []\<rparr>"

definition demo_started :: started_run where
  "demo_started = \<lparr>sr_run = chat_run, sr_task = Ident ''node_9'', sr_message = ''more''\<rparr>"

definition idle_store :: store where
  "idle_store = session [[Op_Complete_Run (Ident ''run_7'')]] chat_store"

lemma idle_store_ok: "db_ok (conn idle_store)"
  using schema.steps_keep [OF session_steps chat_store_ok, of "[[Op_Complete_Run (Ident ''run_7'')]]"]
  by (simp add: idle_store_def)

lemma demo_others: "ordinary_others demo_runtime"
  by (simp add: ordinary_others_def demo_runtime_def with_provider_def new_runtime_def)

text \<open>C3. Whatever happens in the pipeline, \<open>finish\<close> returns the run as it is then stored, and it has ended:
  completed with \<open>run.completed\<close> last if every stage succeeded, otherwise failed with the code and
  message of the stage that failed and \<open>run.failed\<close> last, the evidence of a rejection right before it,
  or failed with \<open>cancelled\<close> if the stop signal abandoned it; and it cannot be stopped any more.\<close>

theorem finish_ends_run:
  assumes "finish rt sr w = (Inr q, v)"
  shows "ended_as (db_of v) (rn_id (sr_run sr))
      (fst (outcome_of rt (sr_run sr) (sr_task sr) (sr_message sr)
         (w\<lparr>w_stops := rn_id (sr_run sr) # w_stops w\<rparr>))) q \<and>
    rn_status q \<noteq> Running \<and> \<not> stop_run (rn_id (sr_run sr)) v"
proof -
  let ?r = "sr_run sr"
  obtain x u where o: "outcome_of rt ?r (sr_task sr) (sr_message sr)
      (w\<lparr>w_stops := rn_id ?r # w_stops w\<rparr>) = (x, u)" by force
  let ?done = "end_review rt ?r (u\<lparr>w_stops := filter (\<lambda>i. i \<noteq> rn_id ?r) (w_stops u)\<rparr>)"
  have stops: "rn_id ?r \<notin> set (w_stops ?done)" by simp
  have "ended_as (db_of v) (rn_id ?r) x q \<and> rn_id ?r \<notin> set (w_stops v)"
  proof (cases x)
    case (Inr p)
    then have "q = p" "v = ?done" using assms by (simp_all add: finish_def Let_def o)
    moreover have "db_of ?done = db_of u" by (simp add: db_of_def)
    ultimately show ?thesis using outcome_of_Inr o stops Inr by auto
  next
    case (Inl e)
    show ?thesis
    proof (cases e)
      case (Failure f)
      then have "finish_failed ?r f ?done = (Inr q, v)" using assms Inl by (simp add: finish_def Let_def o)
      from finish_failed_Inr [OF this] show ?thesis using Inl Failure stops by simp
    next
      case Cancelled_Run
      then have "finish_failed ?r stop_failure ?done = (Inr q, v)"
        using assms Inl by (simp add: finish_def Let_def o)
      from finish_failed_Inr [OF this] show ?thesis
        using Inl Cancelled_Run stops by (simp add: ended_as_def stop_failure_def)
    next
      case (Panicked p)
      then show ?thesis using assms Inl by (simp add: finish_def Let_def o)
    qed
  qed
  then show ?thesis
    by (auto simp: o stop_run_def ended_as_def split: sum.splits run_error.splits)
qed

lemma finish_ends_run_witness:
  "case finish demo_runtime demo_started demo_world of
     (Inl e, v) \<Rightarrow> False
   | (Inr q, v) \<Rightarrow> rn_status q = Failed \<and> run_row (db_of v) (Ident ''run_7'') = Some q \<and>
       rn_error q = Some Jev_Invalid_Output"
proof -
  have "\<not> isl (fst (finish demo_runtime demo_started demo_world))" by code_simp
  then obtain q v where run: "finish demo_runtime demo_started demo_world = (Inr q, v)"
    by (metis isl_def old.sum.exhaust prod.collapse)
  have "case fst (outcome_of demo_runtime chat_run (Ident ''node_9'') ''more''
      (demo_world\<lparr>w_stops := rn_id chat_run # w_stops demo_world\<rparr>)) of
      Inl (Failure f) \<Rightarrow> sf_code f = Jev_Invalid_Output | _ \<Rightarrow> False"
    and "rn_id chat_run = Ident ''run_7''"
    by code_simp+
  moreover have "sr_run demo_started = chat_run" "sr_task demo_started = Ident ''node_9''"
    "sr_message demo_started = ''more''"
    by (simp_all add: demo_started_def)
  ultimately have "rn_status q = Failed \<and> run_row (db_of v) (Ident ''run_7'') = Some q \<and>
      rn_error q = Some Jev_Invalid_Output"
    using finish_ends_run [OF run] by (auto simp: ended_as_def split: sum.splits run_error.splits)
  then show ?thesis by (simp add: run)
qed

text \<open>C2. A run, from its start to its end, only ever takes the steps of the store: whatever Jev, the
  provider, the tools and the reviewer answer and however other clients use the store meanwhile, the
  schema's integrity, the shape of all run histories and the acyclicity of the graph are kept,
  nothing durable is lost, and finished runs stay as they are. This includes every failure, stop and
  panic.\<close>

theorem run_keeps_store:
  assumes "ordinary_others rt" and "db_ok (db_of w)" and "history_ok (db_of w)"
    and "acyclic (edge_rel (db_of w))"
  shows "let d = db_of (snd (run_message rt p message config w))
    in db_ok d \<and> history_ok d \<and> acyclic (edge_rel d) \<and> durable (db_of w) d \<and> frozen (db_of w) d"
proof -
  note S = run_message_steps [OF assms(1), of w p message config]
  show ?thesis
    using history.steps_keep [OF S] acyclic_dag.steps_keep [OF S] steps_durable [OF S] steps_frozen [OF S] assms
    by (simp add: Let_def)
qed

lemma run_keeps_store_witness:
  "db_ok (db_of (snd (run_message demo_runtime (Ident ''proj_0'') ''again'' demo_config
     (demo_world\<lparr>w_store := demo_store\<rparr>))))"
proof -
  have "list_all (list_all ordinary) demo_session" by (simp add: demo_session_def)
  from session_keeps [OF this] have "db_ok (conn demo_store) \<and> history_ok (conn demo_store) \<and>
      acyclic (edge_rel (conn demo_store))"
    unfolding demo_store_def by blast
  then show ?thesis
    using run_keeps_store [OF demo_others, of "demo_world\<lparr>w_store := demo_store\<rparr>" "Ident ''proj_0''" "''again''" demo_config]
    by (simp add: db_of_def Let_def)
qed

section \<open>Starting a run\<close>

lemma carry_context_Inr:
  assumes "carry_context i s = (Inr cs, u)"
  obtains r e ms where "run_row (conn s) i = Some r"
    and "ms = carried_members (conn s) (last_run_before (conn s) r)"
    and "conn u = add_event e ((conn s)\<lparr>t_context := t_context (conn u)\<rparr>)" and "ev_run e = i"
    and "ev_data e = Context_Carried (map_option rn_id (last_run_before (conn s) r)) (map cm_node cs)"
    and "context_of (conn u) i = cs" and "cm_node ` set cs = fst ` set ms"
    and "\<And>j. j \<noteq> i \<Longrightarrow> context_of (conn u) j = context_of (conn s) j"
proof -
  from assms obtain prev v e where p: "previous_run i s = (Inr prev, s)"
    and ctx: "replace_context i (carried_members (conn s) prev) s = (Inr cs, v)"
    and ev: "append_event i (Context_Carried (map_option rn_id prev) (map cm_node cs)) v = (Inr e, u)"
    unfolding carry_context_def previous_run_def
    by (auto simp: andthen_Inr_iff ret_Inr query_def require_Inr)
  from p obtain r where r: "run_row (conn s) i = Some r" "prev = last_run_before (conn s) r"
    unfolding previous_run_def by (auto simp: andthen_Inr_iff ret_Inr query_def require_Inr)
  note C = replace_context_spec [OF ctx refl]
  then obtain rows where v: "conn v = (conn s)\<lparr>t_context := rows\<rparr>"
    and cs: "context_of (conn v) i = cs" "cm_node ` set cs = fst ` set (carried_members (conn s) prev)"
      "\<And>j. j \<noteq> i \<Longrightarrow> context_of (conn v) j = context_of (conn s) j" by blast
  note E = append_event_appendable [OF ev]
  have same: "context_of (conn u) j = context_of (conn v) j" for j
    using E by (simp add: add_event_def)
  show thesis
  proof (rule that [OF r(1) refl, of e])
    show "conn u = add_event e ((conn s)\<lparr>t_context := t_context (conn u)\<rparr>)"
      using E v by (simp add: add_event_def)
  qed (use E cs r same in simp_all)
qed

lemma start_tx_Inr:
  assumes "start_tx thread message config s = (Inr (r, task), u)" and ok: "db_ok (conn s)"
  shows "run_row (conn u) (rn_id r) = Some r \<and> rn_status r = Running \<and> run_config_of r = config \<and>
    (\<forall>c. thread = In_Conversation c \<longrightarrow> rn_conversation r = c) \<and>
    (\<exists>n. node_of (conn u) task = Some n \<and> nd_type n = Conversation_Node \<and>
       nd_payload n = turn_to_payload (user_turn message)) \<and>
    map ev_data (run_events (conn u) (rn_id r)) =
      [Run_Started (rn_provider r) (rn_model r) (rn_prompt r), Message_Recorded task message,
       Context_Carried (map_option rn_id (last_run_before (conn u) r))
         (map cm_node (context_of (conn u) (rn_id r)))] \<and>
    cm_node ` set (context_of (conn u) (rn_id r)) =
      (case last_run_before (conn u) r of
         None \<Rightarrow> {} | Some q \<Rightarrow> cm_node ` set (context_of (conn u) (rn_id q)))"
proof -
  from assms(1) obtain c s1 s2 s3 s4 n e1 cs where
      thr: "thread_conversation thread message s = (Inr c, s1)"
    and create: "create_run_in c config s1 = (Inr r, s2)"
    and node: "insert_node (rn_project r) Conversation_Node (turn_to_payload (user_turn message)) s2 = (Inr n, s3)"
    and msg: "append_event (rn_id r) (Message_Recorded (nd_id n) message) s3 = (Inr e1, s4)"
    and carry: "carry_context (rn_id r) s4 = (Inr cs, u)" and task: "task = nd_id n"
    unfolding start_tx_def by (auto simp: andthen_Inr_iff ret_Inr)
  have "moves db_steps (thread_conversation thread message)"
    unfolding thread_conversation_def by (cases thread) (auto intro: steps_intros)
  from this thr have "db_steps (conn s) (conn s1)" by (rule movesD)
  then have ok1: "db_ok (conn s1)" using ok by (rule schema.steps_keep)
  obtain d e0 where d: "db_step (conn s1) d" and viol: "run_violation r d = None"
    and r: "rn_status r = Running" "rn_conversation r = c" "run_config_of r = config"
    and e0: "ev_run e0 = rn_id r" "ev_data e0 = Run_Started (rn_provider r) (rn_model r) (rn_prompt r)"
    and s2: "conn s2 = add_event e0 (add_run r d)"
    using create by (rule create_run_in_Inr) blast
  have "db_ok d" using schema.steps_keep [OF r_into_rtranclp [where r = db_step, OF d] ok1] .
  then have okd: "events_ok d" "runs_ok d" by (simp_all add: db_ok_def)
  have new: "rn_id r \<notin> rn_id ` set (t_runs d)"
    using viol by (auto simp: run_violation_def split: if_splits)
  note none = no_events_of_new_run [OF okd(1) new]
  note N = insert_node_Inr [OF node]
  note M = append_event_appendable [OF msg]
  have s3: "conn s3 = add_node (rn_project r) n (conn s2)" using N by simp
  have s4: "conn s4 = add_event e1 (conn s3)" using M by simp
  have runs4: "t_runs (conn s4) = t_runs d @ [r]"
    by (simp add: s4 s3 s2 add_event_def add_run_def add_node_def)
  have row4: "run_row (conn s4) (rn_id r) = Some r"
  proof -
    have "find (\<lambda>q. rn_id q = rn_id r) (t_runs d) = None" using new unfolding find_None_all by (metis imageI)
    then show ?thesis by (simp add: run_row_def runs4 find_append)
  qed
  obtain r' e2 ms where r': "run_row (conn s4) (rn_id r) = Some r'"
    and ms: "ms = carried_members (conn s4) (last_run_before (conn s4) r')"
    and u: "conn u = add_event e2 ((conn s4)\<lparr>t_context := t_context (conn u)\<rparr>)" and e2: "ev_run e2 = rn_id r"
      "ev_data e2 = Context_Carried (map_option rn_id (last_run_before (conn s4) r')) (map cm_node cs)"
    and cs: "context_of (conn u) (rn_id r) = cs" "cm_node ` set cs = fst ` set ms"
    and others: "\<And>j. j \<noteq> rn_id r \<Longrightarrow> context_of (conn u) j = context_of (conn s4) j"
    using carry by (rule carry_context_Inr) blast
  have rr: "r' = r" using r' row4 by simp
  have runs: "t_runs (conn u) = t_runs (conn s4)" by (subst u) (simp add: add_event_def)
  have last: "last_run_before (conn u) r = last_run_before (conn s4) r"
    by (simp add: last_run_before_def runs)
  have events: "t_events (conn u) = t_events d @ [e0, e1, e2]"
    by (subst u) (simp add: add_event_def s4 s3 s2 add_run_def add_node_def)
  have hist: "run_events (conn u) (rn_id r) = [e0, e1, e2]"
    using none e0 e2 M by (simp add: run_events_def events)
  have nodes: "t_nodes (conn u) = t_nodes d @ [(rn_project r, n)]"
    by (subst u) (simp add: add_event_def s4 s3 s2 add_run_def add_node_def)
  have newn: "nd_id n \<notin> (nd_id \<circ> snd) ` set (t_nodes d)"
    using N by (auto simp: node_violation_def s2 add_event_def add_run_def split: if_splits)
  have "find (\<lambda>row. nd_id (snd row) = nd_id n) (t_nodes d) = None" using newn unfolding find_None_all by (metis comp_apply imageI)
  then have "node_of (conn u) (nd_id n) = Some n"
    by (simp add: node_of_def node_row_def nodes find_append)
  moreover have "cm_node ` set cs = (case last_run_before (conn u) r of
         None \<Rightarrow> {} | Some q \<Rightarrow> cm_node ` set (context_of (conn u) (rn_id q)))"
  proof (cases "last_run_before (conn s4) r")
    case None
    then show ?thesis using cs(2) by (simp add: last ms rr carried_members_def)
  next
    case (Some q)
    have "q \<in> set (t_runs (conn s4)) \<and> run_order q < run_order r"
      using last_run_before_greatest [of "conn s4" r] Some by (simp add: earlier_runs_def)
    then have "q \<in> set (t_runs d)" by (auto simp: runs4)
    then have "rn_id q \<noteq> rn_id r" using new by (metis imageI)
    then show ?thesis using cs(2) others
      by (simp add: last Some ms rr carried_members_def image_image)
  qed
  moreover have "thread = In_Conversation c' \<longrightarrow> c = c'" for c'
    using thr by (auto simp: thread_conversation_def ret_Inr)
  ultimately show ?thesis
    using r row4 e0 e2 M N runs cs
    by (auto simp: hist task last rr run_row_def)
qed

text \<open>C33. Starting a run commits everything that a run begins with, at once: the run, running, with the
  chosen configuration, in the conversation that was asked for; the user's message as its task
  node; the first three events; and as its context exactly the nodes in the context of the
  conversation's previous run.\<close>

theorem start_in_effect:
  assumes "start_in rt thread message config w = (Inr sr, v)" and "db_ok (db_of w)"
  shows "let d = db_of v; r = sr_run sr; context_nodes = (\<lambda>i. map cm_node (context_of d i))
    in rc_provider config \<in> dom (map_of (ru_providers rt)) \<and> sr_message sr = message \<and>
       run_row d (rn_id r) = Some r \<and> rn_status r = Running \<and> run_config_of r = config \<and>
       (\<forall>c. thread = In_Conversation c \<longrightarrow> rn_conversation r = c) \<and>
       (\<exists>n. node_of d (sr_task sr) = Some n \<and> nd_type n = Conversation_Node \<and>
          nd_payload n = turn_to_payload (user_turn message)) \<and>
       map ev_data (run_events d (rn_id r)) =
         [Run_Started (rn_provider r) (rn_model r) (rn_prompt r), Message_Recorded (sr_task sr) message,
          Context_Carried (map_option rn_id (last_run_before d r)) (context_nodes (rn_id r))] \<and>
       set (context_nodes (rn_id r)) =
         (case last_run_before d r of None \<Rightarrow> {} | Some q \<Rightarrow> set (context_nodes (rn_id q)))"
proof -
  have reg: "rc_provider config \<in> dom (map_of (ru_providers rt))"
    using assms(1) by (auto simp: start_in_def split: if_splits)
  then obtain r task s where t: "transaction (start_tx thread message config) (w_store w) = (Inr (r, task), s)"
    and sr: "sr = \<lparr>sr_run = r, sr_task = task, sr_message = message\<rparr>" and v: "v = w\<lparr>w_store := s\<rparr>"
    using assms(1) by (auto simp: start_in_def andthen_Inr_iff on_store_Inr ret_Inr)
  from transaction_Inr [OF t] obtain a b where "conn a = conn (w_store w)"
    and "start_tx thread message config a = (Inr (r, task), b)" and "conn s = conn b" by blast
  then show ?thesis
    using start_tx_Inr [of thread message config a r task b] assms(2) reg
    by (simp add: Let_def sr v db_of_def cong: option.case_cong)
qed

lemma start_in_effect_witness:
  "case start_in demo_runtime (Latest (Ident ''proj_0'')) ''third'' demo_config
       (demo_world\<lparr>w_store := idle_store\<rparr>) of
     (Inl e, v) \<Rightarrow> False
   | (Inr sr, v) \<Rightarrow> rn_status (sr_run sr) = Running \<and> run_row (db_of v) (rn_id (sr_run sr)) = Some (sr_run sr)"
proof -
  let ?w = "demo_world\<lparr>w_store := idle_store\<rparr>"
  have "\<not> isl (fst (start_in demo_runtime (Latest (Ident ''proj_0'')) ''third'' demo_config ?w))" by code_simp
  then obtain sr v where run: "start_in demo_runtime (Latest (Ident ''proj_0'')) ''third'' demo_config ?w = (Inr sr, v)"
    by (metis isl_def old.sum.exhaust prod.collapse)
  have "db_ok (db_of ?w)" using idle_store_ok by (simp add: db_of_def)
  from start_in_effect [OF run this] show ?thesis unfolding run by (simp add: Let_def)
qed

section \<open>Classification\<close>

lemma classify_with_Inr:
  "classify_with rt jev request w = (Inr c, v) \<Longrightarrow> \<exists>raw. validate_classification (ru_codec rt) request raw = Inr c"
proof -
  assume "classify_with rt jev request w = (Inr c, v)"
  then obtain a t where "(case a of
         None \<Rightarrow> throw (failure Jev_Failed (''no classification within '' @ ru_jev_timeout rt))
       | Some (Inl e) \<Rightarrow> throw (failure Jev_Failed (jev_error_str e))
       | Some (Inr raw) \<Rightarrow>
           (case validate_classification (ru_codec rt) request raw of
              Inl e \<Rightarrow> throw (failure_with Jev_Invalid_Output
                        (''Jev output rejected: '' @ classification_error_str e)
                        (Jev_Rejected (classification_error_str e) raw))
            | Inr c \<Rightarrow> ret c)) t = (Inr c, v)"
    unfolding classify_with_def andthen_Inr_iff by blast
  then show ?thesis
    by (cases a rule: option.exhaust [case_product sum.exhaust]) (auto simp: ret_Inr split: sum.splits option.splits)
qed

text \<open>No run goes on with a classification that was not checked: what \<open>classify_context\<close> returns, from Jev
  or from the fallback, is the validated reading of some raw output for a request that holds the
  user's message and exactly the configured tools.\<close>

theorem classification_always_validated:
  assumes "classify_context rt r task message w = (Inr c, v)"
  shows "\<exists>request raw. validate_classification (ru_codec rt) request raw = Inr c \<and>
    jr_message request = message \<and> map jt_name (jr_tools request) = map it_name (ru_tools rt)"
proof -
  from assms obtain request u where req: "commit rt (request_classification rt r task message) w = (Inr request, u)"
    and rest: "(case classify_with rt (ru_jev rt) request u of
          (Inr c, w1) \<Rightarrow> andthen (apply_stage rt r c) (\<lambda>_. ret c) w1
        | (Inl (Failure f), w1) \<Rightarrow>
            (case ru_fallback rt of
               None \<Rightarrow> (Inl (Failure f), w1)
             | Some fallback \<Rightarrow>
                 andthen (commit rt (record_fallback r f fallback)) (\<lambda>_.
                 andthen (classify_with rt fallback request) (\<lambda>c.
                 andthen (apply_stage rt r c) (\<lambda>_. ret c))) w1)
        | (Inl e, w1) \<Rightarrow> (Inl e, w1)) = (Inr c, v)"
    unfolding classify_context_def andthen_Inr_iff by blast
  from req obtain s where "transaction (request_classification rt r task message) (w_store w) = (Inr request, s)"
    by (auto simp: commit_Inr)
  from transaction_Inr [OF this] obtain a b where "request_classification rt r task message a = (Inr request, b)"
    by blast
  then have "request = (classification_request (conn a) r task message)\<lparr>jr_tools := map tool_candidate (ru_tools rt)\<rparr>"
    by (auto simp: request_classification_def query_def Let_def andthen_Inr_iff ret_Inr)
  then have R: "jr_message request = message \<and> map jt_name (jr_tools request) = map it_name (ru_tools rt)"
    by (simp add: classification_request_def Let_def tool_candidate_def comp_def)
  obtain x t where first: "classify_with rt (ru_jev rt) request u = (x, t)" by force
  have "\<exists>jev t t'. classify_with rt jev request t = (Inr c, t')"
  proof (cases x)
    case (Inr c')
    then have "c' = c" using rest first by (auto simp: andthen_Inr_iff ret_Inr)
    then show ?thesis using first Inr by blast
  next
    case (Inl e)
    then show ?thesis
      using rest unfolding first by (cases e) (auto simp: andthen_Inr_iff ret_Inr split: option.splits)
  qed
  then show ?thesis using classify_with_Inr R by blast
qed

definition plain_codec :: codec where
  "plain_codec = demo_codec\<lparr>read_classification := (\<lambda>j. Inr \<lparr>cc_nodes = [], cc_tools = []\<rparr>)\<rparr>"

lemma classification_always_validated_witness:
  "case classify_context (demo_runtime\<lparr>ru_codec := plain_codec\<rparr>) chat_run (Ident ''node_9'') ''more'' demo_world of
     (Inl e, v) \<Rightarrow> False
   | (Inr c, v) \<Rightarrow> \<exists>request raw. validate_classification plain_codec request raw = Inr c \<and> jr_message request = ''more''"
proof -
  let ?rt = "demo_runtime\<lparr>ru_codec := plain_codec\<rparr>"
  have "\<not> isl (fst (classify_context ?rt chat_run (Ident ''node_9'') ''more'' demo_world))" by code_simp
  then obtain c v where run: "classify_context ?rt chat_run (Ident ''node_9'') ''more'' demo_world = (Inr c, v)"
    by (metis isl_def old.sum.exhaust prod.collapse)
  from classification_always_validated [OF run] have
    "\<exists>request raw. validate_classification plain_codec request raw = Inr c \<and> jr_message request = ''more''"
    by auto
  then show ?thesis unfolding run by simp
qed

end
