(* ===== verification/Ir_Faithful.thy ===== *)
theory Ir_Faithful
  imports Ir_Compile
begin

text \<open>
  What compiled IR says, against descriptions that do not follow the code: the earlier turns of a conversation
  as the latest ones of a sorted list (the code walks back run by run), a tool result from the last event
  about its call (the code updates results event by event), and the past of a project as the recent turns
  together with the recall candidates.
\<close>

section \<open>Earlier runs of a conversation\<close>

text \<open>Oldest first.\<close>

definition earlier_turns :: "db \<Rightarrow> run \<Rightarrow> run list" where
  "earlier_turns d r = sort_key run_order
     (filter (\<lambda>q. rn_conversation q = rn_conversation r \<and> run_order q < run_order r) (t_runs d))"

definition latest :: "nat \<Rightarrow> 'a list \<Rightarrow> 'a list" where
  "latest n xs = drop (length xs - n) xs"

lemma rev_take_rev: "rev (take n (rev xs)) = latest n xs"
  by (simp add: latest_def take_rev)

lemma set_latest: "set (latest n xs) \<subseteq> set xs"
  by (simp add: latest_def set_drop_subset)

lemma set_earlier_turns: "set (earlier_turns d r) = earlier_runs d r"
  by (auto simp: earlier_turns_def earlier_runs_def)

lemma run_order_inj: "distinct (map rn_id rs) \<Longrightarrow> distinct (map run_order rs)"
  by (induction rs) (auto simp: run_order_def)

lemma distinct_earlier_turns:
  assumes "distinct (map rn_id (t_runs d))"
  shows "distinct (map rn_id (earlier_turns d r))"
proof -
  have "distinct (map rn_id (filter P (t_runs d)))" for P
    using assms by (rule distinct_map_filterI)
  then show ?thesis by (simp add: earlier_turns_def distinct_map)
qed

text \<open>What came before the last of the earlier turns is the rest of them.\<close>

lemma filter_below_last:
  fixes f :: "'a \<Rightarrow> 'b::linorder"
  assumes "sorted (map f (ys @ [q]))" and "distinct (map f (ys @ [q]))"
  shows "filter (\<lambda>x. f x < f q) (ys @ [q]) = ys"
proof -
  have "\<forall>y \<in> set ys. f y < f q" using assms by (simp add: sorted_append order_less_le image_iff) metis
  then show ?thesis by simp
qed

lemma earlier_turns_step:
  assumes "distinct (map rn_id (t_runs d))" and "earlier_turns d r = ys @ [q]"
  shows "earlier_turns d q = ys"
proof -
  have "q \<in> set (earlier_turns d r)" by (simp add: assms(2))
  then have q: "q \<in> earlier_runs d r" by (simp add: set_earlier_turns)
  have "earlier_turns d q = filter (\<lambda>x. run_order x < run_order q) (earlier_turns d r)"
    unfolding earlier_turns_def filter_sort filter_filter
    using q by (intro arg_cong [where f = "sort_key run_order"] filter_cong) (auto simp: earlier_runs_def)
  moreover have "sorted (map run_order (earlier_turns d r))" by (simp add: earlier_turns_def)
  moreover have "distinct (map run_order (earlier_turns d r))"
    using distinct_earlier_turns [OF assms(1)] by (rule run_order_inj)
  ultimately show ?thesis using filter_below_last [of run_order ys q] assms(2) by simp
qed

lemma last_run_before_earlier:
  "last_run_before d r = (if earlier_turns d r = [] then None else Some (last (earlier_turns d r)))"
  by (simp add: last_run_before_last earlier_turns_def Let_def)

text \<open>Walking back finds the latest earlier turns, latest first.\<close>

lemma walk_back_latest:
  assumes "runs_ok d" and "r \<in> set (t_runs d)"
  shows "walk_back d n (rn_id r) = Inr (take n (rev (earlier_turns d r)))"
  using assms(2)
proof (induction n arbitrary: r)
  case (Suc n)
  have row: "run_row d (rn_id r) = Some r" by (rule run_row_member [OF assms(1) Suc.prems])
  show ?case
  proof (cases "earlier_turns d r" rule: rev_cases)
    case Nil
    then show ?thesis by (simp add: previous_of_def row last_run_before_earlier)
  next
    case (snoc ys q)
    have "q \<in> set (earlier_turns d r)" by (simp add: snoc)
    then have "q \<in> set (t_runs d)" by (simp add: set_earlier_turns earlier_runs_def)
    note earlier = Suc.IH [OF this]
    have "distinct (map rn_id (t_runs d))" using assms(1) by (simp add: runs_ok_def)
    from earlier_turns_step [OF this snoc] have "earlier_turns d q = ys" .
    moreover have "last_run_before d r = Some q" by (simp add: last_run_before_earlier snoc)
    ultimately show ?thesis
      unfolding walk_back.simps previous_of_def row by (simp add: earlier snoc)
  qed
qed simp

lemma recent_run_outcomes_latest:
  assumes "runs_ok d" and "run_row d i = Some r"
  shows "recent_run_outcomes d i window =
    Inr (List.map_filter (run_outcome d) (latest window (earlier_turns d r)))"
  using walk_back_latest [OF assms(1), of r window] run_row_id [OF assms(2)]
  by (simp add: recent_run_outcomes_def rev_take_rev)

section \<open>What one recent turn tells\<close>

definition first_of :: "('a \<Rightarrow> 'b option) \<Rightarrow> 'a list \<Rightarrow> 'b option" where
  "first_of f xs = (case List.map_filter f xs of [] \<Rightarrow> None | y # _ \<Rightarrow> Some y)"

definition last_of :: "('a \<Rightarrow> 'b option) \<Rightarrow> 'a list \<Rightarrow> 'b option" where
  "last_of f xs = (if List.map_filter f xs = [] then None else Some (last (List.map_filter f xs)))"

lemma find_map_first: "find_map f xs = first_of f xs"
  by (induction xs) (auto simp: first_of_def map_filter_simps split: option.splits)

lemma first_of_rev: "first_of f (rev xs) = last_of f xs"
proof -
  have "List.map_filter f (rev xs) = rev (List.map_filter f xs)"
    by (simp add: List.map_filter_def rev_map rev_filter)
  then show ?thesis
    by (cases "List.map_filter f xs" rule: rev_cases) (simp_all add: first_of_def last_of_def)
qed

text \<open>A finished run tells how it ended: what the user asked, and the final prose or the failure.\<close>

definition tells :: "db \<Rightarrow> run \<Rightarrow> ir_event \<Rightarrow> bool" where
  "tells d q e \<longleftrightarrow> ie_run e = rn_id q \<and>
     ie_request e = first_of message_text (map ev_data (events_of d (rn_id q))) \<and>
     (if rn_status q = Completed
      then ie_type e = Ir_Run_Completed \<and> ie_error e = None \<and> ie_message e = None \<and>
        ie_prose e = last_of response_prose (map ev_data (events_of d (rn_id q)))
      else ie_type e = Ir_Run_Failed \<and> ie_error e = rn_error q \<and> ie_prose e = None \<and>
        ie_message e = last_of failure_message (map ev_data (events_of d (rn_id q))))"

lemma run_outcome_tells:
  assumes "run_checks q"
  shows "case run_outcome d q of None \<Rightarrow> rn_status q = Running | Some e \<Rightarrow> rn_status q \<noteq> Running \<and> tells d q e"
  using assms
  by (cases "rn_status q")
     (auto simp: run_outcome_def Let_def tells_def run_checks_def find_map_first first_of_rev)

lemma outcomes_tell:
  assumes "\<forall>q \<in> set qs. run_checks q"
  shows "list_all2 (tells d) (filter (\<lambda>q. rn_status q \<noteq> Running) qs) (List.map_filter (run_outcome d) qs)"
  using assms
proof (induction qs)
  case (Cons q qs)
  then show ?case
    using run_outcome_tells [of q d] by (cases "run_outcome d q") (auto simp: map_filter_simps)
qed (simp add: map_filter_simps)

lemma tells_runs: "list_all2 (tells d) qs es \<Longrightarrow> map ie_run es = map rn_id qs"
  by (induction rule: list_all2_induct) (simp_all add: tells_def)

section \<open>Tool results\<close>

text \<open>The events about a call, the decision of the gate and the end of its execution, latest first.\<close>

fun concerns :: "string \<Rightarrow> event_data \<Rightarrow> bool" where
  "concerns call (Tool_Decided c _ _ _) \<longleftrightarrow> c = call"
| "concerns call (Tool_Finished c _ _) \<longleftrightarrow> c = call"
| "concerns call _ \<longleftrightarrow> False"

definition news_of :: "string \<Rightarrow> event_data list \<Rightarrow> event_data list" where
  "news_of call es = rev (filter (concerns call) es)"

text \<open>A call is completed or failed as its execution ended, failed if it was allowed and never ended, and
  denied otherwise.\<close>

fun told_outcome :: "codec \<Rightarrow> string list \<Rightarrow> event_data list \<Rightarrow> ir_tool_status \<times> json option" where
  "told_outcome cx omitted (Tool_Finished call result is_error # _) =
     (if is_error then Tool_Failed else Tool_Completed,
      Some (if call \<in> set omitted then omitted_output cx result else result))"
| "told_outcome cx omitted (Tool_Decided call True _ _ # _) =
     (Tool_Failed, Some (JObj [(''error'', JStr ''the call did not finish'')]))"
| "told_outcome cx omitted (_ # news) = told_outcome cx omitted news"
| "told_outcome cx omitted [] = (Tool_Denied, None)"

text \<open>Only a call whose last news is a denial, or of which there is none, has a reason.\<close>

fun told_reason :: "event_data list \<Rightarrow> string option" where
  "told_reason [] = Some ''no decision was recorded''"
| "told_reason (Tool_Decided _ False _ reason # _) = reason"
| "told_reason _ = None"

definition told_result :: "codec \<Rightarrow> string list \<Rightarrow> string \<Rightarrow> string \<Rightarrow> payload \<Rightarrow> event_data list \<Rightarrow> ir_tool_result" where
  "told_result cx omitted call name arguments news =
     (let (status, out) = told_outcome cx omitted news
      in \<lparr>ir_call = call, ir_name = name, ir_arguments = arguments, ir_status = status, ir_output = out,
          ir_reason = told_reason news\<rparr>)"

text \<open>One result per request, in order, told by what came after the request. The events of a call ID belong to
  its first request.\<close>

fun told_results :: "codec \<Rightarrow> string list \<Rightarrow> string list \<Rightarrow> event_data list \<Rightarrow> ir_tool_result list" where
  "told_results cx omitted seen [] = []"
| "told_results cx omitted seen (Tool_Requested call name arguments # es) =
     told_result cx omitted call name arguments (if call \<in> set seen then [] else news_of call es) #
       told_results cx omitted (seen @ [call]) es"
| "told_results cx omitted seen (_ # es) = told_results cx omitted seen es"

text \<open>What the later events make of the results that there are.\<close>

fun settled :: "codec \<Rightarrow> string list \<Rightarrow> string list \<Rightarrow> ir_tool_result list \<Rightarrow> event_data list \<Rightarrow> ir_tool_result list" where
  "settled cx omitted seen [] es = []"
| "settled cx omitted seen (r # rs) es =
     (if ir_call r \<in> set seen then r
      else hd (foldl (tool_event cx omitted) [r] (filter (concerns (ir_call r)) es))) #
       settled cx omitted (seen @ [ir_call r]) rs es"

lemma settled_append:
  "settled cx om seen (rs @ rs') es = settled cx om seen rs es @ settled cx om (seen @ map ir_call rs) rs' es"
  by (induction rs arbitrary: seen) simp_all

lemma settled_none: "settled cx om seen rs [] = rs"
  by (induction rs arbitrary: seen) simp_all

lemma settled_skip: "(\<And>c. \<not> concerns c e) \<Longrightarrow> settled cx om seen rs (e # es) = settled cx om seen rs es"
  by (induction rs arbitrary: seen) simp_all

lemma settled_seen:
  "concerns call e \<Longrightarrow> call \<in> set seen \<Longrightarrow> settled cx om seen rs (e # es) = settled cx om seen rs es"
proof (induction rs arbitrary: seen)
  case (Cons r rs)
  then show ?case by (cases e) auto
qed simp

lemma settled_update:
  assumes "\<And>xs. tool_event cx om xs e = update_result c f xs" and "\<And>r. ir_call (f r) = ir_call r"
    and "\<And>x. concerns x e \<longleftrightarrow> x = c" and "c \<notin> set seen"
  shows "settled cx om seen (tool_event cx om rs e) es = settled cx om seen rs (e # es)"
  using assms(4)
proof (induction rs arbitrary: seen)
  case (Cons r rs)
  show ?case
  proof (cases "ir_call r = c")
    case True
    then show ?thesis
      using Cons.prems assms(2) settled_seen [of c e "seen @ [c]"] by (simp add: assms(1,3))
  next
    case False
    then show ?thesis using Cons.IH [of "seen @ [ir_call r]"] Cons.prems by (simp add: assms(1,3))
  qed
qed (simp add: assms(1))

lemma update_result_calls:
  "(\<And>r. ir_call (f r) = ir_call r) \<Longrightarrow> map ir_call (update_result c f rs) = map ir_call rs"
  by (induction rs) simp_all

text \<open>One result, followed through its events.\<close>

lemma follow_result:
  assumes "list_all (concerns call) es"
  shows "foldl (tool_event cx om) [told_result cx om call name arguments []] es =
    [told_result cx om call name arguments (rev es)]"
  using assms
proof (induction es rule: rev_induct)
  case (snoc e es)
  then show ?case
    by (cases e) (auto simp: told_result_def Let_def case_prod_unfold split: bool.splits)
qed simp

text \<open>The code's updates, event by event, say the same.\<close>

lemma tool_results_told:
  "foldl (tool_event cx om) rs es = settled cx om [] rs es @ told_results cx om (map ir_call rs) es"
proof (induction es arbitrary: rs)
  case (Cons e es)
  show ?case
  proof (cases e)
    case (Tool_Requested call name arguments)
    have new: "tool_event cx om rs e = rs @ [told_result cx om call name arguments []]"
      by (simp add: Tool_Requested told_result_def)
    have call: "ir_call (told_result cx om call name arguments []) = call" by (simp add: told_result_def)
    have "hd (foldl (tool_event cx om) [told_result cx om call name arguments []] (filter (concerns call) es)) =
        told_result cx om call name arguments (news_of call es)"
      by (subst follow_result) (simp_all add: list_all_iff news_of_def)
    then show ?thesis
      using Cons.IH [of "tool_event cx om rs e"] settled_skip [of e cx om "[]" rs es]
      by (simp add: new settled_append call) (simp add: Tool_Requested call)
  next
    case (Tool_Decided c allowed decider reason)
    then obtain f where f: "\<And>xs. tool_event cx om xs e = update_result c f xs" "\<And>r. ir_call (f r) = ir_call r"
      by (simp add: Let_def)
    have "\<And>x. concerns x e \<longleftrightarrow> x = c" using Tool_Decided by auto
    from settled_update [OF f this, where seen = "[]"] show ?thesis
      using Cons.IH [of "tool_event cx om rs e"] by (simp add: f Tool_Decided update_result_calls)
  next
    case (Tool_Finished c result is_error)
    then obtain f where f: "\<And>xs. tool_event cx om xs e = update_result c f xs" "\<And>r. ir_call (f r) = ir_call r"
      by simp
    have "\<And>x. concerns x e \<longleftrightarrow> x = c" using Tool_Finished by auto
    from settled_update [OF f this, where seen = "[]"] show ?thesis
      using Cons.IH [of "tool_event cx om rs e"] by (simp add: f Tool_Finished update_result_calls)
  qed (use Cons.IH [of rs] settled_skip [of e cx om "[]" rs es] in simp_all)
qed (simp add: settled_none)

section \<open>Conversations belong to one project\<close>

definition thread_pairs :: "db \<Rightarrow> (conversation_id \<times> project_id) set" where
  "thread_pairs d = (\<lambda>c. (cv_id c, cv_project c)) ` set (t_conversations d)"

definition threads_ok :: "db \<Rightarrow> bool" where
  "threads_ok d \<longleftrightarrow> (\<forall>r \<in> set (t_runs d). (rn_conversation r, rn_project r) \<in> thread_pairs d)"

lemma update_conversation_pairs:
  "same_thread f \<Longrightarrow> map (\<lambda>c. (cv_id c, cv_project c)) (t_conversations (update_conversation i f d)) =
     map (\<lambda>c. (cv_id c, cv_project c)) (t_conversations d)"
  by (simp add: update_conversation_def same_thread_def)

lemma thread_pairs_mono: "db_step d d' \<Longrightarrow> thread_pairs d \<subseteq> thread_pairs d'"
  by (cases rule: db_step.cases)
     (auto simp: thread_pairs_def same_images [OF update_conversation_pairs])

lemma threads_ok_step:
  assumes step: "db_step d d'" and ok: "threads_ok d"
  shows "threads_ok d'"
proof -
  have old: "\<forall>r \<in> set (t_runs d). (rn_conversation r, rn_project r) \<in> thread_pairs d'"
    using ok thread_pairs_mono [OF step] by (auto simp: threads_ok_def)
  show ?thesis
    using step
  proof cases
    case (Start_Run r c e)
    have "(rn_conversation r, rn_project r) \<in> thread_pairs d"
      using Start_Run(4,5) by (auto simp: thread_pairs_def dest!: conversation_row_id intro: rev_image_eqI)
    then show ?thesis using old thread_pairs_mono [OF step] Start_Run(1) by (auto simp: threads_ok_def)
  next
    case (Finish e st err t)
    have "\<forall>r \<in> set (t_runs d'). \<exists>q \<in> set (t_runs d). rn_conversation r = rn_conversation q \<and> rn_project r = rn_project q"
      unfolding Finish(1) by (auto simp: set_updates(3) finished_run_def)
    then show ?thesis using old unfolding threads_ok_def by metis
  qed (use old in \<open>simp_all add: threads_ok_def\<close>)
qed

interpretation threads: store_invariant "\<lambda>d. db_ok d \<and> threads_ok d"
  using schema.step_keeps threads_ok_step by unfold_locales blast

lemma session_threads:
  assumes "list_all (list_all ordinary) txs"
  shows "db_ok (conn (session txs (open_store clk gen l))) \<and> threads_ok (conn (session txs (open_store clk gen l)))"
proof -
  have "db_steps empty_db (conn (session txs (open_store clk gen l)))"
    using session_steps [OF assms, of "open_store clk gen l"] by (simp add: open_store_def)
  then show ?thesis
    by (rule threads.steps_keep) (use empty_db_ok in \<open>simp add: threads_ok_def empty_db_def\<close>)
qed

lemma same_conversation_same_project:
  assumes "db_ok d" and "threads_ok d" and "q \<in> set (t_runs d)" and "r \<in> set (t_runs d)"
    and "rn_conversation q = rn_conversation r"
  shows "rn_project q = rn_project r"
proof -
  have "(rn_conversation r, rn_project q) \<in> thread_pairs d" "(rn_conversation r, rn_project r) \<in> thread_pairs d"
    using assms(2-5) by (auto simp: threads_ok_def)
  then show ?thesis
    using assms(1) by (auto simp: thread_pairs_def db_ok_def conversations_ok_def distinct_map dest: inj_onD)
qed

section \<open>Relations\<close>

lemma edges_of_keys:
  assumes "edges_ok d"
  shows "distinct (map edge_key (edges_of d p))"
proof -
  have "distinct (map (edge_key \<circ> snd) (filter (\<lambda>row. fst row = p) (t_edges d)))"
    using assms by (intro distinct_map_filterI) (simp add: edges_ok_def)
  then have "distinct (map edge_key (map snd (filter (\<lambda>row. fst row = p) (t_edges d))))" by simp
  then show ?thesis by (simp add: edges_of_def distinct_map del: map_map)
qed

text \<open>No relation of an item is listed twice.\<close>

lemma relations_distinct:
  assumes "edges_ok d" and "\<And>e. P e \<Longrightarrow> ed_from e = x"
  shows "distinct (map (\<lambda>e. \<lparr>il_type = ed_type e, il_to = ed_to e\<rparr>) (filter P (edges_of d p)))"
proof -
  have "distinct (map edge_key (filter P (edges_of d p)))"
    by (rule distinct_map_filterI [OF edges_of_keys [OF assms(1)]])
  then show ?thesis using assms(2) by (auto simp: distinct_map inj_on_def edge_key_def)
qed

section \<open>Properties\<close>

text \<open>C34. Compiled IR is a faithful projection of the stored run, field by field. The prompt is the run's, the
  task the recorded user message; the context is the stored active context in order, item by item with
  the node's type and payload, and the relations of an item are exactly the project's edges that leave it
  and end at another item or the task, each listed once. The recent events are the finished ones among the
  latest \<open>window\<close> earlier runs of the conversation, oldest first, each with its first message and its final
  prose or its failure. There is one tool result per requested call, in order, told by the last decision
  or end recorded for the call; an omitted call shows the note. Tools, recalled turns and the review are
  those given, and the document satisfies its schema.\<close>

theorem compile_projects_state:
  assumes "db_ok d" and "compile_with cx d i task tools h = Inr ir"
  shows "\<exists>r t. run_row d i = Some r \<and> node_of d task = Some t \<and> ii_prompt ir = rn_prompt r \<and>
    ik_node (ii_task ir) = task \<and> nd_type t = Conversation_Node \<and>
    turn_from_payload (nd_payload t) = Some (user_turn (ik_message (ii_task ir))) \<and>
    map ic_node (ii_context ir) = map cm_node (context_of d i) \<and>
    (\<forall>it \<in> set (ii_context ir). distinct (ic_relations it) \<and>
       (\<exists>n. node_of d (ic_node it) = Some n \<and> ic_type it = nd_type n \<and> ic_payload it = nd_payload n \<and>
          set (ic_relations it) = {\<lparr>il_type = ed_type e, il_to = ed_to e\<rparr> | e.
             e \<in> set (edges_of d (rn_project r)) \<and> ed_from e = ic_node it \<and>
             ed_to e \<in> insert task (ic_node ` set (ii_context ir))})) \<and>
    list_all2 (tells d) (filter (\<lambda>q. rn_status q \<noteq> Running) (latest (hi_window h) (earlier_turns d r))) (ii_recent ir) \<and>
    ii_tools ir = tools \<and>
    ii_results ir = told_results cx (hi_omitted h) [] (map ev_data (events_of d i)) \<and>
    ii_recalled ir = hi_recalled h \<and> ii_review ir = hi_review h \<and>
    schema_errors cx Inference_Ir_Contract (value_of_ir cx ir) = []"
proof (rule compile_with_Inr [OF assms(2)])
  fix r t message items recent
  let ?ms = "context_of d i"
  assume r: "run_row d i = Some r" and t: "node_of d task = Some t" and m: "task_message t = Some message"
    and c: "context_items d (edges_of d (rn_project r)) (map cm_node ?ms @ [task]) ?ms = Inr items"
    and recent: "recent_run_outcomes d i (hi_window h) = Inr recent"
    and ir: "ir = \<lparr>ii_prompt = rn_prompt r, ii_task = \<lparr>ik_node = task, ik_message = message\<rparr>,
           ii_context = items, ii_recent = recent, ii_tools = tools,
           ii_results = tool_results cx d i (hi_omitted h), ii_recalled = hi_recalled h,
           ii_review = hi_review h\<rparr>"
    and valid: "schema_errors cx Inference_Ir_Contract (value_of_ir cx ir) = []"
  have ok: "runs_ok d" "edges_ok d" using assms(1) by (simp_all add: db_ok_def)
  note I = context_items_Inr [OF c]
  have nodes: "ic_node ` set items = cm_node ` set ?ms" using I by (metis set_map)
  have message: "nd_type t = Conversation_Node \<and> turn_from_payload (nd_payload t) = Some (user_turn message)"
    using m by (auto simp: task_message_def user_turn_def split: option.splits if_splits)
  have told: "list_all2 (tells d) (filter (\<lambda>q. rn_status q \<noteq> Running) (latest (hi_window h) (earlier_turns d r))) recent"
    using recent recent_run_outcomes_latest [OF ok(1) r] outcomes_tell [of "latest (hi_window h) (earlier_turns d r)" d]
      ok(1) set_latest [of "hi_window h" "earlier_turns d r"] by (auto simp: set_earlier_turns earlier_runs_def runs_ok_def)
  have items: "distinct (ic_relations it) \<and>
      (\<exists>n. node_of d (ic_node it) = Some n \<and> ic_type it = nd_type n \<and> ic_payload it = nd_payload n \<and>
      set (ic_relations it) = {\<lparr>il_type = ed_type e, il_to = ed_to e\<rparr> | e.
        e \<in> set (edges_of d (rn_project r)) \<and> ed_from e = ic_node it \<and>
        ed_to e \<in> insert task (ic_node ` set items)})" if it: "it \<in> set items" for it
  proof -
    let ?P = "\<lambda>e. ed_from e = ic_node it \<and> ed_to e \<in> set (map cm_node ?ms @ [task])"
    obtain n where n: "node_of d (ic_node it) = Some n" "ic_type it = nd_type n" "ic_payload it = nd_payload n"
      and rel: "ic_relations it = map (\<lambda>e. \<lparr>il_type = ed_type e, il_to = ed_to e\<rparr>)
         (filter ?P (edges_of d (rn_project r)))"
      using bspec [OF conjunct2 [OF I, unfolded list_all_iff] it] by blast
    have "distinct (ic_relations it)" unfolding rel by (rule relations_distinct [OF ok(2)]) simp
    moreover have "set (ic_relations it) = {\<lparr>il_type = ed_type e, il_to = ed_to e\<rparr> | e.
        e \<in> set (edges_of d (rn_project r)) \<and> ed_from e = ic_node it \<and>
        ed_to e \<in> insert task (ic_node ` set items)}"
      unfolding rel by (auto simp: nodes)
    ultimately show ?thesis using n by blast
  qed
  show ?thesis
    using r t message told valid I items tool_results_told [of cx "hi_omitted h" "[]"]
    by (auto simp: ir tool_results_def)
qed

lemma compile_projects_state_witness:
  "case compile demo_codec (conn chat_store) (Ident ''run_7'') (Ident ''node_9'') [] of
     Inl e \<Rightarrow> False
   | Inr ir \<Rightarrow> map ic_node (ii_context ir) = map cm_node (context_of (conn chat_store) (Ident ''run_7''))"
proof -
  have "\<not> isl (compile demo_codec (conn chat_store) (Ident ''run_7'') (Ident ''node_9'') [])"
    by code_simp
  then obtain ir where ir: "compile demo_codec (conn chat_store) (Ident ''run_7'') (Ident ''node_9'') [] = Inr ir"
    by (metis isl_def old.sum.exhaust)
  show ?thesis
    using compile_projects_state [OF chat_store_ok ir [unfolded compile_def]] by (auto simp: ir)
qed

section \<open>The past of a project\<close>

text \<open>The finished ones among some runs, as their IDs.\<close>

definition finished_ids :: "run list \<Rightarrow> run_id list" where
  "finished_ids rs = map rn_id (filter (\<lambda>q. rn_status q \<noteq> Running) rs)"

lemma finished_ids_set: "set (finished_ids rs) = rn_id ` {q \<in> set rs. rn_status q \<noteq> Running}"
  by (simp add: finished_ids_def)

lemma distinct_finished_ids: "distinct (map rn_id rs) \<Longrightarrow> distinct (finished_ids rs)"
  unfolding finished_ids_def by (rule distinct_map_filterI)

lemma recent_ids:
  assumes "runs_ok d" and "run_row d i = Some r"
  shows "\<exists>recent. recent_run_outcomes d i window = Inr recent \<and>
    map ie_run recent = finished_ids (latest window (earlier_turns d r))"
proof -
  have "\<forall>q \<in> set (latest window (earlier_turns d r)). run_checks q"
    using assms(1) set_latest [of window "earlier_turns d r"]
    by (auto simp: set_earlier_turns earlier_runs_def runs_ok_def)
  from tells_runs [OF outcomes_tell [OF this, of d]] show ?thesis
    using recent_run_outcomes_latest [OF assms] by (simp add: finished_ids_def)
qed

lemma candidate_ids:
  assumes "runs_ok d" and "run_row d i = Some r"
  shows "\<exists>cs. recall_candidates cx d i window = Inr cs \<and> map (rt_run \<circ> rq_turn) cs =
    finished_ids (filter (\<lambda>q. rn_id q \<notin> set (i # map rn_id (latest window (earlier_turns d r)))) (runs_of d (rn_project r)))"
proof -
  have r: "rn_id r = i" "r \<in> set (t_runs d)" using run_row_id [OF assms(2)] by blast+
  have walk: "walk_back d window i = Inr (rev (latest window (earlier_turns d r)))"
    using walk_back_latest [OF assms(1) r(2), of window] r(1) by (simp flip: rev_take_rev)
  show ?thesis
    by (simp add: recall_candidates_def assms(2) walk r(1) Let_def comp_def finished_ids_def)
qed

lemma latest_in_project:
  assumes "db_ok d" and "threads_ok d" and "r \<in> set (t_runs d)" and "q \<in> set (latest window (earlier_turns d r))"
  shows "q \<in> set (t_runs d) \<and> rn_project q = rn_project r \<and> rn_id q \<noteq> rn_id r"
proof -
  have q: "q \<in> set (t_runs d)" "rn_conversation q = rn_conversation r" "run_order q < run_order r"
    using assms(4) set_latest [of window "earlier_turns d r"] by (auto simp: set_earlier_turns earlier_runs_def)
  moreover have "q \<noteq> r" using q(3) by auto
  ultimately show ?thesis
    using same_conversation_same_project [OF assms(1,2) q(1) assms(3) q(2)] assms(1,3)
    by (auto simp: db_ok_def runs_ok_def distinct_map dest: inj_onD)
qed

lemma distinct_runs_of: "distinct (map rn_id (t_runs d)) \<Longrightarrow> distinct (map rn_id (runs_of d p))"
  using distinct_map_filterI [of rn_id "t_runs d" "\<lambda>r. rn_project r = p"] by (simp add: runs_of_def distinct_map)

text \<open>C35. Between them, the recent turns of the IR and the turns that Jev may recall are the project's past, in
  every state that clients of the store can reach: for every window both exist; the recent turns are the
  finished ones among the latest \<open>window\<close> earlier runs of the conversation, in order; and every finished
  run of the project other than the run itself is in exactly one of the two, once, with no running run and
  no run of another project in either.\<close>

theorem history_covered:
  assumes "list_all (list_all ordinary) txs" and "d = conn (session txs (open_store clk gen l))"
    and "run_row d i = Some r"
  shows "\<exists>cs recent. recall_candidates cx d i window = Inr cs \<and> recent_run_outcomes d i window = Inr recent \<and>
    map ie_run recent = finished_ids (latest window (earlier_turns d r)) \<and>
    distinct (map ie_run recent @ map (rt_run \<circ> rq_turn) cs) \<and>
    set (map ie_run recent @ map (rt_run \<circ> rq_turn) cs) =
      {rn_id q | q. q \<in> set (t_runs d) \<and> rn_project q = rn_project r \<and> rn_status q \<noteq> Running \<and> rn_id q \<noteq> i}"
proof -
  have ok: "db_ok d" "threads_ok d" "runs_ok d" using session_threads [OF assms(1)] assms(2) by (auto simp: db_ok_def)
  have r: "rn_id r = i" "r \<in> set (t_runs d)" using run_row_id [OF assms(3)] by blast+
  have ids: "distinct (map rn_id (t_runs d))" using ok(3) by (simp add: runs_ok_def)
  let ?near = "latest window (earlier_turns d r)"
  let ?rest = "filter (\<lambda>q. rn_id q \<notin> set (i # map rn_id ?near)) (runs_of d (rn_project r))"
  note near = latest_in_project [OF ok(1,2) r(2), of _ window]
  have "distinct (map rn_id ?near)"
    using distinct_earlier_turns [OF ids, of r] by (simp add: latest_def drop_map [symmetric] distinct_drop)
  then have "distinct (finished_ids ?near)" by (rule distinct_finished_ids)
  moreover have "distinct (finished_ids ?rest)"
    by (rule distinct_finished_ids [OF distinct_map_filterI [OF distinct_runs_of [OF ids]]])
  moreover have "set (finished_ids ?near) \<inter> set (finished_ids ?rest) = {}"
    by (auto simp: finished_ids_set) (metis imageI)
  moreover have "set (finished_ids ?near) \<union> set (finished_ids ?rest) =
      {rn_id q | q. q \<in> set (t_runs d) \<and> rn_project q = rn_project r \<and> rn_status q \<noteq> Running \<and> rn_id q \<noteq> i}"
    using near ids r(1) by (fastforce simp: finished_ids_set runs_of_def distinct_map dest: inj_onD)
  moreover obtain recent where "recent_run_outcomes d i window = Inr recent" "map ie_run recent = finished_ids ?near"
    using recent_ids [OF ok(3) assms(3)] by blast
  moreover obtain cs where "recall_candidates cx d i window = Inr cs" "map (rt_run \<circ> rq_turn) cs = finished_ids ?rest"
    using candidate_ids [OF ok(3) assms(3)] by blast
  ultimately show ?thesis by (intro exI [of _ cs] exI [of _ recent]) simp
qed

text \<open>A third run of the conversation: with a window of one it sees the second one and may recall the first.\<close>

definition third_session :: "tx_op list list" where
  "third_session = chat_session @
     [[Op_Complete_Run (Ident ''run_7'')],
      [Op_Create_Run (Ident ''proj_0'') demo_config]]"

definition third_store :: store where
  "third_store = session third_session (open_store (\<lambda>n. Timestamp (int n)) (\<lambda>h p. show_nat (length h)) True)"

lemma third_store_runs:
  "map (\<lambda>r. (rn_id r, rn_project r, rn_status r)) (t_runs (conn third_store)) =
     [(Ident ''run_2'', Ident ''proj_0'', Completed), (Ident ''run_7'', Ident ''proj_0'', Completed),
      (Ident ''run_11'', Ident ''proj_0'', Running)]"
  by code_simp

lemma only_other:
  assumes "insert a (set xs) = {b, a}" and "a \<notin> set xs" and "distinct xs" and "a \<noteq> b"
  shows "xs = [b]"
proof -
  have "set xs = {b, a} - {a}" using assms(1,2) by (metis Diff_insert_absorb)
  then have "set xs = {b}" using assms(4) by auto
  moreover from this have "length xs = 1" using distinct_card [OF assms(3)] by simp
  ultimately show ?thesis by (cases xs) simp_all
qed

lemma history_covered_witness:
  "\<exists>cs recent. recall_candidates demo_codec (conn third_store) (Ident ''run_11'') 1 = Inr cs \<and>
     recent_run_outcomes (conn third_store) (Ident ''run_11'') 1 = Inr recent \<and>
     map ie_run recent = [Ident ''run_7''] \<and> map (rt_run \<circ> rq_turn) cs = [Ident ''run_2'']"
proof -
  have S: "list_all (list_all ordinary) third_session" by (simp add: third_session_def chat_session_def)
  obtain r where r: "run_row (conn third_store) (Ident ''run_11'') = Some r"
    using third_store_runs by (cases "run_row (conn third_store) (Ident ''run_11'')") force+
  from history_covered [OF S arg_cong [where f = conn, OF third_store_def] r, of demo_codec 1]
  obtain cs recent where
    C: "recall_candidates demo_codec (conn third_store) (Ident ''run_11'') 1 = Inr cs"
      "recent_run_outcomes (conn third_store) (Ident ''run_11'') 1 = Inr recent"
      "map ie_run recent = finished_ids (latest 1 (earlier_turns (conn third_store) r))"
      "distinct (map ie_run recent @ map (rt_run \<circ> rq_turn) cs)"
      "set (map ie_run recent @ map (rt_run \<circ> rq_turn) cs) = {rn_id q | q. q \<in> set (t_runs (conn third_store)) \<and>
         rn_project q = rn_project r \<and> rn_status q \<noteq> Running \<and> rn_id q \<noteq> Ident ''run_11''}"
    by (elim exE conjE) (rule that)
  have "map_option (\<lambda>r. (rn_project r, finished_ids (latest 1 (earlier_turns (conn third_store) r))))
      (run_row (conn third_store) (Ident ''run_11'')) = Some (Ident ''proj_0'', [Ident ''run_7''])"
    by code_simp
  with r have R: "rn_project r = Ident ''proj_0''"
    "finished_ids (latest 1 (earlier_turns (conn third_store) r)) = [Ident ''run_7'']" by simp_all
  have "{rn_id q | q. q \<in> set (t_runs (conn third_store)) \<and> rn_project q = rn_project r \<and>
      rn_status q \<noteq> Running \<and> rn_id q \<noteq> Ident ''run_11''} =
    rn_id ` set (filter (\<lambda>q. rn_project q = rn_project r \<and> rn_status q \<noteq> Running \<and> rn_id q \<noteq> Ident ''run_11'')
      (t_runs (conn third_store)))"
    by auto
  also have "\<dots> = {Ident ''run_2'', Ident ''run_7''}"
    using third_store_runs by (auto simp: R map_eq_Cons_conv simp del: set_filter)
  finally have past: "{rn_id q | q. q \<in> set (t_runs (conn third_store)) \<and> rn_project q = rn_project r \<and>
      rn_status q \<noteq> Running \<and> rn_id q \<noteq> Ident ''run_11''} = {Ident ''run_2'', Ident ''run_7''}" .
  from C(5) [unfolded past] C(3,4) R have "insert (Ident ''run_7'') (set (map (rt_run \<circ> rq_turn) cs)) = {Ident ''run_2'', Ident ''run_7''}"
    "Ident ''run_7'' \<notin> set (map (rt_run \<circ> rq_turn) cs)" by simp_all
  with C(4) have "map (rt_run \<circ> rq_turn) cs = [Ident ''run_2'']"
    by (intro only_other [where a = "Ident ''run_7''"]) auto
  moreover have "map ie_run recent = [Ident ''run_7'']" using C(3) R(2) by (rule trans)
  ultimately show ?thesis using C(1,2) by simp
qed

end
