(* ===== verification/Mcp_Client.thy ===== *)
theory Mcp_Client
  imports Fake_Jev
begin

text \<open>
  \<open>dagos-mcp/src/client.rs\<close>: a session with an MCP server over its standard input and output. The
  process is the environment: the reads still to come (lines, a failing read, a read that does not
  end) and what happens to each write are part of the session's state, and nothing is assumed about
  them. An operation whose read or write does not end is \<open>Pending\<close>; \<open>timely\<close> (\<open>within\<close> in the code) turns that into the
  time-out, and \<open>call_tool\<close>, which has no deadline of its own, leaves it to its caller.
\<close>

section \<open>Sessions\<close>

record mcp_tool =
  mt_name :: string
  mt_description :: string
  mt_schema :: payload

datatype mcp_error =
    Spawn_Failed string string
  | Timed_Out string
  | Closed
  | Server_Error string
  | Protocol_Error string

fun mcp_error_str :: "mcp_error \<Rightarrow> string" where
  "mcp_error_str (Spawn_Failed command reason) = ''cannot start `'' @ command @ ''`: '' @ reason"
| "mcp_error_str (Timed_Out d) = ''no answer within '' @ d"
| "mcp_error_str Closed = ''the server closed its output before answering''"
| "mcp_error_str (Server_Error s) = ''the server reported an error: '' @ s"
| "mcp_error_str (Protocol_Error s) = ''protocol violation: '' @ s"

datatype mcp_read = Line string | Read_Failed string | Silence

datatype mcp_write = Written | Broken | Blocked

text \<open>\<open>se_input\<close> ends where the server closes its output; \<open>se_pipe n\<close> is the fate of the write number \<open>n\<close>.\<close>

record mcp_session =
  se_input :: "mcp_read list"
  se_pipe :: "nat \<Rightarrow> mcp_write"
  se_sent :: "json list"
  se_next_id :: nat

datatype stall = Pending | Failed mcp_error

type_synonym 'a mcp = "(mcp_session, stall, 'a) eff"

definition protocol_version :: string where
  "protocol_version = ''2025-06-18''"

definition max_pages :: nat where
  "max_pages = 50"

definition max_text_chars :: nat where
  "max_text_chars = 20000"

text \<open>\<open>value[key]\<close>, \<open>as_bool\<close>.\<close>

definition json_index :: "string \<Rightarrow> json \<Rightarrow> json" where
  "json_index k j = (case json_get k j of Some v \<Rightarrow> v | None \<Rightarrow> JNull)"

fun json_as_bool :: "json \<Rightarrow> bool option" where
  "json_as_bool (JBool b) = Some b"
| "json_as_bool _ = None"

section \<open>Messages\<close>

definition rpc_request :: "nat \<Rightarrow> string \<Rightarrow> json \<Rightarrow> json" where
  "rpc_request i rpc_method params =
     JObj [(''id'', JInt (int i)), (''jsonrpc'', JStr ''2.0''), (''method'', JStr rpc_method), (''params'', params)]"

definition rpc_declined :: "json \<Rightarrow> json" where
  "rpc_declined request_id =
     JObj [(''error'', JObj [(''code'', JInt (- 32601)), (''message'', JStr ''DAGOS does not offer this capability'')]),
           (''id'', request_id), (''jsonrpc'', JStr ''2.0'')]"

definition rpc_initialized :: json where
  "rpc_initialized = JObj [(''jsonrpc'', JStr ''2.0''), (''method'', JStr ''notifications/initialized'')]"

definition rpc_initialize :: "string \<Rightarrow> json" where
  "rpc_initialize version =
     JObj [(''capabilities'', JObj []),
           (''clientInfo'', JObj [(''name'', JStr ''dagos''), (''version'', JStr version)]),
           (''protocolVersion'', JStr protocol_version)]"

definition send :: "json \<Rightarrow> unit mcp" where
  "send message s =
     (case se_pipe s (length (se_sent s)) of
        Written \<Rightarrow> (Inr (), s\<lparr>se_sent := se_sent s @ [message]\<rparr>)
      | Broken \<Rightarrow> (Inl (Failed Closed), s)
      | Blocked \<Rightarrow> (Inl Pending, s))"

text \<open>What one line means to a client that waits for the response \<open>i\<close>.\<close>

datatype reading = Skip | Decline json | Answered "mcp_error + json"

definition read_message :: "codec \<Rightarrow> nat \<Rightarrow> json \<Rightarrow> reading" where
  "read_message cx i message =
     (case (json_get ''id'' message, json_get ''method'' message) of
        (Some request_id, Some _) \<Rightarrow> Decline request_id
      | (id', _) \<Rightarrow>
          if id' \<noteq> Some (JInt (int i)) then Skip
          else case json_get ''error'' message of
            Some e \<Rightarrow>
              Answered (Inl (Server_Error
                (case json_as_str (json_index ''message'' e) of Some s \<Rightarrow> s | None \<Rightarrow> json_text cx e)))
          | None \<Rightarrow>
              (case json_get ''result'' message of
                 Some v \<Rightarrow> Answered (Inr v)
               | None \<Rightarrow> Answered (Inl (Protocol_Error (''response '' @ show_nat i @ '' has no result'')))))"

definition read_line :: "codec \<Rightarrow> nat \<Rightarrow> string \<Rightarrow> reading" where
  "read_line cx i line =
     (if trim line = [] then Skip
      else case json_read cx line of
        Inl _ \<Rightarrow> Answered (Inl (Protocol_Error (''not a JSON-RPC message: '' @ take_chars 80 line)))
      | Inr message \<Rightarrow> read_message cx i message)"

text \<open>\<open>Session::receive\<close>, over the reads still to come.\<close>

fun receive_from :: "codec \<Rightarrow> nat \<Rightarrow> mcp_read list \<Rightarrow> json mcp" where
  "receive_from cx i [] s = (Inl (Failed Closed), s\<lparr>se_input := []\<rparr>)"
| "receive_from cx i (Read_Failed e # reads) s = (Inl (Failed (Protocol_Error e)), s\<lparr>se_input := reads\<rparr>)"
| "receive_from cx i (Silence # reads) s = (Inl Pending, s\<lparr>se_input := reads\<rparr>)"
| "receive_from cx i (Line line # reads) s =
     (case read_line cx i line of
        Skip \<Rightarrow> receive_from cx i reads s
      | Decline request_id \<Rightarrow>
          (case send (rpc_declined request_id) s of
             (Inl e, t) \<Rightarrow> (Inl e, t\<lparr>se_input := reads\<rparr>)
           | (Inr _, t) \<Rightarrow> receive_from cx i reads t)
      | Answered (Inl e) \<Rightarrow> (Inl (Failed e), s\<lparr>se_input := reads\<rparr>)
      | Answered (Inr v) \<Rightarrow> (Inr v, s\<lparr>se_input := reads\<rparr>))"

definition receive :: "codec \<Rightarrow> nat \<Rightarrow> json mcp" where
  "receive cx i s = receive_from cx i (se_input s) s"

text \<open>\<open>Session::request\<close>.\<close>

definition rpc :: "codec \<Rightarrow> string \<Rightarrow> json \<Rightarrow> json mcp" where
  "rpc cx rpc_method params =
     andthen (look se_next_id) (\<lambda>i.
     andthen (update (\<lambda>s. s\<lparr>se_next_id := Suc i\<rparr>)) (\<lambda>_.
     andthen (send (rpc_request i rpc_method params)) (\<lambda>_.
       receive cx i)))"

text \<open>A deadline, with the text \<open>d\<close> of its duration: what is still pending then has timed out.\<close>

definition timely :: "string \<Rightarrow> 'a mcp \<Rightarrow> 'a mcp" where
  "timely d m = map_err (\<lambda>e. case e of Pending \<Rightarrow> Failed (Timed_Out d) | Failed x \<Rightarrow> Failed x) m"

text \<open>\<open>Session::start\<close>: a new session with a process that runs, and its initialization.\<close>

definition new_session :: "mcp_read list \<Rightarrow> (nat \<Rightarrow> mcp_write) \<Rightarrow> mcp_session" where
  "new_session reads pipe = \<lparr>se_input = reads, se_pipe = pipe, se_sent = [], se_next_id = 1\<rparr>"

definition initialize :: "codec \<Rightarrow> string \<Rightarrow> string \<Rightarrow> unit mcp" where
  "initialize cx version d =
     andthen (timely d (rpc cx ''initialize'' (rpc_initialize version))) (\<lambda>_.
       timely d (send rpc_initialized))"

section \<open>Listing and calling tools\<close>

definition parse_tool :: "codec \<Rightarrow> json \<Rightarrow> mcp_error + mcp_tool" where
  "parse_tool cx tool =
     (case json_as_str (json_index ''name'' tool) of
        Some (c # cs) \<Rightarrow>
          (case (case json_get ''inputSchema'' tool of
                   Some (JObj schema) \<Rightarrow> Inr schema
                 | None \<Rightarrow> Inr []
                 | Some other \<Rightarrow> Inl (Protocol_Error (''tool `'' @ (c # cs) @
                     ''` has a non-object inputSchema: '' @ json_text cx other))) of
             Inl e \<Rightarrow> Inl e
           | Inr schema \<Rightarrow>
               Inr \<lparr>mt_name = c # cs,
                    mt_description = (case json_as_str (json_index ''description'' tool) of
                        Some d \<Rightarrow> d | None \<Rightarrow> []),
                    mt_schema = schema\<rparr>)
      | _ \<Rightarrow> Inl (Protocol_Error (''tool without a name: '' @ json_text cx tool)))"

fun parse_tools :: "codec \<Rightarrow> json list \<Rightarrow> mcp_error + mcp_tool list" where
  "parse_tools cx [] = Inr []"
| "parse_tools cx (j # js) =
     (case parse_tool cx j of
        Inl e \<Rightarrow> Inl e
      | Inr t \<Rightarrow> (case parse_tools cx js of Inl e \<Rightarrow> Inl e | Inr ts \<Rightarrow> Inr (t # ts)))"

text \<open>One page: its tools and the cursor of the next one.\<close>

definition read_page :: "codec \<Rightarrow> json \<Rightarrow> mcp_error + mcp_tool list \<times> string option" where
  "read_page cx result =
     (case json_as_array (json_index ''tools'' result) of
        None \<Rightarrow> Inl (Protocol_Error ''tools/list result has no `tools` array'')
      | Some page \<Rightarrow>
          (case parse_tools cx page of
             Inl e \<Rightarrow> Inl e
           | Inr tools \<Rightarrow> Inr (tools, Option.bind (json_get ''nextCursor'' result) json_as_str)))"

definition page_params :: "string option \<Rightarrow> json" where
  "page_params cursor = JObj (case cursor of Some c \<Rightarrow> [(''cursor'', JStr c)] | None \<Rightarrow> [])"

text \<open>The loop of \<open>Session::list_tools\<close>; the first argument counts the pages still allowed.\<close>

fun list_pages :: "codec \<Rightarrow> nat \<Rightarrow> string option \<Rightarrow> mcp_tool list \<Rightarrow> mcp_tool list mcp" where
  "list_pages cx 0 cursor tools =
     throw (Failed (Protocol_Error (''tools/list did not finish within '' @ show_nat max_pages @ '' pages'')))"
| "list_pages cx (Suc n) cursor tools =
     andthen (rpc cx ''tools/list'' (page_params cursor)) (\<lambda>result.
       case read_page cx result of
         Inl e \<Rightarrow> throw (Failed e)
       | Inr (page, Some c) \<Rightarrow> list_pages cx n (Some c) (tools @ page)
       | Inr (page, None) \<Rightarrow> ret (tools @ page))"

definition list_tools :: "codec \<Rightarrow> string \<Rightarrow> mcp_tool list mcp" where
  "list_tools cx d = timely d (list_pages cx max_pages None [])"

text \<open>\<open>Session::call_tool\<close>; the runtime's own deadline ends a call that stays pending.\<close>

definition session_call :: "codec \<Rightarrow> string \<Rightarrow> payload \<Rightarrow> json mcp" where
  "session_call cx name arguments =
     rpc cx ''tools/call'' (JObj [(''arguments'', JObj arguments), (''name'', JStr name)])"

section \<open>Tool output\<close>

definition truncate_text :: "string \<Rightarrow> string" where
  "truncate_text t =
     (let count = length (chars_of t)
      in if count \<le> max_text_chars then t
         else take_chars max_text_chars t @ [CHR 0x0A] @ ellipsis @ '' ('' @
                show_nat (count - max_text_chars) @ '' more characters cut)'')"

definition content_part :: "json \<Rightarrow> json" where
  "content_part part =
     (let kind = (case json_as_str (json_index ''type'' part) of Some k \<Rightarrow> k | None \<Rightarrow> ''unknown'')
      in if kind = ''text'' then
           JObj [(''text'', JStr (truncate_text
                   (case json_as_str (json_index ''text'' part) of Some t \<Rightarrow> t | None \<Rightarrow> []))),
                 (''type'', JStr ''text'')]
         else if kind = ''image'' \<or> kind = ''audio'' then
           JObj [(''mimeType'', json_index ''mimeType'' part),
                 (''note'', JStr (kind @ '' data ('' @
                    show_nat (case json_as_str (json_index ''data'' part) of Some d \<Rightarrow> length d | None \<Rightarrow> 0) @
                    '' base64 characters) is not passed to models'')),
                 (''type'', JStr kind)]
         else if kind = ''resource'' then
           (let resource = json_index ''resource'' part;
                kept = [(''type'', JStr ''resource''), (''uri'', json_index ''uri'' resource)]
            in JObj (case json_as_str (json_index ''text'' resource) of
                 Some t \<Rightarrow> bt_insert ''text'' (JStr (truncate_text t)) kept
               | None \<Rightarrow> kept))
         else if kind = ''resource_link'' then
           JObj [(''name'', json_index ''name'' part), (''type'', JStr ''resource_link''),
                 (''uri'', json_index ''uri'' part)]
         else JObj [(''type'', JStr kind)])"

text \<open>The \<open>content\<close> array of \<open>tool_output\<close>, and the object it is put into.\<close>

definition output_content :: "json \<Rightarrow> json list" where
  "output_content result =
     (case Option.bind (json_get ''content'' result) json_as_array of
        Some parts \<Rightarrow> map content_part parts
      | None \<Rightarrow> [])"

definition mcp_tool_output :: "codec \<Rightarrow> json \<Rightarrow> json \<times> bool" where
  "mcp_tool_output cx result =
     (let is_error = (case Option.bind (json_get ''isError'' result) json_as_bool of
            Some b \<Rightarrow> b | None \<Rightarrow> False);
          parts = [(''content'', JArr (output_content result))]
      in (JObj (case json_get ''structuredContent'' result of
            Some structured \<Rightarrow>
              (let n = length (chars_of (json_text cx structured))
               in bt_insert ''structured''
                    (if n \<le> max_text_chars then structured
                     else JStr (''(structured content omitted: '' @ show_nat n @ '' characters)'')) parts)
          | None \<Rightarrow> parts), is_error))"

section \<open>What the client accepts and sends\<close>

lemma send_Inr: "send m s = (Inr x, t) \<longleftrightarrow>
    se_pipe s (length (se_sent s)) = Written \<and> t = s\<lparr>se_sent := se_sent s @ [m]\<rparr>"
  by (auto simp: send_def split: mcp_write.splits)

lemma send_frame: "send m s = (r, t) \<Longrightarrow> se_input t = se_input s \<and> se_next_id t = se_next_id s \<and>
    se_pipe t = se_pipe s \<and> (se_sent t = se_sent s \<or> se_sent t = se_sent s @ [m])"
  by (auto simp: send_def split: mcp_write.splits)

text \<open>The request ids in skipped reads that the client declined; \<open>passed_over\<close>: it went on after each.\<close>

fun passed_over :: "codec \<Rightarrow> nat \<Rightarrow> mcp_read list \<Rightarrow> bool" where
  "passed_over cx i [] = True"
| "passed_over cx i (Line l # rs) = ((case read_line cx i l of Answered _ \<Rightarrow> False | _ \<Rightarrow> True) \<and> passed_over cx i rs)"
| "passed_over cx i (_ # rs) = False"

fun declined_in :: "codec \<Rightarrow> nat \<Rightarrow> mcp_read list \<Rightarrow> json list" where
  "declined_in cx i (Line l # rs) =
     (case read_line cx i l of Decline r \<Rightarrow> [rpc_declined r] | _ \<Rightarrow> []) @ declined_in cx i rs"
| "declined_in cx i _ = []"

lemma receive_from_Inr:
  assumes "receive_from cx i reads s = (Inr v, t)"
  shows "\<exists>skipped l. reads = skipped @ Line l # se_input t \<and> passed_over cx i skipped \<and>
    read_line cx i l = Answered (Inr v) \<and> se_sent t = se_sent s @ declined_in cx i skipped \<and>
    se_next_id t = se_next_id s \<and> se_pipe t = se_pipe s"
  using assms
proof (induction cx i reads s rule: receive_from.induct)
  case (4 cx i line reads s)
  show ?case
  proof (cases "read_line cx i line")
    case Skip
    with "4.prems" have "receive_from cx i reads s = (Inr v, t)" by simp
    from "4.IH"(1) [OF Skip this] obtain skipped l
      where *: "reads = skipped @ Line l # se_input t" "passed_over cx i skipped"
        "read_line cx i l = Answered (Inr v)" "se_sent t = se_sent s @ declined_in cx i skipped"
        "se_next_id t = se_next_id s" "se_pipe t = se_pipe s"
      by auto
    show ?thesis
      by (rule exI [of _ "Line line # skipped"], rule exI [of _ l]) (simp add: * Skip)
  next
    case (Decline r)
    with "4.prems" obtain u where u: "send (rpc_declined r) s = (Inr (), u)"
        "receive_from cx i reads u = (Inr v, t)"
      by (auto split: prod.splits sum.splits)
    from "4.IH"(2) [OF Decline u(1) [symmetric] refl u(2)] obtain skipped l
      where *: "reads = skipped @ Line l # se_input t" "passed_over cx i skipped"
        "read_line cx i l = Answered (Inr v)" "se_sent t = se_sent u @ declined_in cx i skipped"
        "se_next_id t = se_next_id u" "se_pipe t = se_pipe u"
      by auto
    show ?thesis
      by (rule exI [of _ "Line line # skipped"], rule exI [of _ l])
        (use * u(1) in \<open>simp add: Decline send_Inr\<close>)
  next
    case (Answered a)
    with "4.prems" show ?thesis
      by (cases a) (auto intro: exI [of _ "[]"])
  qed
qed auto

lemma read_line_Answered_Inr:
  "read_line cx i l = Answered (Inr v) \<longleftrightarrow>
     trim l \<noteq> [] \<and> (\<exists>m. json_read cx l = Inr m \<and> json_get ''id'' m = Some (JInt (int i)) \<and>
       json_get ''method'' m = None \<and> json_get ''error'' m = None \<and> json_get ''result'' m = Some v)"
  by (auto simp: read_line_def read_message_def split: sum.splits option.splits if_splits)

lemma rpc_Inr:
  "rpc cx m p s = (Inr v, t) \<longleftrightarrow>
     se_pipe s (length (se_sent s)) = Written \<and>
     receive_from cx (se_next_id s) (se_input s)
       (s\<lparr>se_next_id := Suc (se_next_id s), se_sent := se_sent s @ [rpc_request (se_next_id s) m p]\<rparr>) = (Inr v, t)"
  by (auto simp: rpc_def receive_def andthen_Inr_iff send_Inr)

text \<open>A request's answer comes from the server's message with that request's own id: the client
  returns the \<open>result\<close> of the first message it reads that carries the id, neither is a request of the
  server nor reports an error; every line before it was passed over, and what the client wrote
  meanwhile is the request and a refusal for each request of the server, in order.\<close>

theorem rpc_answer:
  assumes "rpc cx rpc_method params s = (Inr v, t)"
  shows "\<exists>skipped l m. se_input s = skipped @ Line l # se_input t \<and>
    passed_over cx (se_next_id s) skipped \<and> json_read cx l = Inr m \<and>
    json_get ''id'' m = Some (JInt (int (se_next_id s))) \<and> json_get ''method'' m = None \<and>
    json_get ''error'' m = None \<and> json_get ''result'' m = Some v \<and>
    se_sent t = se_sent s @ rpc_request (se_next_id s) rpc_method params #
      declined_in cx (se_next_id s) skipped \<and>
    se_next_id t = Suc (se_next_id s)"
proof -
  from assms have "receive_from cx (se_next_id s) (se_input s)
      (s\<lparr>se_next_id := Suc (se_next_id s),
         se_sent := se_sent s @ [rpc_request (se_next_id s) rpc_method params]\<rparr>) = (Inr v, t)"
    by (simp add: rpc_Inr)
  from receive_from_Inr [OF this] show ?thesis
    by (auto simp: read_line_Answered_Inr)
qed

text \<open>A server that first asks for something itself and then answers.\<close>

definition echo_codec :: codec where
  "echo_codec = demo_codec\<lparr>json_read := (\<lambda>l.
     if l = ''ask'' then Inr (JObj [(''id'', JStr ''s1''), (''method'', JStr ''roots/list'')])
     else if l = ''answer'' then Inr (JObj [(''id'', JInt 1), (''result'', JStr ''fine'')])
     else Inl ''not JSON'')\<rparr>"

definition echo_session :: mcp_session where
  "echo_session = new_session [Line ''ask'', Line '' '', Line ''answer''] (\<lambda>n. Written)"

lemma rpc_answer_witness:
  "fst (rpc echo_codec ''tools/call'' JNull echo_session) = Inr (JStr ''fine'') \<and>
   (\<exists>skipped l. se_input echo_session = skipped @ [Line l] \<and> passed_over echo_codec 1 skipped \<and>
      json_read echo_codec l = Inr (JObj [(''id'', JInt 1), (''result'', JStr ''fine'')]))"
proof -
  have fst: "fst (rpc echo_codec ''tools/call'' JNull echo_session) = Inr (JStr ''fine'')"
    by code_simp
  have left: "se_input (snd (rpc echo_codec ''tools/call'' JNull echo_session)) = []"
    by code_simp
  obtain t where t: "rpc echo_codec ''tools/call'' JNull echo_session = (Inr (JStr ''fine''), t)"
    using fst by (metis prod.collapse)
  have next_id: "se_next_id echo_session = 1"
    by (simp add: echo_session_def new_session_def)
  from rpc_answer [OF t] obtain skipped l m
    where *: "se_input echo_session = skipped @ Line l # se_input t"
      "passed_over echo_codec 1 skipped" "json_read echo_codec l = Inr m"
      "json_get ''id'' m = Some (JInt 1)"
    unfolding next_id by auto
  have "m = JObj [(''id'', JInt 1), (''result'', JStr ''fine'')]"
    using *(3,4) by (auto simp: echo_codec_def split: if_splits)
  with * left t fst show ?thesis by auto
qed

section \<open>Discovery ends\<close>

text \<open>The number of pages asked for so far.\<close>

definition page_requests :: "mcp_session \<Rightarrow> nat" where
  "page_requests s =
     length (filter (\<lambda>j. json_get ''method'' j = Some (JStr ''tools/list'')) (se_sent s))"

lemma page_requests_declined:
  "page_requests (s\<lparr>se_sent := se_sent s @ [rpc_declined r]\<rparr>) = page_requests s"
  by (simp add: page_requests_def rpc_declined_def)

lemma page_requests_send: "page_requests (snd (send m s)) \<le> Suc (page_requests s)"
  by (simp add: page_requests_def send_def split: mcp_write.splits)

lemma page_requests_receive: "page_requests (snd (receive_from cx i reads s)) = page_requests s"
proof (induction cx i reads s rule: receive_from.induct)
  case (4 cx i line reads s)
  then show ?case
    by (auto simp: page_requests_declined [unfolded page_requests_def] page_requests_def send_def
        rpc_declined_def split: reading.splits sum.splits prod.splits mcp_write.splits if_splits)
qed (simp_all add: page_requests_def)

lemma page_requests_rpc: "page_requests (snd (rpc cx m p s)) \<le> Suc (page_requests s)"
proof (cases "se_pipe s (length (se_sent s))")
  case Written
  then have "snd (rpc cx m p s) = snd (receive_from cx (se_next_id s) (se_input s)
      (s\<lparr>se_next_id := Suc (se_next_id s), se_sent := se_sent s @ [rpc_request (se_next_id s) m p]\<rparr>))"
    by (simp add: rpc_def andthen_def receive_def send_def)
  then show ?thesis
    by (simp add: page_requests_receive) (simp add: page_requests_def)
qed (simp_all add: rpc_def andthen_def send_def page_requests_def)

lemma page_requests_pages: "page_requests (snd (list_pages cx n cursor tools s)) \<le> page_requests s + n"
proof (induction n arbitrary: cursor tools s)
  case (Suc n)
  obtain r t where rpc: "rpc cx ''tools/list'' (page_params cursor) s = (r, t)" by force
  with page_requests_rpc [of cx "''tools/list''" "page_params cursor" s]
  have le: "page_requests t \<le> Suc (page_requests s)" by simp
  have IH: "page_requests (snd (list_pages cx n c ts t)) \<le> page_requests t + n" for c ts
    by (rule Suc.IH)
  show ?case
    using le IH by (auto simp: andthen_def rpc intro: order_trans [OF IH] split: sum.splits option.splits)
qed simp

text \<open>What the loop returns: the tools of a chain of pages in which each but the last names the next.\<close>

fun chained_pages :: "codec \<Rightarrow> json list \<Rightarrow> mcp_tool list option" where
  "chained_pages cx [] = None"
| "chained_pages cx (r # rs) =
     (case read_page cx r of
        Inl _ \<Rightarrow> None
      | Inr (page, None) \<Rightarrow> (if rs = [] then Some page else None)
      | Inr (page, Some c) \<Rightarrow> map_option (\<lambda>ts. page @ ts) (chained_pages cx rs))"

lemma list_pages_Inr:
  "list_pages cx n cursor tools s = (Inr ts, t) \<Longrightarrow>
   \<exists>rs us. length rs \<le> n \<and> chained_pages cx rs = Some us \<and> ts = tools @ us"
proof (induction n arbitrary: cursor tools s)
  case (Suc n)
  then obtain result u where u: "rpc cx ''tools/list'' (page_params cursor) s = (Inr result, u)"
    and rest: "(case read_page cx result of
         Inl e \<Rightarrow> throw (Failed e)
       | Inr (page, Some c) \<Rightarrow> list_pages cx n (Some c) (tools @ page)
       | Inr (page, None) \<Rightarrow> ret (tools @ page)) u = (Inr ts, t)"
    by (auto simp: andthen_Inr_iff)
  from rest obtain page c where page: "read_page cx result = Inr (page, c)"
    by (auto split: sum.splits)
  show ?case
  proof (cases c)
    case None
    with rest page show ?thesis
      by (intro exI [of _ "[result]"]) simp
  next
    case (Some d)
    with rest page have "list_pages cx n (Some d) (tools @ page) u = (Inr ts, t)" by simp
    from Suc.IH [OF this] obtain rs us
      where "length rs \<le> n" "chained_pages cx rs = Some us" "ts = (tools @ page) @ us" by auto
    with page Some show ?thesis
      by (intro exI [of _ "result # rs"]) simp
  qed
qed simp

text \<open>Discovery of a server's tools asks for at most 50 pages, whatever the server answers, and what
  it returns is every tool of a complete chain of at most 50 pages, in order.\<close>

theorem list_tools_bounded:
  "page_requests (snd (list_tools cx d s)) \<le> page_requests s + 50 \<and>
   (case fst (list_tools cx d s) of
      Inl e \<Rightarrow> e \<noteq> Pending
    | Inr ts \<Rightarrow> \<exists>rs. length rs \<le> 50 \<and> chained_pages cx rs = Some ts)"
proof -
  obtain r t where r: "list_pages cx max_pages None [] s = (r, t)" by force
  with page_requests_pages [of cx max_pages None "[]" s]
  have "page_requests t \<le> page_requests s + 50" by (simp add: max_pages_def)
  moreover have "\<exists>rs. length rs \<le> 50 \<and> chained_pages cx rs = Some ts" if "r = Inr ts" for ts
    using list_pages_Inr [OF r [unfolded that]] by (auto simp: max_pages_def)
  ultimately show ?thesis
    by (auto simp: list_tools_def timely_def map_err_def r split: sum.splits stall.splits)
qed

section \<open>Recorded output is bounded\<close>

lemma truncate_text_keeps:
  "take max_text_chars (chars_of (truncate_text t)) = take max_text_chars (chars_of t)"
proof (cases "length (chars_of t) \<le> max_text_chars")
  case False
  have "chars_of (take_chars max_text_chars t @ CHR 0x0A # z) =
      chars_of (take_chars max_text_chars t) @ chars_of (CHR 0x0A # z)" for z
    by (rule chars_of_append) (simp add: continuation_def)
  with False show ?thesis
    by (simp add: truncate_text_def)
qed (simp add: truncate_text_def)

end
