(* ===== verification/Rust_Split.thy ===== *)
theory Rust_Split
  imports Identifiers
begin

text \<open>
  The standard library's functions that cut strings at a separator: \<open>split_once\<close>, \<open>split\<close> at an ASCII
  byte, \<open>replace\<close> of one byte, and the ASCII case functions. A separator below 128 is never part of
  another character's encoding, so they work on bytes.
\<close>

section \<open>Cutting at a byte\<close>

definition split_once :: "char \<Rightarrow> string \<Rightarrow> (string \<times> string) option" where
  "split_once c s =
     (case dropWhile (\<lambda>x. x \<noteq> c) s of
        [] \<Rightarrow> None
      | _ # r \<Rightarrow> Some (takeWhile (\<lambda>x. x \<noteq> c) s, r))"

lemma split_once_Some_iff: "split_once c s = Some (a, b) \<longleftrightarrow> s = a @ c # b \<and> c \<notin> set a"
proof
  assume "split_once c s = Some (a, b)"
  then obtain x where "dropWhile (\<lambda>x. x \<noteq> c) s = x # b" and a: "a = takeWhile (\<lambda>x. x \<noteq> c) s"
    by (auto simp: split_once_def split: list.splits)
  moreover have "x = c"
    using calculation(1) hd_dropWhile [of "\<lambda>x. x \<noteq> c" s] by simp
  moreover have "c \<notin> set a"
    unfolding a by (auto dest: set_takeWhileD)
  ultimately show "s = a @ c # b \<and> c \<notin> set a"
    by (metis takeWhile_dropWhile_id)
next
  assume s: "s = a @ c # b \<and> c \<notin> set a"
  then have "takeWhile (\<lambda>x. x \<noteq> c) s = a" "dropWhile (\<lambda>x. x \<noteq> c) s = c # b"
    by (auto simp: takeWhile_append dropWhile_append)
  then show "split_once c s = Some (a, b)"
    by (simp add: split_once_def)
qed

lemma split_once_append [simp]: "c \<notin> set a \<Longrightarrow> split_once c (a @ c # b) = Some (a, b)"
  by (simp add: split_once_Some_iff)

text \<open>\<open>split(c)\<close>: the pieces between the separators, at least one.\<close>

fun split_at_byte :: "char \<Rightarrow> string \<Rightarrow> string list" where
  "split_at_byte c [] = [[]]"
| "split_at_byte c (x # xs) =
     (if x = c then [] # split_at_byte c xs
      else case split_at_byte c xs of [] \<Rightarrow> [[x]] | p # ps \<Rightarrow> (x # p) # ps)"

lemma split_at_byte_nonempty [simp]: "split_at_byte c s \<noteq> []"
  by (induction s) (auto split: list.splits)

lemma join_split_at_byte: "join [c] (split_at_byte c s) = s"
proof (induction s)
  case (Cons x xs)
  then show ?case
    by (cases "split_at_byte c xs"; cases "tl (split_at_byte c xs)") (auto simp: neq_Nil_conv)
qed simp

lemma split_at_byte_free: "p \<in> set (split_at_byte c s) \<Longrightarrow> c \<notin> set p"
  by (induction s arbitrary: p) (auto split: if_splits list.splits)

definition replace_byte :: "char \<Rightarrow> char \<Rightarrow> string \<Rightarrow> string" where
  "replace_byte a b s = map (\<lambda>x. if x = a then b else x) s"

section \<open>ASCII\<close>

definition is_ascii_alphanumeric :: "char \<Rightarrow> bool" where
  "is_ascii_alphanumeric c \<longleftrightarrow> is_ascii_lowercase c \<or> is_ascii_uppercase c \<or> is_ascii_digit c"

definition ascii_lower :: "char \<Rightarrow> char" where
  "ascii_lower c = (if is_ascii_uppercase c then char_of (of_char c + (32::nat)) else c)"

definition to_ascii_lowercase :: "string \<Rightarrow> string" where
  "to_ascii_lowercase = map ascii_lower"

definition eq_ignore_ascii_case :: "string \<Rightarrow> string \<Rightarrow> bool" where
  "eq_ignore_ascii_case a b \<longleftrightarrow> to_ascii_lowercase a = to_ascii_lowercase b"

definition ends_with :: "string \<Rightarrow> string \<Rightarrow> bool" where
  "ends_with e s \<longleftrightarrow> length e \<le> length s \<and> drop (length s - length e) s = e"

lemma ends_with_iff: "ends_with e s \<longleftrightarrow> (\<exists>p. s = p @ e)"
  by (auto simp: ends_with_def) (metis append_take_drop_id)

text \<open>\<open>strip_suffix\<close>.\<close>

definition strip_suffix :: "string \<Rightarrow> string \<Rightarrow> string option" where
  "strip_suffix e s = (if ends_with e s then Some (take (length s - length e) s) else None)"

lemma strip_suffix_Some_iff: "strip_suffix e s = Some r \<longleftrightarrow> s = r @ e"
  by (auto simp: strip_suffix_def ends_with_def) (metis append_take_drop_id)

end
