(* ===== verification/Mcp_Pool.thy ===== *)
theory Mcp_Pool
  imports Mcp_Client Rust_Split Runtime_State
begin

text \<open>
  \<open>dagos-mcp/src/lib.rs\<close>: the MCP configuration with its tool policies, and the pool of live sessions
  that discovers the servers' tools and runs calls. Processes are the operating system's: \<open>host\<close> says
  what starting one gives and, for each question in turn, whether a process still runs. One caller
  at a time uses the pool; the second look at the session map after a start is kept, as the
  code has it for callers that start the same server at once.
\<close>

section \<open>Configuration\<close>

datatype policy = Policy_Off | Policy_Ask | Policy_Allow

record guard_settings =
  gs_enabled :: bool
  gs_threshold :: f64

record mcp_server =
  ms_id :: string
  ms_command :: string
  ms_args :: "string list"
  ms_cwd :: "string option"
  ms_enabled :: bool
  ms_policy :: policy
  ms_tools :: "(string, policy) btree"

record mcp_config =
  mg_servers :: "mcp_server list"
  mg_guard :: guard_settings

definition default_guard_settings :: guard_settings where
  "default_guard_settings = \<lparr>gs_enabled = True, gs_threshold = Fin (1 / 2)\<rparr>"

definition default_mcp_config :: mcp_config where
  "default_mcp_config = \<lparr>mg_servers = [], mg_guard = default_guard_settings\<rparr>"

definition new_mcp_server :: "string \<Rightarrow> string \<Rightarrow> string list \<Rightarrow> mcp_server" where
  "new_mcp_server i command args =
     \<lparr>ms_id = i, ms_command = command, ms_args = args, ms_cwd = None, ms_enabled = True,
      ms_policy = Policy_Ask, ms_tools = []\<rparr>"

definition server_policy_of :: "mcp_server \<Rightarrow> string \<Rightarrow> policy" where
  "server_policy_of s t = (case map_of (ms_tools s) t of Some p \<Rightarrow> p | None \<Rightarrow> ms_policy s)"

definition valid_server_id :: "string \<Rightarrow> bool" where
  "valid_server_id i \<longleftrightarrow>
     i \<noteq> [] \<and> \<not> eq_ignore_ascii_case i ''dagos'' \<and>
     list_all (\<lambda>b. is_ascii_alphanumeric b \<or> b = CHR ''-'' \<or> b = CHR ''_'') i"

fun validate_servers :: "string list \<Rightarrow> mcp_server list \<Rightarrow> string + unit" where
  "validate_servers seen [] = Inr ()"
| "validate_servers seen (s # ss) =
     (if \<not> valid_server_id (ms_id s)
      then Inl (''invalid MCP server id `'' @ ms_id s @ ''`: use letters, digits, - and _ (not `dagos`)'')
      else if ms_id s \<in> set seen
      then Inl (''MCP server id `'' @ ms_id s @ ''` is used twice'')
      else if trim (ms_command s) = []
      then Inl (''MCP server `'' @ ms_id s @ ''` has no command'')
      else validate_servers (ms_id s # seen) ss)"

definition validate_mcp_config :: "mcp_config \<Rightarrow> string + unit" where
  "validate_mcp_config c =
     (if \<not> f64_within 0 1 (gs_threshold (mg_guard c))
      then Inl (''the guard'' @ [CHR 0x27] @ ''s threshold must be between 0 and 1'')
      else validate_servers [] (mg_servers c))"

text \<open>\<open>McpConfig::load\<close> over what reading the file gives (\<open>None\<close> if it does not exist) and the derived
  deserializer; \<open>path\<close> is the path as displayed.\<close>

definition load_mcp_config ::
  "(string \<Rightarrow> string + mcp_config) \<Rightarrow> string \<Rightarrow> (string + string) option \<Rightarrow> string + mcp_config option" where
  "load_mcp_config read path file =
     (case file of
        None \<Rightarrow> Inr None
      | Some (Inl e) \<Rightarrow> Inl (''cannot read '' @ path @ '': '' @ e)
      | Some (Inr t) \<Rightarrow>
          (case read t of
             Inl e \<Rightarrow> Inl (''invalid '' @ path @ '': '' @ e)
           | Inr c \<Rightarrow> (case validate_mcp_config c of Inl e \<Rightarrow> Inl e | Inr _ \<Rightarrow> Inr (Some c))))"

definition save_mcp_config ::
  "(mcp_config \<Rightarrow> string) \<Rightarrow> (string \<Rightarrow> string + unit) \<Rightarrow> string \<Rightarrow> mcp_config \<Rightarrow> string + unit" where
  "save_mcp_config print write path c =
     (case validate_mcp_config c of
        Inl e \<Rightarrow> Inl e
      | Inr _ \<Rightarrow>
          (case write (print c @ [CHR 0x0A]) of
             Inl e \<Rightarrow> Inl (''cannot save '' @ path @ '': '' @ e)
           | Inr u \<Rightarrow> Inr u))"

definition config_policy_of :: "mcp_config \<Rightarrow> string \<Rightarrow> policy" where
  "config_policy_of c name =
     (case split_once (CHR ''.'') name of
        None \<Rightarrow> Policy_Off
      | Some (server, t) \<Rightarrow>
          (case find (\<lambda>s. ms_id s = server \<and> ms_enabled s) (mg_servers c) of
             None \<Rightarrow> Policy_Off
           | Some s \<Rightarrow> server_policy_of s t))"

section \<open>The pool\<close>

record tool_status =
  ts_name :: string
  ts_description :: string
  ts_policy :: policy

record server_status =
  ss_id :: string
  ss_enabled :: bool
  ss_tools :: "tool_status list"
  ss_error :: "string option"

record capabilities =
  cp_tools :: "ir_tool list"
  cp_servers :: "server_status list"

text \<open>\<open>ho_version\<close> is the crate's version and \<open>ho_start_timeout\<close> the text of the pool's deadline.\<close>

record host =
  ho_codec :: codec
  ho_version :: string
  ho_start_timeout :: string
  ho_spawn :: "nat \<Rightarrow> mcp_server \<Rightarrow> string + mcp_read list \<times> (nat \<Rightarrow> mcp_write)"
  ho_running :: "nat \<Rightarrow> bool"

record mcp_pool =
  po_config :: mcp_config
  po_sessions :: "(string, mcp_session) btree"
  po_listed :: "(string, string + mcp_tool list) btree"
  po_asked :: nat

type_synonym 'a pooled = "(mcp_pool, stall, 'a) eff"

definition new_pool :: "mcp_config \<Rightarrow> mcp_pool" where
  "new_pool c = \<lparr>po_config = c, po_sessions = [], po_listed = [], po_asked = 0\<rparr>"

text \<open>What a server has listed, under the current policies.\<close>

definition listed_tools :: "mcp_pool \<Rightarrow> mcp_server \<Rightarrow> mcp_tool list \<times> string option" where
  "listed_tools p s =
     (if \<not> ms_enabled s then ([], None)
      else case map_of (po_listed p) (ms_id s) of
        Some (Inr tools) \<Rightarrow> (tools, None)
      | Some (Inl e) \<Rightarrow> ([], Some e)
      | None \<Rightarrow> ([], Some ''not started yet''))"

definition tool_ir_name :: "mcp_server \<Rightarrow> mcp_tool \<Rightarrow> string" where
  "tool_ir_name s t = ms_id s @ CHR ''.'' # mt_name t"

definition offered_by :: "mcp_pool \<Rightarrow> mcp_server \<Rightarrow> ir_tool list" where
  "offered_by p s =
     map (\<lambda>t. \<lparr>it_name = tool_ir_name s t, it_description = mt_description t, it_schema = mt_schema t\<rparr>)
       (filter (\<lambda>t. server_policy_of s (mt_name t) \<noteq> Policy_Off) (fst (listed_tools p s)))"

definition status_of_server :: "mcp_pool \<Rightarrow> mcp_server \<Rightarrow> server_status" where
  "status_of_server p s =
     \<lparr>ss_id = ms_id s, ss_enabled = ms_enabled s,
      ss_tools = map (\<lambda>t. \<lparr>ts_name = mt_name t, ts_description = mt_description t,
        ts_policy = server_policy_of s (mt_name t)\<rparr>) (fst (listed_tools p s)),
      ss_error = snd (listed_tools p s)\<rparr>"

definition pool_capabilities :: "mcp_pool \<Rightarrow> capabilities" where
  "pool_capabilities p =
     \<lparr>cp_tools = concat (map (offered_by p) (mg_servers (po_config p))),
      cp_servers = map (status_of_server p) (mg_servers (po_config p))\<rparr>"

definition set_policies :: "mcp_config \<Rightarrow> mcp_pool \<Rightarrow> capabilities \<times> mcp_pool" where
  "set_policies c p = (let q = p\<lparr>po_config := c\<rparr> in (pool_capabilities q, q))"

section \<open>Sessions of the pool\<close>

text \<open>\<open>is_live\<close>: the next answer of the system.\<close>

definition is_live :: "host \<Rightarrow> bool pooled" where
  "is_live h p = (Inr (ho_running h (po_asked p)), p\<lparr>po_asked := Suc (po_asked p)\<rparr>)"

definition live_session :: "host \<Rightarrow> string \<Rightarrow> mcp_session option pooled" where
  "live_session h i =
     andthen (look po_sessions) (\<lambda>sessions.
       case map_of sessions i of
         None \<Rightarrow> ret None
       | Some s \<Rightarrow> andthen (is_live h) (\<lambda>live. ret (if live then Some s else None)))"

definition start_session :: "host \<Rightarrow> mcp_server \<Rightarrow> mcp_session pooled" where
  "start_session h server p =
     (let q = p\<lparr>po_asked := Suc (po_asked p)\<rparr>
      in case ho_spawn h (po_asked p) server of
           Inl reason \<Rightarrow> (Inl (Failed (Spawn_Failed (ms_command server) reason)), q)
         | Inr (reads, pipe) \<Rightarrow>
             (case initialize (ho_codec h) (ho_version h) (ho_start_timeout h) (new_session reads pipe) of
                (Inl e, _) \<Rightarrow> (Inl e, q)
              | (Inr _, s) \<Rightarrow> (Inr s, q)))"

definition pool_session :: "host \<Rightarrow> mcp_server \<Rightarrow> mcp_session pooled" where
  "pool_session h server =
     andthen (live_session h (ms_id server)) (\<lambda>live.
       case live of
         Some s \<Rightarrow> ret s
       | None \<Rightarrow>
           andthen (start_session h server) (\<lambda>fresh.
           andthen (live_session h (ms_id server)) (\<lambda>existing.
             case existing of
               Some s \<Rightarrow> ret s
             | None \<Rightarrow>
                 andthen (update (\<lambda>p. p\<lparr>po_sessions := bt_insert (ms_id server) fresh (po_sessions p)\<rparr>)) (\<lambda>_.
                   ret fresh))))"

text \<open>Using a session that the pool shares: the map holds the session as it is afterwards.\<close>

definition use_session :: "string \<Rightarrow> mcp_session \<Rightarrow> 'a mcp \<Rightarrow> 'a pooled" where
  "use_session i s m p =
     (case m s of
        (r, t) \<Rightarrow> (r, case map_of (po_sessions p) i of
                          Some _ \<Rightarrow> p\<lparr>po_sessions := bt_insert i t (po_sessions p)\<rparr>
                        | None \<Rightarrow> p))"

definition list_server :: "host \<Rightarrow> mcp_server \<Rightarrow> mcp_tool list pooled" where
  "list_server h server =
     andthen (pool_session h server) (\<lambda>s.
       use_session (ms_id server) s (list_tools (ho_codec h) (ho_start_timeout h)))"

definition discover_server :: "host \<Rightarrow> mcp_server \<Rightarrow> unit pooled" where
  "discover_server h server p =
     (case list_server h server p of
        (Inl Pending, q) \<Rightarrow> (Inl Pending, q)
      | (Inl (Failed e), q) \<Rightarrow>
          (Inr (), q\<lparr>po_sessions := bt_remove (ms_id server) (po_sessions q),
                     po_listed := bt_insert (ms_id server) (Inl (mcp_error_str e)) (po_listed q)\<rparr>)
      | (Inr tools, q) \<Rightarrow> (Inr (), q\<lparr>po_listed := bt_insert (ms_id server) (Inr tools) (po_listed q)\<rparr>))"

definition pool_discover :: "host \<Rightarrow> capabilities pooled" where
  "pool_discover h =
     andthen (look po_config) (\<lambda>c.
     andthen (for_each (filter ms_enabled (mg_servers c)) (discover_server h)) (\<lambda>_.
       look pool_capabilities))"

text \<open>\<open>McpPool::call\<close>; \<open>None\<close> is a call that does not end.\<close>

definition pool_call ::
  "host \<Rightarrow> tool_request \<Rightarrow> mcp_pool \<Rightarrow> (string + tool_output) option \<times> mcp_pool" where
  "pool_call h request p =
     (case split_once (CHR ''.'') (tq_name request) of
        None \<Rightarrow> (Some (Inl (''`'' @ tq_name request @ ''` does not name an MCP tool'')), p)
      | Some (server_id, t) \<Rightarrow>
          (case find (\<lambda>s. ms_id s = server_id \<and> ms_enabled s) (mg_servers (po_config p)) of
             None \<Rightarrow> (Some (Inl (''MCP server `'' @ server_id @ ''` is not configured'')), p)
           | Some server \<Rightarrow>
               (case andthen (pool_session h server) (\<lambda>s.
                       use_session server_id s (session_call (ho_codec h) t (tq_arguments request))) p of
                  (Inl Pending, q) \<Rightarrow> (None, q)
                | (Inl (Failed e), q) \<Rightarrow> (Some (Inl (mcp_error_str e)), q)
                | (Inr result, q) \<Rightarrow>
                    (let (out, is_error) = mcp_tool_output (ho_codec h) result
                     in (Some (Inr \<lparr>to_output = out, to_is_error = is_error\<rparr>), q)))))"

section \<open>Valid configurations\<close>

lemma valid_server_id_no_dot: "valid_server_id i \<Longrightarrow> CHR ''.'' \<notin> set i"
  by (auto simp: valid_server_id_def list_all_iff is_ascii_alphanumeric_def is_ascii_lowercase_def
      is_ascii_uppercase_def is_ascii_digit_def dest!: bspec)

lemma validate_servers_Inr:
  "validate_servers seen ss = Inr u \<longleftrightarrow>
     distinct (map ms_id ss) \<and> set (map ms_id ss) \<inter> set seen = {} \<and>
     (\<forall>s \<in> set ss. valid_server_id (ms_id s) \<and> trim (ms_command s) \<noteq> [])"
  by (induction seen ss rule: validate_servers.induct) auto

lemma validate_mcp_config_Inr:
  "validate_mcp_config c = Inr u \<longleftrightarrow>
     f64_within 0 1 (gs_threshold (mg_guard c)) \<and> distinct (map ms_id (mg_servers c)) \<and>
     (\<forall>s \<in> set (mg_servers c). valid_server_id (ms_id s) \<and> trim (ms_command s) \<noteq> [])"
  by (simp add: validate_mcp_config_def validate_servers_Inr)

lemma find_server:
  "distinct (map ms_id ss) \<Longrightarrow> s \<in> set ss \<Longrightarrow> ms_enabled s \<Longrightarrow>
   find (\<lambda>x. ms_id x = ms_id s \<and> ms_enabled x) ss = Some s"
  by (induction ss) (auto simp: image_iff)

lemma split_tool_ir_name:
  "valid_server_id (ms_id s) \<Longrightarrow> split_once (CHR ''.'') (tool_ir_name s t) = Some (ms_id s, mt_name t)"
  by (simp add: tool_ir_name_def valid_server_id_no_dot)

lemma config_policy_of_tool:
  assumes "validate_mcp_config c = Inr u" and "s \<in> set (mg_servers c)" and "ms_enabled s"
  shows "config_policy_of c (tool_ir_name s t) = server_policy_of s (mt_name t)"
  using assms by (simp add: config_policy_of_def validate_mcp_config_Inr split_tool_ir_name find_server)

lemma in_capabilities_iff:
  "x \<in> set (cp_tools (pool_capabilities p)) \<longleftrightarrow>
     (\<exists>s \<in> set (mg_servers (po_config p)). \<exists>t \<in> set (fst (listed_tools p s)).
        server_policy_of s (mt_name t) \<noteq> Policy_Off \<and>
        x = \<lparr>it_name = tool_ir_name s t, it_description = mt_description t, it_schema = mt_schema t\<rparr>)"
  by (auto simp: pool_capabilities_def offered_by_def)

lemma listed_tools_enabled: "t \<in> set (fst (listed_tools p s)) \<Longrightarrow> ms_enabled s"
  by (simp add: listed_tools_def split: if_splits)

text \<open>C16. Under a valid configuration, every tool offered to models has a name that leads back to it: the
  policy looked up by that name is the server's own policy for the tool and never \<open>off\<close>, and a call
  by that name goes to that enabled server, with the server's own tool name.\<close>

theorem offered_tools_resolve:
  assumes "validate_mcp_config (po_config p) = Inr ()" and "x \<in> set (cp_tools (pool_capabilities p))"
  shows "\<exists>s ts. s \<in> set (mg_servers (po_config p)) \<and> ms_enabled s \<and>
    map_of (po_listed p) (ms_id s) = Some (Inr ts) \<and>
    (\<exists>tool \<in> set ts. split_once (CHR ''.'') (it_name x) = Some (ms_id s, mt_name tool) \<and>
       find (\<lambda>c. ms_id c = ms_id s \<and> ms_enabled c) (mg_servers (po_config p)) = Some s \<and>
       config_policy_of (po_config p) (it_name x) = server_policy_of s (mt_name tool) \<and>
       server_policy_of s (mt_name tool) \<noteq> Policy_Off)"
proof -
  from assms(2) obtain s tool where s: "s \<in> set (mg_servers (po_config p))"
      and tool: "tool \<in> set (fst (listed_tools p s))" "server_policy_of s (mt_name tool) \<noteq> Policy_Off"
      and x: "it_name x = tool_ir_name s tool"
    by (auto simp: in_capabilities_iff)
  have en: "ms_enabled s" using tool(1) by (rule listed_tools_enabled)
  with tool(1) obtain ts where ts: "map_of (po_listed p) (ms_id s) = Some (Inr ts)" "tool \<in> set ts"
    by (auto simp: listed_tools_def split: option.splits sum.splits)
  have "valid_server_id (ms_id s)" and dist: "distinct (map ms_id (mg_servers (po_config p)))"
    using assms(1) s by (auto simp: validate_mcp_config_Inr)
  then have "split_once (CHR ''.'') (it_name x) = Some (ms_id s, mt_name tool)"
    by (simp add: x split_tool_ir_name)
  moreover have "find (\<lambda>c. ms_id c = ms_id s \<and> ms_enabled c) (mg_servers (po_config p)) = Some s"
    using dist s en by (rule find_server)
  moreover have "config_policy_of (po_config p) (it_name x) = server_policy_of s (mt_name tool)"
    unfolding x using assms(1) s en by (rule config_policy_of_tool)
  ultimately show ?thesis
    using s en ts tool(2) by blast
qed

section \<open>Discovery\<close>

lemma timely_not_Pending: "fst (timely d m s) \<noteq> Inl Pending"
  by (auto simp: timely_def map_err_def split: prod.splits sum.splits stall.splits)

lemma initialize_not_Pending: "fst (initialize cx v d s) \<noteq> Inl Pending"
  unfolding initialize_def andthen_def
  using timely_not_Pending [of d "rpc cx ''initialize'' (rpc_initialize v)" s]
    timely_not_Pending [of d "send rpc_initialized"]
  by (auto split: prod.splits sum.splits)

lemma start_session_not_Pending: "fst (start_session h server p) \<noteq> Inl Pending"
proof (cases "ho_spawn h (po_asked p) server")
  case (Inr io)
  then show ?thesis
    using initialize_not_Pending [of "ho_codec h" "ho_version h" "ho_start_timeout h" "new_session (fst io) (snd io)"]
    by (auto simp: start_session_def Let_def split: prod.splits sum.splits)
qed (simp add: start_session_def Let_def)

lemma live_session_Inr: "\<exists>s q. live_session h i p = (Inr s, q) \<and> q = p\<lparr>po_asked := po_asked q\<rparr>"
  by (auto simp: live_session_def andthen_def is_live_def split: option.splits)

lemma pool_session_not_Pending: "fst (pool_session h server p) \<noteq> Inl Pending"
proof -
  obtain v q where v: "live_session h (ms_id server) p = (Inr v, q)"
    using live_session_Inr by blast
  show ?thesis
  proof (cases v)
    case None
    obtain r q' where r: "start_session h server q = (r, q')" by force
    obtain v' q'' where v': "live_session h (ms_id server) q' = (Inr v', q'')"
      using live_session_Inr by blast
    show ?thesis
      using start_session_not_Pending [of h server q]
      by (auto simp: pool_session_def andthen_def v None r v' split: sum.splits option.splits)
  qed (simp add: pool_session_def andthen_def v)
qed

lemma list_server_not_Pending: "fst (list_server h server p) \<noteq> Inl Pending"
proof -
  obtain r q where r: "pool_session h server p = (r, q)" by force
  have "fst (use_session i s (list_tools cx d) q) \<noteq> Inl Pending" for i s cx d
    using timely_not_Pending [of d "list_pages cx max_pages None []" s]
    by (auto simp: use_session_def list_tools_def split: prod.splits)
  then show ?thesis
    using pool_session_not_Pending [of h server p]
    by (auto simp: list_server_def andthen_def r split: sum.splits)
qed

text \<open>The configuration and the other servers' results stay as they are.\<close>

definition same_but :: "string \<Rightarrow> mcp_pool \<Rightarrow> mcp_pool \<Rightarrow> bool" where
  "same_but i p q \<longleftrightarrow> po_config q = po_config p \<and>
     (\<forall>j. j \<noteq> i \<longrightarrow> map_of (po_listed q) j = map_of (po_listed p) j \<and>
        map_of (po_sessions q) j = map_of (po_sessions p) j)"

lemma start_session_frame: "snd (start_session h server p) = p\<lparr>po_asked := Suc (po_asked p)\<rparr>"
  by (auto simp: start_session_def Let_def split: prod.splits sum.splits)

lemma live_session_frame: "live_session h i p = (r, q) \<Longrightarrow> q = p\<lparr>po_asked := po_asked q\<rparr>"
  by (metis live_session_Inr snd_conv)

definition asked_only :: "mcp_pool \<Rightarrow> mcp_pool \<Rightarrow> bool" where
  "asked_only p q \<longleftrightarrow> po_config q = po_config p \<and> po_listed q = po_listed p \<and> po_sessions q = po_sessions p"

lemma asked_only_live: "live_session h i p = (r, q) \<Longrightarrow> asked_only p q"
  using live_session_frame [of h i p r q] by (metis (no_types, lifting) asked_only_def
      mcp_pool.ext_inject mcp_pool.surjective mcp_pool.update_convs(4))

lemma asked_only_start: "start_session h server p = (r, q) \<Longrightarrow> asked_only p q"
  using start_session_frame [of h server p] by (simp add: asked_only_def)

lemma pool_session_frame:
  assumes "pool_session h server p = (r, q)"
  shows "po_config q = po_config p \<and> po_listed q = po_listed p \<and>
    (po_sessions q = po_sessions p \<or> (\<exists>s. po_sessions q = bt_insert (ms_id server) s (po_sessions p)))"
proof -
  obtain v p1 where v: "live_session h (ms_id server) p = (Inr v, p1)"
    using live_session_Inr by blast
  obtain r2 p2 where r2: "start_session h server p1 = (r2, p2)" by force
  obtain v3 p3 where v3: "live_session h (ms_id server) p2 = (Inr v3, p3)"
    using live_session_Inr by blast
  have "asked_only p p1" "asked_only p1 p2" "asked_only p2 p3"
    using v r2 v3 by (auto intro: asked_only_live asked_only_start)
  then show ?thesis
    using assms
    by (auto simp: pool_session_def andthen_def v r2 v3 asked_only_def split: option.splits sum.splits)
qed

lemma use_session_frame:
  assumes "use_session i s m p = (r, q)"
  shows "po_config q = po_config p \<and> po_listed q = po_listed p \<and>
    (po_sessions q = po_sessions p \<or> (\<exists>t. po_sessions q = bt_insert i t (po_sessions p)))"
  using assms by (auto simp: use_session_def split: prod.splits option.splits)

lemma list_server_frame:
  assumes "list_server h server p = (r, q)"
  shows "same_but (ms_id server) p q \<and> po_listed q = po_listed p"
proof -
  obtain r1 p1 where r1: "pool_session h server p = (r1, p1)" by force
  from pool_session_frame [OF r1] have 1: "same_but (ms_id server) p p1 \<and> po_listed p1 = po_listed p"
    by (auto simp: same_but_def map_of_bt_insert)
  show ?thesis
  proof (cases r1)
    case (Inl e)
    with assms r1 1 show ?thesis by (simp add: list_server_def andthen_def)
  next
    case (Inr s)
    with assms r1 have "use_session (ms_id server) s (list_tools (ho_codec h) (ho_start_timeout h)) p1 = (r, q)"
      by (simp add: list_server_def andthen_def)
    from use_session_frame [OF this] 1 show ?thesis
      by (auto simp: same_but_def map_of_bt_insert)
  qed
qed

text \<open>Discovering one server: it always ends, touches no other server, and records what it found.\<close>

lemma discover_server_outcome:
  "\<exists>q found. discover_server h server p = (Inr (), q) \<and> same_but (ms_id server) p q \<and>
     map_of (po_listed q) (ms_id server) = Some found \<and>
     (isl found \<longrightarrow> map_of (po_sessions q) (ms_id server) = None)"
proof -
  obtain r q where r: "list_server h server p = (r, q)" by force
  from list_server_frame [OF r] have frame: "same_but (ms_id server) p q" by simp
  show ?thesis
  proof (cases r)
    case (Inl e)
    then obtain x where "e = Failed x"
      using list_server_not_Pending [of h server p] r by (cases e) auto
    with Inl r frame show ?thesis
      by (auto simp: discover_server_def same_but_def map_of_bt_insert map_of_bt_remove)
  next
    case (Inr tools)
    with r frame show ?thesis
      by (auto simp: discover_server_def same_but_def map_of_bt_insert)
  qed
qed

lemma same_but_chain:
  "same_but i p q \<Longrightarrow> map_of (po_listed q) i = Some f \<Longrightarrow>
   \<forall>j. j \<notin> I \<longrightarrow> map_of (po_listed r) j = map_of (po_listed q) j \<Longrightarrow> i \<notin> I \<Longrightarrow>
   map_of (po_listed r) i = Some f"
  by simp

lemma discover_each:
  "distinct (map ms_id ss) \<Longrightarrow>
   \<exists>q. for_each ss (discover_server h) p = (Inr (), q) \<and> po_config q = po_config p \<and>
     (\<forall>j. j \<notin> set (map ms_id ss) \<longrightarrow> map_of (po_listed q) j = map_of (po_listed p) j \<and>
        map_of (po_sessions q) j = map_of (po_sessions p) j) \<and>
     (\<forall>s \<in> set ss. \<exists>found. map_of (po_listed q) (ms_id s) = Some found \<and>
        (isl found \<longrightarrow> map_of (po_sessions q) (ms_id s) = None))"
proof (induction ss arbitrary: p)
  case (Cons s ss)
  obtain q found where q: "discover_server h s p = (Inr (), q)" "same_but (ms_id s) p q"
      "map_of (po_listed q) (ms_id s) = Some found"
      "isl found \<longrightarrow> map_of (po_sessions q) (ms_id s) = None"
    using discover_server_outcome by blast
  from Cons.prems have "distinct (map ms_id ss)" and fresh: "ms_id s \<notin> set (map ms_id ss)" by auto
  from Cons.IH [OF this(1), of q] obtain r
    where r: "for_each ss (discover_server h) q = (Inr (), r)" "po_config r = po_config q"
      "\<forall>j. j \<notin> set (map ms_id ss) \<longrightarrow> map_of (po_listed r) j = map_of (po_listed q) j \<and>
         map_of (po_sessions r) j = map_of (po_sessions q) j"
      "\<forall>s \<in> set ss. \<exists>found. map_of (po_listed r) (ms_id s) = Some found \<and>
        (isl found \<longrightarrow> map_of (po_sessions r) (ms_id s) = None)"
    by auto
  have "for_each (s # ss) (discover_server h) p = (Inr (), r)"
    using q(1) r(1) by (simp add: andthen_def)
  moreover have "map_of (po_listed r) (ms_id s) = Some found"
      "isl found \<longrightarrow> map_of (po_sessions r) (ms_id s) = None"
    using r(3) fresh q(3,4) by auto
  ultimately show ?case
    using q(2) r(2-4) by (intro exI [of _ r]) (auto simp: same_but_def)
qed simp

text \<open>C39. Discovery always ends, whatever the servers do: every enabled server has an entry with its
  tools or with the error it is reported with, a server that failed keeps no session, and the servers
  that are not enabled, and the configuration, are left as they were.\<close>

theorem discovery_isolates_failures:
  assumes "validate_mcp_config (po_config p) = Inr ()"
  shows "\<exists>q. pool_discover h p = (Inr (pool_capabilities q), q) \<and> po_config q = po_config p \<and>
    (\<forall>s \<in> set (mg_servers (po_config p)).
       if ms_enabled s
       then \<exists>found. map_of (po_listed q) (ms_id s) = Some found \<and>
              (isl found \<longrightarrow> map_of (po_sessions q) (ms_id s) = None \<and> offered_by q s = [])
       else map_of (po_sessions q) (ms_id s) = map_of (po_sessions p) (ms_id s) \<and> offered_by q s = [])"
proof -
  let ?ss = "filter ms_enabled (mg_servers (po_config p))"
  have dist: "distinct (map ms_id (mg_servers (po_config p)))"
    using assms by (simp add: validate_mcp_config_Inr)
  then have "distinct (map ms_id ?ss)" by (rule distinct_map_filter)
  from discover_each [OF this, of h p] obtain q
    where q: "for_each ?ss (discover_server h) p = (Inr (), q)" "po_config q = po_config p"
      "\<forall>j. j \<notin> set (map ms_id ?ss) \<longrightarrow> map_of (po_listed q) j = map_of (po_listed p) j \<and>
         map_of (po_sessions q) j = map_of (po_sessions p) j"
      "\<forall>s \<in> set ?ss. \<exists>found. map_of (po_listed q) (ms_id s) = Some found \<and>
        (isl found \<longrightarrow> map_of (po_sessions q) (ms_id s) = None)"
    by auto
  have off: "ms_id s \<notin> set (map ms_id ?ss)" if "s \<in> set (mg_servers (po_config p))" "\<not> ms_enabled s" for s
    using that dist by (auto simp: distinct_map inj_on_def)
  show ?thesis
  proof (intro exI [of _ q] conjI ballI)
    show "pool_discover h p = (Inr (pool_capabilities q), q)"
      using q(1) by (simp add: pool_discover_def andthen_def)
    show "po_config q = po_config p" by (rule q(2))
    fix s assume s: "s \<in> set (mg_servers (po_config p))"
    show "if ms_enabled s
       then \<exists>found. map_of (po_listed q) (ms_id s) = Some found \<and>
              (isl found \<longrightarrow> map_of (po_sessions q) (ms_id s) = None \<and> offered_by q s = [])
       else map_of (po_sessions q) (ms_id s) = map_of (po_sessions p) (ms_id s) \<and> offered_by q s = []"
      using s q(3,4) off [OF s]
      by (auto simp: offered_by_def listed_tools_def isl_def split: sum.splits)
  qed
qed

section \<open>A pool at work\<close>

definition demo_mcp_config :: mcp_config where
  "demo_mcp_config = default_mcp_config\<lparr>mg_servers := [new_mcp_server ''ooda'' ''node'' [],
     (new_mcp_server ''other'' ''sh'' [])\<lparr>ms_enabled := False\<rparr>]\<rparr>"

definition demo_pool :: mcp_pool where
  "demo_pool = (new_pool demo_mcp_config)\<lparr>po_listed := [(''ooda'', Inr
     [\<lparr>mt_name = ''read.file'', mt_description = [], mt_schema = []\<rparr>])]\<rparr>"

definition dead_host :: host where
  "dead_host = \<lparr>ho_codec = echo_codec, ho_version = ''0'', ho_start_timeout = ''20s'',
     ho_spawn = (\<lambda>n s. Inl ''not found''), ho_running = (\<lambda>n. False)\<rparr>"

lemma demo_pool_valid: "validate_mcp_config (po_config demo_pool) = Inr ()"
  by code_simp

lemma offered_tools_resolve_witness:
  "config_policy_of demo_mcp_config ''ooda.read.file'' \<noteq> Policy_Off \<and>
   (\<exists>s. find (\<lambda>c. ms_id c = ms_id s \<and> ms_enabled c) (mg_servers demo_mcp_config) = Some s \<and> ms_id s = ''ooda'')"
proof -
  let ?x = "\<lparr>it_name = ''ooda.read.file'', it_description = [], it_schema = []\<rparr>"
  have "?x \<in> set (cp_tools (pool_capabilities demo_pool))" by code_simp
  from offered_tools_resolve [OF demo_pool_valid this] obtain s :: mcp_server and tool :: mcp_tool
    where "split_once (CHR ''.'') ''ooda.read.file'' = Some (ms_id s, mt_name tool)"
      "find (\<lambda>c. ms_id c = ms_id s \<and> ms_enabled c) (mg_servers (po_config demo_pool)) = Some s"
      "config_policy_of (po_config demo_pool) ''ooda.read.file'' \<noteq> Policy_Off"
    unfolding ir_tool.select_convs by (elim exE conjE bexE) (rule that, assumption, assumption, simp)
  moreover have "split_once (CHR ''.'') ''ooda.read.file'' = Some (''ooda'', ''read.file'')" by code_simp
  moreover have "po_config demo_pool = demo_mcp_config"
    by (simp add: demo_pool_def new_pool_def)
  ultimately show ?thesis by auto
qed

lemma discovery_isolates_failures_witness:
  "\<exists>q. pool_discover dead_host demo_pool = (Inr (pool_capabilities q), q) \<and>
     po_config q = demo_mcp_config"
  using discovery_isolates_failures [OF demo_pool_valid, of dead_host]
  by (auto simp: demo_pool_def new_pool_def)

end
