(* ===== verification/Guard.thy ===== *)
theory Guard
  imports Mcp_Pool Ir_Compile
begin

text \<open>
  \<open>dagos/src/guard.rs\<close>: Jev's risk questions for a tool call about to run, the overlapping windows in
  which long arguments are judged, and the tools of the same server that a call's arguments name.
  Two parameters stand for what is not modelled: \<open>wide\<close>, Unicode's alphanumeric characters beyond
  ASCII, and the codec's \<open>json_text\<close>.
\<close>

section \<open>Windows\<close>

definition window_chars :: nat where
  "window_chars = 6000"

definition window_overlap :: nat where
  "window_overlap = 500"

definition max_windows :: nat where
  "max_windows = 8"

definition div_ceil :: "nat \<Rightarrow> nat \<Rightarrow> nat" where
  "div_ceil a b = (if a mod b = 0 then a div b else a div b + 1)"

definition windows :: "string \<Rightarrow> string list option" where
  "windows arguments =
     (let chars = chars_of arguments
      in if length chars \<le> window_chars then Some [arguments]
         else
           (let step = window_chars - window_overlap;
                count = div_ceil (length chars - window_overlap) step
            in if max_windows < count then None
               else Some (map (\<lambda>index. let start = index * step
                      in concat (take (min (start + window_chars) (length chars) - start) (drop start chars)))
                    [0..<count])))"

section \<open>Named tools\<close>

definition word_char :: "(string \<Rightarrow> bool) \<Rightarrow> string \<Rightarrow> bool" where
  "word_char wide c \<longleftrightarrow>
     (case c of [b] \<Rightarrow> is_ascii_alphanumeric b \<or> b = CHR ''_'' \<or> b = CHR ''.'' | _ \<Rightarrow> wide c)"

text \<open>\<open>split\<close> at the characters that are not part of a word.\<close>

fun split_words :: "(string \<Rightarrow> bool) \<Rightarrow> string list \<Rightarrow> string list" where
  "split_words wide [] = [[]]"
| "split_words wide (c # cs) =
     (if word_char wide c
      then (case split_words wide cs of [] \<Rightarrow> [c] | w # ws \<Rightarrow> (c @ w) # ws)
      else [] # split_words wide cs)"

fun collect_words :: "(string \<Rightarrow> bool) \<Rightarrow> json \<Rightarrow> string list" where
  "collect_words wide (JStr s) = s # split_words wide (chars_of s)"
| "collect_words wide (JArr items) = concat (map (collect_words wide) items)"
| "collect_words wide (JObj m) = concat (map (\<lambda>kv. collect_words wide (snd kv)) m)"
| "collect_words wide _ = []"

definition named_tools :: "(string \<Rightarrow> bool) \<Rightarrow> tool_request \<Rightarrow> string list \<Rightarrow> string list" where
  "named_tools wide request tools =
     (case split_once (CHR ''.'') (tq_name request) of
        None \<Rightarrow> []
      | Some (server, own) \<Rightarrow>
          (let words = concat (map (\<lambda>kv. collect_words wide (snd kv)) (tq_arguments request))
           in filter (\<lambda>name. case split_once (CHR ''.'') name of
                None \<Rightarrow> False
              | Some (tool_server, t) \<Rightarrow>
                  tool_server = server \<and> t \<noteq> own \<and> (t \<in> set words \<or> name \<in> set words)) tools))"

section \<open>The questions\<close>

text \<open>\<open>RISKS\<close>: id, what a yes means, and whether the user's request can excuse it.\<close>

definition risks :: "(string \<times> string \<times> bool) list" where
  "risks =
     [(''deletes-data'',
       ''Deletes files, folders, or data, or destroys them beyond recovery (for example rm, del, '' @
       ''Remove-Item, rmdir, DROP, TRUNCATE, git clean, git reset --hard, format).'', False),
      (''destroys-data'',
       ''Overwrites or changes files or data that the user'' @ [CHR 0x27] @
       ''s request did not ask to change.'', True),
      (''changes-system'',
       ''Changes the system: installs or removes software, or changes settings, services, '' @
       ''permissions, users, the registry, scheduled tasks, or startup items.'', True),
      (''uses-network'',
       ''Sends data to, downloads from, or runs something from the internet or another machine.'', True),
      (''touches-secrets'',
       ''Reads, prints, copies, or sends passwords, keys, tokens, or credentials.'', False),
      (''outside-project'', ''Creates, changes, or deletes files outside the project folder.'', True),
      (''controls-processes'',
       ''Stops, kills, or restarts processes or services it did not start itself.'', True),
      (''controls-computer'',
       ''Controls the mouse, keyboard, screen, or other applications'' @ [CHR 0x27] @ '' windows.'', True),
      (''delegates'',
       ''Hands the work to other tools or agents chosen while it runs, so what actually runs is '' @
       ''not visible in this call.'', False)]"

text \<open>Only applied to the risks, which begin with an ASCII letter.\<close>

definition lowercase_first :: "string \<Rightarrow> string" where
  "lowercase_first s = (case s of [] \<Rightarrow> [] | c # cs \<Rightarrow> ascii_lower c # cs)"

definition risk_question :: "string \<times> string \<times> bool \<Rightarrow> noul_question" where
  "risk_question r =
     (let (i, meaning, excusable) = r
      in \<lparr>nq_key = i,
          nq_instructions = JObj
            [(''risk'', JStr meaning),
             (''task'', JStr (''Decide whether this tool call, as its arguments show, carries this '' @
                ''risk. Judge the call itself, in the light of the user'' @ [CHR 0x27] @ ''s request.''))],
          nq_if_true = ''Running this call '' @ lowercase_first meaning,
          nq_if_false =
            (if excusable
             then ''The call does not do this, or only in a way the request plainly asks for, '' @
                ''inside the project.''
             else ''The call does not do this, even if the request asked for it.'')\<rparr>)"

definition project_folder :: "string \<Rightarrow> string" where
  "project_folder folder =
     (let t = replace_byte (CHR 0x5C) (CHR ''/'') folder
      in case strip_prefix ''//?/'' t of Some r \<Rightarrow> r | None \<Rightarrow> t)"

definition guard_state ::
  "string \<Rightarrow> string \<Rightarrow> tool_request \<Rightarrow> string \<Rightarrow> string \<Rightarrow> string option \<Rightarrow> json" where
  "guard_state message folder request description arguments part =
     JObj (
       [(''arguments'', JStr arguments)] @
       (case part of None \<Rightarrow> [] | Some p \<Rightarrow> [(''arguments_part'', JStr p)]) @
       [(''project_folder'', JStr (project_folder folder)),
        (''project_folder_also_written_as'',
           JStr (replace_byte (CHR ''/'') (CHR 0x5C) (project_folder folder))),
        (''request'', JStr message),
        (''tool'', JStr (tq_name request)),
        (''tool_description'', JStr (take_chars 800 description))])"

section \<open>Assessment\<close>

record risk =
  rk_id :: string
  rk_probability :: f64

datatype assessment = Unchecked | Assess_Failed string | Risks "risk list"

text \<open>\<open>(p * 100.0).round() / 100.0\<close>, and \<open>{:.2}\<close>: two decimals, ties to even.\<close>

fun round_hundredths :: "f64 \<Rightarrow> f64" where
  "round_hundredths (Fin q) =
     Fin ((if 0 \<le> q then of_int \<lfloor>q * 100 + 1 / 2\<rfloor> else - of_int \<lfloor>1 / 2 - q * 100\<rfloor>) / 100)"
| "round_hundredths x = x"

definition half_even :: "rat \<Rightarrow> nat" where
  "half_even q =
     (let k = \<lfloor>q\<rfloor>; r = 2 * (q - of_int k)
      in nat (if r < 1 \<or> (r = 1 \<and> k mod 2 = 0) then k else k + 1))"

fun show_hundredths :: "f64 \<Rightarrow> string" where
  "show_hundredths (Fin q) =
     (let n = half_even (\<bar>q\<bar> * 100)
      in (if q < 0 then ''-'' else []) @ show_nat (n div 100) @ ''.'' @ pad0 2 (n mod 100))"
| "show_hundredths NaN = ''NaN''"
| "show_hundredths Pos_Inf = ''inf''"
| "show_hundredths Neg_Inf = ''-inf''"

fun concern :: "assessment \<Rightarrow> string option" where
  "concern Unchecked = None"
| "concern (Assess_Failed e) = Some (''the safety check could not run ('' @ e @ '')'')"
| "concern (Risks rs) =
     (if rs = [] then None
      else Some (''Jev flagged it: '' @
        join '', '' (map (\<lambda>r. rk_id r @ '' '' @ show_hundredths (rk_probability r)) rs)))"

record guard =
  gd_decide :: "json \<Rightarrow> noul_question list \<Rightarrow> (jev_error + f64 list option) reply"
  gd_root :: string

text \<open>What one window's answer means; \<open>Stopped\<close> ends the whole decision.\<close>

datatype window_answer = Scores "f64 list" | Concluded assessment | Dropped

definition window_answer :: "(jev_error + f64 list option) reply \<Rightarrow> window_answer" where
  "window_answer reply =
     (case reply of
        Elapsed \<Rightarrow> Concluded (Assess_Failed ''no answer within 20s'')
      | Stopped \<Rightarrow> Dropped
      | Answer (Inl e) \<Rightarrow> Concluded (Assess_Failed (jev_error_str e))
      | Answer (Inr None) \<Rightarrow> Concluded Unchecked
      | Answer (Inr (Some scores)) \<Rightarrow>
          if length scores \<noteq> length risks
          then Concluded (Assess_Failed ''wrong number of answers'')
          else Scores scores)"

text \<open>The loop over the windows: the highest score of each risk so far, or why it ended early.\<close>

fun assess_windows ::
  "(string option \<Rightarrow> string \<Rightarrow> window_answer) \<Rightarrow> nat \<Rightarrow> nat \<Rightarrow> f64 list \<Rightarrow> string list \<Rightarrow> window_answer" where
  "assess_windows judge parts index highest [] = Scores highest"
| "assess_windows judge parts index highest (w # ws) =
     (case judge (if 1 < parts then Some (''part '' @ show_nat (index + 1) @ '' of '' @ show_nat parts) else None) w of
        Scores scores \<Rightarrow> assess_windows judge parts (index + 1) (map2 f64_max highest scores) ws
      | ended \<Rightarrow> ended)"

definition likely_risks :: "f64 \<Rightarrow> f64 list \<Rightarrow> risk list" where
  "likely_risks threshold highest =
     map (\<lambda>(r, p). \<lparr>rk_id = fst r, rk_probability = round_hundredths p\<rparr>)
       (filter (\<lambda>(r, p). f64_le threshold p) (zip risks highest))"

text \<open>The user's message; a store that cannot be read gives an empty one.\<close>

definition run_message_text :: "(store_error + event list) \<Rightarrow> string" where
  "run_message_text events =
     (case events of
        Inl _ \<Rightarrow> []
      | Inr evs \<Rightarrow> (case find_map message_text (map ev_data evs) of Some s \<Rightarrow> s | None \<Rightarrow> []))"

text \<open>\<open>Guard::assess\<close>; \<open>None\<close>: the run was stopped meanwhile.\<close>

definition assess ::
  "codec \<Rightarrow> guard \<Rightarrow> (store_error + event list) \<Rightarrow> tool_request \<Rightarrow> string \<Rightarrow> f64 \<Rightarrow> assessment option" where
  "assess cx g events request description threshold =
     (let message = run_message_text events; arguments = json_text cx (JObj (tq_arguments request))
      in case windows arguments of
           None \<Rightarrow> Some (Assess_Failed (''its arguments are too long to check ('' @
               show_nat (length (chars_of arguments)) @ '' characters)''))
         | Some ws \<Rightarrow>
             (case assess_windows
                     (\<lambda>part w. window_answer (gd_decide g
                        (guard_state message (gd_root g) request description w part)
                        (map risk_question risks)))
                     (length ws) 0 (replicate (length risks) (Fin 0)) ws of
                Scores highest \<Rightarrow> Some (Risks (likely_risks threshold highest))
              | Concluded a \<Rightarrow> Some a
              | Dropped \<Rightarrow> None))"

section \<open>The windows miss nothing\<close>

lemma div_ceil_bounds:
  assumes "0 < b"
  shows "a \<le> div_ceil a b * b" and "div_ceil a b * b < a + b"
proof -
  have a: "a = a div b * b + a mod b" by simp
  have less: "a mod b < b" using assms by simp
  show "a \<le> div_ceil a b * b"
  proof (cases "a mod b = 0")
    case False
    then have "div_ceil a b * b = a div b * b + b" by (simp add: div_ceil_def)
    with a less show ?thesis by linarith
  qed (use a in \<open>simp add: div_ceil_def\<close>)
  show "div_ceil a b * b < a + b"
  proof (cases "a mod b = 0")
    case False
    then have "div_ceil a b * b = a div b * b + b" by (simp add: div_ceil_def)
    with a False show ?thesis by linarith
  qed (use a assms in \<open>simp add: div_ceil_def\<close>)
qed

lemma div_ceil_le_iff:
  assumes "0 < b"
  shows "div_ceil a b \<le> n \<longleftrightarrow> a \<le> n * b"
proof
  assume "div_ceil a b \<le> n"
  then have "div_ceil a b * b \<le> n * b" by simp
  with div_ceil_bounds(1) [OF assms, of a] show "a \<le> n * b" by linarith
next
  assume "a \<le> n * b"
  with div_ceil_bounds(2) [OF assms, of a] have "div_ceil a b * b < (n + 1) * b" by (simp add: algebra_simps)
  then show "div_ceil a b \<le> n" using assms by (metis Suc_eq_plus1 less_Suc_eq_le mult_less_cancel2)
qed

definition window_at :: "string list \<Rightarrow> nat \<Rightarrow> string list" where
  "window_at chars index = take 6000 (drop (index * 5500) chars)"

lemma windows_eq:
  "windows s =
     (if length (chars_of s) \<le> 6000 then Some [s]
      else if 44500 < length (chars_of s) then None
      else Some (map (\<lambda>k. concat (window_at (chars_of s) k)) [0..<div_ceil (length (chars_of s) - 500) 5500]))"
proof -
  have "min (st + 6000) (length cs) - st = min 6000 (length cs - st)" for st and cs :: "string list"
    by auto
  then have cut: "take (min (st + 6000) (length cs) - st) (drop st cs) = take 6000 (drop st cs)"
    for st and cs :: "string list"
    by (metis length_drop min.commute take_all_iff take_take order_refl)
  have limit: "8 < div_ceil (length (chars_of s) - 500) 5500 \<longleftrightarrow> 44500 < length (chars_of s)"
    using div_ceil_le_iff [of 5500 "length (chars_of s) - 500" 8] by auto
  show ?thesis
    by (simp add: windows_def window_chars_def window_overlap_def max_windows_def limit window_at_def
        cut Let_def)
qed

lemma chars_of_window [simp]: "chars_of (concat (window_at (chars_of s) k)) = window_at (chars_of s) k"
  unfolding window_at_def
  by (rule chars_of_concat [OF char_seq_take [OF char_seq_drop [OF char_seq_chars_of]]])

lemma window_at_part:
  assumes "k * 5500 \<le> i" and "i + n \<le> k * 5500 + 6000" and "i + n \<le> length cs"
  shows "\<exists>j. j + n \<le> length (window_at cs k) \<and> take n (drop j (window_at cs k)) = take n (drop i cs)"
proof (intro exI conjI)
  let ?j = "i - k * 5500"
  show "?j + n \<le> length (window_at cs k)"
    using assms by (auto simp: window_at_def)
  have "take n (drop ?j (window_at cs k)) = take (min n (6000 - ?j)) (drop i cs)"
    using assms by (simp add: window_at_def drop_take)
  also have "min n (6000 - ?j) = n" using assms by auto
  finally show "take n (drop ?j (window_at cs k)) = take n (drop i cs)" .
qed

lemma window_index:
  fixes c i n len :: nat
  assumes "0 < c" and "len - 500 \<le> c * 5500" and "n \<le> 501" and "i + n \<le> len"
  shows "\<exists>k < c. k * 5500 \<le> i \<and> i + n \<le> k * 5500 + 6000"
proof (cases "i < c * 5500")
  case True
  have "i div 5500 < c" using True by (simp add: less_mult_imp_div_less)
  moreover have "i div 5500 * 5500 \<le> i" "i < i div 5500 * 5500 + 5500"
    using div_mult_mod_eq [of i 5500] mod_less_divisor [of 5500 i] by linarith+
  ultimately show ?thesis using assms(3) by (intro exI [of _ "i div 5500"]) linarith
next
  case False
  obtain d where "c = Suc d" using assms(1) by (cases c) auto
  then show ?thesis using False assms(2,4) by (intro exI [of _ d]) auto
qed

text \<open>C37. What Jev judges misses nothing a call's arguments say: they are refused only beyond 44500
  characters; otherwise there are at most 8 windows of at most 6000 characters each, and every stretch of up to
  501 characters, wherever it lies in the arguments, is seen whole in one of them.\<close>

theorem windows_cover:
  "case windows s of
     None \<Rightarrow> 44500 < length (chars_of s)
   | Some ws \<Rightarrow> length (chars_of s) \<le> 44500 \<and> length ws \<le> 8 \<and>
       list_all (\<lambda>w. length (chars_of w) \<le> 6000) ws \<and>
       (\<forall>i n. n \<le> 501 \<and> i + n \<le> length (chars_of s) \<longrightarrow>
          (\<exists>w \<in> set ws. \<exists>j. j + n \<le> length (chars_of w) \<and>
             take n (drop j (chars_of w)) = take n (drop i (chars_of s))))"
proof -
  let ?cs = "chars_of s" and ?count = "div_ceil (length (chars_of s) - 500) 5500"
  consider "length ?cs \<le> 6000" | "44500 < length ?cs" | "6000 < length ?cs" "length ?cs \<le> 44500"
    by linarith
  then show ?thesis
  proof cases
    case 3
    let ?ws = "map (\<lambda>k. concat (window_at ?cs k)) [0..<?count]"
    have ws: "windows s = Some ?ws" using 3 by (simp add: windows_eq)
    have count: "0 < ?count" "length ?cs - 500 \<le> ?count * 5500"
      using 3 div_ceil_bounds(1) [of 5500 "length ?cs - 500"] by (auto intro: Nat.gr0I)
    have cover: "\<exists>w \<in> set ?ws. \<exists>j. j + n \<le> length (chars_of w) \<and>
        take n (drop j (chars_of w)) = take n (drop i ?cs)"
      if "n \<le> 501" "i + n \<le> length ?cs" for i n
    proof -
      from window_index [OF count that] obtain k
        where "k < ?count" "k * 5500 \<le> i" "i + n \<le> k * 5500 + 6000" by blast
      with window_at_part [of k i n ?cs] that(2) show ?thesis by auto
    qed
    have "length ?ws \<le> 8" using 3 by (simp add: div_ceil_le_iff)
    moreover have "list_all (\<lambda>w. length (chars_of w) \<le> 6000) ?ws"
      by (simp add: list_all_iff) (simp add: window_at_def)
    ultimately show ?thesis
      unfolding ws option.case using 3(2) cover by blast
  next
    case 1
    then show ?thesis by (auto simp: windows_eq)
  qed (simp add: windows_eq)
qed

lemma windows_cover_witness:
  "\<exists>w j. windows ''rm -rf x'' = Some [w] \<and> take 6 (drop j (chars_of w)) = chars_of ''rm -rf''"
proof -
  have one: "windows ''rm -rf x'' = Some [''rm -rf x'']" by code_simp
  have "0 + 6 \<le> length (chars_of ''rm -rf x'')" by code_simp
  then have "\<exists>w \<in> set [''rm -rf x'']. \<exists>j. j + 6 \<le> length (chars_of w) \<and>
      take 6 (drop j (chars_of w)) = take 6 (drop 0 (chars_of ''rm -rf x''))"
    using windows_cover [of "''rm -rf x''"] unfolding one option.case
    by (elim conjE allE [of _ 0] allE [of _ 6]) simp
  moreover have "take 6 (drop 0 (chars_of ''rm -rf x'')) = chars_of ''rm -rf''" by code_simp
  ultimately show ?thesis using one by auto
qed

section \<open>What is flagged\<close>

definition part_text :: "nat \<Rightarrow> nat \<Rightarrow> string option" where
  "part_text parts index =
     (if 1 < parts then Some (''part '' @ show_nat (index + 1) @ '' of '' @ show_nat parts) else None)"

lemma map2_max_nth:
  "j < length hs \<Longrightarrow> length s = length hs \<Longrightarrow>
   f64_le c (map2 f64_max hs s ! j) \<longleftrightarrow> f64_le c (hs ! j) \<or> f64_le c (s ! j)"
  by (simp add: le_f64_max_iff)

lemma assess_windows_Scores:
  "assess_windows judge parts i hs ws = Scores out \<Longrightarrow>
   (\<And>part w s. judge part w = Scores s \<Longrightarrow> length s = length hs) \<Longrightarrow>
   \<exists>ss. length ss = length ws \<and> length out = length hs \<and>
     (\<forall>k < length ws. judge (part_text parts (i + k)) (ws ! k) = Scores (ss ! k)) \<and>
     (\<forall>j < length hs. \<forall>c. f64_le c (out ! j) \<longleftrightarrow> f64_le c (hs ! j) \<or> (\<exists>s \<in> set ss. f64_le c (s ! j)))"
proof (induction judge parts i hs ws rule: assess_windows.induct)
  case (2 judge parts i hs w ws)
  then obtain s where s: "judge (part_text parts i) w = Scores s"
      and rest: "assess_windows judge parts (i + 1) (map2 f64_max hs s) ws = Scores out"
    by (auto simp: part_text_def split: window_answer.splits)
  have len: "length s = length hs" using 2(3) s by blast
  from 2(1) [OF s [unfolded part_text_def] rest] 2(3) len obtain ss
    where ss: "length ss = length ws" "length out = length hs"
      "\<forall>k < length ws. judge (part_text parts (i + 1 + k)) (ws ! k) = Scores (ss ! k)"
      "\<forall>j < length hs. \<forall>c. f64_le c (out ! j) \<longleftrightarrow>
         f64_le c (map2 f64_max hs s ! j) \<or> (\<exists>s \<in> set ss. f64_le c (s ! j))"
    by auto
  have "judge (part_text parts (i + k)) ((w # ws) ! k) = Scores ((s # ss) ! k)" if "k < length (w # ws)" for k
    using that s ss(3) by (cases k) auto
  moreover have "f64_le c (out ! j) \<longleftrightarrow> f64_le c (hs ! j) \<or> (\<exists>x \<in> set (s # ss). f64_le c (x ! j))"
    if "j < length hs" for j c
    using ss(4) that map2_max_nth [OF that len, of c] by auto
  ultimately show ?case
    using ss(1,2) by (intro exI [of _ "s # ss"]) auto
qed auto

lemma likely_risks_iff:
  assumes "length highest = length risks" and "j < length risks"
  shows "fst (risks ! j) \<in> rk_id ` set (likely_risks c highest) \<longleftrightarrow> f64_le c (highest ! j)"
proof -
  have dist: "distinct (map fst risks)" by (simp add: risks_def)
  have "rk_id ` set (likely_risks c highest) =
      {fst (risks ! k) | k. k < length risks \<and> f64_le c (highest ! k)}"
    using assms(1) by (force simp: likely_risks_def set_zip)
  moreover have "k = j" if "k < length risks" "fst (risks ! k) = fst (risks ! j)" for k
    using that assms(2) dist by (metis distinct_conv_nth length_map nth_map)
  ultimately show ?thesis using assms(2) by auto
qed

text \<open>The question the guard asks about one window.\<close>

definition guard_judge ::
  "guard \<Rightarrow> string \<Rightarrow> tool_request \<Rightarrow> string \<Rightarrow> string option \<Rightarrow> string \<Rightarrow> window_answer" where
  "guard_judge g message request description part w =
     window_answer (gd_decide g (guard_state message (gd_root g) request description w part)
       (map risk_question risks))"

lemma guard_judge_length: "guard_judge g m r d part w = Scores s \<Longrightarrow> length s = length risks"
  by (auto simp: guard_judge_def window_answer_def split: reply.splits sum.splits option.splits if_splits)

lemma assess_windows_Concluded:
  "assess_windows judge parts i hs ws = Concluded a \<Longrightarrow> \<exists>part w. judge part w = Concluded a"
  by (induction judge parts i hs ws rule: assess_windows.induct) (auto split: window_answer.splits)

lemma guard_judge_no_risks: "guard_judge g m r d part w \<noteq> Concluded (Risks rs)"
  by (auto simp: guard_judge_def window_answer_def split: reply.splits sum.splits option.splits if_splits)

text \<open>When the guard reaches a verdict, every window of the arguments was judged, and a risk is flagged
  exactly when the score Jev gave it for some window (or zero, from which the highest score starts)
  reaches the threshold: no window's warning is lost to the others.\<close>

theorem guard_flags_iff:
  assumes "assess cx g events request description c = Some (Risks rs)"
  shows "\<exists>ws ss. windows (json_text cx (JObj (tq_arguments request))) = Some ws \<and> length ss = length ws \<and>
    (\<forall>k < length ws. guard_judge g (run_message_text events) request description
        (part_text (length ws) k) (ws ! k) = Scores (ss ! k)) \<and>
    (\<forall>j < length risks. fst (risks ! j) \<in> rk_id ` set rs \<longleftrightarrow>
        f64_le c (Fin 0) \<or> (\<exists>s \<in> set ss. f64_le c (s ! j)))"
proof -
  let ?judge = "guard_judge g (run_message_text events) request description"
  from assms obtain ws out where ws: "windows (json_text cx (JObj (tq_arguments request))) = Some ws"
      and out: "assess_windows ?judge (length ws) 0 (replicate (length risks) (Fin 0)) ws = Scores out"
      and rs: "rs = likely_risks c out"
  proof (cases "windows (json_text cx (JObj (tq_arguments request)))")
    case (Some ws)
    let ?last = "assess_windows ?judge (length ws) 0 (replicate (length risks) (Fin 0)) ws"
    have "(case ?last of Scores highest \<Rightarrow> Some (Risks (likely_risks c highest))
        | Concluded a \<Rightarrow> Some a | Dropped \<Rightarrow> None) = Some (Risks rs)"
      using assms by (simp add: assess_def Let_def Some guard_judge_def [abs_def])
    moreover have "?last \<noteq> Concluded (Risks rs)"
      using assess_windows_Concluded guard_judge_no_risks by blast
    ultimately show ?thesis
      using that [OF Some] by (cases ?last) auto
  qed (simp add: assess_def Let_def)
  from assess_windows_Scores [OF out] obtain ss
    where ss: "length ss = length ws" "length out = length risks"
      "\<forall>k < length ws. ?judge (part_text (length ws) k) (ws ! k) = Scores (ss ! k)"
      "\<forall>j < length risks. \<forall>c. f64_le c (out ! j) \<longleftrightarrow>
         f64_le c (replicate (length risks) (Fin 0) ! j) \<or> (\<exists>s \<in> set ss. f64_le c (s ! j))"
    using guard_judge_length by fastforce
  have "fst (risks ! j) \<in> rk_id ` set rs \<longleftrightarrow> f64_le c (Fin 0) \<or> (\<exists>s \<in> set ss. f64_le c (s ! j))"
    if "j < length risks" for j
    using ss(4) that by (simp add: rs likely_risks_iff [OF ss(2) that])
  with ws ss show ?thesis by blast
qed

definition wary_guard :: guard where
  "wary_guard =
     \<lparr>gd_decide = (\<lambda>s qs. Answer (Inr (Some ([Fin (9 / 10), NaN] @ replicate 7 (Fin (1 / 50)))))),
      gd_root = ''/project''\<rparr>"

definition demo_call :: tool_request where
  "demo_call = \<lparr>tq_call = ''call_1'', tq_name = ''ooda.exec_cli'', tq_arguments = []\<rparr>"

lemma wary_assessment:
  "assess demo_codec wary_guard (Inr []) demo_call [] (Fin (1 / 2)) =
     Some (Risks [\<lparr>rk_id = ''deletes-data'', rk_probability = Fin (9 / 10)\<rparr>])"
  by code_simp

lemma guard_flags_iff_witness:
  "\<exists>ss. length ss = 1 \<and> (\<exists>s \<in> set ss. f64_le (Fin (1 / 2)) (s ! 0)) \<and>
     concern (Risks [\<lparr>rk_id = ''deletes-data'', rk_probability = Fin (9 / 10)\<rparr>]) =
       Some ''Jev flagged it: deletes-data 0.90''"
proof -
  have "windows (json_text demo_codec (JObj (tq_arguments demo_call))) = Some [[]]" by code_simp
  with guard_flags_iff [OF wary_assessment] obtain ss :: "f64 list list"
    where ss: "length ss = 1" "\<forall>j < length risks.
      fst (risks ! j) \<in> rk_id ` set [\<lparr>rk_id = ''deletes-data'', rk_probability = Fin (9 / 10)\<rparr>] \<longleftrightarrow>
        f64_le (Fin (1 / 2)) (Fin 0) \<or> (\<exists>s \<in> set ss. f64_le (Fin (1 / 2)) (s ! j))"
    by auto
  have "0 < length risks" "fst (risks ! 0) = ''deletes-data''" by code_simp+
  with ss(2) have "\<exists>s \<in> set ss. f64_le (Fin (1 / 2)) (s ! 0)" by auto
  moreover have "concern (Risks [\<lparr>rk_id = ''deletes-data'', rk_probability = Fin (9 / 10)\<rparr>]) =
      Some ''Jev flagged it: deletes-data 0.90''" by code_simp
  ultimately show ?thesis using ss(1) by auto
qed

end
