(* ===== verification/Approvals.thy ===== *)
theory Approvals
  imports Guard
begin

text \<open>
  \<open>dagos/src/approvals.rs\<close>: the tool gate. \<open>decide\<close> is an asynchronous function that many runs execute at
  once over shared maps, so it is modelled by the atomic sections between its awaits: \<open>ask_gate\<close> (the
  policies, up to the guard's questions), \<open>settle_check\<close> (after the guard, up to the wait for a person),
  and the ends of the wait. A \<open>oneshot\<close> channel is the slot of the wait that owns its receiver; the
  sender in \<open>ap_pending\<close> is that wait's number, and removing or replacing it drops the sender.
\<close>

section \<open>Policies\<close>

datatype person_answer = Person_Allows | Person_Denies

record escalation =
  es_note :: "string option"
  es_asking :: "string list"
  es_guarded :: bool

type_synonym call_key = "run_id \<times> string"

record approvals =
  ap_config :: mcp_config
  ap_tools :: "(string, string) btree"
  ap_guard :: "guard option"
  ap_pending :: "(call_key, nat) btree"
  ap_escalations :: "(call_key, escalation) btree"
  ap_interactive :: bool
  ap_timeout :: string

definition new_approvals :: "string \<Rightarrow> approvals" where
  "new_approvals d =
     \<lparr>ap_config = default_mcp_config, ap_tools = [], ap_guard = None, ap_pending = [], ap_escalations = [],
      ap_interactive = False, ap_timeout = d\<rparr>"

definition set_tools :: "capabilities \<Rightarrow> approvals \<Rightarrow> approvals" where
  "set_tools c ap =
     (let described = concat (map (\<lambda>s. map (\<lambda>t. (ss_id s @ CHR ''.'' # ts_name t, ts_description t)) (ss_tools s))
            (cp_servers c));
          offered = map (\<lambda>t. (it_name t, it_description t)) (cp_tools c)
      in ap\<lparr>ap_tools := bt_of_list (described @ offered)\<rparr>)"

fun strictness :: "policy \<Rightarrow> nat" where
  "strictness Policy_Allow = 0"
| "strictness Policy_Ask = 1"
| "strictness Policy_Off = 2"

text \<open>One named tool in the loop of \<open>effective_policy\<close>: the policy, the first tool that is off, those that ask.\<close>

definition weigh_named ::
  "(string \<Rightarrow> policy) \<Rightarrow> policy \<times> string option \<times> string list \<Rightarrow> string \<Rightarrow> policy \<times> string option \<times> string list" where
  "weigh_named policy_of acc name =
     (case acc of (p, off, asking) \<Rightarrow>
        (if strictness p < strictness (policy_of name) then policy_of name else p,
         if policy_of name = Policy_Off \<and> off = None then Some name else off,
         if policy_of name = Policy_Ask then asking @ [name] else asking))"

definition effective_policy ::
  "(string \<Rightarrow> bool) \<Rightarrow> approvals \<Rightarrow> tool_request \<Rightarrow> policy \<times> string option \<times> string list" where
  "effective_policy wide ap request =
     (let policy_of = config_policy_of (ap_config ap)
      in foldl (weigh_named policy_of) (policy_of (tq_name request), None, [])
           (named_tools wide request (map fst (ap_tools ap))))"

section \<open>The sections of \<open>decide\<close>\<close>

text \<open>Up to the guard: a denial, or the effective policy and the tools that ask.\<close>

definition policy_section ::
  "(string \<Rightarrow> bool) \<Rightarrow> approvals \<Rightarrow> tool_request \<Rightarrow> tool_decision + policy \<times> string list" where
  "policy_section wide ap request =
     (case effective_policy wide ap request of
        (policy, off, asking) \<Rightarrow>
          if policy = Policy_Off
          then Inl (Deny By_Policy
            (case off of
               Some n \<Rightarrow> ''`'' @ tq_name request @ ''` would run `'' @ n @ ''`, which is turned off''
             | None \<Rightarrow> ''`'' @ tq_name request @ ''` is turned off''))
          else Inr (policy, asking))"

text \<open>What the guard is asked with, read when its question begins.\<close>

definition guard_section :: "approvals \<Rightarrow> tool_request \<Rightarrow> (guard \<times> string \<times> f64) option" where
  "guard_section ap request =
     (if gs_enabled (mg_guard (ap_config ap))
      then map_option (\<lambda>g. (g,
             case map_of (ap_tools ap) (tq_name request) of Some d \<Rightarrow> d | None \<Rightarrow> [],
             gs_threshold (mg_guard (ap_config ap)))) (ap_guard ap)
      else None)"

definition run_guard ::
  "codec \<Rightarrow> (store_error + event list) \<Rightarrow> tool_request \<Rightarrow> (guard \<times> string \<times> f64) option \<Rightarrow> assessment option" where
  "run_guard cx events request gs =
     (case gs of
        Some (g, description, threshold) \<Rightarrow> assess cx g events request description threshold
      | None \<Rightarrow> Some Unchecked)"

definition concerns_of :: "string list \<Rightarrow> assessment \<Rightarrow> string list" where
  "concerns_of asking a =
     (if asking = [] then []
      else [''it would run '' @ join '', '' (map (\<lambda>n. ''`'' @ n @ ''`'') asking) @ '', which '' @
            (if length asking = 1 then ''is'' else ''are'') @ '' set to ask'']) @
     (case concern a of None \<Rightarrow> [] | Some c \<Rightarrow> [c])"

definition why_text :: "string option \<Rightarrow> string" where
  "why_text n = (case n of None \<Rightarrow> [] | Some s \<Rightarrow> '' ('' @ s @ '')'')"

text \<open>After the guard: a decision, or why a person must decide.\<close>

definition after_guard ::
  "approvals \<Rightarrow> tool_request \<Rightarrow> policy \<Rightarrow> string list \<Rightarrow> assessment \<Rightarrow> tool_decision + escalation" where
  "after_guard ap request policy asking a =
     (let concerns = concerns_of asking a;
          n = (if concerns = [] then None else Some (join ''; '' concerns))
      in if policy = Policy_Allow \<and> concerns = [] then Inl (Allow By_Policy None)
         else if \<not> ap_interactive ap
         then Inl (Deny By_Policy (''`'' @ tq_name request @ ''` needs approval'' @ why_text n @
                ''; approve it in the app (`dagos serve`)'' @
                (if policy = Policy_Ask then '' or set it to allow'' else [])))
         else Inr \<lparr>es_note = n, es_asking = asking, es_guarded = (concern a \<noteq> None)\<rparr>)"

section \<open>Waiting for a person\<close>

datatype slot = Open | Said person_answer | Hung_Up

record gate_check =
  ck_number :: nat
  ck_run :: run_id
  ck_request :: tool_request
  ck_policy :: policy
  ck_asking :: "string list"
  ck_guard :: "(guard \<times> string \<times> f64) option"

record wait =
  wt_number :: nat
  wt_run :: run_id
  wt_request :: tool_request
  wt_note :: "string option"
  wt_slot :: slot

text \<open>The gate with the executions of \<open>decide\<close> in progress, and what the finished ones returned.\<close>

record gate =
  gt_approvals :: approvals
  gt_checking :: "gate_check list"
  gt_waits :: "wait list"
  gt_decided :: "(nat \<times> run_id \<times> tool_request \<times> tool_decision) list"
  gt_next :: nat

definition wait_key :: "wait \<Rightarrow> call_key" where
  "wait_key w = (wt_run w, tq_call (wt_request w))"

definition new_gate :: "string \<Rightarrow> gate" where
  "new_gate d = \<lparr>gt_approvals = new_approvals d, gt_checking = [], gt_waits = [], gt_decided = [], gt_next = 0\<rparr>"

definition is_pending :: "approvals \<Rightarrow> run_id \<Rightarrow> string \<Rightarrow> bool" where
  "is_pending ap r call \<longleftrightarrow> map_of (ap_pending ap) (r, call) \<noteq> None"

definition pending_escalation :: "approvals \<Rightarrow> run_id \<Rightarrow> string \<Rightarrow> escalation option" where
  "pending_escalation ap r call = map_of (ap_escalations ap) (r, call)"

definition pending_note :: "approvals \<Rightarrow> run_id \<Rightarrow> string \<Rightarrow> string option" where
  "pending_note ap r call = Option.bind (pending_escalation ap r call) es_note"

text \<open>Something happens to the channel whose sender has number \<open>i\<close>, while its receiver still waits.\<close>

definition set_slot :: "nat \<Rightarrow> slot \<Rightarrow> wait list \<Rightarrow> wait list" where
  "set_slot i s = map (\<lambda>w. if wt_number w = i \<and> wt_slot w = Open then w\<lparr>wt_slot := s\<rparr> else w)"

definition drop_sender :: "nat option \<Rightarrow> wait list \<Rightarrow> wait list" where
  "drop_sender s ws = (case s of None \<Rightarrow> ws | Some i \<Rightarrow> set_slot i Hung_Up ws)"

text \<open>The two inserts before the wait; an older sender under the same key is dropped.\<close>

definition register_wait :: "wait \<Rightarrow> escalation \<Rightarrow> gate \<Rightarrow> gate" where
  "register_wait w e g =
     (let ap = gt_approvals g
      in g\<lparr>gt_approvals := ap\<lparr>ap_escalations := bt_insert (wait_key w) e (ap_escalations ap),
                             ap_pending := bt_insert (wait_key w) (wt_number w) (ap_pending ap)\<rparr>,
           gt_waits := drop_sender (map_of (ap_pending ap) (wait_key w)) (gt_waits g) @ [w]\<rparr>)"

text \<open>\<open>Drop for Waiting\<close>, after the receiver is gone.\<close>

definition forget_wait :: "wait \<Rightarrow> gate \<Rightarrow> gate" where
  "forget_wait w g =
     (let ap = gt_approvals g; others = filter (\<lambda>x. wt_number x \<noteq> wt_number w) (gt_waits g)
      in g\<lparr>gt_approvals := ap\<lparr>ap_pending := bt_remove (wait_key w) (ap_pending ap),
                             ap_escalations := bt_remove (wait_key w) (ap_escalations ap)\<rparr>,
           gt_waits := drop_sender (map_of (ap_pending ap) (wait_key w)) others\<rparr>)"

definition record_decision :: "nat \<Rightarrow> run_id \<Rightarrow> tool_request \<Rightarrow> tool_decision \<Rightarrow> gate \<Rightarrow> gate" where
  "record_decision i r request d g = g\<lparr>gt_decided := gt_decided g @ [(i, r, request, d)]\<rparr>"

text \<open>A new execution of \<open>decide\<close>.\<close>

definition ask_gate :: "(string \<Rightarrow> bool) \<Rightarrow> run_id \<Rightarrow> tool_request \<Rightarrow> gate \<Rightarrow> gate" where
  "ask_gate wide r request g =
     (let i = gt_next g; g' = g\<lparr>gt_next := Suc i\<rparr>
      in case policy_section wide (gt_approvals g) request of
           Inl d \<Rightarrow> record_decision i r request d g'
         | Inr (policy, asking) \<Rightarrow>
             g'\<lparr>gt_checking := gt_checking g @
               [\<lparr>ck_number = i, ck_run = r, ck_request = request, ck_policy = policy, ck_asking = asking,
                 ck_guard = guard_section (gt_approvals g) request\<rparr>]\<rparr>)"

text \<open>The guard of execution \<open>i\<close> ends; without an assessment the execution was dropped.\<close>

definition settle_check :: "codec \<Rightarrow> nat \<Rightarrow> (store_error + event list) \<Rightarrow> gate \<Rightarrow> gate" where
  "settle_check cx i events g =
     (case find (\<lambda>c. ck_number c = i) (gt_checking g) of
        None \<Rightarrow> g
      | Some c \<Rightarrow>
          (let g' = g\<lparr>gt_checking := filter (\<lambda>x. ck_number x \<noteq> i) (gt_checking g)\<rparr>
           in case run_guard cx events (ck_request c) (ck_guard c) of
                None \<Rightarrow> g'
              | Some a \<Rightarrow>
                  (case after_guard (gt_approvals g) (ck_request c) (ck_policy c) (ck_asking c) a of
                     Inl d \<Rightarrow> record_decision i (ck_run c) (ck_request c) d g'
                   | Inr e \<Rightarrow>
                       register_wait \<lparr>wt_number = i, wt_run = ck_run c, wt_request = ck_request c,
                         wt_note = es_note e, wt_slot = Open\<rparr> e g')))"

definition answer_call :: "run_id \<Rightarrow> string \<Rightarrow> person_answer \<Rightarrow> gate \<Rightarrow> bool \<times> gate" where
  "answer_call r call a g =
     (let ap = gt_approvals g; g' = g\<lparr>gt_approvals := ap\<lparr>ap_pending := bt_remove (r, call) (ap_pending ap)\<rparr>\<rparr>
      in case map_of (ap_pending ap) (r, call) of
           None \<Rightarrow> (False, g')
         | Some i \<Rightarrow>
             (list_ex (\<lambda>w. wt_number w = i \<and> wt_slot w = Open) (gt_waits g),
              g'\<lparr>gt_waits := set_slot i (Said a) (gt_waits g)\<rparr>))"

definition decision_of :: "string \<Rightarrow> wait \<Rightarrow> slot \<Rightarrow> tool_decision" where
  "decision_of d w s =
     (case s of
        Said Person_Allows \<Rightarrow> Allow By_User (wt_note w)
      | Said Person_Denies \<Rightarrow> Deny By_User (''the user denied it'' @ why_text (wt_note w))
      | _ \<Rightarrow> Deny By_Timeout (''nobody approved it within '' @ d @ why_text (wt_note w)))"

text \<open>The wait of execution \<open>i\<close> ends with what its channel holds; an open one only at the deadline.\<close>

definition end_wait :: "bool \<Rightarrow> nat \<Rightarrow> gate \<Rightarrow> gate" where
  "end_wait deadline i g =
     (case find (\<lambda>w. wt_number w = i) (gt_waits g) of
        None \<Rightarrow> g
      | Some w \<Rightarrow>
          if wt_slot w = Open \<and> \<not> deadline then g
          else record_decision i (wt_run w) (wt_request w)
                 (decision_of (ap_timeout (gt_approvals g)) w (wt_slot w)) (forget_wait w g))"

text \<open>The run was stopped: the execution is dropped wherever it is.\<close>

definition abandon :: "nat \<Rightarrow> gate \<Rightarrow> gate" where
  "abandon i g =
     (let g' = g\<lparr>gt_checking := filter (\<lambda>c. ck_number c \<noteq> i) (gt_checking g)\<rparr>
      in case find (\<lambda>w. wt_number w = i) (gt_waits g) of
           None \<Rightarrow> g'
         | Some w \<Rightarrow> forget_wait w g')"

section \<open>The gate as a state machine\<close>

datatype gate_event =
    Configure mcp_config
  | Describe capabilities
  | Guard_With "guard option"
  | Serve bool
  | Ask run_id tool_request
  | Checked nat "store_error + event list"
  | Person run_id string person_answer
  | Wake nat
  | Expire nat
  | Abandon nat

fun gate_step :: "(string \<Rightarrow> bool) \<Rightarrow> codec \<Rightarrow> gate_event \<Rightarrow> gate \<Rightarrow> gate" where
  "gate_step wide cx (Configure c) g = g\<lparr>gt_approvals := (gt_approvals g)\<lparr>ap_config := c\<rparr>\<rparr>"
| "gate_step wide cx (Describe c) g = g\<lparr>gt_approvals := set_tools c (gt_approvals g)\<rparr>"
| "gate_step wide cx (Guard_With gd) g = g\<lparr>gt_approvals := (gt_approvals g)\<lparr>ap_guard := gd\<rparr>\<rparr>"
| "gate_step wide cx (Serve b) g = g\<lparr>gt_approvals := (gt_approvals g)\<lparr>ap_interactive := b\<rparr>\<rparr>"
| "gate_step wide cx (Ask r request) g = ask_gate wide r request g"
| "gate_step wide cx (Checked i events) g = settle_check cx i events g"
| "gate_step wide cx (Person r call a) g = snd (answer_call r call a g)"
| "gate_step wide cx (Wake i) g = end_wait False i g"
| "gate_step wide cx (Expire i) g = end_wait True i g"
| "gate_step wide cx (Abandon i) g = abandon i g"

definition gate_run :: "(string \<Rightarrow> bool) \<Rightarrow> codec \<Rightarrow> gate_event list \<Rightarrow> gate \<Rightarrow> gate" where
  "gate_run wide cx es g = foldl (\<lambda>g e. gate_step wide cx e g) g es"

end
