(* ===== verification/Gate_Behaviour.thy ===== *)
theory Gate_Behaviour
  imports Approvals "HOL-Library.Multiset"
begin

text \<open>
  What the gate of \<open>Approvals\<close> guarantees over every sequence of events: the shared maps describe the
  executions that wait, each execution follows a protocol of stages of its own, every wait ends, and
  a call is only allowed by the policies of that moment or by a person's answer.
\<close>

section \<open>Looking up executions\<close>

lemma find_set_slot:
  "find (\<lambda>w. wt_number w = j) (set_slot i s ws) =
     map_option (\<lambda>w. if j = i \<and> wt_slot w = Open then w\<lparr>wt_slot := s\<rparr> else w)
       (find (\<lambda>w. wt_number w = j) ws)"
  by (induction ws) (auto simp: set_slot_def)

lemma find_drop_sender:
  "find (\<lambda>w. wt_number w = j) (drop_sender x ws) =
     map_option (\<lambda>w. if Some j = x \<and> wt_slot w = Open then w\<lparr>wt_slot := Hung_Up\<rparr> else w)
       (find (\<lambda>w. wt_number w = j) ws)"
  by (cases x) (simp_all add: drop_sender_def find_set_slot option.map_ident)

lemma numbers_set_slot [simp]: "map wt_number (set_slot i s ws) = map wt_number ws"
  by (auto simp: set_slot_def)

lemma numbers_drop_sender [simp]: "map wt_number (drop_sender x ws) = map wt_number ws"
  by (simp add: drop_sender_def split: option.splits)

lemma find_other_number:
  "find (\<lambda>x. f x = j) (filter (\<lambda>x. f x \<noteq> i) xs) = (if i = j then None else find (\<lambda>x. f x = j) xs)"
  by (induction xs) auto

lemma find_number_SomeD: "find (\<lambda>x. f x = i) xs = Some x \<Longrightarrow> x \<in> set xs \<and> f x = i"
  by (auto simp: find_Some_iff)

lemma find_number_None: "find (\<lambda>x. f x = i) xs = None \<longleftrightarrow> i \<notin> set (map f xs)"
  by (auto simp: find_None_iff)

lemma find_number_mem:
  "distinct (map f xs) \<Longrightarrow> x \<in> set xs \<Longrightarrow> find (\<lambda>y. f y = f x) xs = Some x"
  by (induction xs) (auto simp: image_iff)

section \<open>Each execution is in one place\<close>

definition numbers :: "gate \<Rightarrow> nat list" where
  "numbers g = map ck_number (gt_checking g) @ map wt_number (gt_waits g) @ map fst (gt_decided g)"

definition numbered :: "gate \<Rightarrow> bool" where
  "numbered g \<longleftrightarrow> distinct (numbers g) \<and> (\<forall>i \<in> set (numbers g). i < gt_next g)"

lemma forget_wait_fields:
  "gt_checking (forget_wait w g) = gt_checking g" "gt_decided (forget_wait w g) = gt_decided g"
  "gt_next (forget_wait w g) = gt_next g"
  "gt_waits (forget_wait w g) = drop_sender (map_of (ap_pending (gt_approvals g)) (wait_key w))
     (filter (\<lambda>x. wt_number x \<noteq> wt_number w) (gt_waits g))"
  by (simp_all add: forget_wait_def Let_def)

lemma register_wait_fields:
  "gt_checking (register_wait w e g) = gt_checking g" "gt_decided (register_wait w e g) = gt_decided g"
  "gt_next (register_wait w e g) = gt_next g"
  "gt_waits (register_wait w e g) =
     drop_sender (map_of (ap_pending (gt_approvals g)) (wait_key w)) (gt_waits g) @ [w]"
  by (simp_all add: register_wait_def Let_def)

lemma record_decision_fields:
  "gt_checking (record_decision i r q d g) = gt_checking g" "gt_waits (record_decision i r q d g) = gt_waits g"
  "gt_decided (record_decision i r q d g) = gt_decided g @ [(i, r, q, d)]"
  "gt_next (record_decision i r q d g) = gt_next g"
  "gt_approvals (record_decision i r q d g) = gt_approvals g"
  by (simp_all add: record_decision_def)

lemmas gate_fields = forget_wait_fields register_wait_fields record_decision_fields

text \<open>Taking an execution out of its list makes room for its number elsewhere.\<close>

lemma mset_without:
  "x \<in> set xs \<Longrightarrow> add_mset (f x) (mset (map f (filter (\<lambda>y. f y \<noteq> f x) xs))) \<subseteq># mset (map f xs)"
proof (induction xs)
  case (Cons y ys)
  have "mset (map f (filter (\<lambda>y. f y \<noteq> f x) ys)) \<subseteq># mset (map f ys)"
    by (simp add: multiset_filter_mono mset_filter image_mset_subseteq_mono)
  with Cons show ?case by (auto simp: subset_mset.add_mono)
qed simp

lemma mset_without_le: "mset (map f (filter P xs)) \<subseteq># mset (map f xs)"
  by (simp add: mset_filter image_mset_subseteq_mono)

lemma numbered_mono:
  assumes "numbered g" and "mset (numbers g') \<subseteq># mset (numbers g)" and "gt_next g' = gt_next g"
  shows "numbered g'"
proof -
  have "set (numbers g') \<subseteq> set (numbers g)"
    using set_mset_mono [OF assms(2)] by (metis set_mset_mset)
  moreover have "distinct (numbers g')"
    unfolding distinct_count_atmost_1
  proof
    fix a
    have "count (mset (numbers g)) a \<le> 1"
      using assms(1) by (simp add: numbered_def distinct_count_atmost_1)
    with mset_subset_eq_count [OF assms(2), of a] have "count (mset (numbers g')) a \<le> 1" by linarith
    then show "count (mset (numbers g')) a = (if a \<in> set (numbers g') then 1 else 0)"
      by (metis One_nat_def count_mset_0_iff le_0_eq le_SucE)
  qed
  ultimately show ?thesis using assms(1,3) by (auto simp: numbered_def)
qed

lemma mset_numbers:
  "mset (numbers g) = mset (map ck_number (gt_checking g)) + mset (map wt_number (gt_waits g)) +
     mset (map fst (gt_decided g))"
  by (simp add: numbers_def)

lemma numbered_ask: "numbered g \<Longrightarrow> numbered (ask_gate wide r q g)"
  by (auto simp: ask_gate_def numbered_def numbers_def Let_def gate_fields less_Suc_eq
      split: sum.splits)

lemma numbered_settle: "numbered g \<Longrightarrow> numbered (settle_check cx i events g)"
proof (cases "find (\<lambda>c. ck_number c = i) (gt_checking g)")
  case (Some c)
  assume g: "numbered g"
  from Some have c: "c \<in> set (gt_checking g)" "ck_number c = i"
    by (auto dest: find_number_SomeD)
  have room: "add_mset i (mset (map ck_number (filter (\<lambda>y. ck_number y \<noteq> i) (gt_checking g)))) \<subseteq>#
      mset (map ck_number (gt_checking g))"
    using mset_without [OF c(1), of ck_number] c(2) by simp
  show ?thesis
  proof (rule numbered_mono [OF g])
    show "mset (numbers (settle_check cx i events g)) \<subseteq># mset (numbers g)"
      using room mset_without_le [of ck_number "\<lambda>y. ck_number y \<noteq> i" "gt_checking g"]
      by (simp add: settle_check_def Some Let_def mset_numbers gate_fields
          subset_mset.add_mono del: mset_map mset_filter split: option.split sum.split)
  qed (simp add: settle_check_def Some Let_def gate_fields split: option.split sum.split)
qed (simp add: settle_check_def)

lemma answer_call_fields:
  "gt_checking (snd (answer_call r call a g)) = gt_checking g"
  "gt_decided (snd (answer_call r call a g)) = gt_decided g"
  "gt_next (snd (answer_call r call a g)) = gt_next g"
  "gt_waits (snd (answer_call r call a g)) =
     (case map_of (ap_pending (gt_approvals g)) (r, call) of
        None \<Rightarrow> gt_waits g | Some i \<Rightarrow> set_slot i (Said a) (gt_waits g))"
  by (simp_all add: answer_call_def Let_def split: option.split)

lemma numbered_answer: "numbered g \<Longrightarrow> numbered (snd (answer_call r call a g))"
  by (erule numbered_mono) (simp_all add: mset_numbers answer_call_fields del: mset_map split: option.split)

lemma mset_numbers_forget:
  "w \<in> set (gt_waits g) \<Longrightarrow> add_mset (wt_number w) (mset (numbers (forget_wait w g))) \<subseteq># mset (numbers g)"
  using mset_without [of w "gt_waits g" wt_number]
  by (simp add: mset_numbers gate_fields subset_mset.add_mono del: mset_map mset_filter)

lemma numbered_end: "numbered g \<Longrightarrow> numbered (end_wait deadline i g)"
proof (cases "find (\<lambda>w. wt_number w = i) (gt_waits g)")
  case (Some w)
  assume g: "numbered g"
  from Some have w: "w \<in> set (gt_waits g)" "wt_number w = i"
    by (auto dest: find_number_SomeD)
  show ?thesis
    by (rule numbered_mono [OF g])
      (use mset_numbers_forget [OF w(1)] w(2) in
        \<open>simp_all add: end_wait_def Some gate_fields mset_numbers del: mset_map\<close>)
qed (simp add: end_wait_def)

lemma numbered_abandon: "numbered g \<Longrightarrow> numbered (abandon i g)"
proof -
  assume g: "numbered g"
  let ?h = "g\<lparr>gt_checking := filter (\<lambda>c. ck_number c \<noteq> i) (gt_checking g)\<rparr>"
  have h: "numbered ?h"
    using mset_without_le [of ck_number "\<lambda>c. ck_number c \<noteq> i" "gt_checking g"]
    by (intro numbered_mono [OF g]) (simp_all add: mset_numbers del: mset_map mset_filter)
  show ?thesis
  proof (cases "find (\<lambda>w. wt_number w = i) (gt_waits g)")
    case (Some w)
    then have "w \<in> set (gt_waits ?h)" by (auto dest: find_number_SomeD)
    from mset_numbers_forget [OF this] have "mset (numbers (forget_wait w ?h)) \<subseteq># mset (numbers ?h)"
      by (meson mset_subset_eq_insertD subset_mset.less_imp_le)
    then show ?thesis
      by (intro numbered_mono [OF h]) (simp_all add: abandon_def Let_def Some gate_fields)
  qed (use h in \<open>simp add: abandon_def Let_def\<close>)
qed

lemma numbered_step: "numbered g \<Longrightarrow> numbered (gate_step wide cx e g)"
  by (cases e)
    (auto intro: numbered_ask numbered_settle numbered_answer numbered_end numbered_abandon
      elim: numbered_mono simp: mset_numbers)

section \<open>The protocol of one execution\<close>

text \<open>
  The abstract view of execution \<open>i\<close>: where it stands, without maps, keys and channels. \<open>Absent\<close> is
  before it began and after it was dropped.
\<close>

datatype stage = Absent | Judging | Asking | Told person_answer | Lost | Decided tool_decision

definition slot_stage :: "slot \<Rightarrow> stage" where
  "slot_stage s = (case s of Open \<Rightarrow> Asking | Said a \<Rightarrow> Told a | Hung_Up \<Rightarrow> Lost)"

definition stage_of :: "gate \<Rightarrow> nat \<Rightarrow> stage" where
  "stage_of g i =
     (case map_of (gt_decided g) i of
        Some (r, q, d) \<Rightarrow> Decided d
      | None \<Rightarrow>
          (case find (\<lambda>w. wt_number w = i) (gt_waits g) of
             Some w \<Rightarrow> slot_stage (wt_slot w)
           | None \<Rightarrow> if i \<in> ck_number ` set (gt_checking g) then Judging else Absent))"

inductive stage_step :: "stage \<Rightarrow> stage \<Rightarrow> bool" where
  begins: "stage_step Absent Judging"
| refused: "stage_step Absent (Decided (Deny By_Policy why))"
| passes: "stage_step Judging (Decided (Allow By_Policy None))"
| stops: "stage_step Judging (Decided (Deny By_Policy why))"
| asks: "stage_step Judging Asking"
| person: "stage_step Asking (Told a)"
| replaced: "stage_step Asking Lost"
| expires: "stage_step Asking (Decided (Deny By_Timeout why))"
| allowed: "stage_step (Told Person_Allows) (Decided (Allow By_User n))"
| denied: "stage_step (Told Person_Denies) (Decided (Deny By_User why))"
| gives_up: "stage_step Lost (Decided (Deny By_Timeout why))"
| dropped: "\<forall>d. s \<noteq> Decided d \<Longrightarrow> stage_step s Absent"

inductive_cases stage_step_to_allowed: "stage_step s (Decided (Allow d n))"

text \<open>The slot changes that other executions see.\<close>

lemma stage_drop_sender:
  assumes "gt_decided g' = gt_decided g" and "gt_checking g' = gt_checking g"
    and "gt_waits g' = drop_sender x (gt_waits g)"
  shows "stage_of g' j = stage_of g j \<or> stage_step (stage_of g j) (stage_of g' j)"
  using assms
  by (auto simp: stage_of_def slot_stage_def find_drop_sender intro: stage_step.intros split: option.splits slot.splits)

lemma stage_answer:
  "stage_of (snd (answer_call r call a g)) j = stage_of g j \<or>
   stage_step (stage_of g j) (stage_of (snd (answer_call r call a g)) j)"
  by (auto simp: stage_of_def slot_stage_def answer_call_fields find_set_slot intro: stage_step.intros
      split: option.splits slot.splits)

lemma map_of_None_numbers: "map_of ds i = None \<longleftrightarrow> i \<notin> set (map fst ds)"
  by (simp add: map_of_eq_None_iff)

lemma stage_absent: "i \<notin> set (numbers g) \<Longrightarrow> stage_of g i = Absent"
  by (auto simp: stage_of_def numbers_def map_of_None_numbers [THEN iffD2] find_number_None [THEN iffD2])

lemma stage_judging:
  assumes "numbered g" and "c \<in> set (gt_checking g)"
  shows "stage_of g (ck_number c) = Judging"
proof -
  have "ck_number c \<notin> set (map fst (gt_decided g))" "ck_number c \<notin> set (map wt_number (gt_waits g))"
    using assms by (auto simp: numbered_def numbers_def)
  then show ?thesis
    using assms(2) by (simp add: stage_of_def map_of_None_numbers [THEN iffD2]
        find_number_None [THEN iffD2] del: set_map)
qed

lemma stage_waiting:
  assumes "numbered g" and "w \<in> set (gt_waits g)"
  shows "stage_of g (wt_number w) = slot_stage (wt_slot w)"
proof -
  have "wt_number w \<notin> set (map fst (gt_decided g))" "distinct (map wt_number (gt_waits g))"
    using assms by (auto simp: numbered_def numbers_def)
  then show ?thesis
    using assms(2) by (simp add: stage_of_def map_of_None_numbers [THEN iffD2] find_number_mem del: set_map)
qed

lemma stage_record:
  "stage_of (record_decision i r q d g) j =
     (if j = i \<and> map_of (gt_decided g) i = None then Decided d else stage_of g j)"
  by (auto simp: stage_of_def gate_fields map_add_def split: option.splits)

lemma stage_ask:
  assumes "numbered g"
  shows "stage_of (ask_gate wide r q g) j = stage_of g j \<or>
    stage_step (stage_of g j) (stage_of (ask_gate wide r q g) j)"
proof (cases "j = gt_next g")
  case True
  have new: "gt_next g \<notin> set (numbers g)" using assms by (auto simp: numbered_def)
  then have absent: "stage_of g j = Absent" and undecided: "map_of (gt_decided g) j = None"
    by (auto simp: stage_absent True numbers_def map_of_None_numbers)
  show ?thesis
  proof (cases "policy_section wide (gt_approvals g) q")
    case (Inl d)
    then obtain why where "d = Deny By_Policy why"
      by (auto simp: policy_section_def split: prod.splits if_splits)
    then show ?thesis
      using undecided absent by (simp add: ask_gate_def Let_def Inl stage_record True stage_step.refused)
  next
    case (Inr pa)
    have "find (\<lambda>w. wt_number w = gt_next g) (gt_waits g) = None"
      using new by (auto simp: numbers_def find_number_None)
    then have "stage_of (ask_gate wide r q g) j = Judging"
      using undecided True by (cases pa) (simp add: ask_gate_def Let_def Inr stage_of_def)
    then show ?thesis using absent by (simp add: stage_step.begins)
  qed
next
  case False
  then show ?thesis
    by (auto simp: ask_gate_def Let_def stage_of_def gate_fields map_add_def split: sum.split prod.split option.splits)
qed

text \<open>Taking execution \<open>i\<close> out of the guard's list.\<close>

lemma stage_without_check:
  "stage_of (g\<lparr>gt_checking := filter (\<lambda>c. ck_number c \<noteq> i) (gt_checking g)\<rparr>) j =
     (if j = i \<and> stage_of g i = Judging then Absent else stage_of g j)"
  by (auto simp: stage_of_def slot_stage_def split: option.splits slot.splits)

lemma stage_register:
  assumes "wt_slot w = Open" and "map_of (gt_decided g) (wt_number w) = None"
    and "find (\<lambda>x. wt_number x = wt_number w) (gt_waits g) = None"
  shows "stage_of (register_wait w e g) j =
    (if j = wt_number w then Asking
     else stage_of (g\<lparr>gt_waits := drop_sender (map_of (ap_pending (gt_approvals g)) (wait_key w)) (gt_waits g)\<rparr>) j)"
  using assms
  by (auto simp: stage_of_def gate_fields find_append find_drop_sender slot_stage_def split: option.splits)

lemma stage_settle:
  assumes "numbered g"
  shows "stage_of (settle_check cx i events g) j = stage_of g j \<or>
    stage_step (stage_of g j) (stage_of (settle_check cx i events g) j)"
proof (cases "find (\<lambda>c. ck_number c = i) (gt_checking g)")
  case (Some c)
  then have c: "c \<in> set (gt_checking g)" "ck_number c = i"
    by (auto dest: find_number_SomeD)
  let ?g = "g\<lparr>gt_checking := filter (\<lambda>x. ck_number x \<noteq> i) (gt_checking g)\<rparr>"
  have judging: "stage_of g i = Judging" using stage_judging [OF assms c(1)] c(2) by simp
  have "i \<notin> set (map fst (gt_decided g))" "i \<notin> set (map wt_number (gt_waits g))"
    using assms c by (auto simp: numbered_def numbers_def)
  then have free: "map_of (gt_decided g) i = None" "find (\<lambda>x. wt_number x = i) (gt_waits g) = None"
    by (simp_all add: map_of_None_numbers find_number_None)
  show ?thesis
  proof (cases "run_guard cx events (ck_request c) (ck_guard c)")
    case None
    then show ?thesis
      using judging by (simp add: settle_check_def Some Let_def stage_without_check stage_step.dropped)
  next
    case (Some a)
    show ?thesis
    proof (cases "after_guard (gt_approvals g) (ck_request c) (ck_policy c) (ck_asking c) a")
      case (Inl d)
      then have "d = Allow By_Policy None \<or> (\<exists>why. d = Deny By_Policy why)"
        by (auto simp: after_guard_def Let_def split: if_splits)
      moreover have "settle_check cx i events g = record_decision i (ck_run c) (ck_request c) d ?g"
        by (simp add: settle_check_def \<open>find _ _ = Some c\<close> Let_def Some Inl)
      ultimately show ?thesis
        using judging free by (auto simp: stage_record stage_without_check intro: stage_step.intros)
    next
      case (Inr e)
      let ?w = "\<lparr>wt_number = i, wt_run = ck_run c, wt_request = ck_request c, wt_note = es_note e, wt_slot = Open\<rparr>"
      have "settle_check cx i events g = register_wait ?w e ?g"
        by (simp add: settle_check_def \<open>find _ _ = Some c\<close> Let_def Some Inr)
      moreover have "stage_of (register_wait ?w e ?g) i = Asking"
        using free by (simp add: stage_register)
      moreover have "stage_of (register_wait ?w e ?g) j = stage_of g j \<or>
          stage_step (stage_of g j) (stage_of (register_wait ?w e ?g) j)" if "j \<noteq> i"
        using that free stage_drop_sender [of "?g\<lparr>gt_waits := drop_sender (map_of (ap_pending (gt_approvals g))
            (wait_key ?w)) (gt_waits g)\<rparr>" ?g _ j]
        by (simp add: stage_register stage_without_check)
      ultimately show ?thesis
        using judging by (cases "j = i") (auto intro: stage_step.asks)
    qed
  qed
qed (simp add: settle_check_def)

text \<open>The end of a wait, for its own execution and for the others.\<close>

lemma stage_forget_other:
  assumes "j \<noteq> wt_number w"
  shows "stage_of (forget_wait w g) j = stage_of g j \<or> stage_step (stage_of g j) (stage_of (forget_wait w g) j)"
proof -
  have "stage_of (g\<lparr>gt_waits := filter (\<lambda>x. wt_number x \<noteq> wt_number w) (gt_waits g)\<rparr>) j = stage_of g j"
    using assms by (auto simp: stage_of_def find_other_number split: option.split)
  then show ?thesis
    using stage_drop_sender [of "forget_wait w g"
        "g\<lparr>gt_waits := filter (\<lambda>x. wt_number x \<noteq> wt_number w) (gt_waits g)\<rparr>" _ j]
    by (simp add: gate_fields)
qed

lemma stage_end:
  assumes "numbered g"
  shows "stage_of (end_wait deadline i g) j = stage_of g j \<or>
    stage_step (stage_of g j) (stage_of (end_wait deadline i g) j)"
proof (cases "find (\<lambda>w. wt_number w = i) (gt_waits g)")
  case (Some w)
  then have w: "w \<in> set (gt_waits g)" "wt_number w = i"
    by (auto dest: find_number_SomeD)
  show ?thesis
  proof (cases "j = i \<and> \<not> (wt_slot w = Open \<and> \<not> deadline)")
    case True
    have "i \<notin> set (map fst (gt_decided g))"
      using assms w by (auto simp: numbered_def numbers_def)
    then have "stage_of (end_wait deadline i g) i =
        Decided (decision_of (ap_timeout (gt_approvals g)) w (wt_slot w))"
      using True by (auto simp: end_wait_def Some stage_record gate_fields map_of_None_numbers)
    moreover have "stage_of g i = slot_stage (wt_slot w)"
      using stage_waiting [OF assms w(1)] w(2) by simp
    ultimately show ?thesis
      using True by (auto simp: slot_stage_def decision_of_def intro: stage_step.intros
          split: slot.splits person_answer.splits)
  next
    case False
    then show ?thesis
      using stage_forget_other [of j w g] w(2)
      by (auto simp: end_wait_def Some stage_record)
  qed
qed (simp add: end_wait_def)

lemma stage_abandon:
  assumes "numbered g"
  shows "stage_of (abandon i g) j = stage_of g j \<or> stage_step (stage_of g j) (stage_of (abandon i g) j)"
proof -
  let ?g = "g\<lparr>gt_checking := filter (\<lambda>c. ck_number c \<noteq> i) (gt_checking g)\<rparr>"
  show ?thesis
  proof (cases "find (\<lambda>w. wt_number w = i) (gt_waits g)")
    case None
    then show ?thesis
      by (auto simp: abandon_def Let_def stage_without_check intro: stage_step.dropped)
  next
    case (Some w)
    then have w: "w \<in> set (gt_waits g)" "wt_number w = i"
      by (auto dest: find_number_SomeD)
    have ab: "abandon i g = forget_wait w ?g" by (simp add: abandon_def Let_def Some)
    have "stage_of g i = slot_stage (wt_slot w)"
      using stage_waiting [OF assms w(1)] w(2) by simp
    then have same: "stage_of ?g j = stage_of g j" for j
      by (auto simp: stage_without_check slot_stage_def split: slot.splits)
    show ?thesis
    proof (cases "j = i")
      case True
      have "i \<notin> set (map fst (gt_decided g))"
        using assms w by (auto simp: numbered_def numbers_def)
      then have "stage_of (abandon i g) i = Absent"
        using w(2) by (auto simp: ab stage_of_def gate_fields map_of_None_numbers [THEN iffD2]
            find_drop_sender find_other_number simp del: set_map)
      then show ?thesis
        using True \<open>stage_of g i = _\<close>
        by (auto simp: slot_stage_def intro!: stage_step.dropped split: slot.splits)
    next
      case False
      then show ?thesis
        using stage_forget_other [of j w ?g] w(2) by (simp add: ab same)
    qed
  qed
qed

lemma stage_of_approvals [simp]: "stage_of (g\<lparr>gt_approvals := ap\<rparr>) i = stage_of g i"
  by (auto simp: stage_of_def split: option.split)

text \<open>C11. The gate implements, for every execution of \<open>decide\<close>, the protocol of \<open>stage_step\<close>: whatever
  happens to the gate, and however the executions interleave over the shared maps, an execution either stays
  where it is or takes one step of its own protocol; a decision, once taken, never changes.\<close>

theorem gate_refines_protocol:
  assumes "numbered g"
  shows "stage_of (gate_step wide cx e g) i = stage_of g i \<or>
    stage_step (stage_of g i) (stage_of (gate_step wide cx e g) i)"
  using assms stage_ask stage_settle stage_answer stage_end stage_abandon by (cases e) auto

section \<open>The shared maps\<close>

definition maps_agree :: "gate \<Rightarrow> bool" where
  "maps_agree g \<longleftrightarrow>
     (\<forall>k i. map_of (ap_pending (gt_approvals g)) k = Some i \<longrightarrow>
        (\<exists>w \<in> set (gt_waits g). wt_number w = i \<and> wait_key w = k \<and> wt_slot w = Open)) \<and>
     (\<forall>w \<in> set (gt_waits g). wt_slot w = Open \<longrightarrow>
        map_of (ap_pending (gt_approvals g)) (wait_key w) = Some (wt_number w) \<and>
        map_option es_note (map_of (ap_escalations (gt_approvals g)) (wait_key w)) = Some (wt_note w)) \<and>
     (\<forall>k. map_of (ap_escalations (gt_approvals g)) k \<noteq> None \<longrightarrow> k \<in> wait_key ` set (gt_waits g))"

lemma maps_agreeD:
  assumes "maps_agree g"
  shows maps_pendingD: "map_of (ap_pending (gt_approvals g)) k = Some i \<Longrightarrow>
      \<exists>w \<in> set (gt_waits g). wt_number w = i \<and> wait_key w = k \<and> wt_slot w = Open"
    and maps_openD: "w \<in> set (gt_waits g) \<Longrightarrow> wt_slot w = Open \<Longrightarrow>
      map_of (ap_pending (gt_approvals g)) (wait_key w) = Some (wt_number w) \<and>
      map_option es_note (map_of (ap_escalations (gt_approvals g)) (wait_key w)) = Some (wt_note w)"
    and maps_escalationD: "map_of (ap_escalations (gt_approvals g)) k = Some e \<Longrightarrow> k \<in> wait_key ` set (gt_waits g)"
  using assms unfolding maps_agree_def by blast+

lemma same_number_same_wait:
  "numbered g \<Longrightarrow> v \<in> set (gt_waits g) \<Longrightarrow> w \<in> set (gt_waits g) \<Longrightarrow> wt_number v = wt_number w \<Longrightarrow> v = w"
  by (auto simp: numbered_def numbers_def distinct_map inj_on_def)

lemma wait_key_slot [simp]: "wait_key (v\<lparr>wt_slot := s\<rparr>) = wait_key v"
  by (simp add: wait_key_def)

text \<open>What a change of the slot with number \<open>i\<close> keeps, and what stays open.\<close>

lemma in_set_slotI: "v \<in> set ws \<Longrightarrow> wt_number v \<noteq> i \<Longrightarrow> v \<in> set (set_slot i s ws)"
  by (force simp: set_slot_def image_iff)

lemma in_set_slot_open:
  "w \<in> set (set_slot i s ws) \<Longrightarrow> wt_slot w = Open \<Longrightarrow> s \<noteq> Open \<Longrightarrow> w \<in> set ws \<and> wt_number w \<noteq> i"
  by (auto simp: set_slot_def split: if_splits)

lemma set_slot_keys: "wait_key ` set (set_slot i s ws) = wait_key ` set ws"
  unfolding set_slot_def set_map image_image by (rule image_cong) auto

lemma in_drop_senderI: "v \<in> set ws \<Longrightarrow> x \<noteq> Some (wt_number v) \<Longrightarrow> v \<in> set (drop_sender x ws)"
  by (cases x) (auto simp: drop_sender_def intro: in_set_slotI)

lemma in_drop_sender_open:
  "w \<in> set (drop_sender x ws) \<Longrightarrow> wt_slot w = Open \<Longrightarrow> w \<in> set ws \<and> x \<noteq> Some (wt_number w)"
  by (cases x) (auto simp: drop_sender_def dest: in_set_slot_open)

lemma drop_sender_keys: "wait_key ` set (drop_sender x ws) = wait_key ` set ws"
  by (simp add: drop_sender_def set_slot_keys split: option.split)

text \<open>The number pending under a key belongs to the one open wait with that key.\<close>

lemma pending_owner:
  assumes "numbered g" and "maps_agree g" and "v \<in> set (gt_waits g)"
    and "map_of (ap_pending (gt_approvals g)) k = Some (wt_number v)"
  shows "wait_key v = k \<and> wt_slot v = Open"
  using maps_pendingD [OF assms(2,4)] same_number_same_wait [OF assms(1,3)] by metis

lemma maps_agree_register:
  assumes g: "numbered g" "maps_agree g" and w: "wt_slot w = Open" "wt_note w = es_note e"
    and fresh: "wt_number w \<notin> wt_number ` set (gt_waits g)"
  shows "maps_agree (register_wait w e g)"
proof -
  let ?pending = "ap_pending (gt_approvals g)" and ?k = "wait_key w"
  let ?old = "drop_sender (map_of ?pending ?k) (gt_waits g)"
  have kept: "v \<in> set ?old" if "v \<in> set (gt_waits g)" "wt_slot v = Open" "wait_key v \<noteq> ?k" for v
    using that pending_owner [OF g that(1), of ?k] by (auto intro: in_drop_senderI)
  have opened: "v \<in> set (gt_waits g) \<and> wait_key v \<noteq> ?k" if "v \<in> set ?old" "wt_slot v = Open" for v
    using in_drop_sender_open [OF that] maps_openD [OF g(2), of v] that(2) by auto
  have keys: "wait_key ` set ?old = wait_key ` set (gt_waits g)"
    by (rule drop_sender_keys)
  show ?thesis
    unfolding maps_agree_def gate_fields
  proof (intro conjI allI impI ballI)
    fix k i
    assume "map_of (ap_pending (gt_approvals (register_wait w e g))) k = Some i"
    then have "if k = ?k then i = wt_number w else map_of ?pending k = Some i"
      by (auto simp: register_wait_def Let_def map_of_bt_insert split: if_splits)
    then show "\<exists>v \<in> set (?old @ [w]). wt_number v = i \<and> wait_key v = k \<and> wt_slot v = Open"
      using w(1) kept maps_pendingD [OF g(2), of k i] by (cases "k = ?k") auto
  next
    fix v
    assume v: "v \<in> set (?old @ [w])" "wt_slot v = Open"
    then have "v = w \<or> v \<in> set (gt_waits g) \<and> wait_key v \<noteq> ?k" using opened by auto
    then show "map_of (ap_pending (gt_approvals (register_wait w e g))) (wait_key v) = Some (wt_number v)"
        "map_option es_note (map_of (ap_escalations (gt_approvals (register_wait w e g))) (wait_key v)) =
           Some (wt_note v)"
      using maps_openD [OF g(2), of v] v(2) w(2)
      by (auto simp: register_wait_def Let_def map_of_bt_insert)
  next
    fix k
    assume "map_of (ap_escalations (gt_approvals (register_wait w e g))) k \<noteq> None"
    then have "k = ?k \<or> map_of (ap_escalations (gt_approvals g)) k \<noteq> None"
      by (auto simp: register_wait_def Let_def map_of_bt_insert split: if_splits)
    then show "k \<in> wait_key ` set (?old @ [w])"
      using maps_escalationD [OF g(2), of k] keys by auto
  qed
qed

lemma maps_agree_forget:
  assumes g: "numbered g" "maps_agree g" and w: "w \<in> set (gt_waits g)"
  shows "maps_agree (forget_wait w g)"
proof -
  let ?pending = "ap_pending (gt_approvals g)" and ?k = "wait_key w"
  let ?others = "filter (\<lambda>x. wt_number x \<noteq> wt_number w) (gt_waits g)"
  let ?left = "drop_sender (map_of ?pending ?k) ?others"
  have kept: "v \<in> set ?left" if "v \<in> set (gt_waits g)" "wt_slot v = Open" "wait_key v \<noteq> ?k" for v
    using that pending_owner [OF g that(1), of ?k] same_number_same_wait [OF g(1) that(1) w]
    by (intro in_drop_senderI) auto
  have opened: "v \<in> set (gt_waits g) \<and> wait_key v \<noteq> ?k" if "v \<in> set ?left" "wt_slot v = Open" for v
    using in_drop_sender_open [OF that] maps_openD [OF g(2), of v] that(2) by auto
  have keys: "k \<in> wait_key ` set ?left" if "k \<in> wait_key ` set (gt_waits g)" "k \<noteq> ?k" for k
  proof -
    from that(1) obtain v where v: "v \<in> set (gt_waits g)" "k = wait_key v" by auto
    then have "v \<in> set ?others" using that(2) same_number_same_wait [OF g(1) v(1) w] by auto
    then show ?thesis using v(2) by (auto simp: drop_sender_keys)
  qed
  show ?thesis
    unfolding maps_agree_def gate_fields
  proof (intro conjI allI impI ballI)
    fix k i
    assume "map_of (ap_pending (gt_approvals (forget_wait w g))) k = Some i"
    then have "k \<noteq> ?k \<and> map_of ?pending k = Some i"
      by (auto simp: forget_wait_def Let_def map_of_bt_remove split: if_splits)
    then show "\<exists>v \<in> set ?left. wt_number v = i \<and> wait_key v = k \<and> wt_slot v = Open"
      using kept maps_pendingD [OF g(2), of k i] by blast
  next
    fix v
    assume v: "v \<in> set ?left" "wt_slot v = Open"
    then show "map_of (ap_pending (gt_approvals (forget_wait w g))) (wait_key v) = Some (wt_number v)"
        "map_option es_note (map_of (ap_escalations (gt_approvals (forget_wait w g))) (wait_key v)) =
           Some (wt_note v)"
      using opened [OF v] maps_openD [OF g(2), of v]
      by (auto simp: forget_wait_def Let_def map_of_bt_remove)
  next
    fix k
    assume "map_of (ap_escalations (gt_approvals (forget_wait w g))) k \<noteq> None"
    then have "k \<noteq> ?k \<and> map_of (ap_escalations (gt_approvals g)) k \<noteq> None"
      by (auto simp: forget_wait_def Let_def map_of_bt_remove split: if_splits)
    then show "k \<in> wait_key ` set ?left"
      using maps_escalationD [OF g(2), of k] keys [of k] by blast
  qed
qed

lemma maps_agree_answer:
  assumes g: "numbered g" "maps_agree g"
  shows "maps_agree (snd (answer_call r call a g))"
proof (cases "map_of (ap_pending (gt_approvals g)) (r, call)")
  case None
  then have "bt_remove (r, call) (ap_pending (gt_approvals g)) = ap_pending (gt_approvals g)"
    by (auto simp: bt_remove_def map_of_eq_None_iff image_iff intro!: filter_True)
  then show ?thesis using g(2) None by (simp add: answer_call_def)
next
  case (Some i)
  let ?ws = "set_slot i (Said a) (gt_waits g)"
  have kept: "v \<in> set ?ws" if "v \<in> set (gt_waits g)" "wait_key v \<noteq> (r, call)" for v
    using that pending_owner [OF g that(1), of "(r, call)"] Some by (auto intro: in_set_slotI)
  have opened: "v \<in> set (gt_waits g) \<and> wait_key v \<noteq> (r, call)" if "v \<in> set ?ws" "wt_slot v = Open" for v
    using in_set_slot_open [OF that] maps_openD [OF g(2), of v] that(2) Some by auto
  have f: "gt_waits (snd (answer_call r call a g)) = ?ws"
      "ap_escalations (gt_approvals (snd (answer_call r call a g))) = ap_escalations (gt_approvals g)"
      "map_of (ap_pending (gt_approvals (snd (answer_call r call a g)))) =
        (map_of (ap_pending (gt_approvals g)))((r, call) := None)"
    by (simp_all add: answer_call_def Some Let_def map_of_bt_remove)
  show ?thesis
    unfolding maps_agree_def f set_slot_keys
  proof (intro conjI allI impI ballI)
    fix k j
    assume "((map_of (ap_pending (gt_approvals g)))((r, call) := None)) k = Some j"
    then have "k \<noteq> (r, call)" "map_of (ap_pending (gt_approvals g)) k = Some j"
      by (simp_all split: if_splits)
    then show "\<exists>w \<in> set ?ws. wt_number w = j \<and> wait_key w = k \<and> wt_slot w = Open"
      using kept maps_pendingD [OF g(2)] by blast
  next
    fix v
    assume v: "v \<in> set ?ws" "wt_slot v = Open"
    then show "((map_of (ap_pending (gt_approvals g)))((r, call) := None)) (wait_key v) = Some (wt_number v)"
        "map_option es_note (map_of (ap_escalations (gt_approvals g)) (wait_key v)) = Some (wt_note v)"
      using opened [OF v] maps_openD [OF g(2), of v] by simp_all
  next
    fix k
    assume "map_of (ap_escalations (gt_approvals g)) k \<noteq> None"
    then show "k \<in> wait_key ` set (gt_waits g)"
      using maps_escalationD [OF g(2)] by blast
  qed
qed

lemma maps_agree_frame:
  assumes "maps_agree g" and "gt_waits g' = gt_waits g"
    and "ap_pending (gt_approvals g') = ap_pending (gt_approvals g)"
    and "ap_escalations (gt_approvals g') = ap_escalations (gt_approvals g)"
  shows "maps_agree g'"
  using assms by (simp add: maps_agree_def)

lemma numbered_without_check:
  "numbered g \<Longrightarrow> numbered (g\<lparr>gt_checking := filter P (gt_checking g)\<rparr>)"
  using mset_without_le [of ck_number P "gt_checking g"]
  by (erule_tac numbered_mono) (simp_all add: mset_numbers del: mset_map mset_filter)

lemma maps_agree_ask: "maps_agree g \<Longrightarrow> maps_agree (ask_gate wide r q g)"
  by (erule maps_agree_frame)
    (auto simp: ask_gate_def Let_def gate_fields split: sum.split prod.split)

lemma maps_agree_settle:
  assumes "numbered g" and "maps_agree g"
  shows "maps_agree (settle_check cx i events g)"
proof (cases "find (\<lambda>c. ck_number c = i) (gt_checking g)")
  case (Some c)
  let ?g = "g\<lparr>gt_checking := filter (\<lambda>x. ck_number x \<noteq> i) (gt_checking g)\<rparr>"
  from Some have c: "c \<in> set (gt_checking g)" "ck_number c = i"
    by (auto dest: find_number_SomeD)
  then have "i \<notin> set (map wt_number (gt_waits g))"
    using assms(1) by (auto simp: numbered_def numbers_def)
  moreover have "numbered ?g" "maps_agree ?g"
    using numbered_without_check [OF assms(1)] assms(2) by (simp_all add: maps_agree_frame)
  ultimately have "maps_agree (register_wait \<lparr>wt_number = i, wt_run = ck_run c, wt_request = ck_request c,
      wt_note = es_note e, wt_slot = Open\<rparr> e ?g)" for e
    by (intro maps_agree_register) auto
  then show ?thesis
    using \<open>maps_agree ?g\<close> by (auto simp: settle_check_def Some Let_def gate_fields
        intro: maps_agree_frame split: option.split sum.split)
qed (simp add: settle_check_def assms)

lemma maps_agree_end:
  assumes "numbered g" and "maps_agree g"
  shows "maps_agree (end_wait deadline i g)"
proof (cases "find (\<lambda>w. wt_number w = i) (gt_waits g)")
  case (Some w)
  then have "w \<in> set (gt_waits g)" by (auto dest: find_number_SomeD)
  from maps_agree_forget [OF assms this] show ?thesis
    using assms(2) by (auto simp: end_wait_def Some gate_fields intro: maps_agree_frame)
qed (simp add: end_wait_def assms)

lemma maps_agree_abandon:
  assumes "numbered g" and "maps_agree g"
  shows "maps_agree (abandon i g)"
proof -
  let ?g = "g\<lparr>gt_checking := filter (\<lambda>c. ck_number c \<noteq> i) (gt_checking g)\<rparr>"
  have g: "numbered ?g" "maps_agree ?g"
    using numbered_without_check [OF assms(1)] assms(2) by (simp_all add: maps_agree_frame)
  show ?thesis
  proof (cases "find (\<lambda>w. wt_number w = i) (gt_waits g)")
    case (Some w)
    then have "w \<in> set (gt_waits ?g)" by (auto dest: find_number_SomeD)
    from maps_agree_forget [OF g this] show ?thesis by (simp add: abandon_def Let_def Some)
  qed (use g in \<open>simp add: abandon_def Let_def\<close>)
qed

lemma maps_agree_step: "numbered g \<Longrightarrow> maps_agree g \<Longrightarrow> maps_agree (gate_step wide cx e g)"
  by (cases e)
    (auto intro: maps_agree_ask maps_agree_settle maps_agree_answer maps_agree_end maps_agree_abandon
      elim: maps_agree_frame simp: set_tools_def Let_def)

lemma gate_run_snoc: "gate_run wide cx (es @ [e]) g = gate_step wide cx e (gate_run wide cx es g)"
  by (simp add: gate_run_def)

lemma new_gate_ok: "numbered (new_gate d)" "maps_agree (new_gate d)"
  by (simp_all add: new_gate_def numbered_def numbers_def maps_agree_def new_approvals_def)

lemma gate_run_ok:
  "numbered (gate_run wide cx es (new_gate d)) \<and> maps_agree (gate_run wide cx es (new_gate d))"
  by (induction es rule: rev_induct)
    (simp_all add: gate_run_def new_gate_ok numbered_step maps_agree_step)

text \<open>C12. The maps that other parts of the program look at tell the truth at every moment: a call is pending
  exactly when an execution waits for it with nobody's answer yet, the reason shown for it is that
  execution's own, an answer is taken exactly when the call is pending, and no reason outlives the waits.\<close>

theorem pending_is_waiting:
  "let g = gate_run wide cx es (new_gate d); ap = gt_approvals g
   in (is_pending ap r call \<longleftrightarrow> (\<exists>w \<in> set (gt_waits g). wait_key w = (r, call) \<and> wt_slot w = Open)) \<and>
      (fst (answer_call r call a g) \<longleftrightarrow> is_pending ap r call) \<and>
      list_all (\<lambda>w. pending_note ap (wt_run w) (tq_call (wt_request w)) = wt_note w)
        (filter (\<lambda>w. wt_slot w = Open) (gt_waits g)) \<and>
      (pending_escalation ap r call = None \<or> (r, call) \<in> wait_key ` set (gt_waits g))"
proof -
  let ?g = "gate_run wide cx es (new_gate d)"
  have ok: "maps_agree ?g" by (simp add: gate_run_ok)
  have pending: "is_pending (gt_approvals ?g) r call \<longleftrightarrow>
      (\<exists>w \<in> set (gt_waits ?g). wait_key w = (r, call) \<and> wt_slot w = Open)"
    using maps_pendingD [OF ok, of "(r, call)"] maps_openD [OF ok] by (force simp: is_pending_def)
  moreover have "fst (answer_call r call a ?g) \<longleftrightarrow> is_pending (gt_approvals ?g) r call"
  proof (cases "map_of (ap_pending (gt_approvals ?g)) (r, call)")
    case (Some i)
    from maps_pendingD [OF ok this] Some show ?thesis
      by (auto simp: answer_call_def is_pending_def list_ex_iff Let_def)
  qed (simp add: answer_call_def is_pending_def Let_def)
  moreover have "list_all (\<lambda>w. pending_note (gt_approvals ?g) (wt_run w) (tq_call (wt_request w)) = wt_note w)
      (filter (\<lambda>w. wt_slot w = Open) (gt_waits ?g))"
  proof (unfold list_all_iff, rule ballI)
    fix w
    assume "w \<in> set (filter (\<lambda>w. wt_slot w = Open) (gt_waits ?g))"
    with maps_openD [OF ok, of w]
    show "pending_note (gt_approvals ?g) (wt_run w) (tq_call (wt_request w)) = wt_note w"
      by (auto simp: pending_note_def pending_escalation_def wait_key_def)
  qed
  moreover have "pending_escalation (gt_approvals ?g) r call = None \<or> (r, call) \<in> wait_key ` set (gt_waits ?g)"
    using maps_escalationD [OF ok, of "(r, call)"] by (cases "pending_escalation (gt_approvals ?g) r call")
      (auto simp: pending_escalation_def)
  ultimately show ?thesis by (simp add: Let_def)
qed

end
