(* ===== verification/Gate_Safety.thy ===== *)
theory Gate_Safety
  imports Gate_Behaviour
begin

text \<open>
  Why the gate ever allows a call, and that every wait ends: the history of a gate explains each decision
  it has taken.
\<close>

section \<open>Effective policies\<close>

lemma foldl_weigh_named:
  "foldl (weigh_named pol) (p, off, asking) ns = (p', off', asking') \<Longrightarrow>
   (p' = Policy_Off \<longleftrightarrow> p = Policy_Off \<or> (\<exists>n \<in> set ns. pol n = Policy_Off)) \<and>
   (p' = Policy_Allow \<longleftrightarrow> p = Policy_Allow \<and> (\<forall>n \<in> set ns. pol n = Policy_Allow)) \<and>
   off' = (case off of Some n \<Rightarrow> Some n | None \<Rightarrow> find (\<lambda>n. pol n = Policy_Off) ns) \<and>
   asking' = asking @ filter (\<lambda>n. pol n = Policy_Ask) ns"
proof (induction ns arbitrary: p off asking)
  case (Cons n ns)
  obtain p1 off1 asking1 where 1: "weigh_named pol (p, off, asking) n = (p1, off1, asking1)"
    by (metis prod_cases3)
  with Cons.prems have "foldl (weigh_named pol) (p1, off1, asking1) ns = (p', off', asking')" by simp
  note IH = Cons.IH [OF this]
  have "(p1 = Policy_Off \<longleftrightarrow> p = Policy_Off \<or> pol n = Policy_Off) \<and>
      (p1 = Policy_Allow \<longleftrightarrow> p = Policy_Allow \<and> pol n = Policy_Allow) \<and>
      off1 = (if pol n = Policy_Off \<and> off = None then Some n else off) \<and>
      asking1 = (if pol n = Policy_Ask then asking @ [n] else asking)"
    using 1 by (cases p; cases "pol n") (auto simp: weigh_named_def)
  with IH show ?case by (cases off) auto
qed (auto split: option.split)

text \<open>The tools a request stands for: its own and those its arguments name.\<close>

definition tools_of :: "(string \<Rightarrow> bool) \<Rightarrow> approvals \<Rightarrow> tool_request \<Rightarrow> string list" where
  "tools_of wide ap q = tq_name q # named_tools wide q (map fst (ap_tools ap))"

lemma effective_policy_spec:
  assumes "effective_policy wide ap q = (p, off, asking)"
  shows "p = Policy_Off \<longleftrightarrow> (\<exists>n \<in> set (tools_of wide ap q). config_policy_of (ap_config ap) n = Policy_Off)"
    and "p = Policy_Allow \<longleftrightarrow> (\<forall>n \<in> set (tools_of wide ap q). config_policy_of (ap_config ap) n = Policy_Allow)"
    and "asking = filter (\<lambda>n. config_policy_of (ap_config ap) n = Policy_Ask)
      (named_tools wide q (map fst (ap_tools ap)))"
  using foldl_weigh_named [OF assms [unfolded effective_policy_def Let_def]]
  by (auto simp: tools_of_def)

lemma policy_section_Inr:
  assumes "policy_section wide ap q = Inr (p, asking)"
  shows "\<forall>n \<in> set (tools_of wide ap q). config_policy_of (ap_config ap) n \<noteq> Policy_Off"
    and "p = Policy_Allow \<Longrightarrow>
      \<forall>n \<in> set (tools_of wide ap q). config_policy_of (ap_config ap) n = Policy_Allow"
proof -
  obtain p' off asking' where e: "effective_policy wide ap q = (p', off, asking')"
    by (metis prod_cases3)
  with assms have "p' \<noteq> Policy_Off" "p' = p"
    by (auto simp: policy_section_def split: if_splits)
  with effective_policy_spec [OF e]
  show "\<forall>n \<in> set (tools_of wide ap q). config_policy_of (ap_config ap) n \<noteq> Policy_Off"
    and "p = Policy_Allow \<Longrightarrow>
      \<forall>n \<in> set (tools_of wide ap q). config_policy_of (ap_config ap) n = Policy_Allow"
    by auto
qed

section \<open>The history behind a decision\<close>

text \<open>In history \<open>es\<close>, request \<open>q\<close> of run \<open>r\<close> was put to the gate before the events \<open>later\<close>, and passed the
  policies with \<open>p\<close> and \<open>asking\<close>; \<open>gs\<close> is the guard it was then given to.\<close>

definition begun ::
  "(string \<Rightarrow> bool) \<Rightarrow> codec \<Rightarrow> gate \<Rightarrow> gate_event list \<Rightarrow> gate_event list \<Rightarrow> run_id \<Rightarrow> tool_request \<Rightarrow>
   policy \<Rightarrow> string list \<Rightarrow> (guard \<times> string \<times> f64) option \<Rightarrow> bool" where
  "begun wide cx g0 es later r q p asking gs \<longleftrightarrow>
     (\<exists>earlier. es = earlier @ Ask r q # later \<and>
        policy_section wide (gt_approvals (gate_run wide cx earlier g0)) q = Inr (p, asking) \<and>
        guard_section (gt_approvals (gate_run wide cx earlier g0)) q = gs)"

lemma begun_snoc:
  "begun wide cx g0 es later r q p asking gs \<Longrightarrow> begun wide cx g0 (es @ [e]) (later @ [e]) r q p asking gs"
  by (auto simp: begun_def)

text \<open>Why a call may be allowed.\<close>

definition justified ::
  "(string \<Rightarrow> bool) \<Rightarrow> codec \<Rightarrow> gate \<Rightarrow> gate_event list \<Rightarrow> run_id \<Rightarrow> tool_request \<Rightarrow> tool_decider \<Rightarrow> bool" where
  "justified wide cx g0 es r q d \<longleftrightarrow>
     (\<exists>later p asking gs. begun wide cx g0 es later r q p asking gs \<and>
        (d = By_Policy \<and> p = Policy_Allow \<and> asking = [] \<and>
           (\<exists>events a. run_guard cx events q gs = Some a \<and> concern a = None) \<or>
         d = By_User \<and> Person r (tq_call q) Person_Allows \<in> set later))"

lemma justified_snoc: "justified wide cx g0 es r q d \<Longrightarrow> justified wide cx g0 (es @ [e]) r q d"
proof -
  assume "justified wide cx g0 es r q d"
  then obtain later p asking gs where "begun wide cx g0 es later r q p asking gs"
      and why: "d = By_Policy \<and> p = Policy_Allow \<and> asking = [] \<and>
           (\<exists>events a. run_guard cx events q gs = Some a \<and> concern a = None) \<or>
         d = By_User \<and> Person r (tq_call q) Person_Allows \<in> set later"
    unfolding justified_def by blast
  from begun_snoc [OF this(1), of e] why show ?thesis
    unfolding justified_def
    by (intro exI [of _ "later @ [e]"] exI [of _ p] exI [of _ asking] exI [of _ gs] conjI) auto
qed

text \<open>Everything in a gate comes from its history.\<close>

definition check_explained ::
  "(string \<Rightarrow> bool) \<Rightarrow> codec \<Rightarrow> gate \<Rightarrow> gate_event list \<Rightarrow> gate_check \<Rightarrow> bool" where
  "check_explained wide cx g0 es c \<longleftrightarrow>
     (\<exists>later. begun wide cx g0 es later (ck_run c) (ck_request c) (ck_policy c) (ck_asking c) (ck_guard c))"

definition wait_explained :: "(string \<Rightarrow> bool) \<Rightarrow> codec \<Rightarrow> gate \<Rightarrow> gate_event list \<Rightarrow> wait \<Rightarrow> bool" where
  "wait_explained wide cx g0 es w \<longleftrightarrow>
     (\<exists>later p asking gs. begun wide cx g0 es later (wt_run w) (wt_request w) p asking gs \<and>
        (wt_slot w = Said Person_Allows \<longrightarrow>
           Person (wt_run w) (tq_call (wt_request w)) Person_Allows \<in> set later))"

definition decision_explained ::
  "(string \<Rightarrow> bool) \<Rightarrow> codec \<Rightarrow> gate \<Rightarrow> gate_event list \<Rightarrow> nat \<times> run_id \<times> tool_request \<times> tool_decision \<Rightarrow> bool" where
  "decision_explained wide cx g0 es x \<longleftrightarrow>
     (case x of (i, r, q, Allow d n) \<Rightarrow> justified wide cx g0 es r q d | _ \<Rightarrow> True)"

definition explained :: "(string \<Rightarrow> bool) \<Rightarrow> codec \<Rightarrow> gate \<Rightarrow> gate_event list \<Rightarrow> gate \<Rightarrow> bool" where
  "explained wide cx g0 es g \<longleftrightarrow>
     (\<forall>c \<in> set (gt_checking g). check_explained wide cx g0 es c) \<and>
     (\<forall>w \<in> set (gt_waits g). wait_explained wide cx g0 es w) \<and>
     (\<forall>x \<in> set (gt_decided g). decision_explained wide cx g0 es x)"

lemma check_explained_snoc: "check_explained wide cx g0 es c \<Longrightarrow> check_explained wide cx g0 (es @ [e]) c"
  by (auto simp: check_explained_def dest: begun_snoc)

lemma wait_explained_snoc: "wait_explained wide cx g0 es w \<Longrightarrow> wait_explained wide cx g0 (es @ [e]) w"
proof -
  assume "wait_explained wide cx g0 es w"
  then obtain later p asking gs where "begun wide cx g0 es later (wt_run w) (wt_request w) p asking gs"
      and why: "wt_slot w = Said Person_Allows \<longrightarrow>
         Person (wt_run w) (tq_call (wt_request w)) Person_Allows \<in> set later"
    unfolding wait_explained_def by blast
  from begun_snoc [OF this(1), of e] why show ?thesis
    unfolding wait_explained_def
    by (intro exI [of _ "later @ [e]"] exI [of _ p] exI [of _ asking] exI [of _ gs] conjI) auto
qed

lemma decision_explained_snoc:
  "decision_explained wide cx g0 es x \<Longrightarrow> decision_explained wide cx g0 (es @ [e]) x"
  by (auto simp: decision_explained_def split: tool_decision.splits intro: justified_snoc)

lemma explained_snoc: "explained wide cx g0 es g \<Longrightarrow> explained wide cx g0 (es @ [e]) g"
  by (auto simp: explained_def intro: check_explained_snoc wait_explained_snoc decision_explained_snoc)

text \<open>Waits whose slot closed without a person's consent need no new explanation.\<close>

lemma wait_explained_slot:
  "wait_explained wide cx g0 es w \<Longrightarrow> s \<noteq> Said Person_Allows \<Longrightarrow> wait_explained wide cx g0 es (w\<lparr>wt_slot := s\<rparr>)"
  by (auto simp: wait_explained_def)

lemma explained_drop_sender:
  "\<forall>w \<in> set ws. wait_explained wide cx g0 es w \<Longrightarrow> w \<in> set (drop_sender x ws) \<Longrightarrow> wait_explained wide cx g0 es w"
  by (cases x) (auto simp: drop_sender_def set_slot_def wait_explained_slot)

lemma explained_ask:
  assumes "explained wide cx g0 es g" and "g = gate_run wide cx es g0"
  shows "explained wide cx g0 (es @ [Ask r q]) (ask_gate wide r q g)"
proof (cases "policy_section wide (gt_approvals g) q")
  case (Inl d)
  then have "\<forall>x n. d \<noteq> Allow x n" by (auto simp: policy_section_def split: prod.splits if_splits)
  then have "decision_explained wide cx g0 es' (i, r, q, d)" for es' i
    by (auto simp: decision_explained_def split: tool_decision.split)
  then show ?thesis
    using explained_snoc [OF assms(1), of "Ask r q"]
    by (simp add: ask_gate_def Let_def Inl explained_def gate_fields)
next
  case (Inr pa)
  obtain p asking where pa: "pa = (p, asking)" by force
  have "begun wide cx g0 (es @ [Ask r q]) [] r q p asking (guard_section (gt_approvals g) q)"
    using Inr assms(2) pa by (simp add: begun_def)
  then show ?thesis
    using explained_snoc [OF assms(1), of "Ask r q"] pa
    by (auto simp: ask_gate_def Let_def Inr explained_def check_explained_def)
qed

lemma explained_forget: "explained wide cx g0 es g \<Longrightarrow> explained wide cx g0 es (forget_wait w g)"
  by (auto simp: explained_def gate_fields elim!: explained_drop_sender [rotated])

lemma explained_settle:
  assumes "explained wide cx g0 es g"
  shows "explained wide cx g0 es (settle_check cx i events g)"
proof (cases "find (\<lambda>c. ck_number c = i) (gt_checking g)")
  case (Some c)
  let ?g = "g\<lparr>gt_checking := filter (\<lambda>x. ck_number x \<noteq> i) (gt_checking g)\<rparr>"
  from Some have "c \<in> set (gt_checking g)" by (auto dest: find_number_SomeD)
  with assms obtain later
    where begun: "begun wide cx g0 es later (ck_run c) (ck_request c) (ck_policy c) (ck_asking c) (ck_guard c)"
    by (auto simp: explained_def check_explained_def)
  have g: "explained wide cx g0 es ?g" using assms by (auto simp: explained_def)
  show ?thesis
  proof (cases "run_guard cx events (ck_request c) (ck_guard c)")
    case None
    with g show ?thesis by (simp add: settle_check_def Some Let_def)
  next
    case guard: (Some a)
    show ?thesis
    proof (cases "after_guard (gt_approvals g) (ck_request c) (ck_policy c) (ck_asking c) a")
      case (Inl d)
      have "decision_explained wide cx g0 es (i, ck_run c, ck_request c, d)"
      proof (cases d)
        case (Allow x n)
        with Inl have "x = By_Policy" "ck_policy c = Policy_Allow" "concerns_of (ck_asking c) a = []"
          by (auto simp: after_guard_def Let_def split: if_splits)
        then have "ck_asking c = []" "concern a = None"
          by (auto simp: concerns_of_def split: if_splits option.splits)
        with begun guard \<open>x = By_Policy\<close> \<open>ck_policy c = Policy_Allow\<close>
        have "justified wide cx g0 es (ck_run c) (ck_request c) x"
          unfolding justified_def by blast
        then show ?thesis by (simp add: decision_explained_def Allow)
      qed (simp add: decision_explained_def)
      with g show ?thesis
        by (simp add: settle_check_def Some Let_def guard Inl explained_def gate_fields)
    next
      case (Inr e)
      have "wait_explained wide cx g0 es \<lparr>wt_number = i, wt_run = ck_run c, wt_request = ck_request c,
          wt_note = es_note e, wt_slot = Open\<rparr>"
        using begun by (auto simp: wait_explained_def)
      with g show ?thesis
        by (auto simp: settle_check_def Some Let_def guard Inr explained_def gate_fields
            elim!: explained_drop_sender [rotated])
    qed
  qed
qed (simp add: settle_check_def assms)

lemma explained_answer:
  assumes "numbered g" and "maps_agree g" and "explained wide cx g0 es g"
  shows "explained wide cx g0 (es @ [Person r call a]) (snd (answer_call r call a g))"
proof -
  let ?es = "es @ [Person r call a]"
  have g: "explained wide cx g0 ?es g" by (rule explained_snoc [OF assms(3)])
  have "wait_explained wide cx g0 ?es (v\<lparr>wt_slot := Said a\<rparr>)"
    if v: "v \<in> set (gt_waits g)" "map_of (ap_pending (gt_approvals g)) (r, call) = Some (wt_number v)" for v
  proof -
    have "wt_run v = r" "tq_call (wt_request v) = call"
      using pending_owner [OF assms(1,2) v] by (simp_all add: wait_key_def)
    moreover obtain later p asking gs
      where "begun wide cx g0 es later (wt_run v) (wt_request v) p asking gs"
      using assms(3) v(1) by (auto simp: explained_def wait_explained_def)
    ultimately show ?thesis
      using begun_snoc [of wide cx g0 es later "wt_run v" "wt_request v" p asking gs "Person r call a"]
      by (fastforce simp: wait_explained_def)
  qed
  then show ?thesis
    using g by (auto simp: explained_def answer_call_fields set_slot_def split: option.splits)
qed

lemma explained_end:
  assumes "explained wide cx g0 es g"
  shows "explained wide cx g0 es (end_wait deadline i g)"
proof (cases "find (\<lambda>w. wt_number w = i) (gt_waits g)")
  case (Some w)
  then have "w \<in> set (gt_waits g)" by (auto dest: find_number_SomeD)
  with assms have "wait_explained wide cx g0 es w" by (simp add: explained_def)
  then have "decision_explained wide cx g0 es (i, wt_run w, wt_request w, decision_of t w (wt_slot w))" for t
    by (auto simp: decision_explained_def decision_of_def wait_explained_def justified_def
        split: slot.splits person_answer.splits)
  then show ?thesis
    using assms explained_forget [OF assms, of w]
    by (simp add: end_wait_def Some explained_def gate_fields)
qed (simp add: end_wait_def assms)

lemma explained_abandon:
  assumes "explained wide cx g0 es g"
  shows "explained wide cx g0 es (abandon i g)"
proof -
  have "explained wide cx g0 es (g\<lparr>gt_checking := filter (\<lambda>c. ck_number c \<noteq> i) (gt_checking g)\<rparr>)"
    using assms by (auto simp: explained_def)
  then show ?thesis
    by (auto simp: abandon_def Let_def intro: explained_forget split: option.split)
qed

lemma gate_run_explained:
  "explained wide cx (new_gate d) es (gate_run wide cx es (new_gate d))"
proof (induction es rule: rev_induct)
  case Nil
  show ?case by (simp add: gate_run_def explained_def new_gate_def)
next
  case (snoc e es)
  let ?g = "gate_run wide cx es (new_gate d)"
  have ok: "numbered ?g" "maps_agree ?g" using gate_run_ok by blast+
  note later = explained_snoc [OF snoc.IH, of e]
  show ?case
    unfolding gate_run_snoc
  proof (cases e)
    case (Ask r q)
    then show "explained wide cx (new_gate d) (es @ [e]) (gate_step wide cx e ?g)"
      using explained_ask [OF snoc.IH refl] by simp
  next
    case (Person r call a)
    then show "explained wide cx (new_gate d) (es @ [e]) (gate_step wide cx e ?g)"
      using explained_answer [OF ok snoc.IH] by simp
  next
    case (Checked i events)
    then show "explained wide cx (new_gate d) (es @ [e]) (gate_step wide cx e ?g)"
      using explained_settle [OF later] by simp
  next
    case (Wake i)
    then show "explained wide cx (new_gate d) (es @ [e]) (gate_step wide cx e ?g)"
      using explained_end [OF later] by simp
  next
    case (Expire i)
    then show "explained wide cx (new_gate d) (es @ [e]) (gate_step wide cx e ?g)"
      using explained_end [OF later] by simp
  next
    case (Abandon i)
    then show "explained wide cx (new_gate d) (es @ [e]) (gate_step wide cx e ?g)"
      using explained_abandon [OF later] by simp
  qed (use later in \<open>simp_all add: explained_def\<close>)
qed

text \<open>C10. A call is allowed for one of two reasons. Either it was put to the gate when every tool it stands for (its own
  and each tool of the server that its arguments name) had the policy \<open>allow\<close>, and the guard, where there is
  one, judged it without concern. Or, at a time when none of those tools was \<open>off\<close>, it was put to the gate,
  and after that a person allowed this very call of this run. Nothing else ever lets a call through.\<close>

theorem gate_allows_only_justified:
  assumes "(i, r, q, Allow d n) \<in> set (gt_decided (gate_run wide cx es (new_gate t)))"
  shows "\<exists>earlier later. es = earlier @ Ask r q # later \<and>
    (let ap = gt_approvals (gate_run wide cx earlier (new_gate t));
         policies = map (config_policy_of (ap_config ap)) (tools_of wide ap q)
     in d = By_Policy \<and> list_all (\<lambda>p. p = Policy_Allow) policies \<and>
          (\<exists>events a. run_guard cx events q (guard_section ap q) = Some a \<and> concern a = None) \<or>
        d = By_User \<and> list_all (\<lambda>p. p \<noteq> Policy_Off) policies \<and>
          Person r (tq_call q) Person_Allows \<in> set later)"
proof -
  let ?g0 = "new_gate t"
  have "decision_explained wide cx ?g0 es (i, r, q, Allow d n)"
    using gate_run_explained [of wide cx t es] assms by (auto simp: explained_def)
  then obtain later p asking gs earlier
    where es: "es = earlier @ Ask r q # later"
      and pol: "policy_section wide (gt_approvals (gate_run wide cx earlier ?g0)) q = Inr (p, asking)"
      and gs: "guard_section (gt_approvals (gate_run wide cx earlier ?g0)) q = gs"
      and why: "d = By_Policy \<and> p = Policy_Allow \<and> asking = [] \<and>
           (\<exists>events a. run_guard cx events q gs = Some a \<and> concern a = None) \<or>
         d = By_User \<and> Person r (tq_call q) Person_Allows \<in> set later"
    unfolding decision_explained_def justified_def begun_def prod.case tool_decision.case by blast
  show ?thesis
    using es gs why policy_section_Inr [OF pol]
    by (intro exI [of _ earlier] exI [of _ later]) (auto simp: list_all_iff Let_def)
qed

section \<open>Every wait ends\<close>

text \<open>C38. No call waits for ever: at its deadline at the latest, whatever has happened to the gate, its execution
  returns the person's answer if one was given and a denial by time-out otherwise, and the call is no
  longer pending.\<close>

theorem wait_ends_at_deadline:
  assumes "w \<in> set (gt_waits (gate_run wide cx es (new_gate t)))"
  shows "let g = gate_run wide cx (es @ [Expire (wt_number w)]) (new_gate t)
    in stage_of g (wt_number w) =
         Decided (case wt_slot w of
             Said Person_Allows \<Rightarrow> Allow By_User (wt_note w)
           | Said Person_Denies \<Rightarrow> Deny By_User (''the user denied it'' @ why_text (wt_note w))
           | _ \<Rightarrow> Deny By_Timeout (''nobody approved it within '' @
               ap_timeout (gt_approvals (gate_run wide cx es (new_gate t))) @ why_text (wt_note w))) \<and>
       \<not> is_pending (gt_approvals g) (wt_run w) (tq_call (wt_request w)) \<and>
       pending_escalation (gt_approvals g) (wt_run w) (tq_call (wt_request w)) = None"
proof -
  let ?g = "gate_run wide cx es (new_gate t)"
  have ok: "numbered ?g" using gate_run_ok by blast
  then have found: "find (\<lambda>x. wt_number x = wt_number w) (gt_waits ?g) = Some w"
    using assms by (auto simp: numbered_def numbers_def intro: find_number_mem)
  have "wt_number w \<notin> set (map fst (gt_decided ?g))"
    using ok assms by (auto simp: numbered_def numbers_def)
  then have fresh: "map_of (gt_decided ?g) (wt_number w) = None" by (simp add: map_of_None_numbers)
  have g: "gate_run wide cx (es @ [Expire (wt_number w)]) (new_gate t) =
      record_decision (wt_number w) (wt_run w) (wt_request w)
        (decision_of (ap_timeout (gt_approvals ?g)) w (wt_slot w)) (forget_wait w ?g)"
    by (simp add: gate_run_snoc end_wait_def found)
  show ?thesis
    unfolding g Let_def
    using fresh by (auto simp: stage_record gate_fields decision_of_def is_pending_def pending_escalation_def
        forget_wait_def Let_def map_of_bt_remove wait_key_def split: slot.split person_answer.split)
qed

section \<open>A gate at work\<close>

definition narrow :: "string \<Rightarrow> bool" where
  "narrow c \<longleftrightarrow> False"

definition trusting_config :: mcp_config where
  "trusting_config = default_mcp_config\<lparr>mg_servers :=
     [(new_mcp_server ''ooda'' ''node'' [])\<lparr>ms_policy := Policy_Allow\<rparr>]\<rparr>"

definition trusted_events :: "gate_event list" where
  "trusted_events = [Configure trusting_config, Ask (Ident ''run_1'') demo_call, Checked 0 (Inr [])]"

definition asking_events :: "gate_event list" where
  "asking_events = [Serve True, Configure demo_mcp_config, Ask (Ident ''run_1'') demo_call, Checked 0 (Inr []),
     Person (Ident ''run_1'') ''call_1'' Person_Allows]"

definition demo_wait :: wait where
  "demo_wait = \<lparr>wt_number = 0, wt_run = Ident ''run_1'', wt_request = demo_call, wt_note = None,
     wt_slot = Said Person_Allows\<rparr>"

lemma gate_allows_only_justified_witness:
  "\<exists>earlier later. trusted_events = earlier @ Ask (Ident ''run_1'') demo_call # later \<and>
     config_policy_of (ap_config (gt_approvals (gate_run narrow demo_codec earlier (new_gate ''10m''))))
       ''ooda.exec_cli'' = Policy_Allow"
proof -
  have "gt_decided (gate_run narrow demo_codec trusted_events (new_gate ''10m'')) =
      [(0, Ident ''run_1'', demo_call, Allow By_Policy None)]"
    by code_simp
  then have "(0, Ident ''run_1'', demo_call, Allow By_Policy None) \<in>
      set (gt_decided (gate_run narrow demo_codec trusted_events (new_gate ''10m'')))"
    by simp
  from gate_allows_only_justified [OF this] obtain earlier later
    where "trusted_events = earlier @ Ask (Ident ''run_1'') demo_call # later"
      "list_all (\<lambda>p. p = Policy_Allow) (map (config_policy_of (ap_config (gt_approvals
         (gate_run narrow demo_codec earlier (new_gate ''10m'')))))
         (tools_of narrow (gt_approvals (gate_run narrow demo_codec earlier (new_gate ''10m''))) demo_call))"
    unfolding Let_def by auto
  then show ?thesis
    by (auto simp: tools_of_def demo_call_def)
qed

lemma demo_waits:
  "gt_waits (gate_run narrow demo_codec asking_events (new_gate ''10m'')) = [demo_wait]"
  by code_simp

lemma wait_ends_at_deadline_witness:
  "stage_of (gate_run narrow demo_codec (asking_events @ [Expire 0]) (new_gate ''10m'')) 0 =
     Decided (Allow By_User None)"
proof -
  have "demo_wait \<in> set (gt_waits (gate_run narrow demo_codec asking_events (new_gate ''10m'')))"
    by (simp add: demo_waits)
  from wait_ends_at_deadline [OF this] show ?thesis
    by (simp add: Let_def demo_wait_def)
qed

lemma gate_refines_protocol_witness:
  "let g = gate_run narrow demo_codec asking_events (new_gate ''10m'')
   in stage_of g 0 = Told Person_Allows \<and>
     (stage_of (gate_step narrow demo_codec (Abandon 0) g) 0 = Told Person_Allows \<or>
      stage_step (Told Person_Allows) (stage_of (gate_step narrow demo_codec (Abandon 0) g) 0))"
proof -
  let ?g = "gate_run narrow demo_codec asking_events (new_gate ''10m'')"
  have ok: "numbered ?g" using gate_run_ok by blast
  have "stage_of ?g 0 = Told Person_Allows" by code_simp
  with gate_refines_protocol [OF ok, of narrow demo_codec "Abandon 0" 0] show ?thesis
    by (simp add: Let_def)
qed

end
