(* ===== verification/Lint_Mask.thy ===== *)
theory Lint_Mask
  imports Rust_Split
begin

text \<open>
  \<open>dagos-lint/src/extract.rs\<close>, first part: the languages the linter reads and \<open>mask\<close>, which blanks
  strings and comments so that braces and keywords in them do not count. Characters are elements
  of \<open>chars_of source\<close>; \<open>wide\<close> says which characters beyond ASCII Unicode calls alphanumeric. \<open>mask_byte\<close>
  is what the rest of the extractor relies on: offsets into the masked text are offsets into the
  source.
\<close>

section \<open>Languages\<close>

datatype language = L_Rust | L_JavaScript | L_TypeScript | L_Python

text \<open>\<open>Language::of\<close>, from what \<open>Path::extension\<close> gives (absent also when it is not Unicode).\<close>

definition language_of :: "string option \<Rightarrow> language option" where
  "language_of extension =
     Option.bind (map_option to_ascii_lowercase extension) (\<lambda>e.
       if e = ''rs'' then Some L_Rust
       else if e \<in> {''js'', ''jsx'', ''mjs'', ''cjs''} then Some L_JavaScript
       else if e \<in> {''ts'', ''tsx'', ''mts'', ''cts''} then Some L_TypeScript
       else if e = ''py'' then Some L_Python
       else None)"

fun language_name :: "language \<Rightarrow> string" where
  "language_name L_Rust = ''rust''"
| "language_name L_JavaScript = ''javascript''"
| "language_name L_TypeScript = ''typescript''"
| "language_name L_Python = ''python''"

section \<open>Finding the end of a token\<close>

definition char_at :: "string list \<Rightarrow> nat \<Rightarrow> string option" where
  "char_at cs i = (if i < length cs then Some (cs ! i) else None)"

definition is_ident :: "(string \<Rightarrow> bool) \<Rightarrow> string \<Rightarrow> bool" where
  "is_ident wide c \<longleftrightarrow> (case c of [b] \<Rightarrow> is_ascii_alphanumeric b \<or> b = CHR ''_'' | _ \<Rightarrow> wide c)"

definition find_from :: "string list \<Rightarrow> nat \<Rightarrow> string list \<Rightarrow> nat option" where
  "find_from cs from targets = find (\<lambda>i. cs ! i \<in> set targets) [from..<length cs]"

definition find_seq :: "string list \<Rightarrow> nat \<Rightarrow> string list \<Rightarrow> nat option" where
  "find_seq cs from sequence =
     find (\<lambda>i. take (length sequence) (drop i cs) = sequence) [from..<length cs]"

text \<open>The loop of \<open>string_end\<close>, from \<open>index\<close> on.\<close>

function string_end_from :: "string list \<Rightarrow> string \<Rightarrow> nat \<Rightarrow> nat" where
  "string_end_from cs quote index =
     (if index < length cs
      then
        (if cs ! index = [CHR 0x5C] then string_end_from cs quote (index + 2)
         else if cs ! index = quote then index + 1
         else if cs ! index = [CHR 0x0A] \<and> quote \<noteq> [CHR 0x60] \<and> quote \<noteq> [CHR 0x22] then index
         else string_end_from cs quote (index + 1))
      else length cs)"
  by pat_completeness auto
termination
  by (relation "measure (\<lambda>(cs, _, index). length cs - index)") auto

declare string_end_from.simps [simp del]

definition string_end :: "string list \<Rightarrow> nat \<Rightarrow> string \<Rightarrow> nat" where
  "string_end cs start quote = string_end_from cs quote (start + 1)"

definition raw_string_end :: "string list \<Rightarrow> nat \<Rightarrow> nat option" where
  "raw_string_end cs from =
     (let hashes = length (takeWhile (\<lambda>c. c = ''#'') (drop from cs))
      in if char_at cs (from + hashes) \<noteq> Some [CHR 0x22] then None
         else
           (let closing = [CHR 0x22] # replicate hashes ''#''
            in case find_seq cs (from + hashes + 1) closing of
                 Some i \<Rightarrow> Some (i + length closing)
               | None \<Rightarrow> Some (length cs)))"

definition rust_char_end :: "string list \<Rightarrow> nat \<Rightarrow> nat option" where
  "rust_char_end cs start =
     (case char_at cs (start + 1) of
        None \<Rightarrow> None
      | Some c \<Rightarrow>
          if c = [CHR 0x5C] then map_option (\<lambda>i. i + 1) (find_from cs (start + 2) [[CHR 0x27]])
          else if char_at cs (start + 2) = Some [CHR 0x27] then Some (start + 3)
          else None)"

text \<open>The end of the string or comment that starts at \<open>index\<close>; \<open>None\<close> when the character is kept.\<close>

definition token_end :: "(string \<Rightarrow> bool) \<Rightarrow> language \<Rightarrow> string list \<Rightarrow> nat \<Rightarrow> nat option" where
  "token_end wide language cs index =
     (let c = cs ! index; next_char = char_at cs (index + 1); hash_comments = (language = L_Python)
      in if \<not> hash_comments \<and> c = ''/'' \<and> next_char = Some ''/'' \<or> hash_comments \<and> c = ''#''
         then Some (case find_from cs index [[CHR 0x0A]] of Some i \<Rightarrow> i | None \<Rightarrow> length cs)
         else if \<not> hash_comments \<and> c = ''/'' \<and> next_char = Some ''*''
         then Some (case find_seq cs (index + 2) [''*'', ''/''] of Some i \<Rightarrow> i + 2 | None \<Rightarrow> length cs)
         else if language = L_Python \<and> (c = [CHR 0x22] \<or> c = [CHR 0x27]) \<and> next_char = Some c \<and>
           char_at cs (index + 2) = Some c
         then Some (case find_seq cs (index + 3) [c, c, c] of Some i \<Rightarrow> i + 3 | None \<Rightarrow> length cs)
         else if language = L_Rust \<and> c = ''r'' \<and>
           (next_char = Some [CHR 0x22] \<or> next_char = Some ''#'') \<and>
           (index = 0 \<or> \<not> is_ident wide (cs ! (index - 1)))
         then raw_string_end cs (index + 1)
         else if c = [CHR 0x22] \<or> c = [CHR 0x60] \<and> language \<noteq> L_Rust \<and> language \<noteq> L_Python
         then Some (string_end cs index c)
         else if c = [CHR 0x27]
         then (if language = L_Rust then rust_char_end cs index else Some (string_end cs index c))
         else None)"

subsection \<open>A token is not empty\<close>

lemma find_Some_range: "find P [a..<b] = Some i \<Longrightarrow> a \<le> i \<and> i < b \<and> P i"
  by (auto simp: find_Some_iff) 

lemma find_from_ge: "find_from cs from ts = Some i \<Longrightarrow> from \<le> i \<and> i < length cs \<and> cs ! i \<in> set ts"
  unfolding find_from_def by (drule find_Some_range) simp

lemma find_seq_ge: "find_seq cs from ts = Some i \<Longrightarrow> from \<le> i \<and> i < length cs"
  unfolding find_seq_def by (drule find_Some_range) simp

lemma string_end_from_ge: "i \<le> length cs \<Longrightarrow> i \<le> string_end_from cs q i"
proof (induction cs q i rule: string_end_from.induct)
  case (1 cs q i)
  show ?case
  proof (cases "i < length cs")
    case True
    have "i \<le> string_end_from cs q (i + 2)" if "cs ! i = [CHR 0x5C]"
    proof (cases "i + 2 \<le> length cs")
      case le: True
      then show ?thesis using 1(1) [OF True that] by simp
    next
      case False
      then show ?thesis using True by (subst string_end_from.simps) simp
    qed
    then show ?thesis
      using 1(2) [OF True] 1(3) True
      by (subst string_end_from.simps) (auto simp: not_le not_less)
  next
    case False
    then show ?thesis using 1(3) by (subst string_end_from.simps) simp
  qed
qed

lemma token_end_gt:
  assumes "index < length cs" "token_end wide language cs index = Some e"
  shows "index < e"
proof -
  have s: "index < string_end cs index q" for q
    using string_end_from_ge [of "index + 1" cs q] assms(1) by (simp add: string_end_def)
  have r: "index < e" if "raw_string_end cs (index + 1) = Some e"
    using that assms(1)
    by (auto simp: raw_string_end_def Let_def split: if_splits option.splits dest: find_seq_ge)
  have c: "index < e" if "rust_char_end cs index = Some e"
    using that by (auto simp: rust_char_end_def split: if_splits option.splits dest: find_from_ge)
  have f: "index < i" if "find_from cs index [[CHR 0x0A]] = Some i" "cs ! index = ''/'' \<or> cs ! index = ''#''" for i
    using find_from_ge [OF that(1)] that(2) by (cases "i = index") auto
  show ?thesis
    using assms s r c
    by (auto simp: token_end_def Let_def split: if_splits option.splits
        dest!: find_seq_ge dest: f)
qed

section \<open>Masking\<close>

definition blank :: "string \<Rightarrow> string" where
  "blank c = replicate (length c) (if c = [CHR 0x0A] then CHR 0x0A else CHR '' '')"

text \<open>The loop of \<open>mask\<close>. A token ends past its start, so it ends.\<close>

function mask_from :: "(string \<Rightarrow> bool) \<Rightarrow> language \<Rightarrow> string list \<Rightarrow> nat \<Rightarrow> string list" where
  "mask_from wide language cs index =
     (if index < length cs
      then
        (case token_end wide language cs index of
           None \<Rightarrow> cs ! index # mask_from wide language cs (index + 1)
         | Some e \<Rightarrow>
             map blank (take (min e (length cs) - index) (drop index cs)) @
             mask_from wide language cs e)
      else [])"
  by pat_completeness auto
termination
  by (relation "measure (\<lambda>(_, _, cs, index). length cs - index)") (auto dest: token_end_gt intro: diff_less_mono2)

declare mask_from.simps [simp del]

definition mask_text :: "(string \<Rightarrow> bool) \<Rightarrow> language \<Rightarrow> string \<Rightarrow> string" where
  "mask_text wide language source = concat (mask_from wide language (chars_of source) 0)"

lemma mask_from_end: "length cs \<le> index \<Longrightarrow> mask_from wide language cs index = []"
  by (subst mask_from.simps) simp

lemma mask_from_kept:
  "index < length cs \<Longrightarrow> token_end wide language cs index = None \<Longrightarrow>
     mask_from wide language cs index = cs ! index # mask_from wide language cs (index + 1)"
  by (subst mask_from.simps) simp

lemma mask_from_blanked:
  "index < length cs \<Longrightarrow> token_end wide language cs index = Some e \<Longrightarrow>
     mask_from wide language cs index =
       map blank (take (min e (length cs) - index) (drop index cs)) @ mask_from wide language cs e"
  by (subst mask_from.simps) simp

text \<open>Every character is kept or blanked.\<close>

lemma mask_from_chars:
  "list_all2 (\<lambda>c m. m = c \<or> m = blank c) (drop index cs) (mask_from wide language cs index)"
proof (induction wide language cs index rule: mask_from.induct)
  case (1 wide language cs index)
  show ?case
  proof (cases "index < length cs")
    case True
    show ?thesis
    proof (cases "token_end wide language cs index")
      case None
      then show ?thesis
        using True 1(1) [OF True None] by (simp add: mask_from_kept Cons_nth_drop_Suc [symmetric])
    next
      case (Some e)
      let ?n = "min e (length cs) - index"
      have e: "index < e" by (rule token_end_gt [OF True Some])
      have "drop ?n (drop index cs) = drop e cs"
        using e True by (cases "e \<le> length cs") auto
      then have "drop index cs = take ?n (drop index cs) @ drop e cs"
        by (metis append_take_drop_id)
      moreover have "list_all2 (\<lambda>c m. m = c \<or> m = blank c) (take ?n (drop index cs)) (map blank (take ?n (drop index cs)))"
        by (simp add: list.rel_map list.rel_refl)
      ultimately show ?thesis
        using 1(2) [OF True Some] unfolding mask_from_blanked [OF True Some]
        by (metis (no_types, lifting) list_all2_appendI)
    qed
  qed (simp add: mask_from_end)
qed

text \<open>Text in which no continuation byte follows an ASCII byte, as in every UTF-8 text.\<close>

definition well_encoded :: "string \<Rightarrow> bool" where
  "well_encoded s \<longleftrightarrow> successively (\<lambda>a b. continuation b \<longrightarrow> 128 \<le> (of_char a :: nat)) s"

lemma continuation_not_ascii: "continuation b \<Longrightarrow> 128 \<le> (of_char b :: nat)"
  by (simp add: continuation_def)

lemma successively_concat:
  assumes "\<forall>x \<in> set xss. x \<noteq> [] \<and> successively P x" "\<forall>x \<in> set (tl xss). \<forall>a. P a (hd x)"
  shows "successively P (concat xss)"
  using assms
proof (induction xss)
  case (Cons x xss)
  have "\<forall>x \<in> set (tl xss). \<forall>a. P a (hd x)"
    using Cons.prems(2) by (cases xss) auto
  then have "successively P (concat xss)" using Cons by simp
  then show ?case
    using Cons.prems by (cases xss) (auto simp: successively_append_iff hd_append)
qed simp

lemma successively_concatD: "successively P (concat xss) \<Longrightarrow> x \<in> set xss \<Longrightarrow> successively P x"
  by (induction xss) (auto simp: successively_append_iff)

lemma well_encoded_char: "well_encoded s \<Longrightarrow> c \<in> set (chars_of s) \<Longrightarrow> well_encoded c"
  unfolding well_encoded_def by (rule successively_concatD [of _ "chars_of s"]) simp_all

lemma chars_of_byte:
  assumes "well_encoded s" "c \<in> set (chars_of s)" "length c \<noteq> 1" "b \<in> set c"
  shows "128 \<le> (of_char b :: nat)"
proof -
  have c: "well_encoded c" "c \<noteq> []" "list_all continuation (tl c)"
    using assms well_encoded_char char_seq_chars_of [of s] by (auto simp: char_seq_def)
  then obtain x y ys where "c = x # y # ys"
    using assms(3) by (cases c; cases "tl c") auto
  then show ?thesis
    using c assms(4) by (auto simp: well_encoded_def continuation_not_ascii list_all_iff)
qed

text \<open>What masking does to a byte.\<close>

definition masks_byte :: "char \<Rightarrow> char \<Rightarrow> bool" where
  "masks_byte b m \<longleftrightarrow> m = b \<or> m = CHR '' '' \<and> b \<noteq> CHR 0x0A"

lemma list_all2_concat:
  "list_all2 (list_all2 P) xss yss \<Longrightarrow> list_all2 P (concat xss) (concat yss)"
  by (induction rule: list_all2_induct) (auto intro: list_all2_appendI)

lemma list_all2_source: "list_all2 R xs ys \<Longrightarrow> y \<in> set ys \<Longrightarrow> \<exists>x \<in> set xs. R x y"
  by (induction rule: list_all2_induct) auto

lemma blank_masks:
  assumes "well_encoded s" "c \<in> set (chars_of s)"
  shows "list_all2 masks_byte c (blank c)"
proof (cases "length c = 1")
  case True
  then obtain b where "c = [b]" by (cases c) auto
  then show ?thesis by (simp add: blank_def masks_byte_def)
next
  case False
  then have "CHR 0x0A \<notin> set c" "c \<noteq> [CHR 0x0A]" using chars_of_byte [OF assms, of "CHR 0x0A"] by auto
  then show ?thesis
    by (auto simp: blank_def masks_byte_def list_all2_conv_all_nth dest: nth_mem)
qed

lemma mask_from_masks:
  "list_all2 (\<lambda>c m. m = c \<or> m = blank c) (chars_of s) (mask_from wide language (chars_of s) 0)"
  using mask_from_chars [of 0 "chars_of s" wide language] by simp

lemma mask_masks: "well_encoded s \<Longrightarrow> list_all2 masks_byte s (mask_text wide language s)"
proof -
  assume w: "well_encoded s"
  have "list_all2 (list_all2 masks_byte) (chars_of s) (mask_from wide language (chars_of s) 0)"
  proof (rule list.rel_mono_strong [OF mask_from_masks])
    fix c m
    assume c: "c \<in> set (chars_of s)" and "m = c \<or> m = blank c"
    moreover have "list_all2 masks_byte c c"
      by (simp add: masks_byte_def list.rel_refl)
    ultimately show "list_all2 masks_byte c m" using blank_masks [OF w] by blast
  qed
  then show ?thesis
    unfolding mask_text_def by (metis list_all2_concat concat_chars_of)
qed

lemma blank_encoded: "successively (\<lambda>a b. continuation b \<longrightarrow> P a) (blank c)"
proof -
  have "\<not> continuation (CHR '' '')" "\<not> continuation (CHR 0x0A)"
    by (simp_all add: continuation_def)
  then show ?thesis by (auto simp: blank_def successively_conv_nth)
qed

text \<open>The masked text is well encoded itself.\<close>

lemma mask_encoded: "well_encoded s \<Longrightarrow> well_encoded (mask_text wide language s)"
proof -
  assume w: "well_encoded s"
  let ?ms = "mask_from wide language (chars_of s) 0"
  have m: "m \<in> set (chars_of s) \<or> (\<exists>c \<in> set (chars_of s). m = blank c)" if "m \<in> set ?ms" for m
    using list_all2_source [OF mask_from_masks that] by blast
  have t: "m \<in> set (tl (chars_of s)) \<or> (\<exists>c \<in> set (chars_of s). m = blank c)" if "m \<in> set (tl ?ms)" for m
  proof -
    have "list_all2 (\<lambda>c m. m = c \<or> m = blank c) (tl (chars_of s)) (tl ?ms)"
      using mask_from_masks [of s wide language] by (cases "chars_of s"; cases ?ms) auto
    from list_all2_source [OF this that] show ?thesis
      by (cases "chars_of s") auto
  qed
  have nonempty: "c \<noteq> []" if "c \<in> set (chars_of s)" for c
    using that chars_of_nonempty by metis
  have hd_blank: "\<not> continuation (hd (blank c))" if "c \<noteq> []" for c
    using that by (cases c) (auto simp: blank_def continuation_def)
  have "\<not> continuation (hd m)" if "m \<in> set (tl ?ms)" for m
    using t [OF that] char_seq_chars_of [of s] hd_blank nonempty by (auto simp: char_seq_def)
  moreover have "m \<noteq> []" if "m \<in> set ?ms" for m
    using m [OF that] nonempty by (auto simp: blank_def)
  moreover have "well_encoded m" if "m \<in> set ?ms" for m
    using m [OF that] well_encoded_char [OF w] blank_encoded by (auto simp: well_encoded_def)
  ultimately show ?thesis
    unfolding well_encoded_def mask_text_def by (intro successively_concat) auto
qed

lemma length_mask: "well_encoded s \<Longrightarrow> length (mask_text wide language s) = length s"
  by (metis mask_masks list_all2_lengthD)

lemma mask_newline_iff:
  "well_encoded s \<Longrightarrow> i < length s \<Longrightarrow> mask_text wide language s ! i = CHR 0x0A \<longleftrightarrow> s ! i = CHR 0x0A"
  using list_all2_nthD [OF mask_masks, of s i wide language] by (auto simp: masks_byte_def)

lemma mask_kept:
  "well_encoded s \<Longrightarrow> i < length s \<Longrightarrow> mask_text wide language s ! i \<noteq> CHR '' '' \<Longrightarrow>
     mask_text wide language s ! i = s ! i"
  using list_all2_nthD [OF mask_masks, of s i wide language] by (auto simp: masks_byte_def)

section \<open>Slices\<close>

definition is_char_boundary :: "string \<Rightarrow> nat \<Rightarrow> bool" where
  "is_char_boundary s i \<longleftrightarrow> i = 0 \<or> i = length s \<or> i < length s \<and> \<not> continuation (s ! i)"

text \<open>\<open>&s[a..b]\<close>; \<open>None\<close> is the panic.\<close>

definition str_slice :: "string \<Rightarrow> nat \<Rightarrow> nat \<Rightarrow> string option" where
  "str_slice s a b =
     (if a \<le> b \<and> b \<le> length s \<and> is_char_boundary s a \<and> is_char_boundary s b
      then Some (take (b - a) (drop a s)) else None)"

lemma ascii_boundary:
  assumes "well_encoded s" "i < length s" "(of_char (s ! i) :: nat) < 128"
  shows "is_char_boundary s i" "is_char_boundary s (i + 1)"
proof -
  show "is_char_boundary s i"
    using assms(2,3) continuation_not_ascii by (fastforce simp: is_char_boundary_def)
  show "is_char_boundary s (i + 1)"
    using assms successively_nth [of _ s i]
    by (fastforce simp: is_char_boundary_def well_encoded_def)
qed

lemma str_slice_Some:
  "a \<le> b \<Longrightarrow> b \<le> length s \<Longrightarrow> is_char_boundary s a \<Longrightarrow> is_char_boundary s b \<Longrightarrow>
     str_slice s a b = Some (take (b - a) (drop a s))"
  by (simp add: str_slice_def)

lemma boundary_ends [simp]: "is_char_boundary s 0" "is_char_boundary s (length s)"
  by (simp_all add: is_char_boundary_def)

end
