(* ===== verification/Lint_Extract.thy ===== *)
theory Lint_Extract
  imports Lint_Mask "HOL-Library.Word"
begin

text \<open>
  \<open>dagos-lint/src/extract.rs\<close>, second part: from the masked text to the functions the linter judges.
  The regular expressions that find headers are a parameter: \<open>regex language text\<close> is what
  \<open>captures_iter\<close> of the language's header expression gives. A panic (a slice outside the text or off a
  character boundary, a subtraction below zero) is \<open>None\<close>.
\<close>

section \<open>Headers and spans\<close>

text \<open>A match: its range and, for each group, the group's range if it took part.\<close>

record hit =
  hit_start :: nat
  hit_end :: nat
  hit_groups :: "(nat \<times> nat) option list"

record span =
  sp_name :: string
  sp_start :: nat
  sp_end :: nat

record lint_function =
  fn_name :: string
  fn_line :: "32 word"
  fn_text :: string

definition not_functions :: "string list" where
  "not_functions =
     [''if'', ''for'', ''while'', ''switch'', ''catch'', ''return'', ''with'', ''function'', ''else'',
      ''do'', ''await'']"

definition part :: "string \<Rightarrow> nat \<times> nat \<Rightarrow> string" where
  "part s r = take (snd r - fst r) (drop (fst r) s)"

text \<open>\<open>captures.iter().skip(1).flatten().next()\<close>.\<close>

fun first_group :: "(nat \<times> nat) option list \<Rightarrow> (nat \<times> nat) option" where
  "first_group [] = None"
| "first_group (Some g # gs) = Some g"
| "first_group (None # gs) = first_group gs"

definition is_ascii_whitespace :: "char \<Rightarrow> bool" where
  "is_ascii_whitespace b \<longleftrightarrow> b \<in> {CHR '' '', CHR 0x09, CHR 0x0A, CHR 0x0C, CHR 0x0D}"

text \<open>The line start before \<open>s\<close>'s end: \<open>rfind('\n').map_or(0, |i| i + 1)\<close>; and the end of the line
  that \<open>i\<close> is in: \<open>s[i..].find('\n').map_or(s.len(), |n| i + n)\<close>.\<close>

definition line_start :: "string \<Rightarrow> nat" where
  "line_start s = length s - length (takeWhile (\<lambda>b. b \<noteq> CHR 0x0A) (rev s))"

definition line_end :: "string \<Rightarrow> nat \<Rightarrow> nat" where
  "line_end s i = i + length (takeWhile (\<lambda>b. b \<noteq> CHR 0x0A) (drop i s))"

section \<open>Bodies in braces\<close>

function body_start :: "string \<Rightarrow> nat \<Rightarrow> int \<Rightarrow> bool \<Rightarrow> nat option" where
  "body_start bytes index depth after_arrow =
     (if index < length bytes
      then
        (let b = bytes ! index
         in if b = CHR ''('' \<or> b = CHR ''['' then body_start bytes (index + 1) (depth + 1) after_arrow
            else if b = CHR '')'' \<or> b = CHR '']'' then body_start bytes (index + 1) (depth - 1) after_arrow
            else if b = CHR 0x7B \<and> depth \<le> 0 then Some index
            else if b = CHR '';'' \<and> depth \<le> 0 then None
            else if b = CHR ''='' \<and> depth \<le> 0 \<and> index + 1 < length bytes \<and> bytes ! (index + 1) = CHR ''>''
            then body_start bytes (index + 2) depth True
            else if b = CHR 0x0A \<and> after_arrow \<and> depth \<le> 0 then None
            else if after_arrow \<and> \<not> is_ascii_whitespace b \<and> depth \<le> 0 then None
            else body_start bytes (index + 1) depth after_arrow)
      else None)"
  by pat_completeness auto
termination
  by (relation "measure (\<lambda>(bytes, index, _). length bytes - index)") auto

declare body_start.simps [simp del]

text \<open>The loop of \<open>matching_brace\<close> over the bytes from \<open>open\<close> on.\<close>

fun closing_brace :: "string \<Rightarrow> nat \<Rightarrow> nat \<Rightarrow> nat option option" where
  "closing_brace [] index depth = Some None"
| "closing_brace (b # bs) index depth =
     (if b = CHR 0x7B then closing_brace bs (index + 1) (depth + 1)
      else if b = CHR 0x7D
      then (case depth of
              0 \<Rightarrow> None
            | Suc d \<Rightarrow> if d = 0 then Some (Some index) else closing_brace bs (index + 1) d)
      else closing_brace bs (index + 1) depth)"

definition matching_brace :: "string \<Rightarrow> nat \<Rightarrow> nat option option" where
  "matching_brace bytes opening = closing_brace (drop opening bytes) opening 0"

fun brace_functions :: "string \<Rightarrow> nat \<Rightarrow> hit list \<Rightarrow> span list option" where
  "brace_functions masked resume [] = Some []"
| "brace_functions masked resume (h # hs) =
     (if hit_start h < resume then brace_functions masked resume hs
      else case first_group (hit_groups h) of
        None \<Rightarrow> brace_functions masked resume hs
      | Some name \<Rightarrow>
          if part masked name \<in> set not_functions then brace_functions masked resume hs
          else case body_start masked (snd name) 0 False of
            None \<Rightarrow> brace_functions masked resume hs
          | Some opening \<Rightarrow>
              (case matching_brace masked opening of
                 None \<Rightarrow> None
               | Some None \<Rightarrow> brace_functions masked resume hs
               | Some (Some close) \<Rightarrow>
                   Option.bind (str_slice masked 0 (hit_start h)) (\<lambda>before.
                     map_option (\<lambda>spans.
                       \<lparr>sp_name = part masked name, sp_start = line_start before, sp_end = close + 1\<rparr> # spans)
                       (brace_functions masked (close + 1) hs))))"

section \<open>Bodies by indentation\<close>

function header_colon :: "string \<Rightarrow> nat \<Rightarrow> int \<Rightarrow> nat" where
  "header_colon bytes index depth =
     (if index < length bytes
      then
        (let b = bytes ! index
         in if b = CHR ''('' \<or> b = CHR ''['' \<or> b = CHR 0x7B then header_colon bytes (index + 1) (depth + 1)
            else if b = CHR '')'' \<or> b = CHR '']'' \<or> b = CHR 0x7D then header_colon bytes (index + 1) (depth - 1)
            else if b = CHR '':'' \<and> depth = 0 then index
            else header_colon bytes (index + 1) depth)
      else index)"
  by pat_completeness auto
termination
  by (relation "measure (\<lambda>(bytes, index, _). length bytes - index)") auto

declare header_colon.simps [simp del]

definition trim_start :: "string \<Rightarrow> string" where
  "trim_start s = concat (trim_start_chars (chars_of s))"

text \<open>The loop over the lines after the header; \<open>stop\<close> is the end so far.\<close>

function indented_lines :: "string \<Rightarrow> nat \<Rightarrow> nat \<Rightarrow> nat \<Rightarrow> nat option" where
  "indented_lines masked indent first stop =
     (if first < length masked
      then
        Option.bind (str_slice masked first (length masked)) (\<lambda>_.
          let last_byte = line_end masked first
          in Option.bind (str_slice masked first last_byte) (\<lambda>line.
               if trim line \<noteq> []
               then
                 (if length line - length (trim_start line) \<le> indent then Some stop
                  else indented_lines masked indent (last_byte + 1) last_byte)
               else indented_lines masked indent (last_byte + 1) stop))
      else Some stop)"
  by pat_completeness auto
termination
  by (relation "measure (\<lambda>(masked, _, first, _). length masked - first)") (auto simp: line_end_def)

declare indented_lines.simps [simp del]

fun python_functions :: "string \<Rightarrow> nat \<Rightarrow> hit list \<Rightarrow> span list option" where
  "python_functions masked resume [] = Some []"
| "python_functions masked resume (h # hs) =
     (if hit_start h < resume then python_functions masked resume hs
      else case hit_groups h of
        Some indent # Some name # _ \<Rightarrow>
          (let colon = header_colon masked (hit_end h - 1) 0
           in Option.bind (str_slice masked colon (length masked)) (\<lambda>_.
                Option.bind (indented_lines masked (length (part masked indent))
                    (line_end masked colon + 1) (line_end masked colon)) (\<lambda>stop.
                  map_option (\<lambda>spans.
                    \<lparr>sp_name = part masked name, sp_start = hit_start h, sp_end = stop\<rparr> # spans)
                    (python_functions masked stop hs))))
      | _ \<Rightarrow> None)"

section \<open>Functions\<close>

definition attached :: "language \<Rightarrow> string \<Rightarrow> bool" where
  "attached language line =
     (case language of
        L_Rust \<Rightarrow> starts_with ''///'' line \<or> starts_with ''#['' line
      | L_Python \<Rightarrow> starts_with ''@'' line
      | _ \<Rightarrow> starts_with ''/**'' line \<or> starts_with ''*'' line \<or> starts_with ''@'' line)"

lemma line_start_le: "line_start s \<le> length s"
  by (simp add: line_start_def)

function extend_up :: "language \<Rightarrow> string \<Rightarrow> nat \<Rightarrow> nat option" where
  "extend_up language source start =
     (if 0 < start
      then
        (case str_slice source 0 (start - 1) of
           None \<Rightarrow> None
         | Some before \<Rightarrow>
             (case str_slice source (line_start before) (start - 1) of
                None \<Rightarrow> None
              | Some line \<Rightarrow>
                  if \<not> attached language (trim line) \<or> trim line = [] then Some start
                  else extend_up language source (line_start before)))
      else Some start)"
  by pat_completeness auto
termination
proof (relation "measure (\<lambda>(_, _, start). start)", goal_cases)
  case (2 language source start before line)
  have "line_start before \<le> length before" by (rule line_start_le)
  also have "length before \<le> start - 1"
    using 2(2) by (auto simp: str_slice_def split: if_splits)
  finally show ?case using 2(1) by simp
qed simp

declare extend_up.simps [simp del]

definition line_of :: "string \<Rightarrow> nat \<Rightarrow> 32 word option" where
  "line_of source offset =
     map_option (\<lambda>before. of_nat (length (filter (\<lambda>b. b = CHR 0x0A) before)) + 1)
       (str_slice source 0 offset)"

definition header_spans :: "(language \<Rightarrow> string \<Rightarrow> hit list) \<Rightarrow> language \<Rightarrow> string \<Rightarrow> span list option" where
  "header_spans regex language masked =
     (if language = L_Python then python_functions masked 0 (regex language masked)
      else brace_functions masked 0 (regex language masked))"

definition span_function :: "language \<Rightarrow> string \<Rightarrow> span \<Rightarrow> lint_function option" where
  "span_function language source span =
     Option.bind (extend_up language source (sp_start span)) (\<lambda>start.
       Option.bind (line_of source start) (\<lambda>line.
         map_option (\<lambda>text. \<lparr>fn_name = sp_name span, fn_line = line, fn_text = trim_end text\<rparr>)
           (str_slice source start (sp_end span))))"

definition functions_of ::
  "(string \<Rightarrow> bool) \<Rightarrow> (language \<Rightarrow> string \<Rightarrow> hit list) \<Rightarrow> language \<Rightarrow> string \<Rightarrow> lint_function list option" where
  "functions_of wide regex language source =
     Option.bind (header_spans regex language (mask_text wide language source)) (\<lambda>spans.
       those (map (span_function language source) spans))"

end
