(* ===== verification/Lint_Spans.thy ===== *)
theory Lint_Spans
  imports Lint_Extract
begin

text \<open>
  What the extractor gives: it never panics, the spans it finds do not overlap, a span in braces ends
  with the brace that closes its body, and every function is a stretch of whole lines of the source
  with its line number.
\<close>

section \<open>Lines and braces\<close>

lemma line_start_boundary:
  "line_start s = 0 \<or> 0 < line_start s \<and> line_start s \<le> length s \<and> s ! (line_start s - 1) = CHR 0x0A"
proof (cases "CHR 0x0A \<in> set s")
  case True
  then obtain a b where s: "s = a @ CHR 0x0A # b" "CHR 0x0A \<notin> set b"
    using split_list_last by metis
  then have "takeWhile (\<lambda>b. b \<noteq> CHR 0x0A) (rev s) = rev b"
    by (auto simp: takeWhile_append)
  then have "line_start s = length a + 1"
    using s(1) by (simp add: line_start_def)
  then show ?thesis using s(1) by simp
next
  case False
  then have e: "takeWhile (\<lambda>b. b \<noteq> CHR 0x0A) (rev s) = rev s" by (auto simp: takeWhile_eq_all_conv)
  show ?thesis unfolding line_start_def e by simp
qed

lemma line_end_at: "i \<le> length s \<Longrightarrow> i \<le> line_end s i \<and> line_end s i \<le> length s"
  using length_takeWhile_le [of "\<lambda>b. b \<noteq> CHR 0x0A" "drop i s"] by (simp add: line_end_def)

lemma line_end_newline:
  assumes "line_end s i < length s"
  shows "s ! line_end s i = CHR 0x0A"
proof -
  let ?t = "takeWhile (\<lambda>b. b \<noteq> CHR 0x0A) (drop i s)"
  have "length ?t < length (drop i s)" using assms by (simp add: line_end_def)
  then have "drop i s ! length ?t = CHR 0x0A" using nth_length_takeWhile [of "\<lambda>b. b \<noteq> CHR 0x0A" "drop i s"] by simp
  then show ?thesis using assms by (simp add: line_end_def)
qed

text \<open>How deep in braces the end of a text is.\<close>

definition brace_depth :: "string \<Rightarrow> int" where
  "brace_depth s = int (length (filter (\<lambda>b. b = CHR 0x7B) s)) - int (length (filter (\<lambda>b. b = CHR 0x7D) s))"

lemma brace_depth_simps [simp]:
  "brace_depth [] = 0"
  "brace_depth (b # s) = (if b = CHR 0x7B then 1 else if b = CHR 0x7D then -1 else 0) + brace_depth s"
  by (simp_all add: brace_depth_def)

text \<open>A body: it is open all the way and closed by its last byte.\<close>

definition braced :: "string \<Rightarrow> bool" where
  "braced s \<longleftrightarrow>
     s \<noteq> [] \<and> hd s = CHR 0x7B \<and> last s = CHR 0x7D \<and> brace_depth s = 0 \<and>
     (\<forall>n. 0 < n \<and> n < length s \<longrightarrow> 0 < brace_depth (take n s))"

lemma closing_brace_total: "0 < depth \<Longrightarrow> closing_brace bs index depth \<noteq> None"
  by (induction bs index depth rule: closing_brace.induct) (auto split: nat.splits)

lemma closing_brace_balanced:
  "closing_brace bs index depth = Some (Some c) \<Longrightarrow> 0 < depth \<Longrightarrow>
     index \<le> c \<and> c < index + length bs \<and> bs ! (c - index) = CHR 0x7D \<and>
     int depth + brace_depth (take (c - index + 1) bs) = 0 \<and>
     (\<forall>n \<le> c - index. 0 < int depth + brace_depth (take n bs))"
proof (induction bs index depth rule: closing_brace.induct)
  case (2 b bs index depth)
  consider (last) "b = CHR 0x7D" "depth = 1" "c = index"
    | (more) d where "closing_brace bs (index + 1) d = Some (Some c)" "0 < d"
        "int d = int depth + (if b = CHR 0x7B then 1 else if b = CHR 0x7D then -1 else 0)"
    using 2(4,5) by (auto split: if_splits nat.splits)
  then show ?case
  proof cases
    case last
    then show ?thesis by simp
  next
    case (more d)
    have IH: "index + 1 \<le> c \<and> c < index + 1 + length bs \<and> bs ! (c - (index + 1)) = CHR 0x7D \<and>
        int d + brace_depth (take (c - (index + 1) + 1) bs) = 0 \<and>
        (\<forall>n \<le> c - (index + 1). 0 < int d + brace_depth (take n bs))"
      using more 2 by (auto split: if_splits nat.splits)
    obtain k where k: "c = index + 1 + k" using IH by (metis le_Suc_ex)
    have "0 < int depth + brace_depth (take n (b # bs))" if "n \<le> k + 1" for n
      using that IH more(3) 2(5) k by (cases n) auto
    then show ?thesis using IH more(3) k by auto
  qed
qed simp

lemma matching_brace_braced:
  assumes "opening < length bytes" "bytes ! opening = CHR 0x7B"
  shows "matching_brace bytes opening \<noteq> None"
    and "matching_brace bytes opening = Some (Some close) \<Longrightarrow>
      opening < close \<and> close < length bytes \<and> bytes ! close = CHR 0x7D \<and>
      braced (part bytes (opening, close + 1))"
proof -
  obtain bs where bs: "drop opening bytes = CHR 0x7B # bs"
    using assms by (metis Cons_nth_drop_Suc)
  then show "matching_brace bytes opening \<noteq> None"
    using closing_brace_total [of 1] by (simp add: matching_brace_def)
  assume "matching_brace bytes opening = Some (Some close)"
  then have c: "closing_brace bs (opening + 1) 1 = Some (Some close)"
    using bs by (simp add: matching_brace_def)
  note b = closing_brace_balanced [OF c]
  obtain k where k: "close = opening + 1 + k" using b by (metis le_Suc_ex zero_less_one)
  have n: "length bytes = opening + 1 + length bs"
    using arg_cong [OF bs, of length] assms(1) by simp
  have p: "part bytes (opening, close + 1) = CHR 0x7B # take (k + 1) bs"
    using k bs by (simp add: part_def)
  have l: "last (CHR 0x7B # take (k + 1) bs) = CHR 0x7D"
    using b k by (simp add: take_Suc_conv_app_nth)
  have "0 < brace_depth (take m (CHR 0x7B # take (k + 1) bs))" if "0 < m" "m < k + 2" for m
    using that b k by (cases m) (auto simp: min_absorb2 min_absorb1)
  moreover have "length (CHR 0x7B # take (k + 1) bs) = k + 2" using b k by simp
  moreover have "bytes ! close = CHR 0x7D"
    using b k bs by (metis add.commute add_diff_cancel_left' nth_Cons_Suc nth_drop plus_1_eq_Suc
      add.assoc assms(1) less_imp_le zero_less_one)
  ultimately show "opening < close \<and> close < length bytes \<and> bytes ! close = CHR 0x7D \<and>
      braced (part bytes (opening, close + 1))"
    unfolding p braced_def using b k n l by auto
qed

section \<open>Spans\<close>

definition line_begin :: "string \<Rightarrow> nat \<Rightarrow> bool" where
  "line_begin s i \<longleftrightarrow> i = 0 \<or> 0 < i \<and> i \<le> length s \<and> s ! (i - 1) = CHR 0x0A"

text \<open>What the regular expressions' matches are like: each starts a line (\<open>(?m)^\<close>), is not empty, lies in
  the text with its groups, and those of Python have both their groups.\<close>

definition hits_ok :: "language \<Rightarrow> string \<Rightarrow> hit list \<Rightarrow> bool" where
  "hits_ok language s hits \<longleftrightarrow>
     list_all (\<lambda>h.
       line_begin s (hit_start h) \<and> hit_start h < hit_end h \<and> hit_end h \<le> length s \<and>
       list_all (\<lambda>g. case g of None \<Rightarrow> True | Some (a, b) \<Rightarrow> hit_start h \<le> a \<and> a \<le> b \<and> b \<le> hit_end h)
         (hit_groups h) \<and>
       (language = L_Python \<longrightarrow> (\<exists>i n gs. hit_groups h = Some i # Some n # gs))) hits"

lemma line_begin_boundary: "well_encoded s \<Longrightarrow> line_begin s i \<Longrightarrow> is_char_boundary s i"
  using ascii_boundary(2) [of s "i - 1"] by (auto simp: line_begin_def)

lemma line_begin_le: "line_begin s i \<Longrightarrow> i \<le> length s"
  by (auto simp: line_begin_def)

lemma line_start_begin: "line_begin s i \<Longrightarrow> line_start (take i s) = i"
  by (cases i) (auto simp: line_begin_def line_start_def take_Suc_conv_app_nth)

lemma line_start_line_begin: "i \<le> length s \<Longrightarrow> line_begin s (line_start (take i s))"
  using line_start_boundary [of "take i s"] by (auto simp: line_begin_def)

text \<open>Where a span may end.\<close>

definition span_end :: "string \<Rightarrow> nat \<Rightarrow> bool" where
  "span_end s e \<longleftrightarrow>
     e = length s \<or> e < length s \<and> s ! e = CHR 0x0A \<or>
     0 < e \<and> e \<le> length s \<and> s ! (e - 1) = CHR 0x7D"

lemma span_end_le: "span_end s e \<Longrightarrow> e \<le> length s"
  by (auto simp: span_end_def)

lemma span_end_boundary: "well_encoded s \<Longrightarrow> span_end s e \<Longrightarrow> is_char_boundary s e"
  using ascii_boundary(1) [of s e] ascii_boundary(2) [of s "e - 1"] by (auto simp: span_end_def)

definition spans_ok :: "string \<Rightarrow> nat \<Rightarrow> (span \<Rightarrow> bool) \<Rightarrow> span list \<Rightarrow> bool" where
  "spans_ok s resume P spans \<longleftrightarrow>
     list_all (\<lambda>sp. resume \<le> sp_start sp \<and> sp_start sp \<le> sp_end sp \<and> line_begin s (sp_start sp) \<and>
       span_end s (sp_end sp) \<and> P sp) spans \<and>
     sorted_wrt (\<lambda>a b. sp_end a \<le> sp_start b) spans"

lemma spans_ok_Cons:
  "resume \<le> sp_start sp \<Longrightarrow> sp_start sp \<le> sp_end sp \<Longrightarrow> line_begin s (sp_start sp) \<Longrightarrow>
     span_end s (sp_end sp) \<Longrightarrow> P sp \<Longrightarrow> spans_ok s (sp_end sp) P spans \<Longrightarrow> spans_ok s resume P (sp # spans)"
  by (fastforce simp: spans_ok_def list_all_iff)

lemma body_start_at: "body_start bytes index depth arrow = Some i \<Longrightarrow> index \<le> i \<and> i < length bytes \<and> bytes ! i = CHR 0x7B"
proof (induction bytes index depth arrow rule: body_start.induct)
  case (1 bytes index depth arrow)
  from 1(5) show ?case
    using 1(1-4) by (subst (asm) body_start.simps) (force simp: Let_def split: if_splits)
qed

lemma first_group_in: "first_group gs = Some g \<Longrightarrow> Some g \<in> set gs"
  by (induction gs rule: first_group.induct) auto

definition in_braces :: "string \<Rightarrow> span \<Rightarrow> bool" where
  "in_braces s sp \<longleftrightarrow> (\<exists>opening \<ge> sp_start sp. braced (part s (opening, sp_end sp)))"

lemma brace_functions_ok:
  assumes "well_encoded masked" "hits_ok language masked hits"
  shows "\<exists>spans. brace_functions masked resume hits = Some spans \<and> spans_ok masked resume (in_braces masked) spans"
  using assms(2)
proof (induction hits arbitrary: resume)
  case (Cons h hs)
  have hs: "hits_ok language masked hs"
    and h: "line_begin masked (hit_start h)" "hit_start h \<le> length masked"
    using Cons.prems by (auto simp: hits_ok_def)
  note IH = Cons.IH [OF hs]
  show ?case
  proof (cases "brace_functions masked resume (h # hs) = brace_functions masked resume hs")
    case False
    then obtain name brace where n: "\<not> hit_start h < resume" "first_group (hit_groups h) = Some name"
        "\<not> part masked name \<in> set not_functions" "body_start masked (snd name) 0 False = Some brace"
        "matching_brace masked brace \<noteq> Some None"
      by (auto split: if_splits option.splits)
    have "hit_start h \<le> snd name"
      using Cons.prems first_group_in [OF n(2)] by (cases name) (fastforce simp: hits_ok_def list_all_iff)
    then have o: "hit_start h \<le> brace" "brace < length masked" "masked ! brace = CHR 0x7B"
      using body_start_at [OF n(4)] by auto
    obtain close where c: "matching_brace masked brace = Some (Some close)"
      using matching_brace_braced(1) [OF o(2,3)] n(5) by (cases "matching_brace masked brace") auto
    note b = matching_brace_braced(2) [OF o(2,3) c]
    obtain spans where s: "brace_functions masked (close + 1) hs = Some spans"
        "spans_ok masked (close + 1) (in_braces masked) spans"
      using IH by blast
    let ?sp = "\<lparr>sp_name = part masked name, sp_start = hit_start h, sp_end = close + 1\<rparr>"
    have "str_slice masked 0 (hit_start h) = Some (take (hit_start h) masked)"
      using line_begin_boundary [OF assms(1) h(1)] h(2) by (simp add: str_slice_def)
    then have "brace_functions masked resume (h # hs) = Some (?sp # spans)"
      using n c s(1) line_start_begin [OF h(1)] by simp
    moreover have "in_braces masked ?sp"
      using b o(1) by (auto simp: in_braces_def)
    then have "spans_ok masked resume (in_braces masked) (?sp # spans)"
      using n(1) b o h(1) s(2) by (intro spans_ok_Cons) (auto simp: span_end_def)
    ultimately show ?thesis by blast
  qed (use IH in simp)
qed (simp add: spans_ok_def)

lemma header_colon_range:
  "header_colon bytes index depth = r \<Longrightarrow> index \<le> length bytes \<Longrightarrow>
     index \<le> r \<and> r \<le> length bytes \<and> (r = length bytes \<or> bytes ! r = CHR '':'')"
proof (induction bytes index depth rule: header_colon.induct)
  case (1 bytes index depth)
  show ?case
  proof (cases "index < length bytes")
    case True
    let ?b = "bytes ! index"
    consider "?b = CHR ''('' \<or> ?b = CHR ''['' \<or> ?b = CHR 0x7B"
      | "\<not> (?b = CHR ''('' \<or> ?b = CHR ''['' \<or> ?b = CHR 0x7B)" "?b = CHR '')'' \<or> ?b = CHR '']'' \<or> ?b = CHR 0x7D"
      | "?b = CHR '':''" "depth = 0"
      | "\<not> (?b = CHR ''('' \<or> ?b = CHR ''['' \<or> ?b = CHR 0x7B)" "\<not> (?b = CHR '')'' \<or> ?b = CHR '']'' \<or> ?b = CHR 0x7D)"
          "\<not> (?b = CHR '':'' \<and> depth = 0)"
      by argo
    then show ?thesis
    proof cases
      case 1
      then show ?thesis
        using "1.IH"(1) [OF True refl 1] "1.prems" True by (subst (asm) (2) header_colon.simps) auto
    next
      case 2
      then show ?thesis
        using "1.IH"(2) [OF True refl 2] "1.prems" True by (subst (asm) (2) header_colon.simps) auto
    next
      case 3
      then show ?thesis
        using "1.prems" True by (subst (asm) header_colon.simps) auto
    next
      case 4
      then show ?thesis
        using "1.IH"(3) [OF True refl 4] "1.prems" True by (subst (asm) (2) header_colon.simps) auto
    qed
  next
    case False
    then show ?thesis using "1.prems" by (subst (asm) header_colon.simps) simp
  qed
qed

lemma header_colon_boundary:
  "well_encoded s \<Longrightarrow> i \<le> length s \<Longrightarrow> is_char_boundary s (header_colon s i d)"
  using header_colon_range [of s i d, OF refl] ascii_boundary(1) [of s "header_colon s i d"]
  by (cases "header_colon s i d = length s") auto

text \<open>An end of a line, as \<open>indented_lines\<close> meets them.\<close>

definition line_stop :: "string \<Rightarrow> nat \<Rightarrow> bool" where
  "line_stop s e \<longleftrightarrow> e = length s \<or> e < length s \<and> s ! e = CHR 0x0A"

lemma line_stop_end: "i \<le> length s \<Longrightarrow> line_stop s (line_end s i)"
  using line_end_at [of i s] line_end_newline [of s i] by (auto simp: line_stop_def)

lemma line_stop_begin: "line_stop s e \<Longrightarrow> e + 1 \<le> length s \<Longrightarrow> line_begin s (e + 1)"
  by (auto simp: line_stop_def line_begin_def)

lemma line_stop_boundary: "well_encoded s \<Longrightarrow> line_stop s e \<Longrightarrow> is_char_boundary s e"
  using ascii_boundary(1) [of s e] by (auto simp: line_stop_def)

lemma indented_lines_ok:
  assumes "well_encoded masked"
  shows "(first \<le> length masked \<longrightarrow> line_begin masked first) \<Longrightarrow> line_stop masked stop \<Longrightarrow> stop < first \<Longrightarrow>
    \<exists>e. indented_lines masked indent first stop = Some e \<and> stop \<le> e \<and> line_stop masked e"
  using assms
proof (induction masked indent first stop rule: indented_lines.induct)
  case (1 masked indent first stop)
  show ?case
  proof (cases "first < length masked")
    case True
    let ?e = "line_end masked first"
    have e: "first \<le> ?e" "?e \<le> length masked" "line_stop masked ?e"
      using line_end_at [of first masked] line_stop_end [of first masked] True by auto
    have b: "is_char_boundary masked first" "is_char_boundary masked ?e"
      using 1(3,6) True e(3) line_begin_boundary line_stop_boundary by auto
    obtain line where s: "str_slice masked first (length masked) \<noteq> None"
        "str_slice masked first ?e = Some line"
      using True e b by (auto simp: str_slice_def)
    obtain all_lines where a: "str_slice masked first (length masked) = Some all_lines"
      using s(1) by auto
    have next_line: "?e + 1 \<le> length masked \<longrightarrow> line_begin masked (?e + 1)"
      using line_stop_begin [OF e(3)] by simp
    show ?thesis
    proof (cases "trim line \<noteq> []")
      case nonempty: True
      show ?thesis
      proof (cases "length line - length (trim_start line) \<le> indent")
        case True
        then show ?thesis
          using nonempty s a 1(4) by (subst indented_lines.simps) simp
      next
        case False
        then show ?thesis
          using 1(1) [OF True a refl s(2) nonempty False next_line e(3) _ 1(6)] nonempty s a True e(1) 1(5)
          by (subst indented_lines.simps) auto
      qed
    next
      case False
      then show ?thesis
        using 1(2) [OF True a refl s(2) _ next_line 1(4) _ 1(6)] s a True e(1) 1(5)
        by (subst indented_lines.simps) auto
    qed
  next
    case False
    then show ?thesis using 1(4) by (subst indented_lines.simps) simp
  qed
qed

lemma python_functions_ok:
  assumes "well_encoded masked" "hits_ok L_Python masked hits"
  shows "\<exists>spans. python_functions masked resume hits = Some spans \<and> spans_ok masked resume (\<lambda>_. True) spans"
  using assms(2)
proof (induction hits arbitrary: resume)
  case (Cons h hs)
  have hs: "hits_ok L_Python masked hs" using Cons.prems by (simp add: hits_ok_def)
  obtain indent name gs where h: "line_begin masked (hit_start h)" "hit_start h < hit_end h"
      "hit_end h \<le> length masked" and g: "hit_groups h = Some indent # Some name # gs"
    using Cons.prems by (auto simp: hits_ok_def)
  note IH = Cons.IH [OF hs]
  show ?case
  proof (cases "hit_start h < resume")
    case False
    define colon where "colon = header_colon masked (hit_end h - 1) 0"
    have c: "hit_end h - 1 \<le> colon" "colon \<le> length masked" "is_char_boundary masked colon"
      using header_colon_range [of masked "hit_end h - 1" 0 colon] h(3)
        header_colon_boundary [OF assms(1), of "hit_end h - 1" 0] by (auto simp: colon_def)
    have l: "line_stop masked (line_end masked colon)" by (rule line_stop_end [OF c(2)])
    obtain e where e: "indented_lines masked (length (part masked indent)) (line_end masked colon + 1)
        (line_end masked colon) = Some e" "line_end masked colon \<le> e" "line_stop masked e"
      using indented_lines_ok [OF assms(1) _ l, of "line_end masked colon + 1"] line_stop_begin [OF l] by auto
    obtain spans where s: "python_functions masked e hs = Some spans"
        "spans_ok masked e (\<lambda>_. True) spans"
      using IH by blast
    let ?sp = "\<lparr>sp_name = part masked name, sp_start = hit_start h, sp_end = e\<rparr>"
    obtain tail where "str_slice masked colon (length masked) = Some tail"
      using c by (simp add: str_slice_def)
    then have "python_functions masked resume (h # hs) = Some (?sp # spans)"
      using False g e(1) s(1) by (simp add: colon_def)
    moreover have "hit_start h \<le> e"
      using h(2) c(1,2) e(2) line_end_at [of colon masked] by linarith
    then have "spans_ok masked resume (\<lambda>_. True) (?sp # spans)"
      using False e(3) h(1) s(2) by (intro spans_ok_Cons) (auto simp: span_end_def line_stop_def)
    ultimately show ?thesis by blast
  qed (use IH in simp)
qed (simp add: spans_ok_def)

lemma header_spans_ok:
  assumes "well_encoded masked" "hits_ok language masked (regex language masked)"
  obtains spans where "header_spans regex language masked = Some spans"
    "spans_ok masked 0 (\<lambda>sp. language \<noteq> L_Python \<longrightarrow> in_braces masked sp) spans"
proof (cases "language = L_Python")
  case True
  then show ?thesis
    using that python_functions_ok [of masked _ 0] assms by (fastforce simp: header_spans_def)
next
  case False
  then show ?thesis
    using that brace_functions_ok [OF assms, of 0] by (fastforce simp: header_spans_def)
qed

section \<open>Functions\<close>

lemma line_begin_mask:
  "well_encoded s \<Longrightarrow> line_begin (mask_text wide language s) i \<longleftrightarrow> line_begin s i"
  using mask_newline_iff [of s "i - 1" wide language] by (auto simp: line_begin_def length_mask)

lemma span_end_mask:
  "well_encoded s \<Longrightarrow> span_end (mask_text wide language s) e \<Longrightarrow> span_end s e"
  using mask_newline_iff [of s e wide language] mask_kept [of s "e - 1" wide language]
  by (auto simp: span_end_def length_mask)

lemma extend_up_ok:
  assumes "well_encoded source"
  shows "line_begin source start \<Longrightarrow>
    \<exists>first. extend_up language source start = Some first \<and> first \<le> start \<and> line_begin source first"
  using assms
proof (induction language source start rule: extend_up.induct)
  case (1 language source start)
  show ?case
  proof (cases "0 < start")
    case True
    have n: "start \<le> length source" "source ! (start - 1) = CHR 0x0A"
      using 1(2) True by (auto simp: line_begin_def)
    have b: "is_char_boundary source (start - 1)"
      using ascii_boundary(1) [OF 1(3), of "start - 1"] n True by simp
    let ?before = "take (start - 1) source"
    have s: "str_slice source 0 (start - 1) = Some ?before"
      using b n True by (simp add: str_slice_def)
    have l: "line_start ?before \<le> start - 1" "line_begin source (line_start ?before)"
      using line_start_le [of ?before] line_start_line_begin [of "start - 1" source] n by auto
    obtain line where line: "str_slice source (line_start ?before) (start - 1) = Some line"
      using line_begin_boundary [OF 1(3) l(2)] b l(1) n by (simp add: str_slice_Some)
    show ?thesis
    proof (cases "\<not> attached language (trim line) \<or> trim line = []")
      case stop: True
      then show ?thesis using True s line 1(2) by (subst extend_up.simps) simp
    next
      case False
      then show ?thesis
        using 1(1) [OF True s line False l(2) 1(3)] True s line l(1) by (subst extend_up.simps) auto
    qed
  qed (use 1(2) in \<open>subst extend_up.simps, simp\<close>)
qed

text \<open>The function that a span stands for: whole lines of the source, with the line it begins on.\<close>

definition function_of_span :: "string \<Rightarrow> span \<Rightarrow> lint_function \<Rightarrow> bool" where
  "function_of_span source sp f \<longleftrightarrow>
     (\<exists>first \<le> sp_start sp. line_begin source first \<and>
        f = \<lparr>fn_name = sp_name sp,
             fn_line = of_nat (length (filter (\<lambda>b. b = CHR 0x0A) (take first source))) + 1,
             fn_text = trim_end (part source (first, sp_end sp))\<rparr>)"

lemma span_function_ok:
  assumes "well_encoded source" "line_begin source (sp_start sp)" "sp_start sp \<le> sp_end sp"
    "span_end source (sp_end sp)"
  shows "\<exists>f. span_function language source sp = Some f \<and> function_of_span source sp f"
proof -
  obtain first where f: "extend_up language source (sp_start sp) = Some first" "first \<le> sp_start sp"
      "line_begin source first"
    using extend_up_ok [OF assms(1,2)] by blast
  have "str_slice source 0 first = Some (take first source)"
      "str_slice source first (sp_end sp) = Some (part source (first, sp_end sp))"
    using line_begin_boundary [OF assms(1) f(3)] line_begin_le [OF f(3)] f(2)
      span_end_boundary [OF assms(1,4)] span_end_le [OF assms(4)] assms(3)
    by (auto simp: str_slice_def part_def)
  then show ?thesis
    using f by (auto simp: span_function_def line_of_def function_of_span_def)
qed

lemma those_map_Some:
  "list_all (\<lambda>x. \<exists>y. f x = Some y \<and> R x y) xs \<Longrightarrow> \<exists>ys. those (map f xs) = Some ys \<and> list_all2 R xs ys"
  by (induction xs) (auto simp: list_all2_Cons1)

text \<open>C18. The extractor never panics, and its functions are stretches of the source: for every source (in
  which no continuation byte follows an ASCII byte) and all matches of the header expressions as the
  regular expressions give them (each at the start of a line and within the text), the spans found do
  not overlap, so a nested function belongs to the outer one; in the languages with braces each
  span ends with the brace that closes the first one opened in its body, strings and comments
  not counting; and each function is the text from the start of a line, its header's or that of a
  comment or attribute above, to its span's end, with the number of that line.
\<close>

theorem functions_are_source_lines:
  assumes "well_encoded source"
    and "hits_ok language (mask_text wide language source) (regex language (mask_text wide language source))"
  shows "\<exists>spans fs. header_spans regex language (mask_text wide language source) = Some spans \<and>
    functions_of wide regex language source = Some fs \<and>
    sorted_wrt (\<lambda>a b. sp_end a \<le> sp_start b) spans \<and>
    list_all (\<lambda>sp. language = L_Python \<or> in_braces (mask_text wide language source) sp) spans \<and>
    list_all2 (function_of_span source) spans fs"
proof -
  let ?m = "mask_text wide language source"
  obtain spans where s: "header_spans regex language ?m = Some spans"
      "spans_ok ?m 0 (\<lambda>sp. language \<noteq> L_Python \<longrightarrow> in_braces ?m sp) spans"
    using header_spans_ok [where regex = regex and language = language, OF mask_encoded [OF assms(1)] assms(2)] by blast
  have "list_all (\<lambda>sp. \<exists>f. span_function language source sp = Some f \<and> function_of_span source sp f) spans"
    using s(2) line_begin_mask [OF assms(1)] span_end_mask [OF assms(1)] span_function_ok [OF assms(1)]
    by (auto simp: spans_ok_def list_all_iff)
  then obtain fs where "those (map (span_function language source) spans) = Some fs"
      "list_all2 (function_of_span source) spans fs"
    using those_map_Some by blast
  then show ?thesis
    using s by (auto simp: functions_of_def spans_ok_def list_all_iff)
qed

text \<open>A source with a brace in a string, and its one header.\<close>

definition demo_source :: string where
  "demo_source = ''/// d\<newline>fn a() {'' @ [CHR 0x22] @ ''}'' @ [CHR 0x22] @ ''}\<newline>''"

definition demo_regex :: "language \<Rightarrow> string \<Rightarrow> hit list" where
  "demo_regex language s = [\<lparr>hit_start = 6, hit_end = 10, hit_groups = [Some (9, 10)]\<rparr>]"

lemma demo_mask: "mask_text (\<lambda>_. False) L_Rust demo_source = ''     \<newline>fn a() {   }\<newline>''"
proof -
  have chars: "chars_of demo_source = map (\<lambda>c. [c]) demo_source"
    by (simp add: demo_source_def continuation_def)
  show ?thesis
    unfolding mask_text_def chars
    by (simp add: demo_source_def mask_from.simps token_end_def find_from_def find_seq_def char_at_def
        string_end_def string_end_from.simps blank_def upt_rec)
qed

lemma demo_spans:
  "header_spans demo_regex L_Rust ''     \<newline>fn a() {   }\<newline>'' =
     Some [\<lparr>sp_name = ''a'', sp_start = 6, sp_end = 18\<rparr>]"
  by (simp add: header_spans_def demo_regex_def part_def not_functions_def body_start.simps
      matching_brace_def str_slice_def is_char_boundary_def line_start_def continuation_def)

theorem functions_are_source_lines_witness:
  "\<exists>fs. functions_of (\<lambda>_. False) demo_regex L_Rust demo_source = Some fs \<and>
     list_all2 (function_of_span demo_source) [\<lparr>sp_name = ''a'', sp_start = 6, sp_end = 18\<rparr>] fs"
proof -
  have "well_encoded demo_source"
    by (simp add: well_encoded_def demo_source_def continuation_def)
  moreover have "hits_ok L_Rust (mask_text (\<lambda>_. False) L_Rust demo_source)
      (demo_regex L_Rust (mask_text (\<lambda>_. False) L_Rust demo_source))"
    unfolding demo_mask by (simp add: hits_ok_def demo_regex_def line_begin_def)
  ultimately show ?thesis
    using functions_are_source_lines [of demo_source L_Rust "\<lambda>_. False" demo_regex] demo_spans
    unfolding demo_mask by auto
qed

end
