(* ===== verification/Lint_Rules.thy ===== *)
theory Lint_Rules
  imports Rust_Split Floats
begin

text \<open>
  \<open>dagos-lint/src/rules.rs\<close>: the rules and the configuration of the semantic linter. The file system and
  \<open>serde_json\<close> are parameters of \<open>lint_load\<close> and \<open>lint_save\<close>.
\<close>

record lint_rule =
  rl_id :: string
  rl_text :: string
  rl_applies :: "string option"
  rl_except :: "string option"

record dismissal =
  ds_rule :: string
  ds_file :: string
  ds_function :: string

record lint_config =
  lc_enabled :: bool
  lc_threshold :: f64
  lc_max_rounds :: nat
  lc_rules :: "lint_rule list"
  lc_dismissed :: "dismissal list"

definition default_rule :: "string \<Rightarrow> string \<Rightarrow> string \<Rightarrow> lint_rule" where
  "default_rule i text applies =
     \<lparr>rl_id = i, rl_text = text, rl_applies = Some applies, rl_except = None\<rparr>"

definition default_rules :: "lint_rule list" where
  "default_rules =
    [default_rule ''swallows-errors'' ''Swallows errors.''
      (''An error or failure is caught, ignored, or discarded without being handled, '' @
      ''reported, or passed on, so a caller can never learn it happened.''),
     default_rule ''hidden-side-effect'' ''Has a hidden side effect.''
      (''It changes state, files, globals, or the outside world in a way its name and '' @
      ''signature do not suggest.''),
     default_rule ''does-too-many-jobs'' ''Does too many jobs.''
      (''It does several unrelated things that would read better as separate functions.''),
     default_rule ''misleading-name'' ''Its name lies about what it does.''
      (''Its name or documentation promises something different from what the body '' @
      ''does.''),
     default_rule ''magic-values'' ''Relies on unexplained magic values.''
      (''Behaviour depends on literal numbers or strings whose meaning is not named or '' @
      ''explained.''),
     default_rule ''deep-nesting'' ''Nests so deeply that the logic is hard to follow.''
      (''Conditions and loops are nested several levels deep where early returns or '' @
      ''helpers would make it clear.''),
     default_rule ''repeats-itself'' ''Repeats logic that should be shared.''
      (''The same logic appears more than once within the function.''),
     default_rule ''trusts-input'' ''Trusts input it should validate.''
      (''It uses caller-provided or external data without checks where a bad value '' @
      ''would cause harm: a crash, corruption, or a security problem.''),
     default_rule ''leaks-resources'' ''Can leak a resource.''
      (''Files, connections, locks, processes, or tasks it opens are not reliably '' @
      ''released on every path, including errors.''),
     default_rule ''silent-fallback'' ''Silently falls back to a default that hides a problem.''
      (''When something is missing or fails it substitutes a default value without '' @
      ''saying so, so the problem goes unnoticed.''),
     default_rule ''dead-code'' ''Contains dead or unreachable code.''
      (''Some of its code can never run or its result is never used.''),
     default_rule ''vague-errors'' ''Reports errors too vaguely to act on.''
      (''Its error messages or error values do not say what failed or why.''),
     default_rule ''hardcoded-environment'' ''Hardcodes a secret, credential, or machine-specific path.''
      (''It embeds a password, key, token, or a path that only exists on one machine.''),
     default_rule ''comment-drift'' ''Has comments that contradict the code.''
      (''A comment or doc comment describes behaviour the code does not have.'')]"

definition default_lint_config :: lint_config where
  "default_lint_config =
     \<lparr>lc_enabled = True, lc_threshold = Fin (7 / 10), lc_max_rounds = 3, lc_rules = default_rules,
      lc_dismissed = []\<rparr>"

section \<open>Validation\<close>

definition valid_rule_id :: "string \<Rightarrow> bool" where
  "valid_rule_id i \<longleftrightarrow>
     i \<noteq> [] \<and> list_all (\<lambda>b. is_ascii_alphanumeric b \<or> b = CHR ''-'' \<or> b = CHR ''_'') i"

text \<open>The loop over the rules; \<open>seen\<close> holds the ids met so far. The result is the error message.\<close>

fun validate_rules :: "string set \<Rightarrow> lint_rule list \<Rightarrow> string + unit" where
  "validate_rules seen [] = Inr ()"
| "validate_rules seen (r # rs) =
     (if \<not> valid_rule_id (rl_id r)
      then Inl (''rule id `'' @ rl_id r @ ''`: use letters, digits, - and _'')
      else if rl_id r \<in> seen then Inl (''rule id `'' @ rl_id r @ ''` is used twice'')
      else if trim (rl_text r) = [] then Inl (''rule `'' @ rl_id r @ ''` has no text'')
      else validate_rules (insert (rl_id r) seen) rs)"

definition validate_lint :: "lint_config \<Rightarrow> string + unit" where
  "validate_lint c =
     (if \<not> f64_within 0 1 (lc_threshold c) then Inl ''threshold must be between 0 and 1''
      else if lc_max_rounds c = 0 then Inl ''max_rounds must be at least 1''
      else validate_rules {} (lc_rules c))"

definition is_dismissed :: "lint_config \<Rightarrow> string \<Rightarrow> string \<Rightarrow> string \<Rightarrow> bool" where
  "is_dismissed c rule file function_name \<longleftrightarrow>
     list_ex (\<lambda>d. ds_rule d = rule \<and> ds_file d = file \<and> ds_function d = function_name) (lc_dismissed c)"

section \<open>Loading and saving\<close>

text \<open>\<open>file\<close> is \<open>None\<close> when there is no file, and else the text or the error of reading it; \<open>parse\<close> is
  \<open>serde_json::from_str\<close> and \<open>path\<close> the path as it is displayed.\<close>

definition lint_load ::
  "(string \<Rightarrow> string + lint_config) \<Rightarrow> string \<Rightarrow> (string + string) option \<Rightarrow> string + lint_config" where
  "lint_load parse path file =
     (case file of
        None \<Rightarrow> Inr default_lint_config
      | Some (Inl e) \<Rightarrow> Inl (''cannot read '' @ path @ '': '' @ e)
      | Some (Inr text) \<Rightarrow>
          (case parse text of
             Inl e \<Rightarrow> Inl (''invalid '' @ path @ '': '' @ e)
           | Inr c \<Rightarrow>
               (case validate_lint c of
                  Inl e \<Rightarrow> Inl (''invalid '' @ path @ '': '' @ e)
                | Inr _ \<Rightarrow> Inr c)))"

text \<open>\<open>write\<close> is what writing the text gives; the result also says what was written, if anything.\<close>

definition lint_save ::
  "(lint_config \<Rightarrow> string) \<Rightarrow> string \<Rightarrow> (string \<Rightarrow> string + unit) \<Rightarrow> lint_config \<Rightarrow> (string + unit) \<times> string option" where
  "lint_save print path write c =
     (case validate_lint c of
        Inl e \<Rightarrow> (Inl e, None)
      | Inr _ \<Rightarrow>
          (let text = print c @ ''\<newline>''
           in case write text of
                Inl e \<Rightarrow> (Inl (''cannot save '' @ path @ '': '' @ e), Some text)
              | Inr _ \<Rightarrow> (Inr (), Some text)))"

section \<open>What a valid configuration is\<close>

definition valid_lint :: "lint_config \<Rightarrow> bool" where
  "valid_lint c \<longleftrightarrow>
     f64_within 0 1 (lc_threshold c) \<and> 0 < lc_max_rounds c \<and>
     distinct (map rl_id (lc_rules c)) \<and>
     list_all (\<lambda>r. valid_rule_id (rl_id r) \<and> trim (rl_text r) \<noteq> []) (lc_rules c)"

lemma validate_rules_iff:
  "validate_rules seen rs = Inr () \<longleftrightarrow>
     distinct (map rl_id rs) \<and> set (map rl_id rs) \<inter> seen = {} \<and>
     list_all (\<lambda>r. valid_rule_id (rl_id r) \<and> trim (rl_text r) \<noteq> []) rs"
  by (induction seen rs rule: validate_rules.induct) auto

lemma validate_lint_iff: "validate_lint c = Inr () \<longleftrightarrow> valid_lint c"
  by (simp add: validate_lint_def valid_lint_def validate_rules_iff)

lemma default_lint_valid: "valid_lint default_lint_config"
  by (simp add: valid_lint_def default_lint_config_def default_rules_def default_rule_def valid_rule_id_def
      f64_within_def is_ascii_alphanumeric_def is_ascii_lowercase_def trim_def trim_start_chars_def
      trim_end_chars_def is_whitespace_def white_space_def continuation_def)

lemma lint_load_valid: "lint_load parse path file = Inr c \<Longrightarrow> valid_lint c"
  using default_lint_valid by (auto simp: lint_load_def validate_lint_iff split: option.splits sum.splits)

lemma lint_save_load:
  assumes "lint_save print path write c = (Inr (), Some text)" "parse text = Inr c"
  shows "lint_load parse path (Some (Inr text)) = Inr c"
  using assms by (auto simp: lint_save_def lint_load_def Let_def split: sum.splits)

end
