(* ===== verification/Prose.thy ===== *)
theory Prose
  imports Rust_Split Records
begin

text \<open>
  \<open>dagos-openai/src/prose.rs\<close>: \<open>ProseExtractor\<close>, which reads a response document character by character
  and gives the text of \<open>presentation.prose\<close> as it arrives. A character is its UTF-8 encoding. The
  stack of frames is kept with its top first.
\<close>

section \<open>Characters from code units\<close>

text \<open>\<open>char::from_u32\<close> and UTF-8: surrogates and values beyond \<open>U+10FFFF\<close> are not characters.\<close>

definition char_from_u32 :: "nat \<Rightarrow> string option" where
  "char_from_u32 n =
     (if n < 128 then Some [char_of n]
      else if n < 2048 then Some [char_of (192 + n div 64), char_of (128 + n mod 64)]
      else if 55296 \<le> n \<and> n \<le> 57343 then None
      else if n < 65536
      then Some [char_of (224 + n div 4096), char_of (128 + n div 64 mod 64), char_of (128 + n mod 64)]
      else if n < 1114112
      then Some [char_of (240 + n div 262144), char_of (128 + n div 4096 mod 64),
                 char_of (128 + n div 64 mod 64), char_of (128 + n mod 64)]
      else None)"

definition hex_value :: "char \<Rightarrow> nat option" where
  "hex_value c =
     (let n = of_char c :: nat
      in if 48 \<le> n \<and> n \<le> 57 then Some (n - 48)
         else if 65 \<le> n \<and> n \<le> 70 then Some (n - 55)
         else if 97 \<le> n \<and> n \<le> 102 then Some (n - 87)
         else None)"

text \<open>\<open>u16::from_str_radix(s, 16)\<close>, which allows a plus sign.\<close>

fun hex_digits :: "nat \<Rightarrow> string \<Rightarrow> nat option" where
  "hex_digits n [] = Some n"
| "hex_digits n (c # cs) = (case hex_value c of None \<Rightarrow> None | Some d \<Rightarrow> hex_digits (16 * n + d) cs)"

definition u16_from_hex :: "string \<Rightarrow> nat option" where
  "u16_from_hex s =
     (let digits = (case s of c # cs \<Rightarrow> if c = CHR ''+'' \<and> cs \<noteq> [] then cs else s | [] \<Rightarrow> s)
      in if digits = [] then None
         else case hex_digits 0 digits of
           Some n \<Rightarrow> if n < 65536 then Some n else None
         | None \<Rightarrow> None)"

section \<open>The extractor\<close>

datatype frame = Object_Frame "string option" bool | Array_Frame

datatype text_escape = No_Escape | Backslash | Unicode_Escape string

record prose_text =
  pt_key :: "string option"
  pt_emit :: bool
  pt_escape :: text_escape

record extractor =
  px_started :: bool
  px_mid_line :: bool
  px_finished :: bool
  px_stack :: "frame list"
  px_string :: "prose_text option"
  px_surrogate :: "nat option"

definition new_extractor :: extractor where
  "new_extractor =
     \<lparr>px_started = False, px_mid_line = False, px_finished = False, px_stack = [], px_string = None,
      px_surrogate = None\<rparr>"

fun at_prose :: "frame list \<Rightarrow> bool" where
  "at_prose [Object_Frame (Some inner) False, Object_Frame (Some outer) _] \<longleftrightarrow>
     outer = ''presentation'' \<and> inner = ''prose''"
| "at_prose _ \<longleftrightarrow> False"

definition expects_key :: "frame list \<Rightarrow> bool" where
  "expects_key st \<longleftrightarrow> (case st of Object_Frame _ True # _ \<Rightarrow> True | _ \<Rightarrow> False)"

text \<open>\<open>structural_char\<close>: outside a string.\<close>

definition before_document :: "string \<Rightarrow> extractor \<Rightarrow> extractor" where
  "before_document c x =
     (if c = ''{'' \<and> \<not> px_mid_line x
      then x\<lparr>px_started := True, px_stack := Object_Frame None True # px_stack x\<rparr>
      else if c = [CHR 0x0A] then x\<lparr>px_mid_line := False\<rparr>
      else if is_whitespace c then x
      else x\<lparr>px_mid_line := True\<rparr>)"

definition in_document :: "string \<Rightarrow> extractor \<Rightarrow> extractor" where
  "in_document c x =
     (if c = [CHR 0x22]
      then (let is_key = expects_key (px_stack x)
            in x\<lparr>px_string := Some \<lparr>pt_key = (if is_key then Some [] else None),
                   pt_emit = (\<not> is_key \<and> at_prose (px_stack x)), pt_escape = No_Escape\<rparr>\<rparr>)
      else if c = ''{'' then x\<lparr>px_stack := Object_Frame None True # px_stack x\<rparr>
      else if c = ''['' then x\<lparr>px_stack := Array_Frame # px_stack x\<rparr>
      else if c = ''}'' \<or> c = '']''
      then x\<lparr>px_stack := tl (px_stack x), px_finished := (tl (px_stack x) = [])\<rparr>
      else if c = '',''
      then (case px_stack x of
              Object_Frame _ _ # st \<Rightarrow> x\<lparr>px_stack := Object_Frame None True # st\<rparr>
            | _ \<Rightarrow> x)
      else x)"

definition structural_char :: "string \<Rightarrow> extractor \<Rightarrow> extractor" where
  "structural_char c x =
     (if px_finished x then x else if \<not> px_started x then before_document c x else in_document c x)"

text \<open>\<open>decode_utf16\<close>: the character that a code unit completes.\<close>

definition decode_utf16 :: "nat \<Rightarrow> extractor \<Rightarrow> string option \<times> extractor" where
  "decode_utf16 unit x =
     (if 55296 \<le> unit \<and> unit \<le> 56319 then (None, x\<lparr>px_surrogate := Some unit\<rparr>)
      else if 56320 \<le> unit \<and> unit \<le> 57343
      then (case px_surrogate x of
              None \<Rightarrow> (None, x)
            | Some high \<Rightarrow>
                (char_from_u32 (65536 + (high - 55296) * 1024 + (unit - 56320)), x\<lparr>px_surrogate := None\<rparr>))
      else (char_from_u32 unit, x\<lparr>px_surrogate := None\<rparr>))"

definition end_string :: "prose_text \<Rightarrow> extractor \<Rightarrow> extractor" where
  "end_string t x =
     (case (pt_key t, px_stack x) of
        (Some name, Object_Frame _ _ # st) \<Rightarrow>
          x\<lparr>px_string := None, px_stack := Object_Frame (Some name) False # st\<rparr>
      | _ \<Rightarrow> x\<lparr>px_string := None\<rparr>)"

text \<open>A backslash escape: the character it stands for, or the start of \<open>\\u\<close>.\<close>

definition simple_escape :: "string \<Rightarrow> string" where
  "simple_escape c =
     (if c = ''n'' then [CHR 0x0A] else if c = ''t'' then [CHR 0x09] else if c = ''r'' then [CHR 0x0D]
      else if c = ''b'' then [CHR 0x08] else if c = ''f'' then [CHR 0x0C] else c)"

definition with_text :: "prose_text \<Rightarrow> extractor \<Rightarrow> extractor" where
  "with_text t x = x\<lparr>px_string := Some t\<rparr>"

text \<open>A decoded character goes to the key or to the prose.\<close>

definition keep_char :: "prose_text \<Rightarrow> string option \<times> extractor \<Rightarrow> string \<times> extractor" where
  "keep_char t d =
     (case d of
        (None, x) \<Rightarrow> ([], with_text t x)
      | (Some c, x) \<Rightarrow>
          (case pt_key t of
             Some key \<Rightarrow> ([], with_text (t\<lparr>pt_key := Some (key @ c)\<rparr>) x)
           | None \<Rightarrow> (if pt_emit t then c else [], with_text t x)))"

definition string_char :: "string \<Rightarrow> prose_text \<Rightarrow> extractor \<Rightarrow> string \<times> extractor" where
  "string_char c t x =
     (let plain = t\<lparr>pt_escape := No_Escape\<rparr>
      in case pt_escape t of
           Backslash \<Rightarrow>
             (if c = ''u'' then keep_char (t\<lparr>pt_escape := Unicode_Escape []\<rparr>) (None, x)
              else keep_char plain (Some (simple_escape c), x))
         | Unicode_Escape hex \<Rightarrow>
             (if length (hex @ c) < 4 then keep_char (t\<lparr>pt_escape := Unicode_Escape (hex @ c)\<rparr>) (None, x)
              else keep_char plain
                (decode_utf16 (case u16_from_hex (hex @ c) of Some n \<Rightarrow> n | None \<Rightarrow> 65533) x))
         | No_Escape \<Rightarrow>
             (if c = [CHR 0x5C] then keep_char (t\<lparr>pt_escape := Backslash\<rparr>) (None, x)
              else if c = [CHR 0x22] then ([], end_string t x)
              else keep_char plain (Some c, x)))"

definition prose_char :: "string \<Rightarrow> extractor \<Rightarrow> string \<times> extractor" where
  "prose_char c x =
     (case px_string x of
        Some t \<Rightarrow> string_char c t x
      | None \<Rightarrow> ([], structural_char c x))"

fun prose_chars :: "string list \<Rightarrow> extractor \<Rightarrow> string \<times> extractor" where
  "prose_chars [] x = ([], x)"
| "prose_chars (c # cs) x =
     (case prose_char c x of (p, y) \<Rightarrow> (case prose_chars cs y of (q, z) \<Rightarrow> (p @ q, z)))"

definition prose_push :: "string \<Rightarrow> extractor \<Rightarrow> string \<times> extractor" where
  "prose_push chunk x = prose_chars (chars_of chunk) x"

lemma prose_chars_append:
  "prose_chars (as @ bs) x =
     (fst (prose_chars as x) @ fst (prose_chars bs (snd (prose_chars as x))),
      snd (prose_chars bs (snd (prose_chars as x))))"
  by (induction as x rule: prose_chars.induct) (auto split: prod.split)

end
