(* ===== verification/Prose_Stream.thy ===== *)
theory Prose_Stream
  imports Prose
begin

text \<open>
  What the prose extractor gives on a response document: \<open>json_chars\<close> writes a JSON value the way
  \<open>serde_json\<close>'s compact printer does, and the extractor, fed with it, gives exactly its
  \<open>presentation.prose\<close>, however the text is cut into chunks.
\<close>

section \<open>Writing JSON\<close>

definition hex_char :: "nat \<Rightarrow> char" where
  "hex_char n = char_of (if n < 10 then 48 + n else 87 + n)"

definition escape_char :: "string \<Rightarrow> string list" where
  "escape_char c =
     (if c = [CHR 0x22] \<or> c = [CHR 0x5C] then [[CHR 0x5C], c]
      else if c = [CHR 0x0A] then [[CHR 0x5C], ''n'']
      else if c = [CHR 0x09] then [[CHR 0x5C], ''t'']
      else if c = [CHR 0x0D] then [[CHR 0x5C], ''r'']
      else if c = [CHR 0x08] then [[CHR 0x5C], ''b'']
      else if c = [CHR 0x0C] then [[CHR 0x5C], ''f'']
      else case c of
        [b] \<Rightarrow> if (of_char b :: nat) < 32
              then [[CHR 0x5C], ''u'', ''0'', ''0'', [hex_char (of_char b div 16)], [hex_char (of_char b mod 16)]]
              else [c]
      | _ \<Rightarrow> [c])"

definition string_chars :: "string \<Rightarrow> string list" where
  "string_chars s = [[CHR 0x22]] @ concat (map escape_char (chars_of s)) @ [[CHR 0x22]]"

fun commas :: "string list list \<Rightarrow> string list" where
  "commas [] = []"
| "commas [x] = x"
| "commas (x # xs) = x @ '','' # commas xs"

definition int_text :: "int \<Rightarrow> string" where
  "int_text i = (if i < 0 then ''-'' else []) @ show_nat (nat \<bar>i\<bar>)"

definition ascii_chars :: "string \<Rightarrow> string list" where
  "ascii_chars s = map (\<lambda>c. [c]) s"

fun json_chars :: "(f64 \<Rightarrow> string) \<Rightarrow> json \<Rightarrow> string list" where
  "json_chars num JNull = ascii_chars ''null''"
| "json_chars num (JBool b) = ascii_chars (if b then ''true'' else ''false'')"
| "json_chars num (JInt i) = ascii_chars (int_text i)"
| "json_chars num (JFloat f) = ascii_chars (num f)"
| "json_chars num (JStr s) = string_chars s"
| "json_chars num (JArr xs) = ''['' # commas (map (json_chars num) xs) @ ['']'']"
| "json_chars num (JObj m) =
     ''{'' # commas (map (\<lambda>kv. string_chars (fst kv) @ '':'' # json_chars num (snd kv)) m) @ [''}'']"

section \<open>Reading strings\<close>

text \<open>The extractor inside the document, with stack \<open>st\<close> and outside every string.\<close>

definition between :: "frame list \<Rightarrow> extractor \<Rightarrow> bool" where
  "between st x \<longleftrightarrow>
     px_started x \<and> \<not> px_finished x \<and> px_string x = None \<and> px_surrogate x = None \<and> px_stack x = st"

lemma hex_value_hex_char: "k < 16 \<Longrightarrow> hex_value (hex_char k) = Some k"
  by (auto simp: hex_value_def hex_char_def Let_def)

lemma hex_value_zero: "hex_value (CHR ''0'') = Some 0"
  by (simp add: hex_value_def Let_def)

lemma control_hex:
  "n < 32 \<Longrightarrow> u16_from_hex [CHR ''0'', CHR ''0'', hex_char (n div 16), hex_char (n mod 16)] = Some n"
  by (simp add: u16_from_hex_def Let_def hex_value_zero hex_value_hex_char less_mult_imp_div_less)

text \<open>The text after one more character.\<close>

definition grown :: "prose_text \<Rightarrow> string \<Rightarrow> prose_text" where
  "grown t c = (case pt_key t of Some key \<Rightarrow> t\<lparr>pt_key := Some (key @ c)\<rparr> | None \<Rightarrow> t)"

definition shown :: "prose_text \<Rightarrow> string \<Rightarrow> string" where
  "shown t c = (if pt_key t = None \<and> pt_emit t then c else [])"

lemma keep_char_Some:
  "pt_escape t = No_Escape \<Longrightarrow> keep_char t (Some c, x) = (shown t c, with_text (grown t c) x)"
  by (simp add: keep_char_def grown_def shown_def split: option.split)

lemma prose_text_same: "pt_escape t = No_Escape \<Longrightarrow> t\<lparr>pt_escape := No_Escape\<rparr> = t"
  by (cases t) simp

lemma read_escaped:
  assumes "px_string x = Some t" and "pt_escape t = No_Escape" and "px_surrogate x = None"
  shows "prose_chars (escape_char c) x = (shown t c, with_text (grown t c) x)"
proof -
  have plain: "prose_chars [c] x = (shown t c, with_text (grown t c) x)"
    if "c \<noteq> [CHR 0x5C]" "c \<noteq> [CHR 0x22]"
    using that assms by (simp add: prose_char_def string_char_def keep_char_Some prose_text_same)
  have simple: "prose_chars [[CHR 0x5C], e] x = (shown t d, with_text (grown t d) x)"
    if "e \<noteq> ''u''" "simple_escape e = d" for e d
    using that assms
    by (simp add: prose_char_def string_char_def keep_char_def with_text_def grown_def shown_def
        prose_text_same split: option.split)
  have coded: "prose_chars [[CHR 0x5C], ''u'', ''0'', ''0'', [hex_char (n div 16)], [hex_char (n mod 16)]] x =
      (shown t [char_of n], with_text (grown t [char_of n]) x)" if "n < 32" for n :: nat
    using assms control_hex [OF that] that
    by (simp add: prose_char_def string_char_def keep_char_def with_text_def grown_def shown_def
        decode_utf16_def char_from_u32_def split: option.split)
  consider "c = [CHR 0x22] \<or> c = [CHR 0x5C]" | "c = [CHR 0x0A]" | "c = [CHR 0x09]" | "c = [CHR 0x0D]"
    | "c = [CHR 0x08]" | "c = [CHR 0x0C]"
    | n where "escape_char c = [[CHR 0x5C], ''u'', ''0'', ''0'', [hex_char (n div 16)], [hex_char (n mod 16)]]"
        "c = [char_of n]" "n < 32"
    | "escape_char c = [c]" "c \<noteq> [CHR 0x5C]" "c \<noteq> [CHR 0x22]"
  proof (cases "c = [CHR 0x22] \<or> c = [CHR 0x5C] \<or> c = [CHR 0x0A] \<or> c = [CHR 0x09] \<or> c = [CHR 0x0D] \<or>
      c = [CHR 0x08] \<or> c = [CHR 0x0C]")
    case False
    show ?thesis
    proof (cases "\<exists>b. c = [b] \<and> (of_char b :: nat) < 32")
      case True
      then obtain b where b: "c = [b]" "(of_char b :: nat) < 32" by blast
      then show ?thesis
        using False that(7) [of "of_char b"] by (simp add: escape_char_def)
    next
      case no: False
      then have "escape_char c = [c]"
        using False by (auto simp: escape_char_def split: list.split)
      then show ?thesis using that(8) False by blast
    qed
  qed (use that in blast)
  then show ?thesis
  proof cases
    case 1
    then show ?thesis
      by (elim disjE) (simp_all add: escape_char_def simple simple_escape_def del: prose_chars.simps)
  next
    case (7 n)
    then show ?thesis using coded by simp
  next
    case 8
    then show ?thesis using plain by simp
  qed (simp_all add: escape_char_def simple simple_escape_def del: prose_chars.simps)
qed

lemma read_escapes:
  "px_string x = Some t \<Longrightarrow> pt_escape t = No_Escape \<Longrightarrow> px_surrogate x = None \<Longrightarrow>
   prose_chars (concat (map escape_char cs)) x = (shown t (concat cs), with_text (grown t (concat cs)) x)"
proof (induction cs arbitrary: t x)
  case Nil
  then show ?case
    by (cases x) (simp add: shown_def with_text_def grown_def split: option.split)
next
  case (Cons c cs)
  let ?y = "with_text (grown t c) x"
  have y: "px_string ?y = Some (grown t c)" "pt_escape (grown t c) = No_Escape" "px_surrogate ?y = None"
    using Cons.prems by (simp_all add: with_text_def grown_def split: option.split)
  have "shown t c @ shown (grown t c) d = shown t (c @ d)"
      "with_text (grown (grown t c) d) ?y = with_text (grown t (c @ d)) x" for d
    by (simp_all add: shown_def grown_def with_text_def split: option.split)
  then show ?case
    using Cons.IH [OF y] read_escaped [OF Cons.prems, of c] by (simp add: prose_chars_append)
qed

lemma read_string:
  assumes "between st x"
  shows "prose_chars (string_chars s) x =
    (if expects_key st
     then ([], x\<lparr>px_stack := (case st of Object_Frame _ _ # r \<Rightarrow> Object_Frame (Some s) False # r | _ \<Rightarrow> st)\<rparr>)
     else (if at_prose st then s else [], x))"
proof -
  let ?t = "\<lparr>pt_key = (if expects_key st then Some [] else None),
    pt_emit = (\<not> expects_key st \<and> at_prose st), pt_escape = No_Escape\<rparr>"
  let ?y = "with_text ?t x"
  have opened: "prose_char [CHR 0x22] x = ([], ?y)"
    using assms by (simp add: between_def prose_char_def structural_char_def in_document_def with_text_def)
  have "prose_chars (concat (map escape_char (chars_of s))) ?y = (shown ?t s, with_text (grown ?t s) ?y)"
    using assms read_escapes [of ?y ?t "chars_of s"] by (simp add: with_text_def between_def)
  moreover have "prose_char [CHR 0x22] (with_text (grown ?t s) ?y) = ([], end_string (grown ?t s) (with_text (grown ?t s) ?y))"
    by (simp add: prose_char_def with_text_def string_char_def grown_def)
  moreover have "end_string (grown ?t s) (with_text (grown ?t s) ?y) =
      (if expects_key st
       then x\<lparr>px_stack := (case st of Object_Frame _ _ # r \<Rightarrow> Object_Frame (Some s) False # r | _ \<Rightarrow> st)\<rparr>
       else x)"
    using assms by (cases x) (auto simp: end_string_def with_text_def grown_def between_def expects_key_def
        split: list.split frame.split)
  ultimately show ?thesis
    using opened by (simp add: string_chars_def prose_chars_append shown_def)
qed

section \<open>Reading values\<close>

text \<open>What a value adds to the prose when it stands under \<open>st\<close>.\<close>

fun emitted :: "frame list \<Rightarrow> json \<Rightarrow> string" where
  "emitted st (JStr s) = (if at_prose st then s else [])"
| "emitted st (JArr xs) = concat (map (emitted (Array_Frame # st)) xs)"
| "emitted st (JObj m) = concat (map (\<lambda>kv. emitted (Object_Frame (Some (fst kv)) False # st) (snd kv)) m)"
| "emitted st _ = []"

definition quiet_char :: "char \<Rightarrow> bool" where
  "quiet_char c \<longleftrightarrow> c \<notin> set ([CHR 0x22] @ ''{}[],'')"

lemma read_quiet:
  "between st x \<Longrightarrow> list_all quiet_char s \<Longrightarrow> prose_chars (ascii_chars s) x = ([], x)"
  by (induction s) (auto simp: ascii_chars_def prose_char_def between_def structural_char_def in_document_def
      quiet_char_def)

lemma int_text_quiet: "list_all quiet_char (int_text i)"
proof -
  have "list_all quiet_char (show_nat n)" for n
    using digits_show_nat [of n] by (auto simp: list_all_iff quiet_char_def is_ascii_digit_def dest!: bspec)
  then show ?thesis by (simp add: int_text_def quiet_char_def)
qed

lemma prose_chars_Cons:
  "prose_char c x = (p, y) \<Longrightarrow> prose_chars (c # cs) x = (p @ fst (prose_chars cs y), snd (prose_chars cs y))"
  by (simp split: prod.split)

text \<open>The structural characters.\<close>

lemma read_open:
  "between st x \<Longrightarrow> prose_char ''['' x = ([], x\<lparr>px_stack := Array_Frame # st\<rparr>)"
  "between st x \<Longrightarrow> prose_char ''{'' x = ([], x\<lparr>px_stack := Object_Frame None True # st\<rparr>)"
  by (simp_all add: prose_char_def between_def structural_char_def in_document_def)

lemma read_close:
  "between (f # st) x \<Longrightarrow> c = '']'' \<or> c = ''}'' \<Longrightarrow>
   prose_char c x = ([], x\<lparr>px_stack := st, px_finished := (st = [])\<rparr>)"
  by (auto simp: prose_char_def between_def structural_char_def in_document_def)

lemma read_comma:
  "between (Array_Frame # st) x \<Longrightarrow> prose_char '','' x = ([], x)"
  "between (Object_Frame k b # st) x \<Longrightarrow> prose_char '','' x = ([], x\<lparr>px_stack := Object_Frame None True # st\<rparr>)"
  by (simp_all add: prose_char_def between_def structural_char_def in_document_def)

lemma read_colon: "between st x \<Longrightarrow> prose_char '':'' x = ([], x)"
  by (simp add: prose_char_def between_def structural_char_def in_document_def)

lemma between_stack: "between st x \<Longrightarrow> between st' (x\<lparr>px_stack := st'\<rparr>)"
  by (simp add: between_def)

lemma commas_Cons: "xs \<noteq> [] \<Longrightarrow> commas (x # xs) = x @ '','' # commas xs"
  by (cases xs) auto

text \<open>The items of an array, and the members of an object.\<close>

lemma read_items:
  assumes "\<And>v x. v \<in> set vs \<Longrightarrow> between (Array_Frame # st) x \<Longrightarrow> prose_chars (w v) x = (e v, x)"
    and "between (Array_Frame # st) x"
  shows "prose_chars (commas (map w vs)) x = (concat (map e vs), x)"
  using assms
proof (induction vs)
  case (Cons v vs)
  then show ?case
    by (cases vs) (auto simp: prose_chars_append read_comma)
qed simp

lemma read_members:
  assumes "\<And>kv x. kv \<in> set m \<Longrightarrow> between (Object_Frame (Some (fst kv)) False # st) x \<Longrightarrow>
      prose_chars (w (snd kv)) x = (e kv, x)"
    and "between (Object_Frame None True # st) x"
  shows "fst (prose_chars (commas (map (\<lambda>kv. string_chars (fst kv) @ '':'' # w (snd kv)) m)) x) = concat (map e m) \<and>
    (\<exists>k b. snd (prose_chars (commas (map (\<lambda>kv. string_chars (fst kv) @ '':'' # w (snd kv)) m)) x) =
       x\<lparr>px_stack := Object_Frame k b # st\<rparr>)"
  using assms
proof (induction m arbitrary: x)
  case Nil
  then have "x = x\<lparr>px_stack := Object_Frame None True # st\<rparr>" by (simp add: between_def)
  then show ?case by auto
next
  case (Cons kv m)
  let ?y = "x\<lparr>px_stack := Object_Frame (Some (fst kv)) False # st\<rparr>"
  have y: "between (Object_Frame (Some (fst kv)) False # st) ?y"
    using Cons.prems(2) by (simp add: between_def)
  have key: "prose_chars (string_chars (fst kv)) x = ([], ?y)"
    using read_string [OF Cons.prems(2), of "fst kv"] by (simp add: expects_key_def)
  have member: "prose_chars (string_chars (fst kv) @ '':'' # w (snd kv)) x = (e kv, ?y)"
    using Cons.prems(1) [of kv ?y] y by (simp add: prose_chars_append key read_colon)
  show ?case
  proof (cases "m = []")
    case True
    then show ?thesis using member by auto
  next
    case False
    let ?mem = "\<lambda>kv. string_chars (fst kv) @ '':'' # w (snd kv)"
    let ?z = "?y\<lparr>px_stack := Object_Frame None True # st\<rparr>"
    have z: "between (Object_Frame None True # st) ?z" using y by (simp add: between_def)
    have rest: "fst (prose_chars (commas (map ?mem m)) ?z) = concat (map e m) \<and>
      (\<exists>k b. snd (prose_chars (commas (map ?mem m)) ?z) = ?z\<lparr>px_stack := Object_Frame k b # st\<rparr>)"
      using z by (intro Cons.IH) (auto intro: Cons.prems)
    have "commas (map ?mem (kv # m)) = ?mem kv @ '','' # commas (map ?mem m)"
      using False by (simp add: commas_Cons)
    moreover have "prose_chars (?mem kv @ '','' # r) x =
        (e kv @ fst (prose_chars r ?z), snd (prose_chars r ?z))" for r
      by (simp only: prose_chars_append [of "?mem kv"] member fst_conv snd_conv
          prose_chars_Cons [OF read_comma(2) [OF y]] append_Nil)
    ultimately show ?thesis
      using rest by auto
  qed
qed

text \<open>A value under \<open>st\<close> leaves the extractor where it was and adds what \<open>emitted\<close> says.\<close>

lemma read_value:
  assumes "\<And>f. list_all quiet_char (num f)"
  shows "between st x \<Longrightarrow> st \<noteq> [] \<Longrightarrow> \<not> expects_key st \<Longrightarrow>
    prose_chars (json_chars num v) x = (emitted st v, x)"
proof (induction v arbitrary: st x)
  case (JArr xs)
  let ?y = "x\<lparr>px_stack := Array_Frame # st\<rparr>"
  have y: "between (Array_Frame # st) ?y" using JArr.prems(1) by (simp add: between_def)
  have items: "prose_chars (commas (map (json_chars num) xs)) ?y =
      (concat (map (emitted (Array_Frame # st)) xs), ?y)"
    using y JArr.IH by (intro read_items) (auto simp: expects_key_def)
  have "?y\<lparr>px_stack := st, px_finished := (st = [])\<rparr> = x"
    using JArr.prems(1,2) by (cases x) (simp add: between_def)
  then show ?case
    using items read_open(1) [OF JArr.prems(1)] read_close [OF y, of "'']''"]
    by (simp add: prose_chars_append)
next
  case (JObj m)
  let ?y = "x\<lparr>px_stack := Object_Frame None True # st\<rparr>"
  let ?mem = "\<lambda>kv. string_chars (fst kv) @ '':'' # json_chars num (snd kv)"
  let ?e = "\<lambda>kv. emitted (Object_Frame (Some (fst kv)) False # st) (snd kv)"
  have y: "between (Object_Frame None True # st) ?y" using JObj.prems(1) by (simp add: between_def)
  have one: "prose_chars (json_chars num (snd kv)) z = (?e kv, z)"
    if "kv \<in> set m" "between (Object_Frame (Some (fst kv)) False # st) z" for kv z
    using that by (intro JObj.IH) (auto simp: expects_key_def intro: snds.intros)
  from read_members [of m st "json_chars num" ?e, OF one y] obtain k b
    where "fst (prose_chars (commas (map ?mem m)) ?y) = concat (map ?e m)"
      "snd (prose_chars (commas (map ?mem m)) ?y) = ?y\<lparr>px_stack := Object_Frame k b # st\<rparr>"
    by blast
  then have members: "prose_chars (commas (map ?mem m)) ?y =
      (concat (map ?e m), ?y\<lparr>px_stack := Object_Frame k b # st\<rparr>)"
    unfolding prod_eq_iff fst_conv snd_conv by (rule conjI)
  have "between (Object_Frame k b # st) (?y\<lparr>px_stack := Object_Frame k b # st\<rparr>)"
    using y by (simp add: between_def)
  note close = read_close [OF this, of "''}''"]
  have "x\<lparr>px_stack := st, px_finished := False\<rparr> = x"
    using JObj.prems(1,2) by (cases x) (simp add: between_def)
  then show ?case
    using members read_open(2) [OF JObj.prems(1)] close JObj.prems(2)
    by (simp add: prose_chars_append)
qed (use assms int_text_quiet in \<open>auto simp: read_string read_quiet quiet_char_def\<close>)

section \<open>Documents\<close>

text \<open>Only \<open>presentation.prose\<close> of the root object is shown.\<close>

lemma not_prose_deep: "2 < length st \<or> Array_Frame \<in> set st \<Longrightarrow> \<not> at_prose st"
  by (induction st rule: at_prose.induct) auto

lemma emitted_deep: "2 < length st \<or> Array_Frame \<in> set st \<Longrightarrow> emitted st v = []"
  by (induction st v rule: emitted.induct) (auto simp: not_prose_deep)

lemma emitted_inner:
  "emitted [Object_Frame (Some inner) False, Object_Frame (Some outer) b] v =
     (if outer = ''presentation'' \<and> inner = ''prose'' then (case v of JStr s \<Rightarrow> s | _ \<Rightarrow> []) else [])"
  by (cases v) (auto simp: emitted_deep)

lemma emitted_outer:
  "emitted [Object_Frame (Some outer) b] v =
     (if outer = ''presentation''
      then (case v of
          JObj m \<Rightarrow> concat (map (\<lambda>kv. if fst kv = ''prose'' then (case snd kv of JStr s \<Rightarrow> s | _ \<Rightarrow> []) else []) m)
        | _ \<Rightarrow> [])
      else [])"
  by (cases v) (auto simp: emitted_deep emitted_inner intro!: arg_cong [of _ _ concat])

lemma concat_one_key:
  "distinct (map fst m) \<Longrightarrow>
   concat (map (\<lambda>kv. if fst kv = k then f (snd kv) else []) m) =
     (case map_of m k of Some v \<Rightarrow> f v | None \<Rightarrow> [])"
proof (induction m)
  case (Cons kv m)
  have "map_of m k = None" if "fst kv = k"
    using Cons.prems that by (auto simp: map_of_eq_None_iff)
  with Cons show ?case by auto
qed simp

definition presented_prose :: "payload \<Rightarrow> string" where
  "presented_prose m =
     (case map_of m ''presentation'' of
        Some (JObj p) \<Rightarrow> (case map_of p ''prose'' of Some (JStr s) \<Rightarrow> s | _ \<Rightarrow> [])
      | _ \<Rightarrow> [])"

lemma emitted_document:
  assumes "distinct (map fst m)" and "\<And>p. map_of m ''presentation'' = Some (JObj p) \<Longrightarrow> distinct (map fst p)"
  shows "concat (map (\<lambda>kv. emitted [Object_Frame (Some (fst kv)) False] (snd kv)) m) = presented_prose m"
proof -
  let ?f = "\<lambda>v. case v of
      JObj p \<Rightarrow> concat (map (\<lambda>kv. if fst kv = ''prose'' then (case snd kv of JStr s \<Rightarrow> s | _ \<Rightarrow> []) else []) p)
    | _ \<Rightarrow> []"
  have "emitted [Object_Frame (Some (fst kv)) False] (snd kv) =
      (if fst kv = ''presentation'' then ?f (snd kv) else [])" for kv
    by (auto simp: emitted_outer split: json.split)
  then have "concat (map (\<lambda>kv. emitted [Object_Frame (Some (fst kv)) False] (snd kv)) m) =
      (case map_of m ''presentation'' of Some v \<Rightarrow> ?f v | None \<Rightarrow> [])"
    using concat_one_key [OF assms(1), of "''presentation''" ?f] by simp
  also have "\<dots> = presented_prose m"
  proof (cases "map_of m ''presentation''")
    case (Some v)
    show ?thesis
    proof (cases v)
      case (JObj p)
      have "concat (map (\<lambda>kv. if fst kv = ''prose'' then (case snd kv of JStr s \<Rightarrow> s | _ \<Rightarrow> []) else []) p) =
          (case map_of p ''prose'' of Some v \<Rightarrow> (case v of JStr s \<Rightarrow> s | _ \<Rightarrow> []) | None \<Rightarrow> [])"
        using assms(2) [of p] Some JObj by (intro concat_one_key) simp
      then show ?thesis
        unfolding presented_prose_def Some option.case JObj json.case
        by (rule trans) (simp split: option.split json.split)
    qed (simp_all add: presented_prose_def Some)
  qed (simp add: presented_prose_def)
  finally show ?thesis .
qed

text \<open>Text before the document: none of its lines begins with a brace, and it ends where a line begins.\<close>

fun preamble :: "bool \<Rightarrow> string list \<Rightarrow> bool" where
  "preamble mid_line [] \<longleftrightarrow> \<not> mid_line"
| "preamble mid_line (c # cs) \<longleftrightarrow>
     (if c = ''{'' \<and> \<not> mid_line then False
      else if c = [CHR 0x0A] then preamble False cs
      else if is_whitespace c then preamble mid_line cs
      else preamble True cs)"

lemma read_preamble:
  "preamble mid cs \<Longrightarrow> prose_chars cs (new_extractor\<lparr>px_mid_line := mid\<rparr>) = ([], new_extractor)"
proof (induction mid cs rule: preamble.induct)
  case (2 mid c cs)
  then show ?case
    by (auto simp: prose_char_def structural_char_def before_document_def new_extractor_def split: if_splits)
qed (simp add: new_extractor_def)

lemma read_after_document: "px_finished x \<Longrightarrow> px_string x = None \<Longrightarrow> prose_chars cs x = ([], x)"
  by (induction cs) (auto simp: prose_char_def structural_char_def)

lemma read_document:
  assumes "\<And>f. list_all quiet_char (num f)" and "distinct (map fst m)"
    and "\<And>p. map_of m ''presentation'' = Some (JObj p) \<Longrightarrow> distinct (map fst p)"
  shows "fst (prose_chars (json_chars num (JObj m) @ after) new_extractor) = presented_prose m"
proof -
  let ?x = "new_extractor\<lparr>px_started := True, px_stack := [Object_Frame None True]\<rparr>"
  let ?mem = "\<lambda>kv. string_chars (fst kv) @ '':'' # json_chars num (snd kv)"
  let ?e = "\<lambda>kv. emitted [Object_Frame (Some (fst kv)) False] (snd kv)"
  have opened: "prose_char ''{'' new_extractor = ([], ?x)"
    by (simp add: prose_char_def structural_char_def before_document_def new_extractor_def)
  have x: "between [Object_Frame None True] ?x" by (simp add: between_def new_extractor_def)
  have one: "prose_chars (json_chars num (snd kv)) z = (?e kv, z)"
    if "kv \<in> set m" "between (Object_Frame (Some (fst kv)) False # []) z" for kv z
    using that assms(1) by (intro read_value) (auto simp: expects_key_def)
  from read_members [of m "[]" "json_chars num" ?e, OF one x] obtain k b
    where "fst (prose_chars (commas (map ?mem m)) ?x) = concat (map ?e m)"
      "snd (prose_chars (commas (map ?mem m)) ?x) = ?x\<lparr>px_stack := [Object_Frame k b]\<rparr>"
    by blast
  then have members: "prose_chars (commas (map ?mem m)) ?x =
      (concat (map ?e m), ?x\<lparr>px_stack := [Object_Frame k b]\<rparr>)"
    unfolding prod_eq_iff fst_conv snd_conv by (rule conjI)
  have "between [Object_Frame k b] (?x\<lparr>px_stack := [Object_Frame k b]\<rparr>)"
    using x by (simp add: between_def)
  from read_close [OF this, of "''}''"]
  have close: "prose_char ''}'' (?x\<lparr>px_stack := [Object_Frame k b]\<rparr>) =
      ([], ?x\<lparr>px_stack := [], px_finished := True\<rparr>)"
    by simp
  have finished: "prose_chars after (?x\<lparr>px_stack := [], px_finished := True\<rparr>) =
      ([], ?x\<lparr>px_stack := [], px_finished := True\<rparr>)"
    by (rule read_after_document) (simp_all add: new_extractor_def)
  have "fst (prose_chars (json_chars num (JObj m) @ after) new_extractor) = concat (map ?e m)"
    by (simp add: prose_chars_append opened members close [simplified] finished [simplified])
  then show ?thesis using emitted_document [OF assms(2,3)] by simp
qed

fun prose_feed :: "string list \<Rightarrow> extractor \<Rightarrow> string \<times> extractor" where
  "prose_feed [] x = ([], x)"
| "prose_feed (c # cs) x =
     (case prose_push c x of (p, y) \<Rightarrow> (case prose_feed cs y of (q, z) \<Rightarrow> (p @ q, z)))"

lemma prose_feed_chars: "prose_feed chunks x = prose_chars (concat (map chars_of chunks)) x"
  by (induction chunks arbitrary: x) (auto simp: prose_push_def prose_chars_append split: prod.split)

text \<open>C17. What a person reads while a reply streams in is what the finished document says: for a response
  document as it is printed, after any preamble none of whose lines begins with a brace, before any trailing text, and
  however the text is cut into chunks, the pieces the extractor gives are together exactly the string at
  \<open>presentation.prose\<close> (nothing if there is none), never text from anywhere else in the document.\<close>

theorem prose_streams_presentation:
  assumes "\<And>f. list_all quiet_char (num f)" and "distinct (map fst m)"
    and "\<And>p. map_of m ''presentation'' = Some (JObj p) \<Longrightarrow> distinct (map fst p)"
    and "preamble False before_it"
    and "concat (map chars_of chunks) = before_it @ json_chars num (JObj m) @ after"
  shows "fst (prose_feed chunks new_extractor) = presented_prose m"
proof -
  have "prose_chars before_it new_extractor = ([], new_extractor)"
    using read_preamble [OF assms(4)] by (simp add: new_extractor_def)
  then have "prose_chars (before_it @ json_chars num (JObj m) @ after) new_extractor =
      prose_chars (json_chars num (JObj m) @ after) new_extractor"
    unfolding prose_chars_append [of before_it] by simp
  then show ?thesis
    using read_document [OF assms(1-3)] by (simp only: prose_feed_chars assms(5))
qed

definition demo_document :: payload where
  "demo_document = [(''emissions'', JArr [JObj [(''prose'', JStr ''no'')]]),
     (''presentation'', JObj [(''prose'', JStr (''Say '' @ [CHR 0x22] @ ''hi'' @ [CHR 0x22, CHR 0x0A]))])]"

lemma prose_streams_presentation_witness:
  "fst (prose_feed [''Note '' @ [CHR 0x7B, CHR 0x0A], concat (json_chars (\<lambda>f. ''0'') (JObj demo_document))] new_extractor) =
     ''Say '' @ [CHR 0x22] @ ''hi'' @ [CHR 0x22, CHR 0x0A]"
proof -
  have "fst (prose_feed [''Note '' @ [CHR 0x7B, CHR 0x0A], concat (json_chars (\<lambda>f. ''0'') (JObj demo_document))]
      new_extractor) = presented_prose demo_document"
  proof (rule prose_streams_presentation)
    show "list_all quiet_char ''0''" by code_simp
    show "distinct (map fst demo_document)" by code_simp
    show "distinct (map fst p)" if "map_of demo_document ''presentation'' = Some (JObj p)" for p
      using that by (auto simp: demo_document_def)
    show "preamble False (chars_of (''Note '' @ [CHR 0x7B, CHR 0x0A]))" by code_simp
    show "concat (map chars_of [''Note '' @ [CHR 0x7B, CHR 0x0A], concat (json_chars (\<lambda>f. ''0'') (JObj demo_document))]) =
        chars_of (''Note '' @ [CHR 0x7B, CHR 0x0A]) @ json_chars (\<lambda>f. ''0'') (JObj demo_document) @ []"
      by code_simp
  qed
  also have "presented_prose demo_document = ''Say '' @ [CHR 0x22] @ ''hi'' @ [CHR 0x22, CHR 0x0A]"
    by code_simp
  finally show ?thesis .
qed

end
