(* ===== verification/Lint_Judge.thy ===== *)
theory Lint_Judge
  imports Lint_Extract Lint_Rules Prose_Stream Guard
begin

text \<open>
  \<open>dagos-lint/src/judge.rs\<close>: Jev answers one question per rule for each function, and answers are
  remembered. The hash function is a parameter, and so is the order in which the requests, which
  run at the same time, are answered.
\<close>

section \<open>Units and the cache\<close>

definition max_source_chars :: nat where
  "max_source_chars = 12000"

record lint_unit =
  un_file :: string
  un_language :: language
  un_function :: lint_function

datatype judge_error = Judge_Unsupported | Judge_Failed string string string

fun judge_error_str :: "judge_error \<Rightarrow> string" where
  "judge_error_str Judge_Unsupported =
     ''semantic lint needs a Jev that answers yes/no questions (TypeSafe'' @ [CHR 0x27] @
     ''s ~typesafe/jev-latest)''"
| "judge_error_str (Judge_Failed file function_name message) =
     ''Jev failed to judge `'' @ function_name @ ''` in '' @ file @ '': '' @ message"

text \<open>What the key of an answer is a hash of, and the remembered answers.\<close>

type_synonym judged = "string \<times> string \<times> string \<times> string option \<times> string option"

type_synonym judge_cache = "64 word \<Rightarrow> f64 option"

definition cache_key :: "(judged \<Rightarrow> 64 word) \<Rightarrow> lint_unit \<Rightarrow> lint_rule \<Rightarrow> 64 word" where
  "cache_key hash u r =
     hash (language_name (un_language u), fn_text (un_function u), rl_text r, rl_applies r, rl_except r)"

definition max_cached :: nat where
  "max_cached = 50000"

text \<open>\<open>{key:016x}\<close> and \<open>u64::from_str_radix(key, 16)\<close>.\<close>

fun hex_fixed :: "nat \<Rightarrow> nat \<Rightarrow> string" where
  "hex_fixed 0 n = []"
| "hex_fixed (Suc k) n = hex_fixed k (n div 16) @ [hex_char (n mod 16)]"

definition u64_from_hex :: "string \<Rightarrow> 64 word option" where
  "u64_from_hex s =
     (let digits = (case s of c # cs \<Rightarrow> if c = CHR ''+'' \<and> cs \<noteq> [] then cs else s | [] \<Rightarrow> s)
      in if digits = [] then None
         else case hex_digits 0 digits of
           Some n \<Rightarrow> if n < 2 ^ 64 then Some (of_nat n) else None
         | None \<Rightarrow> None)"

text \<open>\<open>Cache::load\<close>, from the entries that parsing the file gave (none if it could not be read), and the
  entries that \<open>Cache::save\<close> writes, from the cache's in the order of its iteration.\<close>

definition cache_load :: "(string \<times> f64) list option \<Rightarrow> judge_cache" where
  "cache_load saved =
     foldl (\<lambda>c (key, p). case u64_from_hex key of None \<Rightarrow> c | Some k \<Rightarrow> c(k \<mapsto> p)) (\<lambda>_. None)
       (case saved of None \<Rightarrow> [] | Some entries \<Rightarrow> entries)"

definition cache_save :: "(64 word \<times> f64) list \<Rightarrow> (string \<times> f64) list" where
  "cache_save entries = map (\<lambda>(key, p). (hex_fixed 16 (unat key), p)) (take max_cached entries)"

section \<open>Questions\<close>

definition cut_mark :: string where
  "cut_mark = ''\<newline>'' @ ellipsis @ '' (cut)''"

definition judge_state :: "lint_unit \<Rightarrow> json" where
  "judge_state u =
     (let text = fn_text (un_function u)
      in JObj
        [(''file'', JStr (un_file u)),
         (''function'', JStr (fn_name (un_function u))),
         (''language'', JStr (language_name (un_language u))),
         (''source'', JStr
           (if max_source_chars < length (chars_of text) then take_chars max_source_chars text @ cut_mark
            else text))])"

definition judge_question :: "lint_rule \<Rightarrow> noul_question" where
  "judge_question r =
     \<lparr>nq_key = rl_id r,
      nq_instructions = JObj
        [(''rule'', JStr (rl_text r)),
         (''task'', JStr (''Decide whether this lint rule applies to the function in `state.source`.''))],
      nq_if_true =
        (case rl_applies r of
           Some applies \<Rightarrow> applies
         | None \<Rightarrow> ''The function clearly has the problem the rule names.''),
      nq_if_false =
        (case rl_except r of
           None \<Rightarrow> ''The function does not have this problem, or only trivially or intentionally.''
         | Some except \<Rightarrow> ''The function does not have this problem. Not a problem: '' @ except)\<rparr>"

section \<open>Judging\<close>

text \<open>The rules a unit has no answer for, and its row with the answers that are known.\<close>

definition missing_rules :: "(judged \<Rightarrow> 64 word) \<Rightarrow> judge_cache \<Rightarrow> lint_rule list \<Rightarrow> lint_unit \<Rightarrow> nat list" where
  "missing_rules hash cache rules u =
     filter (\<lambda>j. cache (cache_key hash u (rules ! j)) = None) [0..<length rules]"

definition known_row :: "(judged \<Rightarrow> 64 word) \<Rightarrow> judge_cache \<Rightarrow> lint_rule list \<Rightarrow> lint_unit \<Rightarrow> f64 list" where
  "known_row hash cache rules u =
     map (\<lambda>r. case cache (cache_key hash u r) of Some p \<Rightarrow> p | None \<Rightarrow> Fin 0) rules"

text \<open>The units that are asked about. \<open>decide index\<close> is Jev's answer to the request for the unit with that
  index.\<close>

definition asked :: "(judged \<Rightarrow> 64 word) \<Rightarrow> judge_cache \<Rightarrow> lint_rule list \<Rightarrow> lint_unit list \<Rightarrow> nat list" where
  "asked hash cache rules units =
     filter (\<lambda>i. missing_rules hash cache rules (units ! i) \<noteq> []) [0..<length units]"

type_synonym decide = "nat \<Rightarrow> json \<Rightarrow> noul_question list \<Rightarrow> jev_error + f64 list option"

definition unit_answer ::
  "decide \<Rightarrow> lint_rule list \<Rightarrow> lint_unit \<Rightarrow> nat \<Rightarrow> nat list \<Rightarrow> judge_error + f64 list" where
  "unit_answer decide rules u index missing =
     (let failed = Judge_Failed (un_file u) (fn_name (un_function u))
      in case decide index (judge_state u) (map (\<lambda>j. judge_question (rules ! j)) missing) of
           Inr (Some ps) \<Rightarrow>
             if length ps = length missing then Inr ps else Inl (failed ''wrong number of answers'')
         | Inr None \<Rightarrow> Inl Judge_Unsupported
         | Inl e \<Rightarrow> Inl (failed (jev_error_str e)))"

definition fill_row :: "(nat \<times> f64) list \<Rightarrow> f64 list \<Rightarrow> f64 list" where
  "fill_row answers row = foldl (\<lambda>row (j, p). row[j := p]) row answers"

definition remember ::
  "(judged \<Rightarrow> 64 word) \<Rightarrow> lint_rule list \<Rightarrow> lint_unit \<Rightarrow> (nat \<times> f64) list \<Rightarrow> judge_cache \<Rightarrow> judge_cache" where
  "remember hash rules u answers cache =
     foldl (\<lambda>c (j, p). c(cache_key hash u (rules ! j) \<mapsto> p)) cache answers"

text \<open>The answers in the order in which they come; \<open>known\<close> is the cache when the requests were made. The
  first failure ends it, with the answers before remembered.\<close>

fun join_answers ::
  "(judged \<Rightarrow> 64 word) \<Rightarrow> decide \<Rightarrow> lint_rule list \<Rightarrow> lint_unit list \<Rightarrow> judge_cache \<Rightarrow> nat list \<Rightarrow>
   f64 list list \<Rightarrow> judge_cache \<Rightarrow> (judge_error + f64 list list) \<times> judge_cache" where
  "join_answers hash decide rules units known [] rows cache = (Inr rows, cache)"
| "join_answers hash decide rules units known (i # order) rows cache =
     (let u = units ! i; missing = missing_rules hash known rules u
      in case unit_answer decide rules u i missing of
           Inl e \<Rightarrow> (Inl e, cache)
         | Inr ps \<Rightarrow>
             join_answers hash decide rules units known order
               (rows[i := fill_row (zip missing ps) (rows ! i)])
               (remember hash rules u (zip missing ps) cache))"

definition judge_units ::
  "(judged \<Rightarrow> 64 word) \<Rightarrow> decide \<Rightarrow> (nat list \<Rightarrow> nat list) \<Rightarrow> lint_rule list \<Rightarrow> lint_unit list \<Rightarrow> judge_cache \<Rightarrow>
   (judge_error + f64 list list) \<times> judge_cache" where
  "judge_units hash decide order rules units cache =
     join_answers hash decide rules units cache (order (asked hash cache rules units))
       (map (known_row hash cache rules) units) cache"

section \<open>Findings\<close>

definition finding_of :: "lint_unit \<Rightarrow> lint_rule \<Rightarrow> f64 \<Rightarrow> ir_finding" where
  "finding_of u r p =
     \<lparr>if_rule = rl_id r, if_text = rl_text r, if_file = un_file u, if_function = fn_name (un_function u),
      if_line = unat (fn_line (un_function u)), if_probability = round_hundredths p\<rparr>"

definition found :: "lint_rule list \<Rightarrow> lint_unit list \<Rightarrow> f64 list list \<Rightarrow> f64 \<Rightarrow> ir_finding list" where
  "found rules units rows threshold =
     concat (map (\<lambda>(u, row).
       concat (map (\<lambda>(r, p). if f64_le threshold p then [finding_of u r p] else []) (zip rules row)))
       (zip units rows))"

text \<open>\<open>sort_by(|a, b| b.total_cmp(a))\<close>, which is stable.\<close>

fun insert_falling :: "('a \<Rightarrow> f64) \<Rightarrow> 'a \<Rightarrow> 'a list \<Rightarrow> 'a list" where
  "insert_falling k x [] = [x]"
| "insert_falling k x (y # ys) =
     (if total_le (k y) (k x) then x # y # ys else y # insert_falling k x ys)"

definition sort_falling :: "('a \<Rightarrow> f64) \<Rightarrow> 'a list \<Rightarrow> 'a list" where
  "sort_falling k xs = foldr (insert_falling k) xs []"

definition findings :: "lint_rule list \<Rightarrow> lint_unit list \<Rightarrow> f64 list list \<Rightarrow> f64 \<Rightarrow> ir_finding list" where
  "findings rules units rows threshold = sort_falling if_probability (found rules units rows threshold)"

end
