(* ===== verification/Lint_Review.thy ===== *)
theory Lint_Review
  imports Lint_Judge
begin

text \<open>
  \<open>dagos-lint/src/reviewer.rs\<close> and \<open>lint_files\<close> of \<open>dagos-lint/src/lib.rs\<close>: which files a run's calls may
  have changed, which of their functions are new, and what a review finds in them. The file system at
  the time of a call is a parameter. A path is the list of its components from the root directory on.
\<close>

section \<open>Paths and files\<close>

type_synonym path = "string list"

definition components :: "string \<Rightarrow> path" where
  "components s = filter (\<lambda>c. c \<noteq> [] \<and> c \<noteq> ''.'') (split_at_byte (CHR ''/'') s)"

definition file_name :: "path \<Rightarrow> string option" where
  "file_name p = (if p = [] \<or> last p = ''..'' then None else Some (last p))"

text \<open>\<open>Path::extension\<close> of a file name: what follows the last dot, unless nothing comes before it.\<close>

definition extension :: "string \<Rightarrow> string option" where
  "extension name =
     (let after = rev (takeWhile (\<lambda>b. b \<noteq> CHR ''.'') (rev name))
      in if length name \<le> length after + 1 then None else Some after)"

definition file_language :: "path \<Rightarrow> language option" where
  "file_language p = language_of (Option.bind (file_name p) extension)"

datatype file_kind = Is_Dir | Is_File | Is_Other

record dir_entry =
  de_name :: string
  de_kind :: "file_kind option"
  de_modified :: "nat option"

text \<open>\<open>read_to_string\<close> (the error's message or the text), \<open>canonicalize\<close>, and \<open>read_dir\<close> with the entries that
  could be read. Times are in nanoseconds.\<close>

record file_system =
  fs_read :: "path \<Rightarrow> string + string"
  fs_canonical :: "path \<Rightarrow> path option"
  fs_entries :: "path \<Rightarrow> dir_entry list option"

definition read_ok :: "file_system \<Rightarrow> path \<Rightarrow> string option" where
  "read_ok fs p = (case fs_read fs p of Inl _ \<Rightarrow> None | Inr text \<Rightarrow> Some text)"

definition skipped_dirs :: "string list" where
  "skipped_dirs =
     [''.git'', ''.dagos'', ''target'', ''node_modules'', ''dist'', ''build'', ''out'', ''.next'', ''.venv'',
      ''venv'', ''__pycache__'', ''.idea'', ''.vscode'']"

definition max_units :: nat where
  "max_units = 40"

definition max_findings :: nat where
  "max_findings = 12"

definition max_scanned :: nat where
  "max_scanned = 20000"

section \<open>The files modified since a time\<close>

text \<open>The loop over the entries of \<open>dir\<close>; the first component says whether the limit ended the scan. \<open>pending\<close>
  is a stack with its top first.\<close>

fun scan_entries ::
  "nat \<Rightarrow> path \<Rightarrow> dir_entry list \<Rightarrow> nat \<Rightarrow> path list \<Rightarrow> path list \<Rightarrow> bool \<times> nat \<times> path list \<times> path list" where
  "scan_entries since dir [] seen pending found_files = (False, seen, pending, found_files)"
| "scan_entries since dir (e # es) seen pending found_files =
     (if max_scanned < seen + 1 then (True, seen + 1, pending, found_files)
      else
        (let path = dir @ [de_name e]
         in case de_kind e of
              Some Is_Dir \<Rightarrow>
                scan_entries since dir es (seen + 1)
                  (if de_name e \<in> set skipped_dirs then pending else path # pending) found_files
            | Some Is_File \<Rightarrow>
                scan_entries since dir es (seen + 1) pending
                  (if file_language path \<noteq> None \<and> (\<exists>m. de_modified e = Some m \<and> since \<le> m)
                   then found_files @ [path] else found_files)
            | _ \<Rightarrow> scan_entries since dir es (seen + 1) pending found_files))"

lemma scan_entries_measure:
  "scan_entries since dir es seen pending found_files = (False, seen', pending', found') \<Longrightarrow>
     2 * (max_scanned - seen') + length pending' \<le> 2 * (max_scanned - seen) + length pending"
proof (induction since dir es seen pending found_files rule: scan_entries.induct)
  case (2 since dir e es seen pending found_files)
  have "2 * (max_scanned - Suc seen) + Suc (length pending) \<le> 2 * (max_scanned - seen) + length pending"
    if "Suc seen \<le> max_scanned"
    using that by simp
  then show ?case
    using 2 by (fastforce simp: Let_def split: if_splits option.splits file_kind.splits)
qed simp

function scan_dirs :: "file_system \<Rightarrow> nat \<Rightarrow> path list \<Rightarrow> nat \<Rightarrow> path list \<Rightarrow> path list" where
  "scan_dirs fs since [] seen found_files = found_files"
| "scan_dirs fs since (dir # pending) seen found_files =
     (case fs_entries fs dir of
        None \<Rightarrow> scan_dirs fs since pending seen found_files
      | Some es \<Rightarrow>
          (case scan_entries since dir es seen pending found_files of
             (True, _, _, found_files') \<Rightarrow> found_files'
           | (False, seen', pending', found_files') \<Rightarrow> scan_dirs fs since pending' seen' found_files'))"
  by pat_completeness auto
termination
  by (relation "measure (\<lambda>(fs, since, pending, seen, _). 2 * (max_scanned - seen) + length pending)")
    (auto dest!: scan_entries_measure [OF sym])

definition modified_since :: "file_system \<Rightarrow> path \<Rightarrow> nat \<Rightarrow> path list" where
  "modified_since fs root_dir since = scan_dirs fs since [root_dir] 0 []"

section \<open>The files that arguments name\<close>

fun collect_strings :: "json \<Rightarrow> string list" where
  "collect_strings (JStr s) = [s]"
| "collect_strings (JArr items) = concat (map collect_strings items)"
| "collect_strings (JObj m) = concat (map (\<lambda>kv. collect_strings (snd kv)) m)"
| "collect_strings _ = []"

text \<open>\<open>split\<close> at the characters that \<open>P\<close> holds of.\<close>

fun split_chars :: "(string \<Rightarrow> bool) \<Rightarrow> string list \<Rightarrow> string list list" where
  "split_chars P [] = [[]]"
| "split_chars P (c # cs) =
     (if P c then [] # split_chars P cs
      else case split_chars P cs of [] \<Rightarrow> [[c]] | w # ws \<Rightarrow> (c # w) # ws)"

definition word_end :: "string \<Rightarrow> bool" where
  "word_end c \<longleftrightarrow> is_whitespace c \<or> c \<in> set ['';'', ''|'', ''&'', ''<'', ''>'', ''('', '')'', [CHR 0x60], '','', ''='']"

definition is_quote :: "string \<Rightarrow> bool" where
  "is_quote c \<longleftrightarrow> c = [CHR 0x22] \<or> c = [CHR 0x27]"

definition trim_quotes :: "string list \<Rightarrow> string list" where
  "trim_quotes cs = rev (dropWhile is_quote (rev (dropWhile is_quote cs)))"

definition path_words :: "string \<Rightarrow> string list" where
  "path_words text =
     filter (\<lambda>w. w \<noteq> [] \<and> CHR ''.'' \<in> set w)
       (map (\<lambda>cs. concat (trim_quotes cs)) (split_chars word_end (chars_of text)))"

text \<open>\<open>project_file\<close>: \<open>starts_with\<close> compares whole components. A joined path that has a file language has a
  last component, so it has a parent.\<close>

definition project_file :: "file_system \<Rightarrow> path \<Rightarrow> string \<Rightarrow> path option" where
  "project_file fs root_dir word =
     (if file_language (components word) = None then None
      else
        (let joined = (if starts_with ''/'' word then components word else root_dir @ components word)
         in Option.bind (fs_canonical fs (butlast joined)) (\<lambda>parent.
              Option.bind (file_name joined) (\<lambda>name.
                (let file = parent @ [name]
                 in if take (length root_dir) file = root_dir then Some file else None)))))"

definition named_files :: "file_system \<Rightarrow> path \<Rightarrow> payload \<Rightarrow> path list" where
  "named_files fs root_dir arguments =
     (let texts = concat (map (\<lambda>kv. collect_strings (snd kv)) arguments)
      in foldl (\<lambda>files word.
           case project_file fs root_dir word of
             Some path \<Rightarrow> if path \<in> set files then files else files @ [path]
           | None \<Rightarrow> files) [] (concat (map path_words texts)))"

section \<open>The reviewer\<close>

record touched =
  th_since :: nat
  th_files :: "(path, string option) btree"

text \<open>\<open>lv_saves\<close> says whether there is a file to save the cache in.\<close>

record lint_reviewer =
  lv_root :: path
  lv_config :: lint_config
  lv_cache :: judge_cache
  lv_before :: "run_id \<Rightarrow> touched option"
  lv_saves :: bool

text \<open>\<open>new\<close> with the canonical root, and \<open>with_cache_file\<close> with what loading the file gave.\<close>

definition new_reviewer :: "path \<Rightarrow> lint_config \<Rightarrow> lint_reviewer" where
  "new_reviewer root_dir config =
     \<lparr>lv_root = root_dir, lv_config = config, lv_cache = \<lambda>_. None, lv_before = \<lambda>_. None, lv_saves = False\<rparr>"

definition with_cache_file :: "(string \<times> f64) list option \<Rightarrow> lint_reviewer \<Rightarrow> lint_reviewer" where
  "with_cache_file saved rv = rv\<lparr>lv_cache := cache_load saved, lv_saves := True\<rparr>"

text \<open>\<open>entry(k).or_insert(v)\<close>.\<close>

definition or_insert :: "'k::linorder \<Rightarrow> 'v \<Rightarrow> ('k, 'v) btree \<Rightarrow> ('k, 'v) btree" where
  "or_insert k v m = (if map_of m k = None then bt_insert k v m else m)"

text \<open>Two seconds before \<open>moment\<close>.\<close>

definition run_start :: "nat \<Rightarrow> nat" where
  "run_start moment = moment - 2 * 1000000000"

definition reviewer_before_call :: "file_system \<Rightarrow> nat \<Rightarrow> run_id \<Rightarrow> tool_request \<Rightarrow> lint_reviewer \<Rightarrow> lint_reviewer" where
  "reviewer_before_call fs moment run request rv =
     (let files = named_files fs (lv_root rv) (tq_arguments request);
          t = (case lv_before rv run of Some t \<Rightarrow> t | None \<Rightarrow> \<lparr>th_since = run_start moment, th_files = []\<rparr>);
          t' = t\<lparr>th_files := foldl (\<lambda>m file. or_insert file (read_ok fs file) m) (th_files t) files\<rparr>
      in rv\<lparr>lv_before := (lv_before rv)(run \<mapsto> t')\<rparr>)"

definition reviewer_end :: "run_id \<Rightarrow> lint_reviewer \<Rightarrow> lint_reviewer" where
  "reviewer_end run rv = rv\<lparr>lv_before := (lv_before rv)(run := None)\<rparr>"

definition display_path :: "path \<Rightarrow> path \<Rightarrow> string" where
  "display_path root_dir p =
     replace_byte (CHR 0x5C) (CHR ''/'')
       (if take (length root_dir) p = root_dir then join ''/'' (drop (length root_dir) p)
        else ''/'' @ join ''/'' p)"

text \<open>The functions of a file that are not among those of its text before; \<open>fns_in\<close> is \<open>functions\<close>.\<close>

definition new_functions ::
  "(language \<Rightarrow> string \<Rightarrow> lint_function list option) \<Rightarrow> language \<Rightarrow> string option \<Rightarrow> string \<Rightarrow> lint_function list option" where
  "new_functions fns_in language before text_now =
     Option.bind (case before of None \<Rightarrow> Some [] | Some text \<Rightarrow> fns_in language text) (\<lambda>earlier.
       map_option (filter (\<lambda>f. fn_text f \<notin> set (map fn_text earlier))) (fns_in language text_now))"

fun changed_in ::
  "(language \<Rightarrow> string \<Rightarrow> lint_function list option) \<Rightarrow> file_system \<Rightarrow> path \<Rightarrow> (path \<times> string option) list \<Rightarrow> lint_unit list option" where
  "changed_in fns_in fs root_dir [] = Some []"
| "changed_in fns_in fs root_dir ((path, before) # files) =
     (case file_language path of
        None \<Rightarrow> changed_in fns_in fs root_dir files
      | Some language \<Rightarrow>
          (case read_ok fs path of
             None \<Rightarrow> changed_in fns_in fs root_dir files
           | Some text_now \<Rightarrow>
               if before = Some text_now then changed_in fns_in fs root_dir files
               else Option.bind (new_functions fns_in language before text_now) (\<lambda>fns.
                 map_option ((@) (map (\<lambda>f. \<lparr>un_file = display_path root_dir path, un_language = language,
                     un_function = f\<rparr>) fns))
                   (changed_in fns_in fs root_dir files))))"

definition changed_units ::
  "(language \<Rightarrow> string \<Rightarrow> lint_function list option) \<Rightarrow> file_system \<Rightarrow> path \<Rightarrow> (path, string option) btree \<Rightarrow> lint_unit list option" where
  "changed_units fns_in fs root_dir files = map_option (take max_units) (changed_in fns_in fs root_dir files)"

definition kept_findings :: "lint_config \<Rightarrow> lint_unit list \<Rightarrow> f64 list list \<Rightarrow> ir_finding list" where
  "kept_findings config units rows =
     filter (\<lambda>f. \<not> is_dismissed config (if_rule f) (if_file f) (if_function f))
       (findings (lc_rules config) units rows (lc_threshold config))"

text \<open>The files a review looks at: the touched ones, and those modified since, with no earlier text.\<close>

definition review_files :: "file_system \<Rightarrow> path \<Rightarrow> touched \<Rightarrow> (path, string option) btree" where
  "review_files fs root_dir t =
     foldl (\<lambda>m path. or_insert path None m) (th_files t) (modified_since fs root_dir (th_since t))"

text \<open>\<open>Reviewer::review\<close>; the first component is \<open>None\<close> for a panic, and the last the cache that was saved, if
  any. \<open>fingerprint\<close> is the hash of the units' files and texts.\<close>

definition lint_review ::
  "(language \<Rightarrow> string \<Rightarrow> lint_function list option) \<Rightarrow> (judged \<Rightarrow> 64 word) \<Rightarrow> ((string \<times> string) list \<Rightarrow> 64 word) \<Rightarrow>
   decide \<Rightarrow> (nat list \<Rightarrow> nat list) \<Rightarrow> file_system \<Rightarrow> run_id \<Rightarrow> lint_reviewer \<Rightarrow>
   (string + review) option \<times> lint_reviewer \<times> judge_cache option" where
  "lint_review fns_in hash fingerprint decide order fs run rv =
     (case lv_before rv run of
        None \<Rightarrow> (Some (Inr empty_review), rv, None)
      | Some t \<Rightarrow>
          (case changed_units fns_in fs (lv_root rv) (review_files fs (lv_root rv) t) of
             None \<Rightarrow> (None, rv, None)
           | Some units \<Rightarrow>
               if units = [] then (Some (Inr empty_review), rv, None)
               else
                 (case judge_units hash decide order (lc_rules (lv_config rv)) units (lv_cache rv) of
                    (Inl Judge_Unsupported, cache) \<Rightarrow> (Some (Inr empty_review), rv\<lparr>lv_cache := cache\<rparr>, None)
                  | (Inl e, cache) \<Rightarrow> (Some (Inl (judge_error_str e)), rv\<lparr>lv_cache := cache\<rparr>, None)
                  | (Inr rows, cache) \<Rightarrow>
                      (Some (Inr \<lparr>rv_findings = take max_findings (kept_findings (lv_config rv) units rows),
                          rv_judged = length units,
                          rv_fingerprint = hex_fixed 16 (unat (fingerprint
                            (map (\<lambda>u. (un_file u, fn_text (un_function u))) units)))\<rparr>),
                       rv\<lparr>lv_cache := cache\<rparr>, if lv_saves rv then Some cache else None))))"

section \<open>Linting files\<close>

record lint_report =
  lr_units :: "lint_unit list"
  lr_judgments :: "f64 list list"
  lr_findings :: "ir_finding list"

text \<open>The units of the named files, or the first error (\<open>None\<close>: a panic). \<open>root_text\<close> is the root as it is
  displayed.\<close>

fun file_units ::
  "(language \<Rightarrow> string \<Rightarrow> lint_function list option) \<Rightarrow> file_system \<Rightarrow> path \<Rightarrow> string \<Rightarrow> string list \<Rightarrow> (string + lint_unit list) option" where
  "file_units fns_in fs root_dir root_text [] = Some (Inr [])"
| "file_units fns_in fs root_dir root_text (file # files) =
     (let absolute = starts_with ''/'' file;
          path = (if absolute then components file else root_dir @ components file)
      in case file_language path of
           None \<Rightarrow> file_units fns_in fs root_dir root_text files
         | Some language \<Rightarrow>
             (case fs_read fs path of
                Inl e \<Rightarrow> Some (Inl (''cannot read '' @
                  (if absolute then file else root_text @ ''/'' @ file) @ '': '' @ e))
              | Inr text \<Rightarrow>
                  Option.bind (fns_in language text) (\<lambda>fns.
                    map_option (map_sum id ((@) (map (\<lambda>f. \<lparr>un_file = replace_byte (CHR 0x5C) (CHR ''/'') file,
                        un_language = language, un_function = f\<rparr>) fns)))
                      (file_units fns_in fs root_dir root_text files))))"

definition lint_files ::
  "(language \<Rightarrow> string \<Rightarrow> lint_function list option) \<Rightarrow> (judged \<Rightarrow> 64 word) \<Rightarrow> decide \<Rightarrow> (nat list \<Rightarrow> nat list) \<Rightarrow>
   file_system \<Rightarrow> path \<Rightarrow> string \<Rightarrow> string list \<Rightarrow> lint_config \<Rightarrow> judge_cache \<Rightarrow>
   (string + lint_report) option \<times> judge_cache" where
  "lint_files fns_in hash decide order fs root_dir root_text files config cache =
     (case file_units fns_in fs root_dir root_text files of
        None \<Rightarrow> (None, cache)
      | Some (Inl e) \<Rightarrow> (Some (Inl e), cache)
      | Some (Inr units) \<Rightarrow>
          (case judge_units hash decide order (lc_rules config) units cache of
             (Inl e, cache') \<Rightarrow> (Some (Inl (judge_error_str e)), cache')
           | (Inr rows, cache') \<Rightarrow>
               (Some (Inr \<lparr>lr_units = units, lr_judgments = rows,
                  lr_findings = kept_findings config units rows\<rparr>), cache')))"

end
