(* ===== verification/Lint_Judgments.thy ===== *)
theory Lint_Judgments
  imports Lint_Judge "HOL-Library.Multiset"
begin

text \<open>
  What judging gives: the same judgments in whatever order the requests are answered, and a cache with
  which the same units are not asked about again; a saved cache loads back; findings are the rules at or
  above the threshold, most probable first.
\<close>

section \<open>Rows\<close>

lemma length_fill_row [simp]: "length (fill_row answers row) = length row"
  unfolding fill_row_def by (induction answers arbitrary: row) auto

lemma fill_row_nth:
  assumes "distinct (map fst answers)" "j < length row"
  shows "fill_row answers row ! j = (case map_of answers j of Some p \<Rightarrow> p | None \<Rightarrow> row ! j)"
  using assms
proof (induction answers arbitrary: row)
  case (Cons a answers)
  obtain k p where a: "a = (k, p)" by (cases a)
  have "fill_row (a # answers) row = fill_row answers (row[k := p])"
    by (simp add: fill_row_def a)
  moreover have "map_of answers k = None"
    using Cons.prems(1) by (simp add: a map_of_eq_None_iff)
  ultimately show ?case
    using Cons by (auto simp: a split: option.splits)
qed (simp add: fill_row_def)

lemma remember_dom:
  "remember hash rules u answers cache k \<noteq> None \<longleftrightarrow>
     cache k \<noteq> None \<or> k \<in> (\<lambda>(j, p). cache_key hash u (rules ! j)) ` set answers"
  unfolding remember_def by (induction answers arbitrary: cache) auto

lemma join_answers_ok:
  assumes "list_all (\<lambda>i. \<exists>ps. unit_answer decide rules (units ! i) i (missing_rules hash known rules (units ! i)) = Inr ps) order"
    "distinct order" "list_all (\<lambda>i. i < length rows) order"
    "answers = (\<lambda>i. zip (missing_rules hash known rules (units ! i))
       (projr (unit_answer decide rules (units ! i) i (missing_rules hash known rules (units ! i)))))"
  shows "\<exists>rows' cache'. join_answers hash decide rules units known order rows cache = (Inr rows', cache') \<and>
    length rows' = length rows \<and>
    (\<forall>i < length rows. rows' ! i = (if i \<in> set order then fill_row (answers i) (rows ! i) else rows ! i)) \<and>
    (\<forall>k. cache' k \<noteq> None \<longleftrightarrow> cache k \<noteq> None \<or>
      (\<exists>i \<in> set order. k \<in> (\<lambda>(j, p). cache_key hash (units ! i) (rules ! j)) ` set (answers i)))"
  using assms(1-3)
proof (induction order arbitrary: rows cache)
  case (Cons i order)
  obtain ps where ps: "unit_answer decide rules (units ! i) i (missing_rules hash known rules (units ! i)) = Inr ps"
    using Cons.prems(1) by auto
  let ?rows = "rows[i := fill_row (answers i) (rows ! i)]"
  let ?cache = "remember hash rules (units ! i) (answers i) cache"
  obtain rows' cache' where IH: "join_answers hash decide rules units known order ?rows ?cache = (Inr rows', cache')"
      "length rows' = length ?rows"
      "\<forall>n < length ?rows. rows' ! n = (if n \<in> set order then fill_row (answers n) (?rows ! n) else ?rows ! n)"
      "\<forall>k. cache' k \<noteq> None \<longleftrightarrow> ?cache k \<noteq> None \<or>
        (\<exists>i \<in> set order. k \<in> (\<lambda>(j, p). cache_key hash (units ! i) (rules ! j)) ` set (answers i))"
    using Cons.IH [of ?rows ?cache] Cons.prems by auto
  have "join_answers hash decide rules units known (i # order) rows cache = (Inr rows', cache')"
    using IH(1) ps assms(4) by (simp add: Let_def)
  moreover have "\<forall>n < length rows. rows' ! n =
      (if n \<in> set (i # order) then fill_row (answers n) (rows ! n) else rows ! n)"
    using IH(3) Cons.prems(2,3) by (auto simp: nth_list_update)
  moreover have "\<forall>k. cache' k \<noteq> None \<longleftrightarrow> cache k \<noteq> None \<or>
      (\<exists>n \<in> set (i # order). k \<in> (\<lambda>(j, p). cache_key hash (units ! n) (rules ! j)) ` set (answers n))"
  proof
    fix k
    show "cache' k \<noteq> None \<longleftrightarrow> cache k \<noteq> None \<or>
        (\<exists>n \<in> set (i # order). k \<in> (\<lambda>(j, p). cache_key hash (units ! n) (rules ! j)) ` set (answers n))"
      unfolding IH(4) [rule_format, of k] remember_dom by simp
  qed
  ultimately show ?case using IH(2) by auto
qed simp

text \<open>The probability of a rule for a unit: the remembered one, or Jev's.\<close>

definition judged_value ::
  "(judged \<Rightarrow> 64 word) \<Rightarrow> decide \<Rightarrow> lint_rule list \<Rightarrow> lint_unit list \<Rightarrow> judge_cache \<Rightarrow> nat \<Rightarrow> nat \<Rightarrow> f64" where
  "judged_value hash decide rules units cache i j =
     (case cache (cache_key hash (units ! i) (rules ! j)) of
        Some p \<Rightarrow> p
      | None \<Rightarrow>
          (let missing = missing_rules hash cache rules (units ! i)
           in case unit_answer decide rules (units ! i) i missing of
                Inr ps \<Rightarrow> the (map_of (zip missing ps) j)
              | Inl _ \<Rightarrow> NaN))"

lemma unit_answer_length: "unit_answer decide rules u i missing = Inr ps \<Longrightarrow> length ps = length missing"
  by (auto simp: unit_answer_def Let_def split: sum.splits option.splits if_splits)

lemma missing_rules_iff:
  "j \<in> set (missing_rules hash cache rules u) \<longleftrightarrow> j < length rules \<and> cache (cache_key hash u (rules ! j)) = None"
  by (auto simp: missing_rules_def)

lemma distinct_missing_rules: "distinct (missing_rules hash cache rules u)"
  by (simp add: missing_rules_def)

lemma length_known_row [simp]: "length (known_row hash cache rules u) = length rules"
  by (simp add: known_row_def)

definition unit_answers ::
  "(judged \<Rightarrow> 64 word) \<Rightarrow> decide \<Rightarrow> lint_rule list \<Rightarrow> lint_unit list \<Rightarrow> judge_cache \<Rightarrow> nat \<Rightarrow> (nat \<times> f64) list" where
  "unit_answers hash decide rules units cache i =
     (let missing = missing_rules hash cache rules (units ! i)
      in zip missing (projr (unit_answer decide rules (units ! i) i missing)))"

lemma unit_answers_map:
  assumes "unit_answer decide rules (units ! i) i (missing_rules hash cache rules (units ! i)) = Inr ps"
  shows "unit_answers hash decide rules units cache i = zip (missing_rules hash cache rules (units ! i)) ps"
    and "dom (map_of (unit_answers hash decide rules units cache i)) = set (missing_rules hash cache rules (units ! i))"
    and "map fst (unit_answers hash decide rules units cache i) = missing_rules hash cache rules (units ! i)"
  using unit_answer_length [OF assms] by (auto simp: unit_answers_def assms dom_map_of_zip)

lemma filled_row:
  assumes "missing_rules hash cache rules (units ! i) = [] \<or>
    (\<exists>ps. unit_answer decide rules (units ! i) i (missing_rules hash cache rules (units ! i)) = Inr ps)"
  shows "fill_row (unit_answers hash decide rules units cache i) (known_row hash cache rules (units ! i)) =
    map (judged_value hash decide rules units cache i) [0..<length rules]"
proof (rule nth_equalityI)
  fix j
  assume "j < length (fill_row (unit_answers hash decide rules units cache i) (known_row hash cache rules (units ! i)))"
  then have j: "j < length rules" by (simp add: known_row_def)
  let ?k = "cache_key hash (units ! i) (rules ! j)"
  let ?row = "known_row hash cache rules (units ! i)"
  have row: "?row ! j = (case cache ?k of Some p \<Rightarrow> p | None \<Rightarrow> Fin 0)"
    using j by (simp add: known_row_def)
  show "fill_row (unit_answers hash decide rules units cache i) ?row ! j =
      map (judged_value hash decide rules units cache i) [0..<length rules] ! j"
  proof (cases "missing_rules hash cache rules (units ! i) = []")
    case True
    then have "cache ?k \<noteq> None"
      using missing_rules_iff [of j hash cache rules "units ! i"] j by simp
    then show ?thesis
      using True j row by (auto simp: unit_answers_def fill_row_def judged_value_def)
  next
    case False
    then obtain ps where ps: "unit_answer decide rules (units ! i) i (missing_rules hash cache rules (units ! i)) = Inr ps"
      using assms by blast
    note m = unit_answers_map [where hash = hash and cache = cache, OF ps]
    have "fill_row (unit_answers hash decide rules units cache i) ?row ! j =
        (case map_of (unit_answers hash decide rules units cache i) j of Some p \<Rightarrow> p | None \<Rightarrow> ?row ! j)"
      by (rule fill_row_nth) (simp_all add: m(3) distinct_missing_rules j)
    moreover have "map_of (unit_answers hash decide rules units cache i) j = None \<longleftrightarrow> cache ?k \<noteq> None"
      using m(2) missing_rules_iff [of j hash cache rules "units ! i"] j by (auto simp: domIff)
    ultimately show ?thesis
      using j row by (auto simp: judged_value_def ps Let_def m(1) split: option.splits)
  qed
qed (simp add: known_row_def)

lemma judge_result:
  assumes "mset (order (asked hash cache rules units)) = mset (asked hash cache rules units)"
    and "list_all (\<lambda>i. \<exists>ps. unit_answer decide rules (units ! i) i (missing_rules hash cache rules (units ! i)) = Inr ps)
      (asked hash cache rules units)"
  obtains rows cache' where "judge_units hash decide order rules units cache = (Inr rows, cache')"
    "rows = map (\<lambda>i. map (judged_value hash decide rules units cache i) [0..<length rules]) [0..<length units]"
    "\<And>i j. i < length units \<Longrightarrow> j < length rules \<Longrightarrow> cache' (cache_key hash (units ! i) (rules ! j)) \<noteq> None"
proof -
  let ?asked = "asked hash cache rules units"
  let ?row = "\<lambda>i. map (judged_value hash decide rules units cache i) [0..<length rules]"
  let ?answers = "unit_answers hash decide rules units cache"
  have s: "set (order ?asked) = set ?asked" by (rule mset_eq_setD [OF assms(1)])
  have d: "distinct (order ?asked)"
    using assms(1) by (metis asked_def distinct_filter distinct_upt mset_eq_imp_distinct_iff)
  have ok: "missing_rules hash cache rules (units ! i) = [] \<or>
      (\<exists>ps. unit_answer decide rules (units ! i) i (missing_rules hash cache rules (units ! i)) = Inr ps)"
    if "i < length units" for i
    using assms(2) that by (auto simp: asked_def list_all_iff)
  have a: "?answers = (\<lambda>i. zip (missing_rules hash cache rules (units ! i))
      (projr (unit_answer decide rules (units ! i) i (missing_rules hash cache rules (units ! i)))))"
    by (simp add: unit_answers_def fun_eq_iff Let_def)
  have l: "list_all (\<lambda>i. i < length (map (known_row hash cache rules) units)) (order ?asked)"
    using s by (auto simp: list_all_iff asked_def)
  have o: "list_all (\<lambda>i. \<exists>ps. unit_answer decide rules (units ! i) i (missing_rules hash cache rules (units ! i)) = Inr ps) (order ?asked)"
    using assms(2) s by (simp add: list_all_iff)
  obtain rows cache' where r:
      "join_answers hash decide rules units cache (order ?asked) (map (known_row hash cache rules) units) cache = (Inr rows, cache')"
      "length rows = length units"
      "\<forall>i < length units. rows ! i = (if i \<in> set (order ?asked) then fill_row (?answers i) (known_row hash cache rules (units ! i))
        else known_row hash cache rules (units ! i))"
      "\<forall>k. cache' k \<noteq> None \<longleftrightarrow> cache k \<noteq> None \<or>
        (\<exists>i \<in> set (order ?asked). k \<in> (\<lambda>(j, p). cache_key hash (units ! i) (rules ! j)) ` set (?answers i))"
    using join_answers_ok [OF o d l a, of cache] by auto
  show ?thesis
  proof (rule that)
    show "judge_units hash decide order rules units cache = (Inr rows, cache')"
      using r(1) by (simp add: judge_units_def)
    show "rows = map ?row [0..<length units]"
    proof (rule nth_equalityI)
      fix i
      assume "i < length rows"
      then have i: "i < length units" using r(2) by simp
      then have "rows ! i = fill_row (?answers i) (known_row hash cache rules (units ! i))"
        using r(3) s by (auto simp: asked_def unit_answers_def fill_row_def)
      then show "rows ! i = map ?row [0..<length units] ! i"
        using filled_row [OF ok [OF i]] i by simp
    qed (simp add: r(2))
    fix i j
    assume ij: "i < length units" "j < length rules"
    show "cache' (cache_key hash (units ! i) (rules ! j)) \<noteq> None"
    proof (cases "cache (cache_key hash (units ! i) (rules ! j))")
      case None
      then have j: "j \<in> set (missing_rules hash cache rules (units ! i))"
        using ij by (simp add: missing_rules_iff)
      then have i: "i \<in> set ?asked" using ij by (auto simp: asked_def)
      then obtain ps where "unit_answer decide rules (units ! i) i (missing_rules hash cache rules (units ! i)) = Inr ps"
        using assms(2) by (auto simp: list_all_iff)
      then have "j \<in> fst ` set (?answers i)"
        using j unit_answers_map(3) by (metis list.set_map)
      then show ?thesis using r(4) i s by force
    qed (use r(4) in simp)
  qed
qed

text \<open>C19. The judgments do not depend on the order in which Jev's answers come. For every hash function,
  cache, Jev, rules and units: if Jev answers every request with as many numbers as it has questions,
  then for every order of the answers, the judgment of a rule for a unit is the remembered one or
  the answer to that rule's question in the unit's request; and with the cache as it is then, judging
  the same units against the same rules again asks nothing.
\<close>

theorem judge_order_irrelevant:
  assumes "mset (order (asked hash cache rules units)) = mset (asked hash cache rules units)"
    and "list_all (\<lambda>i. \<exists>ps. unit_answer decide rules (units ! i) i (missing_rules hash cache rules (units ! i)) = Inr ps)
      (asked hash cache rules units)"
  shows "fst (judge_units hash decide order rules units cache) =
      Inr (map (\<lambda>i. map (judged_value hash decide rules units cache i) [0..<length rules]) [0..<length units]) \<and>
    asked hash (snd (judge_units hash decide order rules units cache)) rules units = []"
proof -
  obtain rows cache' where "judge_units hash decide order rules units cache = (Inr rows, cache')"
    "rows = map (\<lambda>i. map (judged_value hash decide rules units cache i) [0..<length rules]) [0..<length units]"
    "\<And>i j. i < length units \<Longrightarrow> j < length rules \<Longrightarrow> cache' (cache_key hash (units ! i) (rules ! j)) \<noteq> None"
    using judge_result [where order = order and decide = decide, OF assms] by blast
  then show ?thesis
    by (auto simp: asked_def missing_rules_def filter_empty_conv)
qed

text \<open>Two functions of which one is remembered for the first rule, answered last to first.\<close>

definition demo_rules :: "lint_rule list" where
  "demo_rules = take 2 default_rules"

definition demo_units :: "lint_unit list" where
  "demo_units =
     [\<lparr>un_file = ''a.rs'', un_language = L_Rust, un_function = \<lparr>fn_name = ''a'', fn_line = 1, fn_text = ''fn a() {}''\<rparr>\<rparr>,
      \<lparr>un_file = ''a.rs'', un_language = L_Rust, un_function = \<lparr>fn_name = ''b'', fn_line = 2, fn_text = ''fn b() {}''\<rparr>\<rparr>]"

definition demo_hash :: "judged \<Rightarrow> 64 word" where
  "demo_hash = (\<lambda>(language, text, rule, _, _). if text = ''fn a() {}'' then (if rule = ''Swallows errors.'' then 1 else 2) else 3)"

definition demo_decide :: decide where
  "demo_decide i state questions = Inr (Some (map (\<lambda>q. Fin (of_nat i)) questions))"

theorem judge_order_irrelevant_witness:
  "fst (judge_units demo_hash demo_decide rev demo_rules demo_units [1 \<mapsto> Fin (1 / 2)]) =
     Inr [[Fin (1 / 2), Fin 0], [Fin 1, Fin 1]]"
proof -
  let ?c = "[1 \<mapsto> Fin (1 / 2)] :: judge_cache"
  have a: "asked demo_hash ?c demo_rules demo_units = [0, 1]"
    by (simp add: asked_def missing_rules_def demo_units_def demo_rules_def default_rules_def default_rule_def
        cache_key_def demo_hash_def)
  have "list_all (\<lambda>i. \<exists>ps. unit_answer demo_decide demo_rules (demo_units ! i) i
      (missing_rules demo_hash ?c demo_rules (demo_units ! i)) = Inr ps) (asked demo_hash ?c demo_rules demo_units)"
    by (simp add: a unit_answer_def demo_decide_def Let_def)
  then show ?thesis
    using judge_order_irrelevant [of rev demo_hash ?c demo_rules demo_units demo_decide]
    by (simp add: judged_value_def unit_answer_def demo_decide_def missing_rules_def demo_units_def demo_rules_def
        default_rules_def default_rule_def cache_key_def demo_hash_def Let_def)
qed

section \<open>Findings\<close>

lemma mset_insert_falling [simp]: "mset (insert_falling k x ys) = add_mset x (mset ys)"
  by (induction ys) auto

lemma mset_sort_falling [simp]: "mset (sort_falling k xs) = mset xs"
  unfolding sort_falling_def by (induction xs) auto

lemma set_sort_falling [simp]: "set (sort_falling k xs) = set xs"
  by (rule mset_eq_setD) simp

lemma set_insert_falling [simp]: "set (insert_falling k x ys) = insert x (set ys)"
  by (metis mset_insert_falling set_mset_add_mset_insert set_mset_mset)

lemma sorted_insert_falling:
  "sorted_wrt (\<lambda>a b. total_le (k b) (k a)) ys \<Longrightarrow> sorted_wrt (\<lambda>a b. total_le (k b) (k a)) (insert_falling k x ys)"
  by (induction ys) (auto intro: total_le_trans total_le_flip)

lemma sorted_sort_falling: "sorted_wrt (\<lambda>a b. total_le (k b) (k a)) (sort_falling k xs)"
  unfolding sort_falling_def by (induction xs) (auto intro: sorted_insert_falling)

lemma findings_sorted:
  "sorted_wrt (\<lambda>a b. total_le (if_probability b) (if_probability a)) (findings rules units rows threshold)"
  unfolding findings_def by (rule sorted_sort_falling)

lemma finding_source:
  "f \<in> set (findings rules units rows threshold) \<longleftrightarrow>
     (\<exists>i j. i < length units \<and> i < length rows \<and> j < length rules \<and> j < length (rows ! i) \<and>
        f64_le threshold (rows ! i ! j) \<and> f = finding_of (units ! i) (rules ! j) (rows ! i ! j))"
  (is "_ \<longleftrightarrow> ?rhs")
proof -
  have "f \<in> set (findings rules units rows threshold) \<longleftrightarrow>
      (\<exists>(u, row) \<in> set (zip units rows). \<exists>(r, p) \<in> set (zip rules row). f64_le threshold p \<and> f = finding_of u r p)"
    by (fastforce simp: findings_def found_def split: if_splits)
  also have "\<dots> \<longleftrightarrow> ?rhs"
    by (fastforce simp: set_zip)
  finally show ?thesis .
qed

section \<open>The saved cache\<close>

lemma hex_digits_snoc:
  "k < 16 \<Longrightarrow> hex_digits a (xs @ [hex_char k]) = map_option (\<lambda>n. 16 * n + k) (hex_digits a xs)"
  by (induction a xs rule: hex_digits.induct) (auto simp: hex_value_hex_char split: option.splits)

lemma hex_digits_fixed: "hex_digits 0 (hex_fixed k n) = Some (n mod 16 ^ k)"
proof (induction k n rule: hex_fixed.induct)
  case (2 k n)
  have "16 * (n div 16 mod 16 ^ k) + n mod 16 = n mod (16 * 16 ^ k)"
    by (simp add: mod_mult2_eq)
  with 2 show ?case by (simp add: hex_digits_snoc)
qed simp

lemma length_hex_fixed: "length (hex_fixed k n) = k"
  by (induction k n rule: hex_fixed.induct) auto

lemma hex_fixed_plus: "CHR ''+'' \<notin> set (hex_fixed k n)"
proof (induction k n rule: hex_fixed.induct)
  case (2 k n)
  have "hex_value (hex_char (n mod 16)) = Some (n mod 16)" by (rule hex_value_hex_char) simp
  moreover have "hex_value (CHR ''+'') = None" by (simp add: hex_value_def Let_def)
  ultimately have "hex_char (n mod 16) \<noteq> CHR ''+''" by (metis option.distinct(1))
  with 2 show ?case by auto
qed simp

lemma u64_from_hex_fixed: "u64_from_hex (hex_fixed 16 (unat (w :: 64 word))) = Some w"
proof -
  let ?s = "hex_fixed 16 (unat w)"
  have "?s \<noteq> []" using length_hex_fixed [of 16 "unat w"] by auto
  then obtain c cs where s: "?s = c # cs" by (cases ?s) auto
  then have "c \<noteq> CHR ''+''" using hex_fixed_plus [of 16 "unat w"] by auto
  moreover have "unat w < 2 ^ 64" using unsigned_less [of w] by simp
  then have "hex_digits 0 ?s = Some (unat w)"
    by (simp add: hex_digits_fixed)
  ultimately show ?thesis
    using \<open>unat w < 2 ^ 64\<close> by (simp add: u64_from_hex_def s Let_def)
qed

lemma cache_load_entries:
  "foldl (\<lambda>c (key, p). case u64_from_hex key of None \<Rightarrow> c | Some k \<Rightarrow> c(k \<mapsto> p)) m
     (map (\<lambda>(key, p). (hex_fixed 16 (unat key), p)) entries) = m ++ map_of (rev entries)"
proof (induction entries arbitrary: m)
  case (Cons e entries)
  then show ?case
    by (cases e) (auto simp: u64_from_hex_fixed map_add_upd_left map_add_def fun_eq_iff split: option.splits)
qed simp

text \<open>
  A saved cache loads back: for every cache with at most \<open>max_cached\<close> answers, whatever the order in
  which saving goes through them, loading the saved entries gives the same answers.
\<close>

theorem cache_saves:
  assumes "distinct (map fst entries)" "length entries \<le> max_cached"
  shows "cache_load (Some (cache_save entries)) = map_of entries"
  using cache_load_entries [of "\<lambda>_. None" entries] assms
  by (simp add: cache_load_def cache_save_def map_of_rev)

theorem cache_saves_witness:
  "cache_load (Some (cache_save [(0xAB, Fin (1 / 2)), (0xFFFFFFFFFFFFFFFF, Fin 1)])) 0xFFFFFFFFFFFFFFFF = Some (Fin 1)"
  using cache_saves [of "[(0xAB, Fin (1 / 2)), (0xFFFFFFFFFFFFFFFF, Fin 1)]"]
  by (simp add: max_cached_def)

end
