(* ===== verification/Lint_Outcome.thy ===== *)
theory Lint_Outcome
  imports Lint_Review Lint_Judgments
begin

text \<open>
  What the reviewer does: it compares with the texts that the files had before the run's first call that
  named them, and what a review reports are undismissed findings, at or above the threshold, in functions that are new
  or changed.
\<close>

section \<open>Remembering files\<close>

lemma map_of_or_inserts:
  "map_of (foldl (\<lambda>m k. or_insert k (g k) m) m ks) k =
     (case map_of m k of Some v \<Rightarrow> Some v | None \<Rightarrow> if k \<in> set ks then Some (g k) else None)"
  by (induction ks arbitrary: m) (auto simp: or_insert_def map_of_bt_insert split: option.splits)

datatype review_event = Before_Call file_system nat run_id tool_request | End_Run run_id

fun review_step :: "lint_reviewer \<Rightarrow> review_event \<Rightarrow> lint_reviewer" where
  "review_step rv (Before_Call fs moment run request) = reviewer_before_call fs moment run request rv"
| "review_step rv (End_Run run) = reviewer_end run rv"

text \<open>The calls of a run since it last ended, and the text that a file had at the first that named it.\<close>

definition live_calls :: "run_id \<Rightarrow> review_event list \<Rightarrow> (file_system \<times> nat \<times> tool_request) list" where
  "live_calls i events =
     foldl (\<lambda>calls e. case e of
         Before_Call fs moment run request \<Rightarrow> if run = i then calls @ [(fs, moment, request)] else calls
       | End_Run run \<Rightarrow> if run = i then [] else calls) [] events"

definition first_text :: "path \<Rightarrow> (file_system \<times> nat \<times> tool_request) list \<Rightarrow> path \<Rightarrow> string option option" where
  "first_text root_dir calls p =
     map_option (\<lambda>(fs, _, _). read_ok fs p)
       (find (\<lambda>(fs, _, request). p \<in> set (named_files fs root_dir (tq_arguments request))) calls)"

lemma first_text_snoc:
  "first_text root_dir (calls @ [(fs, moment, request)]) p =
     (case first_text root_dir calls p of
        Some v \<Rightarrow> Some v
      | None \<Rightarrow> if p \<in> set (named_files fs root_dir (tq_arguments request)) then Some (read_ok fs p) else None)"
  by (induction calls) (auto simp: first_text_def split: option.splits)

text \<open>The record of a run that the calls stand for.\<close>

definition remembers :: "path \<Rightarrow> (file_system \<times> nat \<times> tool_request) list \<Rightarrow> touched option \<Rightarrow> bool" where
  "remembers root_dir calls t \<longleftrightarrow>
     (case t of
        None \<Rightarrow> calls = []
      | Some t \<Rightarrow> calls \<noteq> [] \<and> th_since t = run_start (fst (snd (hd calls))) \<and>
          (\<forall>p. map_of (th_files t) p = first_text root_dir calls p))"

lemma lv_root_step: "lv_root (review_step rv e) = lv_root rv"
  by (cases e) (simp_all add: reviewer_before_call_def reviewer_end_def Let_def)

lemma lv_root_steps [simp]: "lv_root (foldl review_step rv events) = lv_root rv"
  by (induction events rule: rev_induct) (simp_all add: lv_root_step)

lemma remembers_before:
  assumes "remembers (lv_root rv) calls (lv_before rv run)"
  shows "remembers (lv_root rv) (calls @ [(fs, moment, request)]) (lv_before (reviewer_before_call fs moment run request rv) run)"
proof (cases "lv_before rv run")
  case None
  then have "calls = []" using assms by (simp add: remembers_def)
  then show ?thesis
    using first_text_snoc [of "lv_root rv" "[]" fs moment request] None
    by (simp add: remembers_def reviewer_before_call_def Let_def map_of_or_inserts first_text_def)
next
  case (Some t)
  then show ?thesis
    using assms by (simp add: remembers_def reviewer_before_call_def Let_def map_of_or_inserts first_text_snoc)
qed

text \<open>C20. A review compares with the texts from before the run's own changes: after any sequence of calls of
  any runs, each with the file system as it is then, and of runs that end, what is remembered of a
  run are exactly the files that its calls since it last ended named, each with the text (or its
  absence) that the file had at the first of these calls, and the time of the first call; a run
  without such calls has nothing remembered.
\<close>

theorem first_texts_remembered:
  "remembers root_dir (live_calls i events)
     (lv_before (foldl review_step (new_reviewer root_dir config) events) i)"
proof (induction events rule: rev_induct)
  case Nil
  show ?case by (simp add: new_reviewer_def live_calls_def remembers_def)
next
  case (snoc e events)
  let ?rv = "foldl review_step (new_reviewer root_dir config) events"
  have root: "lv_root ?rv = root_dir" by (simp add: new_reviewer_def)
  show ?case
  proof (cases e)
    case (Before_Call fs moment run request)
    show ?thesis
    proof (cases "run = i")
      case True
      then show ?thesis
        using remembers_before [of ?rv "live_calls i events" run fs moment request] snoc root Before_Call
        by (simp add: live_calls_def)
    next
      case False
      then show ?thesis
        using snoc Before_Call by (simp add: live_calls_def reviewer_before_call_def Let_def)
    qed
  next
    case (End_Run run)
    then show ?thesis
      using snoc by (auto simp: live_calls_def reviewer_end_def remembers_def)
  qed
qed

section \<open>What a review reports\<close>

text \<open>A function of a touched file, as the file is now, whose text is not that of one of the functions of
  the file's remembered text.\<close>

definition changed_unit ::
  "(language \<Rightarrow> string \<Rightarrow> lint_function list option) \<Rightarrow> file_system \<Rightarrow> path \<Rightarrow> (path, string option) btree \<Rightarrow> lint_unit \<Rightarrow> bool" where
  "changed_unit fns_in fs root_dir files u \<longleftrightarrow>
     (\<exists>path before text_now earlier now_fns. (path, before) \<in> set files \<and>
        file_language path = Some (un_language u) \<and> read_ok fs path = Some text_now \<and> before \<noteq> Some text_now \<and>
        un_file u = display_path root_dir path \<and>
        fns_in (un_language u) text_now = Some now_fns \<and> un_function u \<in> set now_fns \<and>
        (case before of None \<Rightarrow> Some [] | Some text \<Rightarrow> fns_in (un_language u) text) = Some earlier \<and>
        fn_text (un_function u) \<notin> fn_text ` set earlier)"

lemma changed_in_units:
  "changed_in fns_in fs root_dir files = Some units \<Longrightarrow> u \<in> set units \<Longrightarrow>
     changed_unit fns_in fs root_dir files u"
proof (induction files arbitrary: units)
  case (Cons e files)
  obtain path before where e: "e = (path, before)" by (cases e)
  have weaken: "changed_unit fns_in fs root_dir files u \<Longrightarrow> changed_unit fns_in fs root_dir ((path, before) # files) u"
    unfolding changed_unit_def by (meson list.set_intros(2))
  show ?case
  proof (cases "changed_in fns_in fs root_dir files = Some units")
    case True
    then show ?thesis
      using Cons.IH Cons.prems(2) weaken by (simp add: e)
  next
    case False
    then obtain language text_now fns rest where f: "file_language path = Some language"
        "read_ok fs path = Some text_now" "before \<noteq> Some text_now"
        "new_functions fns_in language before text_now = Some fns"
        "changed_in fns_in fs root_dir files = Some rest"
        "units = map (\<lambda>f. \<lparr>un_file = display_path root_dir path, un_language = language, un_function = f\<rparr>) fns @ rest"
      using Cons.prems(1) by (auto simp: e bind_eq_Some_conv split: option.splits if_splits)
    show ?thesis
    proof (cases "u \<in> set rest")
      case True
      then show ?thesis using Cons.IH [OF f(5)] weaken by (simp add: e)
    next
      case False
      then obtain fn where "fn \<in> set fns" "u = \<lparr>un_file = display_path root_dir path, un_language = language, un_function = fn\<rparr>"
        using Cons.prems(2) f(6) by auto
      moreover obtain earlier now_fns where
          "(case before of None \<Rightarrow> Some [] | Some text \<Rightarrow> fns_in language text) = Some earlier"
          "fns_in language text_now = Some now_fns" "fns = filter (\<lambda>f. fn_text f \<notin> set (map fn_text earlier)) now_fns"
        using f(4) by (auto simp: new_functions_def bind_eq_Some_conv)
      ultimately show ?thesis
        unfolding changed_unit_def using f(1,2,3)
        by - (rule exI [of _ path], rule exI [of _ before], rule exI [of _ text_now], rule exI [of _ earlier],
          rule exI [of _ now_fns], simp add: e cong: option.case_cong)
    qed
  qed
qed simp


lemma kept_finding:
  assumes "f \<in> set (kept_findings config units rows)"
  obtains u r p where "u \<in> set units" "r \<in> set (lc_rules config)" "f64_le (lc_threshold config) p"
    "f = finding_of u r p" "\<not> is_dismissed config (if_rule f) (if_file f) (if_function f)"
proof -
  have f: "f \<in> set (findings (lc_rules config) units rows (lc_threshold config))"
      "\<not> is_dismissed config (if_rule f) (if_file f) (if_function f)"
    using assms by (simp_all add: kept_findings_def)
  then obtain i j where "i < length units" "j < length (lc_rules config)"
      "f64_le (lc_threshold config) (rows ! i ! j)" "f = finding_of (units ! i) (lc_rules config ! j) (rows ! i ! j)"
    by (auto simp: finding_source)
  then show ?thesis using that [OF nth_mem nth_mem] f(2) by blast
qed

lemma sorted_wrt_take: "sorted_wrt P xs \<Longrightarrow> sorted_wrt P (take n xs)"
  by (metis append_take_drop_id sorted_wrt_append)

lemma sorted_kept_findings:
  "sorted_wrt (\<lambda>a b. total_le (if_probability b) (if_probability a)) (kept_findings config units rows)"
  unfolding kept_findings_def by (rule sorted_wrt_filter) (rule findings_sorted)

text \<open>C21. What a review reports: at most \<open>max_findings\<close> findings, the most probable first, each of a rule of the
  configuration whose judged probability reached the threshold, that no person dismissed, in a
  function of a file that the run's calls named or that was modified since its first call, and whose
  text is none of the functions' texts that were remembered of the file; at most \<open>max_units\<close>
  functions are judged.
\<close>

theorem review_reports:
  assumes "lint_review fns_in hash fingerprint decide order fs run rv = (Some (Inr r), rv', saved)"
    and "lv_before rv run = Some t"
  shows "length (rv_findings r) \<le> max_findings \<and> rv_judged r \<le> max_units \<and>
    sorted_wrt (\<lambda>a b. total_le (if_probability b) (if_probability a)) (rv_findings r) \<and>
    list_all (\<lambda>f. \<exists>u rule p. changed_unit fns_in fs (lv_root rv) (review_files fs (lv_root rv) t) u \<and>
      rule \<in> set (lc_rules (lv_config rv)) \<and> f64_le (lc_threshold (lv_config rv)) p \<and> f = finding_of u rule p \<and>
      \<not> is_dismissed (lv_config rv) (rl_id rule) (un_file u) (fn_name (un_function u))) (rv_findings r)"
proof (cases "r = empty_review")
  case True
  then show ?thesis by (simp add: empty_review_def)
next
  case False
  let ?files = "review_files fs (lv_root rv) t"
  obtain units rows where u: "changed_units fns_in fs (lv_root rv) ?files = Some units"
      "rv_findings r = take max_findings (kept_findings (lv_config rv) units rows)" "rv_judged r = length units"
    using assms False
    by (auto simp: lint_review_def split: option.splits if_splits prod.splits sum.splits judge_error.splits)
  obtain all_units where a: "changed_in fns_in fs (lv_root rv) ?files = Some all_units" "units = take max_units all_units"
    using u(1) by (auto simp: changed_units_def)
  have "list_all (\<lambda>f. \<exists>u rule p. changed_unit fns_in fs (lv_root rv) ?files u \<and>
      rule \<in> set (lc_rules (lv_config rv)) \<and> f64_le (lc_threshold (lv_config rv)) p \<and> f = finding_of u rule p \<and>
      \<not> is_dismissed (lv_config rv) (rl_id rule) (un_file u) (fn_name (un_function u))) (rv_findings r)"
    unfolding list_all_iff
  proof
    fix f
    assume "f \<in> set (rv_findings r)"
    then have "f \<in> set (kept_findings (lv_config rv) units rows)"
      using u(2) by (auto dest: in_set_takeD)
    then obtain un rule p where "un \<in> set units" "rule \<in> set (lc_rules (lv_config rv))"
        "f64_le (lc_threshold (lv_config rv)) p" "f = finding_of un rule p"
        "\<not> is_dismissed (lv_config rv) (if_rule f) (if_file f) (if_function f)"
      by (rule kept_finding)
    moreover have "changed_unit fns_in fs (lv_root rv) ?files un"
      using changed_in_units [OF a(1)] a(2) calculation(1) by (auto dest: in_set_takeD)
    ultimately show "\<exists>u rule p. changed_unit fns_in fs (lv_root rv) ?files u \<and>
        rule \<in> set (lc_rules (lv_config rv)) \<and> f64_le (lc_threshold (lv_config rv)) p \<and> f = finding_of u rule p \<and>
        \<not> is_dismissed (lv_config rv) (rl_id rule) (un_file u) (fn_name (un_function u))"
      by (auto simp: finding_of_def intro!: exI [of _ un] exI [of _ rule] exI [of _ p])
  qed
  moreover have "sorted_wrt (\<lambda>a b. total_le (if_probability b) (if_probability a)) (rv_findings r)"
    unfolding u(2) by (intro sorted_wrt_take sorted_kept_findings)
  ultimately show ?thesis
    using u(2,3) a(2) by simp
qed


text \<open>A run whose only call named \<open>a.rs\<close>, which did not exist: its function is new, and one of the two rules applies to it.\<close>

definition demo_files :: file_system where
  "demo_files =
     \<lparr>fs_read = (\<lambda>p. if p = [''p'', ''a.rs''] then Inr ''fn a() {}'' else Inl ''not found''),
      fs_canonical = Some, fs_entries = (\<lambda>_. None)\<rparr>"

definition demo_fns :: "language \<Rightarrow> string \<Rightarrow> lint_function list option" where
  "demo_fns language text = Some [\<lparr>fn_name = ''a'', fn_line = 1, fn_text = text\<rparr>]"

definition demo_reviewer :: lint_reviewer where
  "demo_reviewer =
     (new_reviewer [''p''] (default_lint_config\<lparr>lc_rules := demo_rules\<rparr>))
       \<lparr>lv_before := [Ident ''run_1'' \<mapsto> \<lparr>th_since = 0, th_files = [([''p'', ''a.rs''], None)]\<rparr>]\<rparr>"

definition demo_answers :: decide where
  "demo_answers i state questions =
     Inr (Some (map (\<lambda>q. if nq_key q = ''swallows-errors'' then Fin (9 / 10) else Fin (1 / 10)) questions))"

definition demo_review :: "(string + review) option \<times> lint_reviewer \<times> judge_cache option" where
  "demo_review =
     lint_review demo_fns (\<lambda>(_, _, rule, _). of_nat (length rule)) (\<lambda>_. 0) demo_answers id demo_files
       (Ident ''run_1'') demo_reviewer"

lemma demo_units_changed:
  "changed_units demo_fns demo_files [''p''] (review_files demo_files [''p''] \<lparr>th_since = 0, th_files = [([''p'', ''a.rs''], None)]\<rparr>) =
     Some [\<lparr>un_file = ''a.rs'', un_language = L_Rust, un_function = \<lparr>fn_name = ''a'', fn_line = 1, fn_text = ''fn a() {}''\<rparr>\<rparr>]"
  by (simp add: review_files_def modified_since_def demo_files_def changed_units_def file_language_def file_name_def
      extension_def language_of_def to_ascii_lowercase_def ascii_lower_def is_ascii_uppercase_def read_ok_def
      new_functions_def demo_fns_def display_path_def replace_byte_def max_units_def)

lemma demo_review_result:
  "\<exists>r rv' saved. demo_review = (Some (Inr r), rv', saved) \<and> map if_rule (rv_findings r) = [''swallows-errors'']"
  by (simp add: demo_review_def lint_review_def demo_reviewer_def new_reviewer_def demo_units_changed
      judge_units_def asked_def missing_rules_def demo_rules_def default_rules_def default_rule_def cache_key_def default_lint_config_def
      unit_answer_def demo_answers_def judge_question_def known_row_def fill_row_def kept_findings_def findings_def found_def
      sort_falling_def finding_of_def is_dismissed_def max_findings_def Let_def)

theorem review_reports_witness:
  "\<exists>r rv' saved. demo_review = (Some (Inr r), rv', saved) \<and> map if_rule (rv_findings r) = [''swallows-errors''] \<and>
     length (rv_findings r) \<le> max_findings \<and> rv_judged r \<le> max_units \<and>
     list_all (\<lambda>f. \<exists>u rule p. changed_unit demo_fns demo_files [''p'']
         (review_files demo_files [''p''] \<lparr>th_since = 0, th_files = [([''p'', ''a.rs''], None)]\<rparr>) u \<and>
       rule \<in> set demo_rules \<and> f64_le (Fin (7 / 10)) p \<and> f = finding_of u rule p) (rv_findings r)"
proof -
  obtain r rv' saved where r: "demo_review = (Some (Inr r), rv', saved)" "map if_rule (rv_findings r) = [''swallows-errors'']"
    using demo_review_result by (elim exE conjE) (rule that)
  have b: "lv_before demo_reviewer (Ident ''run_1'') = Some \<lparr>th_since = 0, th_files = [([''p'', ''a.rs''], None)]\<rparr>"
    by (simp add: demo_reviewer_def)
  show ?thesis
    using review_reports [OF r(1) [unfolded demo_review_def] b] r
    by (fastforce simp: demo_reviewer_def new_reviewer_def default_lint_config_def list_all_iff)
qed

end
