(* ===== verification/Inspect.thy ===== *)
theory Inspect
  imports Store_Api Ir_Compile
begin

text \<open>
  \<open>dagos/src/inspect.rs\<close>: what people see of a workspace. Views are read in one transaction and are
  functions of its database. \<open>tool_calls\<close> is the list of a run's tool calls, \<open>turn_of\<close> the run as a chat
  turn, \<open>run_detail\<close> everything recorded of it. The \<open>pending\<close> fields of a call are set by the server
  afterwards.
\<close>

section \<open>Tool calls\<close>

record tool_call_view =
  tv_call :: string
  tv_name :: string
  tv_arguments :: payload
  tv_status :: string
  tv_decided_by :: "tool_decider option"
  tv_reason :: "string option"
  tv_output :: "json option"
  tv_pending :: bool
  tv_pending_note :: "string option"
  tv_pending_guarded :: bool

fun update_call :: "string \<Rightarrow> (tool_call_view \<Rightarrow> tool_call_view) \<Rightarrow> tool_call_view list \<Rightarrow> tool_call_view list" where
  "update_call call f [] = []"
| "update_call call f (c # cs) = (if tv_call c = call then f c # cs else c # update_call call f cs)"

text \<open>The second component says whether the event is one of a tool.\<close>

fun apply_tool_event :: "tool_call_view list \<Rightarrow> event_data \<Rightarrow> tool_call_view list \<times> bool" where
  "apply_tool_event calls (Tool_Requested call name arguments) =
     (calls @ [\<lparr>tv_call = call, tv_name = name, tv_arguments = arguments, tv_status = ''awaiting'',
                tv_decided_by = None, tv_reason = None, tv_output = None, tv_pending = False,
                tv_pending_note = None, tv_pending_guarded = False\<rparr>], True)"
| "apply_tool_event calls (Tool_Decided call allowed decider reason) =
     (update_call call (\<lambda>c. c\<lparr>tv_status := (if allowed then ''running'' else ''denied''),
        tv_decided_by := Some decider, tv_reason := reason\<rparr>) calls, True)"
| "apply_tool_event calls (Tool_Finished call output_value is_error) =
     (update_call call (\<lambda>c. c\<lparr>tv_status := (if is_error then ''failed'' else ''completed''),
        tv_output := Some output_value\<rparr>) calls, True)"
| "apply_tool_event calls (Run_Failed _ _) =
     (map (\<lambda>c. if tv_status c \<in> {''awaiting'', ''running''} then c\<lparr>tv_status := ''stopped''\<rparr> else c) calls, False)"
| "apply_tool_event calls Run_Completed =
     (map (\<lambda>c. if tv_status c \<in> {''awaiting'', ''running''} then c\<lparr>tv_status := ''stopped''\<rparr> else c) calls, False)"
| "apply_tool_event calls _ = (calls, False)"

definition tool_calls :: "event list \<Rightarrow> tool_call_view list" where
  "tool_calls events = foldl (\<lambda>calls e. fst (apply_tool_event calls (ev_data e))) [] events"

section \<open>Failures\<close>

record failure_view =
  fv_code :: string
  fv_message :: string
  fv_stage :: "string option"
  fv_reason :: "string option"

definition failure_of :: "(string \<times> string) option \<Rightarrow> error_code \<Rightarrow> string \<Rightarrow> failure_view" where
  "failure_of rejection code message =
     \<lparr>fv_code = error_code_str code, fv_message = message,
      fv_stage = map_option fst rejection, fv_reason = map_option snd rejection\<rparr>"

text \<open>The loop of \<open>failure\<close>: \<open>rejection\<close> is the stage and reason of the latest rejected output.\<close>

fun failure_from :: "(string \<times> string) option \<Rightarrow> event_data list \<Rightarrow> failure_view option" where
  "failure_from rejection [] = None"
| "failure_from rejection (Jev_Rejected reason _ # ds) = failure_from (Some (''jev'', reason)) ds"
| "failure_from rejection (Jev_Fallback _ _ # ds) = failure_from None ds"
| "failure_from rejection (Response_Rejected reason # ds) = failure_from (Some (''response'', reason)) ds"
| "failure_from rejection (Run_Failed code message # ds) = Some (failure_of rejection code message)"
| "failure_from rejection (_ # ds) = failure_from rejection ds"

definition shown_failure :: "event list \<Rightarrow> failure_view option" where
  "shown_failure events = failure_from None (map ev_data events)"

section \<open>A run as a chat turn\<close>

record review_view =
  ww_round :: nat
  ww_judged :: nat
  ww_findings :: "ir_finding list"
  ww_error :: "string option"

datatype turn_item = Prose_Item string | Tool_Item tool_call_view | Review_Item review_view

record turn_view =
  vw_run :: run
  vw_message :: "string option"
  vw_prose :: string
  vw_failure :: "failure_view option"
  vw_context_size :: nat
  vw_jev :: "string option"
  vw_fallback :: bool
  vw_emitted_nodes :: nat
  vw_emitted_edges :: nat
  vw_tools_offered :: nat
  vw_tools_exposed :: nat
  vw_recalled :: nat
  vw_omitted_results :: nat
  vw_full_context :: bool
  vw_items :: "turn_item list"
  vw_streaming :: string

datatype shown_step = Prose_Step string | Call_Step string | Review_Step review_view

text \<open>The local variables of \<open>turn\<close>.\<close>

record turn_work =
  wk_view :: turn_view
  wk_first_ir :: bool
  wk_streamed :: string
  wk_validated :: "string list"
  wk_calls :: "tool_call_view list"
  wk_order :: "shown_step list"

definition omitted_count :: "inference_ir \<Rightarrow> nat" where
  "omitted_count ir =
     length (filter (\<lambda>r. case ir_output r of Some v \<Rightarrow> json_get ''omitted'' v \<noteq> None | None \<Rightarrow> False) (ii_results ir))"

text \<open>The \<open>match\<close> on the events that are not a tool's.\<close>

fun turn_event :: "turn_work \<Rightarrow> event_data \<Rightarrow> turn_work" where
  "turn_event w (Message_Recorded _ t) = w\<lparr>wk_view := (wk_view w)\<lparr>vw_message := Some t\<rparr>\<rparr>"
| "turn_event w (Jev_Requested jev request) =
     w\<lparr>wk_view := (wk_view w)\<lparr>vw_jev := Some jev, vw_tools_offered := length (jr_tools request)\<rparr>\<rparr>"
| "turn_event w (Jev_Fallback _ _) = w\<lparr>wk_view := (wk_view w)\<lparr>vw_fallback := True\<rparr>\<rparr>"
| "turn_event w (Context_Expanded _) = w\<lparr>wk_view := (wk_view w)\<lparr>vw_full_context := True\<rparr>\<rparr>"
| "turn_event w (Ir_Compiled ir) =
     (let v = (if wk_first_ir w
               then (wk_view w)\<lparr>vw_tools_exposed := length (ii_tools ir), vw_recalled := length (ii_recalled ir)\<rparr>
               else wk_view w)
      in w\<lparr>wk_view := v\<lparr>vw_omitted_results := max (vw_omitted_results v) (omitted_count ir)\<rparr>,
           wk_first_ir := False\<rparr>)"
| "turn_event w (Inference_Delta t) = w\<lparr>wk_streamed := wk_streamed w @ t\<rparr>"
| "turn_event w (Inference_Started _ _) = w\<lparr>wk_streamed := []\<rparr>"
| "turn_event w (Response_Validated response) =
     (let prose = re_prose response
      in (if trim prose \<noteq> []
          then w\<lparr>wk_order := wk_order w @ [Prose_Step prose], wk_validated := wk_validated w @ [prose]\<rparr>
          else w)\<lparr>wk_streamed := []\<rparr>)"
| "turn_event w (Dag_Node_Created _ _ _) =
     w\<lparr>wk_view := (wk_view w)\<lparr>vw_emitted_nodes := vw_emitted_nodes (wk_view w) + 1\<rparr>\<rparr>"
| "turn_event w (Dag_Edge_Created _ _ _ _) =
     w\<lparr>wk_view := (wk_view w)\<lparr>vw_emitted_edges := vw_emitted_edges (wk_view w) + 1\<rparr>\<rparr>"
| "turn_event w (Review_Completed round_no judged findings_list error) =
     w\<lparr>wk_order := wk_order w @ [Review_Step \<lparr>ww_round = round_no, ww_judged = judged,
         ww_findings = findings_list, ww_error = error\<rparr>]\<rparr>"
| "turn_event w _ = w"

definition turn_step :: "turn_work \<Rightarrow> event_data \<Rightarrow> turn_work" where
  "turn_step w d =
     (case apply_tool_event (wk_calls w) d of
        (calls, True) \<Rightarrow>
          w\<lparr>wk_calls := calls,
            wk_order := (case d of Tool_Requested call _ _ \<Rightarrow> wk_order w @ [Call_Step call] | _ \<Rightarrow> wk_order w)\<rparr>
      | (calls, False) \<Rightarrow> turn_event (w\<lparr>wk_calls := calls\<rparr>) d)"

definition turn_start :: "run \<Rightarrow> nat \<Rightarrow> turn_work" where
  "turn_start r context_size =
     \<lparr>wk_view = \<lparr>vw_run = r, vw_message = None, vw_prose = [], vw_failure = None,
        vw_context_size = context_size, vw_jev = None, vw_fallback = False, vw_emitted_nodes = 0,
        vw_emitted_edges = 0, vw_tools_offered = 0, vw_tools_exposed = 0, vw_recalled = 0,
        vw_omitted_results = 0, vw_full_context = False, vw_items = [], vw_streaming = []\<rparr>,
      wk_first_ir = True, wk_streamed = [], wk_validated = [], wk_calls = [], wk_order = []\<rparr>"

fun item_of :: "tool_call_view list \<Rightarrow> shown_step \<Rightarrow> turn_item option" where
  "item_of calls (Prose_Step t) = Some (Prose_Item t)"
| "item_of calls (Call_Step call) = map_option Tool_Item (find (\<lambda>c. tv_call c = call) calls)"
| "item_of calls (Review_Step r) = Some (Review_Item r)"

definition turn_of :: "run \<Rightarrow> event list \<Rightarrow> nat \<Rightarrow> turn_view" where
  "turn_of r events context_size =
     (let w = foldl turn_step (turn_start r context_size) (map ev_data events)
      in (wk_view w)
           \<lparr>vw_items := List.map_filter (item_of (wk_calls w)) (wk_order w),
            vw_prose := (if wk_validated w = [] then wk_streamed w else join ''\<newline>\<newline>'' (wk_validated w)),
            vw_streaming := (if rn_status r = Running then wk_streamed w else []),
            vw_failure := (if rn_status r = Failed then shown_failure events else None)\<rparr>)"

record conversation_view =
  cw_conversation :: conversation
  cw_turns :: "turn_view list"

definition conversation_view_of :: "db \<Rightarrow> conversation_id \<Rightarrow> conversation_view option" where
  "conversation_view_of d i =
     map_option (\<lambda>c. \<lparr>cw_conversation = c,
       cw_turns = map (\<lambda>r. turn_of r (events_of d (rn_id r)) (length (context_of d (rn_id r))))
         (conversation_runs d i)\<rparr>) (conversation_row d i)"

section \<open>Everything recorded of a run\<close>

record jev_fallback_view =
  jf_from :: "string option"
  jf_jev :: string
  jf_reason :: string
  jf_rejected_output :: "string option"

record run_detail =
  rd_run :: run
  rd_message :: "(node_id \<times> string) option"
  rd_context :: "context_member list"
  rd_carried :: "node_id list"
  rd_jev :: "string option"
  rd_jev_request :: "jev_request option"
  rd_fallback :: "jev_fallback_view option"
  rd_classification :: "context_classification option"
  rd_context_added :: "node_id list"
  rd_context_removed :: "node_id list"
  rd_full_context :: "f64 option"
  rd_ir :: "inference_ir option"
  rd_streamed :: string
  rd_output :: "string option"
  rd_response :: "inference_response option"
  rd_emitted_nodes :: "node_id list"
  rd_emitted_edges :: "edge_id list"
  rd_failure :: "failure_view option"
  rd_tool_calls :: "tool_call_view list"
  rd_reviews :: "review_view list"
  rd_events :: "event list"

text \<open>The local variables of \<open>run_detail\<close>.\<close>

record detail_work =
  dw_detail :: run_detail
  dw_rejection :: "(string \<times> string) option"
  dw_rejected_output :: "string option"

abbreviation on_detail :: "(run_detail \<Rightarrow> run_detail) \<Rightarrow> detail_work \<Rightarrow> detail_work" where
  "on_detail f w \<equiv> w\<lparr>dw_detail := f (dw_detail w)\<rparr>"

fun detail_event :: "detail_work \<Rightarrow> event_data \<Rightarrow> detail_work" where
  "detail_event w (Message_Recorded node t) = on_detail (\<lambda>x. x\<lparr>rd_message := Some (node, t)\<rparr>) w"
| "detail_event w (Context_Carried _ nodes) = on_detail (\<lambda>x. x\<lparr>rd_carried := nodes\<rparr>) w"
| "detail_event w (Context_Expanded p) = on_detail (\<lambda>x. x\<lparr>rd_full_context := Some p\<rparr>) w"
| "detail_event w (Jev_Requested jev request) =
     on_detail (\<lambda>x. x\<lparr>rd_jev := Some jev, rd_jev_request := Some request\<rparr>) w"
| "detail_event w (Jev_Fallback jev reason) =
     (on_detail (\<lambda>x. x\<lparr>rd_fallback := Some \<lparr>jf_from = rd_jev x, jf_jev = jev, jf_reason = reason,
        jf_rejected_output = dw_rejected_output w\<rparr>\<rparr>) w)\<lparr>dw_rejection := None, dw_rejected_output := None\<rparr>"
| "detail_event w (Jev_Classified c) = on_detail (\<lambda>x. x\<lparr>rd_classification := Some c\<rparr>) w"
| "detail_event w (Jev_Rejected reason rejected) =
     w\<lparr>dw_rejection := Some (''jev'', reason), dw_rejected_output := Some rejected\<rparr>"
| "detail_event w (Context_Added node) = on_detail (\<lambda>x. x\<lparr>rd_context_added := rd_context_added x @ [node]\<rparr>) w"
| "detail_event w (Context_Removed node) = on_detail (\<lambda>x. x\<lparr>rd_context_removed := rd_context_removed x @ [node]\<rparr>) w"
| "detail_event w (Ir_Compiled ir) = on_detail (\<lambda>x. x\<lparr>rd_ir := Some ir\<rparr>) w"
| "detail_event w (Review_Completed round_no judged findings_list error) =
     on_detail (\<lambda>x. x\<lparr>rd_reviews := rd_reviews x @ [\<lparr>ww_round = round_no, ww_judged = judged,
       ww_findings = findings_list, ww_error = error\<rparr>]\<rparr>) w"
| "detail_event w (Inference_Delta t) = on_detail (\<lambda>x. x\<lparr>rd_streamed := rd_streamed x @ t\<rparr>) w"
| "detail_event w (Inference_Completed t) = on_detail (\<lambda>x. x\<lparr>rd_output := Some t\<rparr>) w"
| "detail_event w (Response_Validated response) = on_detail (\<lambda>x. x\<lparr>rd_response := Some response\<rparr>) w"
| "detail_event w (Response_Rejected reason) = w\<lparr>dw_rejection := Some (''response'', reason)\<rparr>"
| "detail_event w (Dag_Node_Created node _ _) = on_detail (\<lambda>x. x\<lparr>rd_emitted_nodes := rd_emitted_nodes x @ [node]\<rparr>) w"
| "detail_event w (Dag_Edge_Created edge _ _ _) = on_detail (\<lambda>x. x\<lparr>rd_emitted_edges := rd_emitted_edges x @ [edge]\<rparr>) w"
| "detail_event w (Run_Failed code message) =
     on_detail (\<lambda>x. x\<lparr>rd_failure := Some (failure_of (dw_rejection w) code message)\<rparr>) w"
| "detail_event w _ = w"

definition detail_start :: "run \<Rightarrow> context_member list \<Rightarrow> detail_work" where
  "detail_start r members =
     \<lparr>dw_detail = \<lparr>rd_run = r, rd_message = None, rd_context = members, rd_carried = [], rd_jev = None,
        rd_jev_request = None, rd_fallback = None, rd_classification = None, rd_context_added = [],
        rd_context_removed = [], rd_full_context = None, rd_ir = None, rd_streamed = [], rd_output = None,
        rd_response = None, rd_emitted_nodes = [], rd_emitted_edges = [], rd_failure = None,
        rd_tool_calls = [], rd_reviews = [], rd_events = []\<rparr>,
      dw_rejection = None, dw_rejected_output = None\<rparr>"

definition run_detail_of :: "db \<Rightarrow> run_id \<Rightarrow> run_detail option" where
  "run_detail_of d i =
     map_option (\<lambda>r.
       (let events = events_of d i;
            w = foldl detail_event (detail_start r (context_of d i)) (map ev_data events)
        in (dw_detail w)\<lparr>rd_tool_calls := tool_calls events, rd_events := events\<rparr>)) (run_row d i)"

section \<open>Projects and references\<close>

record project_summary =
  ps_project :: project
  ps_conversations :: nat
  ps_nodes :: nat

definition project_summaries :: "db \<Rightarrow> project_summary list" where
  "project_summaries d =
     map (\<lambda>p. \<lparr>ps_project = p, ps_conversations = length (conversations_of d (pr_id p)),
       ps_nodes = length (nodes_of d (pr_id p))\<rparr>) (projects_list d)"

definition listed_message :: "db \<Rightarrow> run \<Rightarrow> string option" where
  "listed_message d r =
     (case List.map_filter (\<lambda>e. case ev_data e of Message_Recorded _ t \<Rightarrow> Some t | _ \<Rightarrow> None) (events_of d (rn_id r)) of
        [] \<Rightarrow> None | t # _ \<Rightarrow> Some t)"

text \<open>\<open>resolve_run\<close>: a run ID or \<open>latest\<close>.\<close>

definition resolve_run :: "db \<Rightarrow> project_id \<Rightarrow> string \<Rightarrow> run_id option" where
  "resolve_run d p reference =
     (if reference = ''latest''
      then (case rev (runs_of d p) of [] \<Rightarrow> None | r # _ \<Rightarrow> Some (rn_id r))
      else case parse_run_id reference of
        Inl _ \<Rightarrow> None
      | Inr i \<Rightarrow> (case run_row d i of
          Some r \<Rightarrow> if rn_project r = p then Some (rn_id r) else None
        | None \<Rightarrow> None))"

end
