(* ===== verification/Inspect_Views.thy ===== *)
theory Inspect_Views
  imports Inspect
begin

text \<open>
  What the views show: the chat turn and the inspector's detail of a run tell the same, and once a run has
  ended, no tool call is shown as waiting or running.
\<close>

section \<open>Tool calls\<close>

definition calls_of :: "event_data list \<Rightarrow> tool_call_view list" where
  "calls_of ds = foldl (\<lambda>calls d. fst (apply_tool_event calls d)) [] ds"

lemma tool_calls_of: "tool_calls events = calls_of (map ev_data events)"
  by (simp add: tool_calls_def calls_of_def foldl_map)

lemma calls_of_simps [simp]:
  "calls_of [] = []"
  "calls_of (ds @ [d]) = fst (apply_tool_event (calls_of ds) d)"
  by (simp_all add: calls_of_def)

text \<open>The calls a run asked for, in order.\<close>

fun requested_calls :: "event_data list \<Rightarrow> string list" where
  "requested_calls [] = []"
| "requested_calls (Tool_Requested call _ _ # ds) = call # requested_calls ds"
| "requested_calls (_ # ds) = requested_calls ds"

lemma requested_append [simp]: "requested_calls (a @ b) = requested_calls a @ requested_calls b"
  by (induction a rule: requested_calls.induct) auto

lemma ids_update_call [simp]:
  "(\<And>c. tv_call (f c) = tv_call c) \<Longrightarrow> map tv_call (update_call call f cs) = map tv_call cs"
  by (induction cs) auto

lemma ids_calls_of: "map tv_call (calls_of ds) = requested_calls ds"
proof (induction ds rule: rev_induct)
  case (snoc d ds)
  then show ?case
    by (cases d) (simp_all add: comp_def if_distrib cong: if_cong)
qed simp

definition settled :: "tool_call_view \<Rightarrow> bool" where
  "settled c \<longleftrightarrow> tv_status c \<in> {''completed'', ''failed'', ''denied'', ''stopped''}"

definition call_status :: "tool_call_view \<Rightarrow> bool" where
  "call_status c \<longleftrightarrow> settled c \<or> tv_status c \<in> {''awaiting'', ''running''}"

lemma call_statusI:
  "tv_status c \<in> {''completed'', ''failed'', ''denied'', ''stopped'', ''awaiting'', ''running''} \<Longrightarrow> call_status c"
  by (auto simp: call_status_def settled_def)

lemma call_status_update:
  assumes "list_all call_status cs" "\<And>c. call_status (f c)"
  shows "list_all call_status (update_call call f cs)"
  using assms(1) by (induction cs) (simp_all add: assms(2))

lemma calls_status: "list_all call_status (calls_of ds)"
proof (induction ds rule: rev_induct)
  case (snoc d ds)
  have m: "list_all call_status (map (\<lambda>c. if P c then c\<lparr>tv_status := ''stopped''\<rparr> else c) (calls_of ds))" for P
    using snoc by (auto simp: list_all_iff intro: call_statusI)
  show ?case
  proof (cases d)
    case (Tool_Requested call name arguments)
    then show ?thesis using snoc by (simp add: call_statusI)
  next
    case (Tool_Decided call allowed decider reason)
    then show ?thesis using snoc by (simp add: call_status_update call_statusI)
  next
    case (Tool_Finished call output_value is_error)
    then show ?thesis using snoc by (simp add: call_status_update call_statusI)
  qed (use snoc m in simp_all)
qed simp

lemma terminal_settles:
  assumes "terminal d st err"
  shows "list_all settled (calls_of (ds @ [d]))"
  using assms calls_status [of ds]
  by (cases d) (auto simp: list_all_iff call_status_def settled_def)

section \<open>The two views\<close>

definition turn_work_of :: "run \<Rightarrow> nat \<Rightarrow> event_data list \<Rightarrow> turn_work" where
  "turn_work_of r n ds = foldl turn_step (turn_start r n) ds"

definition detail_work_of :: "run \<Rightarrow> context_member list \<Rightarrow> event_data list \<Rightarrow> detail_work" where
  "detail_work_of r ms ds = foldl detail_event (detail_start r ms) ds"

lemma work_simps [simp]:
  "turn_work_of r n [] = turn_start r n"
  "turn_work_of r n (ds @ [d]) = turn_step (turn_work_of r n ds) d"
  "detail_work_of r ms [] = detail_start r ms"
  "detail_work_of r ms (ds @ [d]) = detail_event (detail_work_of r ms ds) d"
  by (simp_all add: turn_work_of_def detail_work_of_def)

definition same_facts :: "turn_view \<Rightarrow> run_detail \<Rightarrow> bool" where
  "same_facts v x \<longleftrightarrow>
     vw_run v = rd_run x \<and> vw_message v = map_option snd (rd_message x) \<and> vw_context_size v = length (rd_context x) \<and>
     vw_jev v = rd_jev x \<and> (vw_fallback v \<longleftrightarrow> rd_fallback x \<noteq> None) \<and>
     (vw_full_context v \<longleftrightarrow> rd_full_context x \<noteq> None) \<and>
     vw_tools_offered v = (case rd_jev_request x of None \<Rightarrow> 0 | Some q \<Rightarrow> length (jr_tools q)) \<and>
     vw_emitted_nodes v = length (rd_emitted_nodes x) \<and> vw_emitted_edges v = length (rd_emitted_edges x)"

lemma same_facts_work: "same_facts (wk_view (turn_work_of r (length ms) ds)) (dw_detail (detail_work_of r ms ds))"
proof (induction ds rule: rev_induct)
  case Nil
  show ?case by (simp add: same_facts_def turn_start_def detail_start_def)
next
  case (snoc d ds)
  then show ?case
    by (cases d) (auto simp: same_facts_def turn_step_def Let_def)
qed

lemma wk_calls_work: "wk_calls (turn_work_of r n ds) = calls_of ds"
proof (induction ds rule: rev_induct)
  case Nil
  show ?case by (simp add: turn_start_def)
next
  case (snoc d ds)
  then show ?case
    by (cases d) (auto simp: turn_step_def Let_def)
qed

definition step_calls :: "shown_step list \<Rightarrow> string list" where
  "step_calls = List.map_filter (\<lambda>s. case s of Call_Step call \<Rightarrow> Some call | _ \<Rightarrow> None)"

lemma step_calls_simps [simp]: "step_calls [] = []" "step_calls (a @ b) = step_calls a @ step_calls b"
  "step_calls [Call_Step call] = [call]" "step_calls [Prose_Step t] = []" "step_calls [Review_Step v] = []"
  by (simp_all add: step_calls_def List.map_filter_def)

lemma wk_order_work: "step_calls (wk_order (turn_work_of r n ds)) = requested_calls ds"
proof (induction ds rule: rev_induct)
  case Nil
  show ?case by (simp add: turn_start_def)
next
  case (snoc d ds)
  then show ?case
    by (cases d) (auto simp: turn_step_def Let_def)
qed

definition tool_items :: "turn_item list \<Rightarrow> tool_call_view list" where
  "tool_items = List.map_filter (\<lambda>i. case i of Tool_Item c \<Rightarrow> Some c | _ \<Rightarrow> None)"

lemma tool_items_of:
  "tool_items (List.map_filter (item_of calls) order) =
     List.map_filter (\<lambda>call. find (\<lambda>c. tv_call c = call) calls) (step_calls order)"
proof (induction order)
  case (Cons s order)
  then show ?case
    by (cases s) (auto simp: tool_items_def step_calls_def map_filter_simps split: option.splits)
qed (simp add: tool_items_def step_calls_def map_filter_simps)

lemma find_call: "distinct (map tv_call calls) \<Longrightarrow> c \<in> set calls \<Longrightarrow> find (\<lambda>x. tv_call x = tv_call c) calls = Some c"
  by (induction calls) (auto simp: image_iff)

lemma map_filter_Some: "(\<And>x. x \<in> set xs \<Longrightarrow> f (g x) = Some x) \<Longrightarrow> List.map_filter f (map g xs) = xs"
  by (induction xs) (auto simp: List.map_filter_def)

text \<open>The failure: \<open>failure\<close> looks for the first \<open>run.failed\<close>, \<open>run_detail\<close> keeps the last.\<close>

fun rejection_event :: "(string \<times> string) option \<Rightarrow> event_data \<Rightarrow> (string \<times> string) option" where
  "rejection_event rejection (Jev_Rejected reason _) = Some (''jev'', reason)"
| "rejection_event rejection (Jev_Fallback _ _) = None"
| "rejection_event rejection (Response_Rejected reason) = Some (''response'', reason)"
| "rejection_event rejection _ = rejection"

lemma failure_from_mid:
  "list_all (\<lambda>d. \<forall>code message. d \<noteq> Run_Failed code message) ds \<Longrightarrow>
     failure_from rejection (ds @ [Run_Failed code message]) =
       Some (failure_of (foldl rejection_event rejection ds) code message)"
proof (induction ds arbitrary: rejection)
  case (Cons d ds)
  then show ?case by (cases d) simp_all
qed simp

lemma rejection_work: "dw_rejection (detail_work_of r ms ds) = foldl rejection_event None ds"
proof (induction ds rule: rev_induct)
  case (snoc d ds)
  then show ?case by (cases d) simp_all
qed (simp add: detail_start_def)

lemma no_failure_work:
  "list_all (\<lambda>d. \<forall>code message. d \<noteq> Run_Failed code message) ds \<Longrightarrow>
     rd_failure (dw_detail (detail_work_of r ms ds)) = None"
proof (induction ds rule: rev_induct)
  case (snoc d ds)
  then show ?case by (cases d) simp_all
qed (simp add: detail_start_def)

lemma history_failure:
  assumes "history_shape r ds"
  shows "(if rn_status r = Failed then failure_from None ds else None) = rd_failure (dw_detail (detail_work_of q ms ds))"
proof -
  obtain mid where mid: "\<forall>x \<in> set mid. \<not> lifecycle x"
      "if rn_status r = Running then ds = started r # mid
       else (\<exists>x. terminal x (rn_status r) (rn_error r) \<and> ds = started r # mid @ [x])"
    using assms by (auto simp: history_shape_def)
  have n: "list_all (\<lambda>d. \<forall>code message. d \<noteq> Run_Failed code message) (started r # mid)"
    using mid(1) by (auto simp: list_all_iff started_def)
  show ?thesis
  proof (cases "rn_status r = Running")
    case True
    then show ?thesis using mid(2) no_failure_work [OF n, of q ms] by simp
  next
    case False
    then obtain x where x: "terminal x (rn_status r) (rn_error r)" "ds = (started r # mid) @ [x]"
      using mid(2) by auto
    show ?thesis
    proof (cases x)
      case (Run_Failed code message)
      then show ?thesis
        using x failure_from_mid [OF n, of None code message] rejection_work [of q ms "started r # mid"]
        unfolding x(2) work_simps by simp
    next
      case Run_Completed
      then show ?thesis
        using x no_failure_work [OF n, of q ms] unfolding x(2) work_simps by simp
    qed (use x(1) in simp_all)
  qed
qed

lemma turn_of_work:
  "turn_of r events n =
     (let w = turn_work_of r n (map ev_data events)
      in (wk_view w)
           \<lparr>vw_items := List.map_filter (item_of (wk_calls w)) (wk_order w),
            vw_prose := (if wk_validated w = [] then wk_streamed w else join ''\<newline>\<newline>'' (wk_validated w)),
            vw_streaming := (if rn_status r = Running then wk_streamed w else []),
            vw_failure := (if rn_status r = Failed then shown_failure events else None)\<rparr>)"
  by (simp add: turn_of_def turn_work_of_def)

lemma turn_tool_items:
  assumes "distinct (requested_calls (map ev_data events))"
  shows "tool_items (vw_items (turn_of r events n)) = tool_calls events"
proof -
  let ?calls = "calls_of (map ev_data events)"
  have "tool_items (vw_items (turn_of r events n)) =
      List.map_filter (\<lambda>call. find (\<lambda>c. tv_call c = call) ?calls) (map tv_call ?calls)"
    by (simp add: turn_of_work Let_def tool_items_of wk_order_work wk_calls_work ids_calls_of)
  also have "\<dots> = ?calls"
    using assms ids_calls_of [of "map ev_data events"] by (intro map_filter_Some find_call) simp_all
  finally show ?thesis by (simp add: tool_calls_of)
qed

lemma session_run_history:
  assumes "list_all (list_all ordinary) txs" "d = conn (session txs (open_store clk gen l))" "r \<in> set (t_runs d)"
  shows "history_shape r (map ev_data (events_of d (rn_id r)))" "run_row d (rn_id r) = Some r"
proof -
  have k: "history_ok d" "db_ok d" using session_keeps [OF assms(1)] assms(2) by blast+
  then have "numbered (run_events d (rn_id r))" "history_shape r (map ev_data (run_events d (rn_id r)))"
    using assms(3) by (auto simp: history_ok_def)
  then show "history_shape r (map ev_data (events_of d (rn_id r)))" by (simp add: events_of_numbered)
  show "run_row d (rn_id r) = Some r"
    using k(2) assms(3) run_row_member by (auto simp: db_ok_def)
qed

text \<open>C31. The chat and the inspector tell the same of a run, in every database that transactions can
  reach: the turn's message, Jev, fallback, full context, number of offered tools, emissions and
  failure are those of the run's detail, and, when no call ID was used twice, the tool calls among
  the turn's items are the detail's, in order. Once the run has ended, none of its calls is shown as
  awaiting or running.\<close>

theorem views_agree:
  assumes "list_all (list_all ordinary) txs" "d = conn (session txs (open_store clk gen l))" "r \<in> set (t_runs d)"
    and "events = events_of d (rn_id r)" "v = turn_of r events (length (context_of d (rn_id r)))"
  shows "\<exists>x. run_detail_of d (rn_id r) = Some x \<and> same_facts v x \<and> vw_failure v = rd_failure x \<and>
    (distinct (requested_calls (map ev_data events)) \<longrightarrow> tool_items (vw_items v) = rd_tool_calls x) \<and>
    (rn_status r \<noteq> Running \<longrightarrow> list_all settled (rd_tool_calls x))"
proof -
  let ?ds = "map ev_data events"
  let ?ms = "context_of d (rn_id r)"
  let ?x = "(dw_detail (detail_work_of r ?ms ?ds))\<lparr>rd_tool_calls := tool_calls events, rd_events := events\<rparr>"
  note h = session_run_history [OF assms(1-3)]
  have "run_detail_of d (rn_id r) = Some ?x"
    using h(2) by (simp add: run_detail_of_def detail_work_of_def assms(4) Let_def)
  moreover have "same_facts v ?x"
    using same_facts_work [of r ?ms ?ds] by (simp add: assms(5) turn_of_work Let_def same_facts_def)
  moreover have "vw_failure v = rd_failure ?x"
    using history_failure [OF h(1), of r ?ms] by (auto simp: assms(4,5) turn_of_work Let_def shown_failure_def split: if_splits)
  moreover have "list_all settled (tool_calls events)" if ended: "rn_status r \<noteq> Running"
  proof -
    obtain mid x where "?ds = (started r # mid) @ [x]" "terminal x (rn_status r) (rn_error r)"
      using h(1) ended by (auto simp: history_shape_def assms(4))
    then show ?thesis unfolding tool_calls_of by (metis terminal_settles)
  qed
  ultimately show ?thesis
    using turn_tool_items [of events r "length ?ms"] by (intro exI [of _ ?x]) (simp add: assms(5))
qed

text \<open>A run that failed while a call waited for its decision.\<close>

definition demo_failed_session :: "tx_op list list" where
  "demo_failed_session =
     demo_session @
     [[Op_Append_Event (Ident ''run_2'') (Tool_Requested ''call_1'' ''files.read'' [])],
      [Op_Fail_Run (Ident ''run_2'') Cancelled ''stopped by the user'']]"

definition demo_failed_store :: store where
  "demo_failed_store =
     session demo_failed_session (open_store (\<lambda>n. Timestamp (int n)) (\<lambda>h p. show_nat (length h)) True)"

lemma demo_failed_contents:
  "map (\<lambda>r. (rn_id r, rn_status r)) (t_runs (conn demo_failed_store)) = [(Ident ''run_2'', Failed)] \<and>
   map (\<lambda>c. (tv_call c, tv_status c)) (tool_calls (events_of (conn demo_failed_store) (Ident ''run_2''))) =
     [(''call_1'', ''stopped'')]"
  by code_simp

theorem views_agree_witness:
  "\<exists>r x. t_runs (conn demo_failed_store) = [r] \<and>
     run_detail_of (conn demo_failed_store) (rn_id r) = Some x \<and>
     map (\<lambda>c. (tv_call c, tv_status c)) (rd_tool_calls x) = [(''call_1'', ''stopped'')] \<and> list_all settled (rd_tool_calls x)"
proof -
  obtain r where r: "t_runs (conn demo_failed_store) = [r]" "rn_id r = Ident ''run_2''" "rn_status r = Failed"
    using demo_failed_contents by (cases "t_runs (conn demo_failed_store)") auto
  let ?events = "events_of (conn demo_failed_store) (rn_id r)"
  obtain x where x: "run_detail_of (conn demo_failed_store) (rn_id r) = Some x" "list_all settled (rd_tool_calls x)"
    using views_agree [of demo_failed_session "conn demo_failed_store" "\<lambda>n. Timestamp (int n)"
        "\<lambda>h p. show_nat (length h)" True r ?events "turn_of r ?events (length (context_of (conn demo_failed_store) (rn_id r)))"]
      r by (auto simp: demo_failed_session_def demo_session_def demo_failed_store_def)
  have "rd_tool_calls x = tool_calls ?events"
    using x(1) by (auto simp: run_detail_of_def Let_def)
  then show ?thesis
    using x r demo_failed_contents by auto
qed

end
