(* ===== verification/Protocol.thy ===== *)
theory Protocol
  imports Fake_Jev Rust_Split Floats
begin

text \<open>
  \<open>dagos-openai/src/protocol.rs\<close>: how inference IR and Jev's questions become requests of a Chat Completions or
  Decisions endpoint, and how the answers are read. The embedded schema documents and the derived
  serializers of the contract types are the fields of \<open>wire\<close>.
\<close>

record wire =
  wr_codec :: codec
  wr_schema :: "contract \<Rightarrow> string"
  wr_request_text :: "jev_request \<Rightarrow> string"
  wr_candidate :: "jev_candidate \<Rightarrow> json"
  wr_edge :: "jev_edge \<Rightarrow> json"
  wr_tool :: "jev_tool \<Rightarrow> json"

section \<open>Instructions\<close>

definition protocol_text :: string where
  "protocol_text =
     concat (map (\<lambda>l. l @ [CHR 0x0A])
     [''You are the inference endpoint of DAGOS, a DAG operating system for coding workflows.'',
      [],
      ''The user message is a kiss.inference-ir.v1 JSON document:'',
      ''- task.message is the request to answer; task.node_id is its durable node.'',
      (''- context lists the durable DAG nodes that are active for this request, with their '' @
        ''relations.''),
      (''- recent_events is the conversation so far, oldest first: each earlier turn'' @ [CHR 0x27] @
        ''s request (the user'' @ [CHR 0x27] @
        ''s message) and your reply (prose), or why that turn failed. It holds only the most '' @
        ''recent turns.''),
      (''- recalled, if present, are older turns, from this chat or other chats of the project, '' @
        ''that DAGOS judged relevant to this request, verbatim.''),
      (''- tools, if present, are tools you may use. To use them, list calls in '' @ [CHR 0x22] @
        ''tool_calls'' @ [CHR 0x22] @
        '' (name exactly as listed, arguments matching its input_schema). DAGOS runs the calls '' @
        ''the person permits and sends you a new IR whose tool_results say what each returned, '' @
        ''failed with, or why it was denied; keep going until you can answer, then reply without '' @
        ''tool_calls. Every reply, including one that only calls tools, is still exactly one JSON '' @
        ''object: say what you are doing in presentation.prose, never before or after the object. '' @
        ''Some tools act on the person'' @ [CHR 0x27] @
        ''s computer: call only what the request needs.''),
      (''- tool_results, if present, are this request'' @ [CHR 0x27] @
        ''s earlier tool calls and their outcomes. An output of {'' @ [CHR 0x22] @ ''omitted'' @
        [CHR 0x22] @
        '': ...} is a large result DAGOS left out because it is not needed for the current step; '' @
        ''it comes back if it becomes relevant, and you can call the tool again if you need it '' @
        ''now.''),
      (''- review, if present, means you are not done yet: DAGOS linted the functions your tool '' @
        ''calls changed against the project'' @ [CHR 0x27] @
        ''s plain-English rules, and each finding is a rule its judge found to apply (with the '' @
        ''probability). Fix the findings with your tools, then reply again; DAGOS reviews the new '' @
        ''code each time you reply without tool calls, up to review.max_rounds. If a finding is '' @
        ''wrong, do not change the code for it: say why in presentation.prose.''),
      [],
      (''Reply with exactly one JSON object that satisfies kiss.inference-response.v1 and '' @
        ''nothing else: no markdown fences and no text outside the object.''),
      (''- Write '' @ [CHR 0x22] @ ''presentation'' @ [CHR 0x22] @
        '' first. presentation.prose is your reply to the person. It is shown to them but never '' @
        ''stored as project state.''),
      (''- '' @ [CHR 0x22] @ ''emissions'' @ [CHR 0x22] @
        '' is the only way to record durable project state. Emit nodes for tasks, decisions, '' @
        ''artifacts, observations, and results worth remembering. Give each node emission a '' @
        ''unique '' @ [CHR 0x22] @ ''ref'' @ [CHR 0x22] @ '' (letters, digits, '' @ [CHR 0x22] @ ''_'' @
        [CHR 0x22] @ '' or '' @ [CHR 0x22] @ ''-'' @ [CHR 0x22] @ '', not starting with '' @ [CHR 0x22] @
        ''node_'' @ [CHR 0x22] @ '').''),
      (''- Edge emissions may only connect refs declared in this response or node_ids that '' @
        ''appear in the IR. Edges must not form cycles.''),
      ''- Use an empty emissions array when nothing needs recording.'',
      [],
      ''The response schema:''])"

definition native_tools_text :: string where
  "native_tools_text =
     join [CHR 0x0A]
     [[],
      [],
      (''Tools: in this conversation the tools are offered through the tool-calling interface '' @
        ''instead of the IR'' @ [CHR 0x27] @
        ''s `tools`. Call them there; DAGOS treats those calls exactly like `tool_calls` in the '' @
        ''document: it runs the calls the person permits and returns what each did in the next IR'' @
        [CHR 0x27] @
        ''s tool_results. While calling tools, any text you write is shown as a short note of '' @
        ''what you are doing. When you are done, call no tools and reply with the JSON document '' @
        ''described above.'')]"

definition jev_protocol_text :: string where
  "jev_protocol_text =
     concat (map (\<lambda>l. l @ [CHR 0x0A])
     [''You are Jev, the context classifier of DAGOS. You only classify.'',
      [],
      (''The user message is a kiss.jev-request.v1 JSON document: the user'' @ [CHR 0x27] @
        ''s `message`, the `candidates` (durable DAG nodes, oldest first, each with `in_context` '' @
        ''telling whether it is in the active context carried over from the previous run), the '' @
        ''`edges` between them, and optionally the `tools` the assistant could be given.''),
      [],
      (''For each candidate, decide whether it belongs in the active context for answering '' @
        ''`message`: `active` if it is relevant, `inactive` if it is not (for example superseded '' @
        ''by a newer node, stale, or unrelated). Candidates you leave out keep their current '' @
        ''membership.''),
      [],
      (''If the request lists `tools`, label each one in `tools`: `active` if answering '' @
        ''`message` may need it, `inactive` if not. Only active (and unlabeled) tools are shown '' @
        ''to the assistant this turn.''),
      [],
      (''You never answer the message, plan, choose providers or models, call tools, or explain '' @
        ''yourself. Reply with exactly one JSON object that satisfies kiss.jev-context.v1 and '' @
        ''nothing else: no markdown fences, no text outside the object, no fields beyond the '' @
        ''schema. Use only node_ids from `candidates`, each at most once.''),
      [],
      ''The output schema:''])"

section \<open>Requests\<close>

definition system_message :: "wire \<Rightarrow> inference_ir \<Rightarrow> string" where
  "system_message wr ir =
     (let schema = trim (wr_schema wr Inference_Response_Contract)
      in if trim (ii_prompt ir) = [] then protocol_text @ schema
         else trim_end (ii_prompt ir) @ [CHR 0x0A, CHR 0x0A] @ protocol_text @ schema)"

definition user_message :: "wire \<Rightarrow> inference_ir \<Rightarrow> string" where
  "user_message wr ir = text_of_ir (wr_codec wr) ir"

definition chat_message :: "string \<Rightarrow> string \<Rightarrow> json" where
  "chat_message who content = JObj [(''content'', JStr content), (''role'', JStr who)]"

definition with_json_mode :: "bool \<Rightarrow> payload \<Rightarrow> json" where
  "with_json_mode json_mode body =
     JObj (if json_mode then bt_insert ''response_format'' (JObj [(''type'', JStr ''json_object'')]) body
           else body)"

definition request_body :: "wire \<Rightarrow> model_id \<Rightarrow> inference_ir \<Rightarrow> bool \<Rightarrow> json" where
  "request_body wr m ir json_mode =
     with_json_mode json_mode
       [(''messages'', JArr [chat_message ''system'' (system_message wr ir), chat_message ''user'' (user_message wr ir)]),
        (''model'', JStr (model_str m)), (''stream'', JBool True)]"

definition jev_system_message :: "wire \<Rightarrow> string" where
  "jev_system_message wr = jev_protocol_text @ trim (wr_schema wr Jev_Context_Contract)"

definition jev_request_body :: "wire \<Rightarrow> model_id \<Rightarrow> jev_request \<Rightarrow> bool \<Rightarrow> json" where
  "jev_request_body wr m request json_mode =
     with_json_mode json_mode
       [(''messages'', JArr [chat_message ''system'' (jev_system_message wr),
           chat_message ''user'' (wr_request_text wr request)]),
        (''model'', JStr (model_str m)), (''stream'', JBool True), (''temperature'', JInt 0)]"

section \<open>Decisions\<close>

definition active_threshold :: rat where
  "active_threshold = 1 / 2"

definition tool_key :: "string \<Rightarrow> string" where
  "tool_key name = ''tool:'' @ name"

definition noul_question_body :: "json \<Rightarrow> string \<Rightarrow> string \<Rightarrow> json" where
  "noul_question_body instructions if_true if_false =
     JObj [(''criteria'', JObj [(''false'', JStr if_false), (''true'', JStr if_true)]),
           (''instructions'', instructions), (''type'', JStr ''noul'')]"

definition candidate_question :: "wire \<Rightarrow> nat \<Rightarrow> nat \<times> jev_candidate \<Rightarrow> string \<times> json" where
  "candidate_question wr number ic =
     (ident_str (jc_node (snd ic)),
      noul_question_body
        (JObj [(''node'', wr_candidate wr (snd ic)), (''recency'', JInt (int (number - fst ic))),
               (''task'', JStr (''Decide whether this durable project node belongs in the active '' @
                  ''context used to answer the user'' @ [CHR 0x27] @ ''s message in `state.message`.''))])
        (''The node is relevant to answering the message and still current, '' @
         ''or the message refers back to the recent conversation and this node '' @
         ''is one of its latest turns (low `recency`).'')
        (''The node is unrelated to the message, stale, or superseded by a '' @
         ''newer node (see `state.edges`).''))"

definition tool_question :: "wire \<Rightarrow> jev_tool \<Rightarrow> string \<times> json" where
  "tool_question wr t =
     (tool_key (jt_name t),
      noul_question_body
        (JObj [(''task'', JStr (''Decide whether answering the user'' @ [CHR 0x27] @ ''s message in `state.message` may need '' @
                  ''this tool. Only tools judged needed are shown to the assistant.'')),
               (''tool'', wr_tool wr t)])
        (''The message asks for something this tool does or helps find out, or the '' @
         ''recent conversation (`state.latest_messages`) is about work it serves.'')
        ''Answering the message will not need this tool.'')"

definition latest_messages_limit :: nat where
  "latest_messages_limit = 4"

definition latest_messages :: "jev_request \<Rightarrow> string list" where
  "latest_messages request =
     rev (take latest_messages_limit
       (List.map_filter (\<lambda>c. payload_str ''text'' (jc_payload c))
         (filter (\<lambda>c. payload_str ''role'' (jc_payload c) = Some ''user'')
           (filter (\<lambda>c. jc_type c = Conversation_Node) (rev (jr_candidates request))))))"

definition decisions_body :: "wire \<Rightarrow> model_id \<Rightarrow> jev_request \<Rightarrow> json" where
  "decisions_body wr m request =
     (let number = length (jr_candidates request);
          questions = bt_of_list (map (candidate_question wr number) (enumerate 0 (jr_candidates request)));
          all = foldl (\<lambda>q t. bt_insert (fst (tool_question wr t)) (snd (tool_question wr t)) q) questions (jr_tools request)
      in JObj [(''model'', JStr (model_str m)), (''questions'', JObj all),
               (''state'', JObj [(''edges'', JArr (map (wr_edge wr) (jr_edges request))),
                  (''latest_messages'', JArr (map JStr (latest_messages request))),
                  (''message'', JStr (jr_message request))])])"

fun json_as_f64 :: "json \<Rightarrow> f64 option" where
  "json_as_f64 (JInt i) = Some (Fin (of_int i))"
| "json_as_f64 (JFloat f) = Some f"
| "json_as_f64 _ = None"

fun json_as_object :: "json \<Rightarrow> payload option" where
  "json_as_object (JObj m) = Some m"
| "json_as_object _ = None"

definition no_answers :: string where
  "no_answers = ''the Decisions response has no `answers` object''"

text \<open>\<open>answer.get("noul").and_then(as_f64).filter(...)\<close>.\<close>

definition noul_probability :: "json \<Rightarrow> f64 option" where
  "noul_probability answer =
     (case Option.bind (json_get ''noul'' answer) json_as_f64 of
        Some p \<Rightarrow> if f64_within 0 1 p then Some p else None
      | None \<Rightarrow> None)"

definition classified :: "f64 \<Rightarrow> json" where
  "classified p = JStr (if f64_le (Fin active_threshold) p then ''active'' else ''inactive'')"

fun classify_candidates :: "wire \<Rightarrow> payload \<Rightarrow> jev_candidate list \<Rightarrow> string + json list" where
  "classify_candidates wr answers [] = Inr []"
| "classify_candidates wr answers (c # cs) =
     (case map_of answers (ident_str (jc_node c)) of
        None \<Rightarrow> classify_candidates wr answers cs
      | Some answer \<Rightarrow>
          (case noul_probability answer of
             None \<Rightarrow> Inl (''the answer for '' @ ident_str (jc_node c) @ '' is not a noul probability: '' @
                 json_text (wr_codec wr) answer)
           | Some p \<Rightarrow>
               (case classify_candidates wr answers cs of
                  Inl e \<Rightarrow> Inl e
                | Inr js \<Rightarrow> Inr (JObj [(''classification'', classified p),
                    (''node_id'', JStr (ident_str (jc_node c)))] # js))))"

fun classify_tools :: "wire \<Rightarrow> payload \<Rightarrow> jev_tool list \<Rightarrow> string + json list" where
  "classify_tools wr answers [] = Inr []"
| "classify_tools wr answers (t # ts) =
     (case map_of answers (tool_key (jt_name t)) of
        None \<Rightarrow> classify_tools wr answers ts
      | Some answer \<Rightarrow>
          (case noul_probability answer of
             None \<Rightarrow> Inl (''the answer for tool '' @ jt_name t @ '' is not a noul probability: '' @
                 json_text (wr_codec wr) answer)
           | Some p \<Rightarrow>
               (case classify_tools wr answers ts of
                  Inl e \<Rightarrow> Inl e
                | Inr js \<Rightarrow> Inr (JObj [(''classification'', classified p), (''name'', JStr (jt_name t))] # js))))"

definition decisions_document :: "json list \<Rightarrow> json list \<Rightarrow> json" where
  "decisions_document nodes tools =
     (let document = [(''classifications'', JArr nodes), (''schema'', JStr ''kiss.jev-context.v1'')]
      in JObj (if tools = [] then document else bt_insert ''tools'' (JArr tools) document))"

definition classification_from_decisions :: "wire \<Rightarrow> jev_request \<Rightarrow> json \<Rightarrow> string + string" where
  "classification_from_decisions wr request response =
     (case Option.bind (json_get ''answers'' response) json_as_object of
        None \<Rightarrow> Inl no_answers
      | Some answers \<Rightarrow>
          (case classify_candidates wr answers (jr_candidates request) of
             Inl e \<Rightarrow> Inl e
           | Inr nodes \<Rightarrow>
               (case classify_tools wr answers (jr_tools request) of
                  Inl e \<Rightarrow> Inl e
                | Inr tools \<Rightarrow> Inr (json_text (wr_codec wr) (decisions_document nodes tools)))))"

section \<open>Recall and yes/no questions\<close>

definition recall_batch_chars :: nat where
  "recall_batch_chars = 40000"

text \<open>The loop of \<open>recall_batches\<close>: the current batch with its size, then the chunks still to come.\<close>

fun batches_from :: "recall_chunk list \<Rightarrow> nat \<Rightarrow> recall_chunk list \<Rightarrow> recall_chunk list list" where
  "batches_from batch sz [] = (if batch = [] then [] else [batch])"
| "batches_from batch sz (c # cs) =
     (let n = length (chars_of (ck_text c))
      in if batch \<noteq> [] \<and> recall_batch_chars < sz + n then batch # batches_from [c] n cs
         else batches_from (batch @ [c]) (sz + n) cs)"

definition recall_batches :: "recall_chunk list \<Rightarrow> recall_chunk list list" where
  "recall_batches chunks = batches_from [] 0 chunks"

definition recall_question :: "recall_chunk \<Rightarrow> string \<times> json" where
  "recall_question c =
     (ck_id c,
      noul_question_body
        (JObj [(''item'', JStr (ck_text c)),
               (''task'', JStr (''Decide whether this item from the project'' @ [CHR 0x27] @ ''s history (an earlier '' @
                  ''chat turn, or a tool result from an earlier step) holds information '' @
                  ''needed to answer `state.query`.''))])
        (''The item states, shows, asks, or decides something that answering '' @ ''the query needs.'')
        ''Answering the query does not need anything in this item.'')"

definition recall_body :: "model_id \<Rightarrow> string \<Rightarrow> recall_chunk list \<Rightarrow> json" where
  "recall_body m q chunks =
     JObj [(''model'', JStr (model_str m)), (''questions'', JObj (bt_of_list (map recall_question chunks))),
           (''state'', JObj [(''query'', JStr q)])]"

text \<open>One probability per key, in order: the common part of \<open>relevance_from_decisions\<close> and \<open>noul_answers\<close>.\<close>

fun probabilities :: "codec \<Rightarrow> payload \<Rightarrow> string list \<Rightarrow> string + f64 list" where
  "probabilities cx answers [] = Inr []"
| "probabilities cx answers (k # ks) =
     (case map_of answers k of
        None \<Rightarrow> Inl (''the Decisions response has no answer for '' @ k)
      | Some answer \<Rightarrow>
          (case noul_probability answer of
             None \<Rightarrow> Inl (''the answer for '' @ k @ '' is not a noul probability: '' @ json_text cx answer)
           | Some p \<Rightarrow>
               (case probabilities cx answers ks of Inl e \<Rightarrow> Inl e | Inr ps \<Rightarrow> Inr (p # ps))))"

definition relevance_from_decisions :: "codec \<Rightarrow> recall_chunk list \<Rightarrow> json \<Rightarrow> string + f64 list" where
  "relevance_from_decisions cx chunks response =
     (case Option.bind (json_get ''answers'' response) json_as_object of
        None \<Rightarrow> Inl no_answers
      | Some answers \<Rightarrow> probabilities cx answers (map ck_id chunks))"

definition noul_body :: "model_id \<Rightarrow> json \<Rightarrow> noul_question list \<Rightarrow> json" where
  "noul_body m state questions =
     JObj [(''model'', JStr (model_str m)),
           (''questions'', JObj (bt_of_list (map (\<lambda>q. (nq_key q,
              noul_question_body (nq_instructions q) (nq_if_true q) (nq_if_false q))) questions))),
           (''state'', state)]"

definition noul_answers :: "codec \<Rightarrow> noul_question list \<Rightarrow> json \<Rightarrow> string + f64 list" where
  "noul_answers cx questions response =
     (case Option.bind (json_get ''answers'' response) json_as_object of
        None \<Rightarrow> Inl no_answers
      | Some answers \<Rightarrow> probabilities cx answers (map nq_key questions))"

section \<open>The document in a model's output\<close>

definition max_preamble_chars :: nat where
  "max_preamble_chars = 1000"

text \<open>The first match of \<open>p\<close>, and \<open>contains\<close>.\<close>

fun find_sub :: "string \<Rightarrow> string \<Rightarrow> nat option" where
  "find_sub p s =
     (if starts_with p s then Some 0
      else case s of [] \<Rightarrow> None | _ # t \<Rightarrow> map_option Suc (find_sub p t))"

declare find_sub.simps [simp del]

definition contains_sub :: "string \<Rightarrow> string \<Rightarrow> bool" where
  "contains_sub p s \<longleftrightarrow> find_sub p s \<noteq> None"

definition strip_fence :: "string \<Rightarrow> string option" where
  "strip_fence s =
     (case Option.bind (strip_prefix ''```'' s) (strip_suffix ''```'') of
        None \<Rightarrow> None
      | Some body \<Rightarrow>
          (case split_once (CHR 0x0A) body of
             None \<Rightarrow> None
           | Some (language, content) \<Rightarrow>
               (if trim language = [] \<or> eq_ignore_ascii_case (trim language) ''json''
                then Some (trim content) else None)))"

definition reads_object :: "codec \<Rightarrow> string \<Rightarrow> bool" where
  "reads_object cx s \<longleftrightarrow> (case json_read cx s of Inr (JObj m) \<Rightarrow> True | _ \<Rightarrow> False)"

text \<open>The second half of \<open>unwrap_document\<close>: a preamble before the object.\<close>

definition drop_preamble :: "codec \<Rightarrow> string \<Rightarrow> string \<Rightarrow> string" where
  "drop_preamble cx whole trimmed =
     (case find_sub [CHR 0x0A, CHR 0x7B] trimmed of
        None \<Rightarrow> whole
      | Some index \<Rightarrow>
          (let preamble = take (index + 1) trimmed;
               holds_json = (contains_sub [CHR 0x7B, CHR 0x22] preamble \<or>
                 contains_sub [CHR 0x7B, CHR 0x20, CHR 0x22] preamble)
           in if starts_with [CHR 0x7B] trimmed \<or> holds_json \<or> max_preamble_chars < length (chars_of preamble)
              then whole
              else if reads_object cx (drop (index + 1) trimmed) then drop (index + 1) trimmed else whole))"

definition unwrap_document :: "codec \<Rightarrow> string \<Rightarrow> string" where
  "unwrap_document cx whole =
     (let trimmed = trim whole
      in case strip_fence trimmed of
           Some inner \<Rightarrow> if reads_object cx inner then inner else drop_preamble cx whole trimmed
         | None \<Rightarrow> drop_preamble cx whole trimmed)"

section \<open>Batches\<close>

lemma concat_batches_from: "concat (batches_from batch sz cs) = batch @ cs"
  by (induction batch sz cs rule: batches_from.induct) (auto simp: Let_def)

definition batch_size :: "recall_chunk list \<Rightarrow> nat" where
  "batch_size b = sum_list (map (\<lambda>c. length (chars_of (ck_text c))) b)"

lemma batches_from_sizes:
  "sz = batch_size batch \<Longrightarrow> batch = [] \<or> batch_size batch \<le> recall_batch_chars \<or> length batch = 1 \<Longrightarrow>
   b \<in> set (batches_from batch sz cs) \<Longrightarrow>
   b \<noteq> [] \<and> (batch_size b \<le> recall_batch_chars \<or> length b = 1)"
proof (induction batch sz cs rule: batches_from.induct)
  case (2 batch sz c cs)
  let ?n = "length (chars_of (ck_text c))"
  show ?case
  proof (cases "batch \<noteq> [] \<and> recall_batch_chars < sz + ?n")
    case True
    then have "b = batch \<or> b \<in> set (batches_from [c] ?n cs)"
      using 2(5) by (simp add: Let_def)
    then show ?thesis
      using 2(1) [OF refl True] 2(4) True by (auto simp: batch_size_def)
  next
    case False
    then have "b \<in> set (batches_from (batch @ [c]) (sz + ?n) cs)"
      using 2(5) by (auto simp: Let_def split: if_splits)
    moreover have "batch_size (batch @ [c]) \<le> recall_batch_chars \<or> length (batch @ [c]) = 1"
      using False 2(3) by (cases "batch = []") (auto simp: batch_size_def)
    moreover have "sz + ?n = batch_size (batch @ [c])"
      using 2(3) by (simp add: batch_size_def)
    ultimately show ?thesis using 2(2) [OF refl False] by blast
  qed
qed (auto split: if_splits)

text \<open>A recall search is split without losing, repeating or reordering a chunk: the batches together are the chunks, none
  is empty, and each fits in 40000 characters unless a single chunk is longer by itself.\<close>

theorem recall_batches_partition:
  "concat (recall_batches chunks) = chunks \<and>
   list_all (\<lambda>b. b \<noteq> [] \<and> (batch_size b \<le> 40000 \<or> length b = 1)) (recall_batches chunks)"
  using concat_batches_from [of "[]" 0 chunks] batches_from_sizes [of 0 "[]" _ chunks]
  by (auto simp: recall_batches_def list_all_iff batch_size_def recall_batch_chars_def)

section \<open>Answers\<close>

lemma noul_probability_Some: "noul_probability answer = Some p \<Longrightarrow> f64_within 0 1 p"
  by (auto simp: noul_probability_def split: option.splits if_splits)

lemma probabilities_Inr:
  "probabilities cx answers ks = Inr ps \<longleftrightarrow>
     map (\<lambda>k. Option.bind (map_of answers k) noul_probability) ks = map Some ps"
proof (induction ks arbitrary: ps)
  case (Cons k ks)
  show ?case
    using Cons.IH [of "tl ps"] by (cases ps) (auto split: option.splits sum.splits)
qed auto

text \<open>An endpoint's answers are used only when they answer every question with a probability: the list has one
  entry per question in the order asked, each the finite number in [0, 1] that the endpoint gave for that
  question's key; anything else is an error.\<close>

theorem noul_answers_iff:
  "noul_answers cx questions response = Inr ps \<longleftrightarrow>
     (\<exists>answers. json_get ''answers'' response = Some (JObj answers) \<and>
        list_all2 (\<lambda>q p. Option.bind (map_of answers (nq_key q)) noul_probability = Some p \<and> f64_within 0 1 p)
          questions ps)"
proof -
  have "probabilities cx answers (map nq_key questions) = Inr ps \<longleftrightarrow>
      list_all2 (\<lambda>q p. Option.bind (map_of answers (nq_key q)) noul_probability = Some p \<and> f64_within 0 1 p)
        questions ps" for answers
    unfolding probabilities_Inr
    by (auto simp: list_eq_iff_nth_eq list_all2_conv_all_nth Option.bind_eq_Some_conv)
      (metis noul_probability_Some)
  moreover have "Option.bind (json_get ''answers'' response) json_as_object = Some answers \<longleftrightarrow>
      json_get ''answers'' response = Some (JObj answers)" for answers
    by (cases "json_get ''answers'' response"; cases "the (json_get ''answers'' response)") auto
  ultimately show ?thesis
    by (auto simp: noul_answers_def split: option.splits)
qed

section \<open>What unwrapping drops\<close>

lemma find_sub_Some: "find_sub p s = Some i \<Longrightarrow> \<exists>a b. s = a @ p @ b \<and> length a = i"
proof (induction s arbitrary: i)
  case Nil
  then show ?case by (subst (asm) find_sub.simps) (auto simp: starts_with_iff split: if_splits)
next
  case (Cons c s)
  show ?case
  proof (cases "starts_with p (c # s)")
    case True
    with Cons.prems have "i = 0" by (subst (asm) find_sub.simps) simp
    with True show ?thesis by (auto simp: starts_with_iff)
  next
    case False
    with Cons.prems obtain j where "find_sub p s = Some j" "i = Suc j"
      by (subst (asm) find_sub.simps) auto
    with Cons.IH [of j] obtain a b where "s = a @ p @ b" "length a = j" by auto
    with \<open>i = Suc j\<close> show ?thesis by (intro exI [of _ "c # a"] exI [of _ b]) auto
  qed
qed

lemma strip_fence_Some:
  assumes "strip_fence s = Some inner"
  shows "\<exists>language content. s = ''```'' @ language @ CHR 0x0A # content @ ''```'' \<and> inner = trim content \<and>
    (trim language = [] \<or> eq_ignore_ascii_case (trim language) ''json'')"
proof -
  from assms obtain body language content
    where body: "Option.bind (strip_prefix ''```'' s) (strip_suffix ''```'') = Some body"
      and cut: "split_once (CHR 0x0A) body = Some (language, content)"
      and lang: "trim language = [] \<or> eq_ignore_ascii_case (trim language) ''json''" "inner = trim content"
    by (auto simp: strip_fence_def split: option.splits if_splits)
  from body have "s = ''```'' @ body @ ''```''"
    by (auto simp: Option.bind_eq_Some_conv strip_prefix_Some_iff strip_suffix_Some_iff)
  moreover from cut have "body = language @ CHR 0x0A # content" by (simp add: split_once_Some_iff)
  ultimately show ?thesis
    using lang by (intro exI [of _ language] exI [of _ content]) auto
qed

text \<open>Unwrapping a model's output never replaces it by something else: the result is the output itself, or a JSON
  object inside it that runs to its end. What is dropped before that object is either the opening of a code
  fence around it, or at most 1000 characters of text that do not begin with a brace and hold no JSON
  object's beginning.\<close>

theorem unwrap_document_keeps:
  "unwrap_document cx whole = whole \<or>
   reads_object cx (unwrap_document cx whole) \<and>
     ((\<exists>language content. trim whole = ''```'' @ language @ CHR 0x0A # content @ ''```'' \<and>
         unwrap_document cx whole = trim content) \<or>
      (\<exists>before_it. trim whole = before_it @ unwrap_document cx whole \<and>
         length (chars_of before_it) \<le> 1000 \<and> \<not> starts_with [CHR 0x7B] (trim whole) \<and>
         \<not> contains_sub [CHR 0x7B, CHR 0x22] before_it))"
proof -
  have drop: "drop_preamble cx whole t = whole \<or>
      reads_object cx (drop_preamble cx whole t) \<and>
      (\<exists>before_it. t = before_it @ drop_preamble cx whole t \<and> length (chars_of before_it) \<le> 1000 \<and>
         \<not> starts_with [CHR 0x7B] t \<and> \<not> contains_sub [CHR 0x7B, CHR 0x22] before_it)" for t
  proof (cases "find_sub [CHR 0x0A, CHR 0x7B] t")
    case (Some i)
    have "t = take (i + 1) t @ drop (i + 1) t" by simp
    then show ?thesis
      unfolding drop_preamble_def Some option.case Let_def max_preamble_chars_def
      by (cases "starts_with [CHR 0x7B] t \<or>
            (contains_sub [CHR 0x7B, CHR 0x22] (take (i + 1) t) \<or>
             contains_sub [CHR 0x7B, CHR 0x20, CHR 0x22] (take (i + 1) t)) \<or>
            1000 < length (chars_of (take (i + 1) t))";
          cases "reads_object cx (drop (i + 1) t)") auto
  qed (simp add: drop_preamble_def)
  show ?thesis
  proof (cases "strip_fence (trim whole)")
    case (Some inner)
    from strip_fence_Some [OF Some] drop [of "trim whole"] show ?thesis
      by (cases "reads_object cx inner") (auto simp: unwrap_document_def Some)
  qed (use drop [of "trim whole"] in \<open>auto simp: unwrap_document_def\<close>)
qed

end
