(* ===== verification/Native.thy ===== *)
theory Native
  imports Prose Protocol
begin

text \<open>
  \<open>dagos-openai/src/native.rs\<close>: native tool calling. The IR's tools become functions of the endpoint under
  names it accepts, streamed call parts are put together, and the result is one response document again.
\<close>

section \<open>Streamed calls\<close>

record raw_tool_call =
  raw_name :: string
  raw_arguments :: string

definition no_call :: raw_tool_call where
  "no_call = \<lparr>raw_name = [], raw_arguments = []\<rparr>"

fun json_as_u64 :: "json \<Rightarrow> nat option" where
  "json_as_u64 (JInt i) = (if 0 \<le> i \<and> i < 2 ^ 64 then Some (nat i) else None)"
| "json_as_u64 _ = None"

text \<open>\<open>pointer("/function/<key>").and_then(as_str)\<close>.\<close>

definition function_str :: "string \<Rightarrow> json \<Rightarrow> string option" where
  "function_str k part = Option.bind (Option.bind (json_get ''function'' part) (json_get k)) json_as_str"

definition push_part :: "json \<Rightarrow> raw_tool_call \<Rightarrow> raw_tool_call" where
  "push_part part call =
     \<lparr>raw_name = raw_name call @ (case function_str ''name'' part of Some n \<Rightarrow> n | None \<Rightarrow> []),
      raw_arguments = raw_arguments call @ (case function_str ''arguments'' part of Some a \<Rightarrow> a | None \<Rightarrow> [])\<rparr>"

definition accumulate :: "raw_tool_call list \<Rightarrow> json \<Rightarrow> raw_tool_call list" where
  "accumulate calls part =
     (let index = (case Option.bind (json_get ''index'' part) json_as_u64 of Some i \<Rightarrow> i | None \<Rightarrow> length calls);
          grown = calls @ replicate (index + 1 - length calls) no_call
      in grown[index := push_part part (grown ! index)])"

section \<open>Function names\<close>

definition name_byte :: "char \<Rightarrow> bool" where
  "name_byte b \<longleftrightarrow> is_ascii_alphanumeric b \<or> b = CHR ''_'' \<or> b = CHR ''-''"

definition name_char :: "string \<Rightarrow> char" where
  "name_char c =
     (case c of [b] \<Rightarrow> if name_byte b then b else CHR ''_''
      | _ \<Rightarrow> CHR ''_'')"

definition replace_dots :: "string \<Rightarrow> string" where
  "replace_dots s = concat (map (\<lambda>c. if c = CHR ''.'' then ''__'' else [c]) s)"

definition name_base :: "string \<Rightarrow> string" where
  "name_base s = take 60 (map name_char (chars_of (replace_dots s)))"

definition suffixed :: "string \<Rightarrow> nat \<Rightarrow> string" where
  "suffixed base n = (if n = 1 then base else base @ CHR ''_'' # show_nat n)"

text \<open>The loop that counts up until the name is free; \<open>fuel\<close> bounds it.\<close>

fun free_name :: "nat \<Rightarrow> string list \<Rightarrow> string \<Rightarrow> nat \<Rightarrow> string" where
  "free_name 0 taken base n = suffixed base n"
| "free_name (Suc fuel) taken base n =
     (if suffixed base n \<in> set taken then free_name fuel taken base (n + 1) else suffixed base n)"

definition add_function_name :: "(string, string) btree \<Rightarrow> ir_tool \<Rightarrow> (string, string) btree" where
  "add_function_name names t =
     bt_insert (free_name (length names) (map fst names) (name_base (it_name t)) 1) (it_name t) names"

definition function_names :: "inference_ir \<Rightarrow> (string, string) btree" where
  "function_names ir = foldl add_function_name [] (ii_tools ir)"

definition native_tool :: "string \<Rightarrow> ir_tool \<Rightarrow> json" where
  "native_tool f t =
     JObj [(''function'', JObj [(''description'', JStr (it_description t)), (''name'', JStr f),
        (''parameters'', JObj (if map_of (it_schema t) ''type'' = None
           then bt_insert ''type'' (JStr ''object'') (it_schema t) else it_schema t))]),
      (''type'', JStr ''function'')]"

definition native_tools :: "inference_ir \<Rightarrow> (string, string) btree \<Rightarrow> json list" where
  "native_tools ir names =
     List.map_filter (\<lambda>(f, name). map_option (native_tool f) (find (\<lambda>t. it_name t = name) (ii_tools ir))) names"

definition native_request_body ::
  "wire \<Rightarrow> model_id \<Rightarrow> inference_ir \<Rightarrow> bool \<Rightarrow> json \<times> (string, string) btree" where
  "native_request_body wr m ir json_mode =
     (let names = function_names ir
      in (with_json_mode json_mode
            [(''messages'', JArr [chat_message ''system'' (system_message wr ir @ native_tools_text),
                chat_message ''user'' (user_message wr (ir\<lparr>ii_tools := []\<rparr>))]),
             (''model'', JStr (model_str m)), (''stream'', JBool True), (''tool_choice'', JStr ''auto''),
             (''tools'', JArr (native_tools ir names))], names))"

section \<open>The response document\<close>

fun native_calls :: "codec \<Rightarrow> (string, string) btree \<Rightarrow> raw_tool_call list \<Rightarrow> string + json list" where
  "native_calls cx names [] = Inr []"
| "native_calls cx names (c # cs) =
     (let name = (case map_of names (raw_name c) of Some n \<Rightarrow> n | None \<Rightarrow> raw_name c);
          raw = (if trim (raw_arguments c) = [] then ''{}'' else raw_arguments c)
      in case json_read cx raw of
           Inr (JObj arguments) \<Rightarrow>
             (case native_calls cx names cs of
                Inl e \<Rightarrow> Inl e
              | Inr js \<Rightarrow> Inr (JObj [(''arguments'', JObj arguments), (''name'', JStr name)] # js))
         | _ \<Rightarrow> Inl (''the arguments of the native tool call `'' @ name @ ''` are not a JSON object: '' @ raw))"

definition document_with_calls :: "codec \<Rightarrow> string \<Rightarrow> json list \<Rightarrow> json" where
  "document_with_calls cx content calls =
     (let plain = JObj [(''emissions'', JArr []), (''presentation'', JObj [(''prose'', JStr (trim content))]),
            (''schema'', JStr ''kiss.inference-response.v1''), (''tool_calls'', JArr calls)]
      in case json_read cx (unwrap_document cx content) of
           Inr (JObj document) \<Rightarrow>
             if map_of document ''presentation'' \<noteq> None
             then JObj (bt_insert ''tool_calls''
               (JArr ((case Option.bind (map_of document ''tool_calls'') json_as_array of
                         Some existing \<Rightarrow> existing | None \<Rightarrow> []) @ calls)) document)
             else plain
         | _ \<Rightarrow> plain)"

definition native_document ::
  "codec \<Rightarrow> string \<Rightarrow> raw_tool_call list \<Rightarrow> (string, string) btree \<Rightarrow> string + string" where
  "native_document cx content calls names =
     (let named_calls = filter (\<lambda>c. raw_name c \<noteq> []) calls
      in if named_calls = [] then Inr (unwrap_document cx content)
         else case native_calls cx names named_calls of
           Inl e \<Rightarrow> Inl e
         | Inr js \<Rightarrow> Inr (json_text cx (document_with_calls cx content js)))"

definition refuses_tools :: "string \<Rightarrow> bool" where
  "refuses_tools e =
     (let lower = to_ascii_lowercase e
      in list_ex (\<lambda>code. contains_sub code lower) [''http 400'', ''http 404'', ''http 422''] \<and>
         (contains_sub ''tool'' lower \<or> contains_sub ''function'' lower))"

section \<open>Streamed prose\<close>

record native_prose =
  np_json :: "extractor option"
  np_decided :: bool
  np_at_line_start :: bool

definition new_native_prose :: native_prose where
  "new_native_prose = \<lparr>np_json = None, np_decided = False, np_at_line_start = False\<rparr>"

definition native_char :: "string \<Rightarrow> native_prose \<Rightarrow> string \<times> native_prose" where
  "native_char c x =
     (case np_json x of
        Some e \<Rightarrow> (let (p, e') = prose_push c e in (p, x\<lparr>np_json := Some e'\<rparr>))
      | None \<Rightarrow>
          if c = ''{'' \<and> (\<not> np_decided x \<or> np_at_line_start x)
          then (let (p, e') = prose_push ''{'' new_extractor in (p, x\<lparr>np_json := Some e'\<rparr>))
          else
            (let decided = (np_decided x \<or> \<not> is_whitespace c)
             in (if decided then c else [],
                 x\<lparr>np_decided := decided,
                   np_at_line_start := (if c = [CHR 0x0A] then True
                     else if \<not> is_whitespace c then False else np_at_line_start x)\<rparr>)))"

fun native_chars :: "string list \<Rightarrow> native_prose \<Rightarrow> string \<times> native_prose" where
  "native_chars [] x = ([], x)"
| "native_chars (c # cs) x =
     (case native_char c x of (p, y) \<Rightarrow> (case native_chars cs y of (q, z) \<Rightarrow> (p @ q, z)))"

definition native_push :: "string \<Rightarrow> native_prose \<Rightarrow> string \<times> native_prose" where
  "native_push chunk x = native_chars (chars_of chunk) x"

section \<open>Names are accepted and lead back\<close>

definition provider_name :: "string \<Rightarrow> bool" where
  "provider_name s \<longleftrightarrow> s \<noteq> [] \<and> length s \<le> 64 \<and> list_all name_byte s"

lemma suffixed_inject: "suffixed base m = suffixed base n \<longleftrightarrow> m = n"
  using show_nat_pos by (auto simp: suffixed_def show_nat_inject)

text \<open>Counting up over more names than are taken finds a free one.\<close>

lemma free_name_free:
  assumes "card (set taken \<inter> suffixed base ` {n..}) \<le> fuel"
  shows "free_name fuel taken base n \<notin> set taken \<and>
    (\<exists>k. n \<le> k \<and> k \<le> n + fuel \<and> free_name fuel taken base n = suffixed base k)"
  using assms
proof (induction fuel arbitrary: n)
  case 0
  then have "set taken \<inter> suffixed base ` {n..} = {}" by simp
  then have "suffixed base n \<notin> set taken" by auto
  then show ?case by auto
next
  case (Suc fuel)
  show ?case
  proof (cases "suffixed base n \<in> set taken")
    case True
    have "set taken \<inter> suffixed base ` {n..} = insert (suffixed base n) (set taken \<inter> suffixed base ` {n + 1..})"
    proof -
      have "{n..} = insert n {n + 1..}" by auto
      then show ?thesis using True by auto
    qed
    moreover have "suffixed base n \<notin> suffixed base ` {n + 1..}"
      by (auto simp: suffixed_inject)
    ultimately have "card (set taken \<inter> suffixed base ` {n + 1..}) \<le> fuel"
      using Suc.prems by (simp add: card_insert_if)
    from Suc.IH [OF this] obtain k where "n + 1 \<le> k" "k \<le> n + 1 + fuel"
        "free_name fuel taken base (n + 1) = suffixed base k"
        "free_name fuel taken base (n + 1) \<notin> set taken" by auto
    then show ?thesis using True by (intro conjI exI [of _ k]) auto
  qed auto
qed

lemma free_name_function:
  "free_name (length names) (map fst names) base 1 \<notin> fst ` set names \<and>
   (\<exists>k. 1 \<le> k \<and> k \<le> length names + 1 \<and>
      free_name (length names) (map fst names) base 1 = suffixed base k)"
proof -
  have "card (set (map fst names) \<inter> suffixed base ` {1..}) \<le> card (set (map fst names))"
    by (intro card_mono) auto
  also have "\<dots> \<le> length names" by (metis card_length length_map)
  finally show ?thesis
    using free_name_free [of "map fst names" base 1 "length names"] by (auto simp: add.commute)
qed

lemma show_nat_length_le: "n < 10 ^ w \<Longrightarrow> 0 < w \<Longrightarrow> length (show_nat n) \<le> w"
  using pad0_fixed [of n w] by (metis length_append length_fixed le_add2 pad0_def)

lemma name_base_chars: "list_all name_byte (name_base s)"
proof -
  have "name_byte (name_char c)" for c
    by (auto simp: name_char_def name_byte_def split: list.split)
  then show ?thesis
    by (auto simp: name_base_def list_all_iff dest!: in_set_takeD)
qed

lemma provider_name_suffixed:
  assumes "name_base s \<noteq> []" and "k < 1000"
  shows "provider_name (suffixed (name_base s) k)"
proof -
  have "length (show_nat k) \<le> 3" using assms(2) by (intro show_nat_length_le) simp_all
  moreover have "length (name_base s) \<le> 60" by (simp add: name_base_def)
  moreover have "list_all name_byte (show_nat k)"
    using digits_show_nat [of k] by (auto simp: list_all_iff name_byte_def is_ascii_alphanumeric_def)
  moreover have "name_byte (CHR ''_'')" by (simp add: name_byte_def)
  ultimately show ?thesis
    using assms(1) name_base_chars [of s] by (simp add: provider_name_def suffixed_def)
qed

lemma name_base_nonempty: "s \<noteq> [] \<Longrightarrow> name_base s \<noteq> []"
  by (cases s) (auto simp: name_base_def replace_dots_def)

lemma length_bt_insert: "k \<notin> fst ` set m \<Longrightarrow> length (bt_insert k v m) = Suc (length m)"
  by (induction k v m rule: bt_insert.induct) auto

definition names_for :: "ir_tool list \<Rightarrow> (string, string) btree \<Rightarrow> bool" where
  "names_for ts names \<longleftrightarrow>
     bt_wf names \<and> length names = length ts \<and>
     (\<forall>t \<in> set ts. \<exists>f. map_of names f = Some (it_name t)) \<and>
     (\<forall>f n. map_of names f = Some n \<longrightarrow> n \<in> it_name ` set ts \<and> (n = [] \<or> provider_name f))"

lemma names_for_add:
  assumes "names_for ts names" and "length ts < 999"
  shows "names_for (ts @ [t]) (add_function_name names t)"
proof -
  let ?f = "free_name (length names) (map fst names) (name_base (it_name t)) 1"
  obtain k where k: "k \<le> length names + 1" "?f = suffixed (name_base (it_name t)) k"
    and fresh: "?f \<notin> fst ` set names"
    using free_name_function by blast
  have "map_of names ?f = None" using fresh by (auto simp: map_of_eq_None_iff)
  then have "f \<noteq> ?f" if "map_of names f = Some n" for f n
    using that by auto
  then have "\<exists>f. ((map_of names)(?f \<mapsto> it_name t)) f = Some (it_name u)" if "u \<in> set (ts @ [t])" for u
    using that assms(1) unfolding names_for_def set_append by (cases "u = t") (auto simp: fun_upd_def, metis)
  moreover have "it_name t = [] \<or> provider_name ?f"
    using k assms by (auto simp: names_for_def intro!: provider_name_suffixed name_base_nonempty)
  ultimately show ?thesis
    using assms(1) fresh
    unfolding names_for_def add_function_name_def
    by (simp add: btree.wf_insert map_of_bt_insert length_bt_insert)
qed

lemma names_for_function_names:
  "length ts \<le> 999 \<Longrightarrow> names_for ts (foldl add_function_name [] ts)"
proof (induction ts rule: rev_induct)
  case Nil
  show ?case by (simp add: names_for_def bt_wf_def)
next
  case (snoc t ts)
  then show ?case by (simp add: names_for_add)
qed

text \<open>Offered natively, every tool of the IR has a function name of its own: there are as many names as tools, each
  tool's IR name is what one of them leads back to, every name leads to a tool of the IR, and endpoints
  accept the names (letters, digits, underscores and dashes, at most 64 of them).\<close>

theorem function_names_resolve:
  assumes "length (ii_tools ir) \<le> 999" and "\<forall>t \<in> set (ii_tools ir). it_name t \<noteq> []"
  shows "distinct (map fst (function_names ir)) \<and> length (function_names ir) = length (ii_tools ir) \<and>
    (\<forall>t \<in> set (ii_tools ir). \<exists>f. map_of (function_names ir) f = Some (it_name t)) \<and>
    (\<forall>f n. map_of (function_names ir) f = Some n \<longrightarrow> n \<in> it_name ` set (ii_tools ir) \<and> provider_name f)"
  using names_for_function_names [OF assms(1)] assms(2)
  by (fastforce simp: function_names_def names_for_def bt_wf_def)

definition native_ir :: inference_ir where
  "native_ir =
     \<lparr>ii_prompt = [], ii_task = \<lparr>ik_node = Ident ''node_9'', ik_message = ''more''\<rparr>, ii_context = [],
      ii_recent = [],
      ii_tools = [\<lparr>it_name = ''ooda.exec'', it_description = [], it_schema = []\<rparr>,
        \<lparr>it_name = ''ooda__exec'', it_description = [], it_schema = []\<rparr>],
      ii_results = [], ii_recalled = [], ii_review = None\<rparr>"

lemma function_names_resolve_witness:
  "function_names native_ir = [(''ooda__exec'', ''ooda.exec''), (''ooda__exec_2'', ''ooda__exec'')] \<and>
   provider_name ''ooda__exec_2''"
proof -
  have names: "function_names native_ir = [(''ooda__exec'', ''ooda.exec''), (''ooda__exec_2'', ''ooda__exec'')]"
    by code_simp
  have "length (ii_tools native_ir) \<le> 999" "\<forall>t \<in> set (ii_tools native_ir). it_name t \<noteq> []"
    by code_simp+
  from function_names_resolve [OF this] names show ?thesis by simp
qed

end
