(* ===== verification/Sse.thy ===== *)
theory Sse
  imports Rust_Split
begin

text \<open>
  \<open>dagos-openai/src/sse.rs\<close>: the decoder of server-sent events. Bytes are kept until their line is
  complete, so it works on the byte stream; \<open>utf8_lossy\<close> is \<open>String::from_utf8_lossy\<close>.
\<close>

section \<open>Lossy UTF-8\<close>

definition replacement :: string where
  "replacement = [CHR 0xEF, CHR 0xBF, CHR 0xBD]"

definition byte_in :: "nat \<Rightarrow> nat \<Rightarrow> char \<Rightarrow> bool" where
  "byte_in lo hi c \<longleftrightarrow> lo \<le> of_char c \<and> of_char c \<le> hi"

text \<open>Which second bytes may follow the first byte of a three-byte or four-byte sequence.\<close>

definition second_of_three :: "char \<Rightarrow> char \<Rightarrow> bool" where
  "second_of_three b c \<longleftrightarrow>
     (if b = CHR 0xE0 then byte_in 160 191 c else if b = CHR 0xED then byte_in 128 159 c else continuation c)"

definition second_of_four :: "char \<Rightarrow> char \<Rightarrow> bool" where
  "second_of_four b c \<longleftrightarrow>
     (if b = CHR 0xF0 then byte_in 144 191 c else if b = CHR 0xF4 then byte_in 128 143 c else continuation c)"

text \<open>The longest run of accepted bytes of the sequence that \<open>b\<close> starts, and what follows it.\<close>

fun accept_bytes :: "(char \<Rightarrow> bool) list \<Rightarrow> string \<Rightarrow> bool \<times> string \<times> string" where
  "accept_bytes [] s = (True, [], s)"
| "accept_bytes (p # ps) [] = (False, [], [])"
| "accept_bytes (p # ps) (c # s) =
     (if p c then (case accept_bytes ps s of (ok, taken, rest) \<Rightarrow> (ok, c # taken, rest))
      else (False, [], c # s))"

definition tail_of :: "char \<Rightarrow> (char \<Rightarrow> bool) list option" where
  "tail_of b =
     (if byte_in 0 127 b then Some []
      else if byte_in 194 223 b then Some [continuation]
      else if byte_in 224 239 b then Some [second_of_three b, continuation]
      else if byte_in 240 244 b then Some [second_of_four b, continuation, continuation]
      else None)"

definition lossy_step :: "char \<Rightarrow> string \<Rightarrow> string \<times> string" where
  "lossy_step b s =
     (case tail_of b of
        None \<Rightarrow> (replacement, s)
      | Some ps \<Rightarrow>
          (case accept_bytes ps s of (ok, taken, rest) \<Rightarrow> (if ok then b # taken else replacement, rest)))"

lemma accept_bytes_length: "accept_bytes ps s = (ok, taken, rest) \<Longrightarrow> s = taken @ rest"
  by (induction ps s arbitrary: ok taken rest rule: accept_bytes.induct) (auto split: if_splits prod.splits)

lemma lossy_step_length: "length (snd (lossy_step b s)) \<le> length s"
  by (auto simp: lossy_step_def split: option.splits prod.splits dest!: accept_bytes_length)

function utf8_lossy :: "string \<Rightarrow> string" where
  "utf8_lossy [] = []"
| "utf8_lossy (b # s) = fst (lossy_step b s) @ utf8_lossy (snd (lossy_step b s))"
  by pat_completeness auto
termination
  by (relation "measure length") (auto simp: le_imp_less_Suc lossy_step_length)

section \<open>The decoder\<close>

text \<open>\<open>trim_end_matches(['\n', '\r'])\<close>.\<close>

definition trim_line_end :: "string \<Rightarrow> string" where
  "trim_line_end s = rev (dropWhile (\<lambda>c. c = CHR 0x0A \<or> c = CHR 0x0D) (rev s))"

definition line_payload :: "string \<Rightarrow> string option" where
  "line_payload line =
     (case strip_prefix ''data:'' (trim_line_end (utf8_lossy line)) of
        None \<Rightarrow> None
      | Some d \<Rightarrow> Some (case strip_prefix '' '' d of Some e \<Rightarrow> e | None \<Rightarrow> d))"

text \<open>The loop of \<open>push\<close>: the payloads of the complete lines of the pending bytes, and what stays pending.\<close>

function drain_lines :: "string \<Rightarrow> string list \<times> string" where
  "drain_lines pending =
     (case split_once (CHR 0x0A) pending of
        None \<Rightarrow> ([], pending)
      | Some (line, rest) \<Rightarrow>
          (case drain_lines rest of (payloads, left) \<Rightarrow>
             ((case line_payload (line @ [CHR 0x0A]) of None \<Rightarrow> [] | Some p \<Rightarrow> [p]) @ payloads, left)))"
  by pat_completeness auto
termination
  by (relation "measure length") (auto simp: split_once_Some_iff)

declare drain_lines.simps [simp del]

text \<open>\<open>SseDecoder::push\<close>; the state is the pending bytes.\<close>

definition sse_push :: "string \<Rightarrow> string \<Rightarrow> string list \<times> string" where
  "sse_push bytes pending = drain_lines (pending @ bytes)"

fun sse_feed :: "string list \<Rightarrow> string \<Rightarrow> string list \<times> string" where
  "sse_feed [] pending = ([], pending)"
| "sse_feed (b # bs) pending =
     (case sse_push b pending of (ps, left) \<Rightarrow>
        (case sse_feed bs left of (qs, kept) \<Rightarrow> (ps @ qs, kept)))"

section \<open>Chunks do not matter\<close>

lemma drain_no_newline: "CHR 0x0A \<notin> set s \<Longrightarrow> drain_lines s = ([], s)"
  by (subst drain_lines.simps) (auto simp: split_once_Some_iff split: option.split)

lemma drain_newline:
  "CHR 0x0A \<notin> set line \<Longrightarrow> drain_lines (line @ CHR 0x0A # rest) =
     ((case line_payload (line @ [CHR 0x0A]) of None \<Rightarrow> [] | Some p \<Rightarrow> [p]) @ fst (drain_lines rest),
      snd (drain_lines rest))"
  by (subst drain_lines.simps) (simp split: prod.split)

lemma newline_cases:
  obtains "CHR 0x0A \<notin> set s" | line rest where "s = line @ CHR 0x0A # rest" "CHR 0x0A \<notin> set line"
  by (metis split_list_first)

text \<open>What is left pending never holds a complete line.\<close>

lemma drained_free: "CHR 0x0A \<notin> set (snd (drain_lines s))"
proof (induction "length s" arbitrary: s rule: less_induct)
  case less
  show ?case
  proof (cases rule: newline_cases [of s])
    case 1
    then show ?thesis by (simp add: drain_no_newline)
  next
    case (2 line rest)
    with less [of rest] show ?thesis by (simp add: drain_newline)
  qed
qed

lemma drain_append:
  "drain_lines (s @ t) =
     (fst (drain_lines s) @ fst (drain_lines (snd (drain_lines s) @ t)), snd (drain_lines (snd (drain_lines s) @ t)))"
proof (induction "length s" arbitrary: s rule: less_induct)
  case less
  show ?case
  proof (cases rule: newline_cases [of s])
    case 1
    then show ?thesis by (simp add: drain_no_newline)
  next
    case (2 line rest)
    with less [of rest] show ?thesis by (simp add: drain_newline)
  qed
qed

lemma sse_feed_drain:
  "CHR 0x0A \<notin> set p \<Longrightarrow>
     sse_feed chunks p = (fst (drain_lines (p @ concat chunks)), snd (drain_lines (p @ concat chunks)))"
proof (induction chunks arbitrary: p)
  case Nil
  then show ?case by (simp add: drain_no_newline)
next
  case (Cons b bs)
  have "sse_feed bs (snd (drain_lines (p @ b))) =
      (fst (drain_lines (snd (drain_lines (p @ b)) @ concat bs)),
       snd (drain_lines (snd (drain_lines (p @ b)) @ concat bs)))"
    by (rule Cons.IH) (rule drained_free)
  then show ?case
    using drain_append [of "p @ b" "concat bs"]
    by (simp add: sse_push_def split: prod.split) (metis fst_conv snd_conv)
qed

text \<open>The payloads do not depend on how the stream is cut into chunks, not even inside a line or a
  character: feeding the chunks one after another gives what one push of all the bytes gives, and keeps the same
  incomplete line for later.\<close>

theorem sse_chunks_irrelevant: "sse_feed chunks [] = sse_push (concat chunks) []"
  by (simp add: sse_feed_drain sse_push_def)

text \<open>Payloads of whole lines.\<close>

lemma valid_ascii_lossy: "list_all (byte_in 0 127) s \<Longrightarrow> utf8_lossy s = s"
  by (induction s) (simp_all add: lossy_step_def tail_of_def)

end
