(* ===== verification/Endpoint.thy ===== *)
theory Endpoint
  imports Native Sse Runtime_State
begin

text \<open>
  \<open>dagos-openai/src/lib.rs\<close>: an inference provider and two Jevs over an OpenAI-compatible endpoint. HTTP is
  a parameter: \<open>http\<close> gives the reply to a request from the requests sent before, so an endpoint may
  behave in any way. The endpoint's own state is the models that refused native tools and the
  context windows, once fetched.
\<close>

section \<open>Connection\<close>

record endpoint_config =
  oc_id :: provider_id
  oc_base_url :: string
  oc_api_key :: "string option"
  oc_models :: "model_id list"
  oc_json_mode :: bool
  oc_native_tools :: bool
  oc_model_windows :: bool

text \<open>\<open>hq_body\<close> is \<open>None\<close> for a GET request. A reply's \<open>hr_chunks\<close> are its body as it arrives, an error where
  the stream breaks; \<open>hr_body\<close> is what \<open>text()\<close> gives (nothing on an error).\<close>

record http_request =
  hq_url :: string
  hq_body :: "string option"
  hq_bearer :: "string option"

record http_response =
  hr_status :: string
  hr_success :: bool
  hr_body :: string
  hr_chunks :: "(string + string) list"

type_synonym http = "http_request list \<Rightarrow> http_request \<Rightarrow> string + http_response"

record chat_endpoint =
  ep_config :: endpoint_config
  ep_refused :: "string list"
  ep_windows :: "(string, nat) btree option"
  ep_sent :: "http_request list"

type_synonym 'a on_endpoint = "(chat_endpoint, string, 'a) eff"

text \<open>\<open>OpenAiCompatible::new\<close>.\<close>

definition new_endpoint :: "endpoint_config \<Rightarrow> chat_endpoint" where
  "new_endpoint c = \<lparr>ep_config = c, ep_refused = [], ep_windows = None, ep_sent = []\<rparr>"

text \<open>\<open>trim_end_matches('/')\<close> and \<open>trim_start_matches('~')\<close>.\<close>

definition trim_end_byte :: "char \<Rightarrow> string \<Rightarrow> string" where
  "trim_end_byte c s = rev (dropWhile (\<lambda>b. b = c) (rev s))"

definition trim_start_byte :: "char \<Rightarrow> string \<Rightarrow> string" where
  "trim_start_byte c s = dropWhile (\<lambda>b. b = c) s"

definition endpoint_url :: "endpoint_config \<Rightarrow> string \<Rightarrow> string" where
  "endpoint_url c path = trim_end_byte (CHR ''/'') (oc_base_url c) @ path"

text \<open>At most the first 500 characters of an error body.\<close>

definition excerpt :: "string \<Rightarrow> string" where
  "excerpt body = take_chars 500 body"

definition detail_text :: "string \<Rightarrow> string" where
  "detail_text body = (let b = excerpt (trim body) in if b = [] then [] else '': '' @ b)"

definition send_http :: "http \<Rightarrow> string \<Rightarrow> string option \<Rightarrow> http_response on_endpoint" where
  "send_http http url body =
     (\<lambda>e. (let q = \<lparr>hq_url = url, hq_body = body, hq_bearer = oc_api_key (ep_config e)\<rparr>
           in (case http (ep_sent e) q of
                 Inl error \<Rightarrow> Inl (''request to '' @ url @ '' failed: '' @ error)
               | Inr reply \<Rightarrow> Inr reply,
               e\<lparr>ep_sent := ep_sent e @ [q]\<rparr>)))"

definition send_json :: "codec \<Rightarrow> http \<Rightarrow> string \<Rightarrow> string option \<Rightarrow> json on_endpoint" where
  "send_json cx http url body =
     andthen (send_http http url body) (\<lambda>reply.
       if \<not> hr_success reply
       then throw (''HTTP '' @ hr_status reply @ '' from '' @ url @ detail_text (hr_body reply))
       else case json_read cx (hr_body reply) of
         Inl error \<Rightarrow> throw (''unreadable answer from '' @ url @ '': '' @ error)
       | Inr v \<Rightarrow> ret v)"

definition get_json :: "codec \<Rightarrow> http \<Rightarrow> endpoint_config \<Rightarrow> string \<Rightarrow> json on_endpoint" where
  "get_json cx http c path = send_json cx http (endpoint_url c path) None"

definition listed :: "json \<Rightarrow> json list" where
  "listed models = (case Option.bind (json_get ''data'' models) json_as_array of Some xs \<Rightarrow> xs | None \<Rightarrow> [])"

text \<open>\<open>check\<close>: sorted and without repetitions.\<close>

definition check_endpoint :: "codec \<Rightarrow> http \<Rightarrow> string option \<Rightarrow> string list on_endpoint" where
  "check_endpoint cx http key_check =
     andthen (look ep_config) (\<lambda>c.
     andthen (case key_check of
        None \<Rightarrow> ret ()
      | Some path \<Rightarrow> andthen (get_json cx http c path) (\<lambda>_. ret ())) (\<lambda>_.
     andthen (get_json cx http c ''/models'') (\<lambda>models.
       ret (remdups_adj (sort (List.map_filter (\<lambda>m. Option.bind (json_get ''id'' m) json_as_str) (listed models)))))))"

section \<open>Streams\<close>

text \<open>\<open>Value::pointer\<close>, over its tokens.\<close>

definition index_token :: "string \<Rightarrow> nat option" where
  "index_token s =
     (if s \<noteq> [] \<and> list_all is_ascii_digit s \<and> (hd s \<noteq> CHR ''0'' \<or> length s = 1) then Some (parse_dec s) else None)"

fun json_pointer :: "string list \<Rightarrow> json \<Rightarrow> json option" where
  "json_pointer [] v = Some v"
| "json_pointer (t # ts) (JObj m) = (case map_of m t of Some v \<Rightarrow> json_pointer ts v | None \<Rightarrow> None)"
| "json_pointer (t # ts) (JArr xs) =
     (case index_token t of
        Some i \<Rightarrow> if i < length xs then json_pointer ts (xs ! i) else None
      | None \<Rightarrow> None)"
| "json_pointer (t # ts) _ = None"

text \<open>The completion so far, with the content fragments handed to \<open>on_content\<close>.\<close>

record completion =
  cp_content :: string
  cp_calls :: "raw_tool_call list"
  cp_parts :: "string list"

definition no_completion :: completion where
  "no_completion = \<lparr>cp_content = [], cp_calls = [], cp_parts = []\<rparr>"

datatype stream_state = Streaming | Stream_Done | Stream_Failed string

definition apply_delta :: "json \<Rightarrow> completion \<Rightarrow> completion" where
  "apply_delta event cp =
     (let cp1 = (case Option.bind (json_pointer [''choices'', ''0'', ''delta'', ''content''] event) json_as_str of
           Some content \<Rightarrow> cp\<lparr>cp_content := cp_content cp @ content, cp_parts := cp_parts cp @ [content]\<rparr>
         | None \<Rightarrow> cp);
          parts = (case Option.bind (json_pointer [''choices'', ''0'', ''delta'', ''tool_calls''] event) json_as_array of
           Some xs \<Rightarrow> xs | None \<Rightarrow> [])
      in cp1\<lparr>cp_calls := foldl accumulate (cp_calls cp1) parts\<rparr>)"

definition on_payload :: "codec \<Rightarrow> string \<Rightarrow> completion \<Rightarrow> stream_state \<times> completion" where
  "on_payload cx payload cp =
     (if payload = ''[DONE]'' then (Stream_Done, cp)
      else case json_read cx payload of
        Inl error \<Rightarrow> (Stream_Failed (''unreadable stream event: '' @ error), cp)
      | Inr event \<Rightarrow>
          (case json_get ''error'' event of
             Some error \<Rightarrow> (Stream_Failed (''endpoint reported an error: '' @ json_text cx error), cp)
           | None \<Rightarrow> (Streaming, apply_delta event cp)))"

fun on_payloads :: "codec \<Rightarrow> string list \<Rightarrow> completion \<Rightarrow> stream_state \<times> completion" where
  "on_payloads cx [] cp = (Streaming, cp)"
| "on_payloads cx (p # ps) cp =
     (case on_payload cx p cp of
        (Streaming, cp') \<Rightarrow> on_payloads cx ps cp'
      | stopped \<Rightarrow> stopped)"

text \<open>The loop over the chunks, with the bytes that the decoder holds.\<close>

fun on_chunks :: "codec \<Rightarrow> (string + string) list \<Rightarrow> string \<Rightarrow> completion \<Rightarrow> stream_state \<times> completion" where
  "on_chunks cx [] pending cp = (Stream_Done, cp)"
| "on_chunks cx (Inl error # chunks) pending cp = (Stream_Failed (''stream interrupted: '' @ error), cp)"
| "on_chunks cx (Inr bytes # chunks) pending cp =
     (case sse_push bytes pending of
        (payloads, left) \<Rightarrow>
          (case on_payloads cx payloads cp of
             (Streaming, cp') \<Rightarrow> on_chunks cx chunks left cp'
           | stopped \<Rightarrow> stopped))"

text \<open>\<open>stream_completion\<close>. The fragments are there also when it fails, because the caller has been given them.\<close>

definition stream_completion :: "codec \<Rightarrow> http \<Rightarrow> json \<Rightarrow> ((string + completion) \<times> string list) on_endpoint" where
  "stream_completion cx http body =
     (\<lambda>e. (let url = endpoint_url (ep_config e) ''/chat/completions''
           in case send_http http url (Some (json_text cx body)) e of
                (Inl error, e') \<Rightarrow> (Inr (Inl error, []), e')
              | (Inr reply, e') \<Rightarrow>
                  (Inr (if \<not> hr_success reply
                    then (Inl (''HTTP '' @ hr_status reply @ '' from '' @ url @ detail_text (hr_body reply)), [])
                    else case on_chunks cx (hr_chunks reply) [] no_completion of
                      (Stream_Failed error, cp) \<Rightarrow> (Inl error, cp_parts cp)
                    | (_, cp) \<Rightarrow> (Inr cp, cp_parts cp)), e')))"

section \<open>Inference\<close>

text \<open>What is passed on of the fragments; empty pieces are not.\<close>

fun prose_deltas :: "string list \<Rightarrow> extractor \<Rightarrow> string list" where
  "prose_deltas [] x = []"
| "prose_deltas (c # cs) x =
     (case prose_push c x of (t, y) \<Rightarrow> (if t = [] then [] else [t]) @ prose_deltas cs y)"

fun native_deltas :: "string list \<Rightarrow> native_prose \<Rightarrow> string list" where
  "native_deltas [] x = []"
| "native_deltas (c # cs) x =
     (case native_push c x of (t, y) \<Rightarrow> (if t = [] then [] else [t]) @ native_deltas cs y)"

definition remember_refusal :: "model_id \<Rightarrow> chat_endpoint \<Rightarrow> chat_endpoint" where
  "remember_refusal m e =
     e\<lparr>ep_refused := (if model_str m \<in> set (ep_refused e) then ep_refused e else model_str m # ep_refused e)\<rparr>"

definition offers_native :: "chat_endpoint \<Rightarrow> model_id \<Rightarrow> inference_ir \<Rightarrow> bool" where
  "offers_native e m ir \<longleftrightarrow>
     oc_native_tools (ep_config e) \<and> ii_tools ir \<noteq> [] \<and> model_str m \<notin> set (ep_refused e)"

text \<open>The deltas given to the sink, and the outcome.\<close>

definition infer_json ::
  "wire \<Rightarrow> http \<Rightarrow> model_id \<Rightarrow> inference_ir \<Rightarrow> (string list \<times> (provider_error + string)) on_endpoint" where
  "infer_json wr http m ir =
     andthen (look ep_config) (\<lambda>c.
     andthen (stream_completion (wr_codec wr) http (request_body wr m ir (oc_json_mode c))) (\<lambda>(outcome, parts).
       ret (prose_deltas parts new_extractor,
         case outcome of
           Inl error \<Rightarrow> Inl (Request_Failed error)
         | Inr cp \<Rightarrow> Inr (unwrap_document (wr_codec wr) (cp_content cp)))))"

definition endpoint_infer ::
  "wire \<Rightarrow> http \<Rightarrow> model_id \<Rightarrow> inference_ir \<Rightarrow> (string list \<times> (provider_error + string)) on_endpoint" where
  "endpoint_infer wr http m ir =
     andthen (look id) (\<lambda>e.
       if offers_native e m ir
       then (case native_request_body wr m ir (oc_json_mode (ep_config e)) of (body, names) \<Rightarrow>
         andthen (stream_completion (wr_codec wr) http body) (\<lambda>(outcome, parts).
           (let shown = native_deltas parts new_native_prose
            in case outcome of
                 Inr cp \<Rightarrow>
                   ret (shown, map_sum Request_Failed id
                     (native_document (wr_codec wr) (cp_content cp) (cp_calls cp) names))
               | Inl error \<Rightarrow>
                   if refuses_tools error
                   then andthen (update (remember_refusal m)) (\<lambda>_.
                     andthen (infer_json wr http m ir) (\<lambda>(more, result). ret (shown @ more, result)))
                   else ret (shown, Inl (Request_Failed error)))))
       else infer_json wr http m ir)"

section \<open>Context windows\<close>

definition model_window :: "json \<Rightarrow> (string \<times> nat) option" where
  "model_window m =
     Option.bind (Option.bind (json_get ''id'' m) json_as_str) (\<lambda>i.
       map_option (\<lambda>w. (i, w))
         (Option.bind
           (case json_get ''context_length'' m of
              Some v \<Rightarrow> Some v
            | None \<Rightarrow> json_pointer [''top_provider'', ''context_length''] m) json_as_u64))"

text \<open>\<open>context_window\<close>; the list is fetched once, and a failure counts as an empty one.\<close>

definition fetch_windows :: "codec \<Rightarrow> http \<Rightarrow> (string, nat) btree on_endpoint" where
  "fetch_windows cx http =
     (\<lambda>e. case ep_windows e of
        Some ws \<Rightarrow> (Inr ws, e)
      | None \<Rightarrow>
          (case get_json cx http (ep_config e) ''/models'' e of (outcome, e') \<Rightarrow>
             (let models = (case outcome of Inr v \<Rightarrow> v | Inl _ \<Rightarrow> JNull);
                  ws = bt_of_list (List.map_filter model_window (listed models))
              in (Inr ws, e'\<lparr>ep_windows := Some ws\<rparr>))))"

definition context_window :: "codec \<Rightarrow> http \<Rightarrow> model_id \<Rightarrow> nat option on_endpoint" where
  "context_window cx http m =
     andthen (look ep_config) (\<lambda>c.
       if \<not> oc_model_windows c then ret None
       else andthen (fetch_windows cx http) (\<lambda>ws.
         ret (case map_of ws (trim_start_byte (CHR ''~'') (model_str m)) of
                Some w \<Rightarrow> Some w
              | None \<Rightarrow> map_of ws (model_str m))))"

section \<open>Jevs\<close>

definition jev_id :: "endpoint_config \<Rightarrow> model_id \<Rightarrow> string" where
  "jev_id c m = provider_str (oc_id c) @ ''-jev:'' @ model_str m"

definition chat_classify :: "wire \<Rightarrow> http \<Rightarrow> model_id \<Rightarrow> jev_request \<Rightarrow> (jev_error + string) on_endpoint" where
  "chat_classify wr http m request =
     andthen (look ep_config) (\<lambda>c.
     andthen (stream_completion (wr_codec wr) http (jev_request_body wr m request (oc_json_mode c))) (\<lambda>(outcome, _).
       ret (case outcome of Inl error \<Rightarrow> Inl (Jev_Error error) | Inr cp \<Rightarrow> Inr (cp_content cp))))"

definition is_decisions_model :: "model_id \<Rightarrow> bool" where
  "is_decisions_model m \<longleftrightarrow> starts_with ''typesafe/'' (trim_start_byte (CHR ''~'') (model_str m))"

definition decisions_url :: "string \<Rightarrow> string" where
  "decisions_url base_url =
     (let base = trim_end_byte (CHR ''/'') base_url
      in (case strip_suffix ''/v1'' base of Some b \<Rightarrow> b | None \<Rightarrow> base) @ ''/alpha/decisions'')"

text \<open>\<open>decide_raw\<close>, with the error as the Jev's.\<close>

definition decide_raw :: "wire \<Rightarrow> http \<Rightarrow> json \<Rightarrow> (jev_error + json) on_endpoint" where
  "decide_raw wr http body =
     (\<lambda>e. case send_json (wr_codec wr) http (decisions_url (oc_base_url (ep_config e))) (Some (json_text (wr_codec wr) body)) e of
        (Inl error, e') \<Rightarrow> (Inr (Inl (Jev_Error error)), e')
      | (Inr v, e') \<Rightarrow> (Inr (Inr v), e'))"

definition decisions_classify :: "wire \<Rightarrow> http \<Rightarrow> model_id \<Rightarrow> jev_request \<Rightarrow> (jev_error + string) on_endpoint" where
  "decisions_classify wr http m request =
     (if jr_candidates request = [] \<and> jr_tools request = []
      then ret (map_sum Jev_Error id (classification_from_decisions wr request (JObj [(''answers'', JObj [])])))
      else andthen (decide_raw wr http (decisions_body wr m request)) (\<lambda>answer.
        ret (case answer of
               Inl error \<Rightarrow> Inl error
             | Inr response \<Rightarrow> map_sum Jev_Error id (classification_from_decisions wr request response))))"

definition decisions_decide ::
  "wire \<Rightarrow> http \<Rightarrow> model_id \<Rightarrow> json \<Rightarrow> noul_question list \<Rightarrow> (jev_error + f64 list option) on_endpoint" where
  "decisions_decide wr http m state questions =
     (if questions = [] then ret (Inr (Some []))
      else andthen (decide_raw wr http (noul_body m state questions)) (\<lambda>answer.
        ret (case answer of
               Inl error \<Rightarrow> Inl error
             | Inr response \<Rightarrow> map_sum Jev_Error Some (noul_answers (wr_codec wr) questions response))))"

text \<open>\<open>relevance\<close>: every batch is asked at once; \<open>order\<close> is the order in which the answers come, as indices of
  the batches, and \<open>asking index body\<close> what \<open>decide_raw\<close> gives for that batch.\<close>

definition batch_scores :: "wire \<Rightarrow> (nat \<Rightarrow> json \<Rightarrow> jev_error + json) \<Rightarrow> model_id \<Rightarrow> string \<Rightarrow> nat \<Rightarrow> recall_chunk list \<Rightarrow> jev_error + f64 list" where
  "batch_scores wr asking m query_text index batch =
     (case asking index (recall_body m query_text batch) of
        Inl error \<Rightarrow> Inl error
      | Inr response \<Rightarrow> map_sum Jev_Error id (relevance_from_decisions (wr_codec wr) batch response))"

fun join_batches :: "(nat \<Rightarrow> jev_error + f64 list) \<Rightarrow> nat list \<Rightarrow> (nat \<times> f64 list) list \<Rightarrow> jev_error + (nat \<times> f64 list) list" where
  "join_batches scores [] done_batches = Inr done_batches"
| "join_batches scores (i # order) done_batches =
     (case scores i of
        Inl error \<Rightarrow> Inl error
      | Inr s \<Rightarrow> join_batches scores order (done_batches @ [(i, s)]))"

definition decisions_relevance ::
  "wire \<Rightarrow> (nat \<Rightarrow> json \<Rightarrow> jev_error + json) \<Rightarrow> (nat list \<Rightarrow> nat list) \<Rightarrow> model_id \<Rightarrow> string \<Rightarrow> recall_chunk list \<Rightarrow> jev_error + f64 list option" where
  "decisions_relevance wr asking order m query_text chunks =
     (let batches = recall_batches chunks
      in map_sum id (\<lambda>bs. Some (concat (map snd (sort_key fst bs))))
           (join_batches (\<lambda>i. batch_scores wr asking m query_text i (batches ! i)) (order [0..<length batches]) []))"

end
