(* ===== verification/Endpoint_Behaviour.thy ===== *)
theory Endpoint_Behaviour
  imports Endpoint Prose_Stream "HOL-Library.Multiset"
begin

text \<open>
  What the adapter does whatever the endpoint answers: the outcome of an inference does not depend on how the
  answer's bytes arrive; what is streamed and what is returned come from the same text; a model that
  refused native tools is asked in JSON from then on; recall's scores come in the order of the chunks.
\<close>

section \<open>Bytes\<close>

lemma on_payloads_append:
  "on_payloads cx (ps @ qs) cp =
     (case on_payloads cx ps cp of (Streaming, cp') \<Rightarrow> on_payloads cx qs cp' | stopped \<Rightarrow> stopped)"
  by (induction ps arbitrary: cp) (auto split: prod.split stream_state.split)

lemma on_chunks_bytes:
  "on_chunks cx (map Inr bs) pending cp =
     (case on_payloads cx (fst (sse_feed bs pending)) cp of (Streaming, cp') \<Rightarrow> (Stream_Done, cp') | stopped \<Rightarrow> stopped)"
proof (induction bs arbitrary: pending cp)
  case (Cons b bs)
  obtain ps left where p: "sse_push b pending = (ps, left)" by force
  obtain qs kept where q: "sse_feed bs left = (qs, kept)" by force
  obtain st cp' where o: "on_payloads cx ps cp = (st, cp')" by force
  show ?case
    using Cons.IH [of left cp'] by (cases st) (simp_all add: p q o on_payloads_append)
qed simp

definition same_bytes :: "http_response \<Rightarrow> http_response \<Rightarrow> bool" where
  "same_bytes r q \<longleftrightarrow>
     hr_status r = hr_status q \<and> hr_success r = hr_success q \<and> hr_body r = hr_body q \<and>
     (\<exists>bs cs. hr_chunks r = map Inr bs \<and> hr_chunks q = map Inr cs \<and> concat bs = concat cs)"

lemma same_bytes_chunks:
  assumes "same_bytes r q"
  shows "on_chunks cx (hr_chunks r) [] cp = on_chunks cx (hr_chunks q) [] cp"
  using assms by (auto simp: same_bytes_def on_chunks_bytes sse_feed_drain)

text \<open>Two servers that answer with the same bytes, cut differently.\<close>

definition same_answers :: "http \<Rightarrow> http \<Rightarrow> bool" where
  "same_answers http other \<longleftrightarrow>
     (\<forall>sent q. case (http sent q, other sent q) of
        (Inl e, Inl f) \<Rightarrow> e = f
      | (Inr r, Inr s) \<Rightarrow> same_bytes r s
      | _ \<Rightarrow> False)"

lemma same_answers_stream:
  assumes "same_answers http other"
  shows "stream_completion cx http body e = stream_completion cx other body e"
proof -
  let ?q = "\<lparr>hq_url = endpoint_url (ep_config e) ''/chat/completions'', hq_body = Some (json_text cx body),
    hq_bearer = oc_api_key (ep_config e)\<rparr>"
  have s: "case (http (ep_sent e) ?q, other (ep_sent e) ?q) of
      (Inl e, Inl f) \<Rightarrow> e = f | (Inr r, Inr s) \<Rightarrow> same_bytes r s | _ \<Rightarrow> False"
    using assms by (simp add: same_answers_def)
  show ?thesis
  proof (cases "http (ep_sent e) ?q")
    case (Inl error)
    then have "other (ep_sent e) ?q = Inl error" using s by (auto split: sum.splits)
    then show ?thesis using Inl by (simp add: stream_completion_def send_http_def Let_def)
  next
    case (Inr r)
    then obtain r' where r': "other (ep_sent e) ?q = Inr r'" "same_bytes r r'"
      using s by (auto split: sum.splits)
    then have "hr_success r = hr_success r'" "hr_status r = hr_status r'" "hr_body r = hr_body r'"
      by (simp_all add: same_bytes_def)
    then show ?thesis
      using Inr r' same_bytes_chunks [OF r'(2), of cx no_completion]
      by (simp add: stream_completion_def send_http_def Let_def)
  qed
qed

text \<open>A server that streams one document, whole and byte by byte.\<close>

definition delta_event :: "string \<Rightarrow> json" where
  "delta_event content =
     JObj [(''choices'', JArr [JObj [(''delta'', JObj [(''content'', JStr content)])]])]"

definition demo_content :: string where
  "demo_content = concat (json_chars (\<lambda>f. []) (JObj demo_document))"

definition demo_wire :: wire where
  "demo_wire =
     \<lparr>wr_codec = demo_codec\<lparr>json_read := (\<lambda>s. if s = ''all'' then Inr (delta_event demo_content) else Inl ''not JSON'')\<rparr>,
      wr_schema = (\<lambda>c. []), wr_request_text = (\<lambda>r. []), wr_candidate = (\<lambda>c. JNull), wr_edge = (\<lambda>e. JNull),
      wr_tool = (\<lambda>t. JNull)\<rparr>"

definition streamed_reply :: "string list \<Rightarrow> http_response" where
  "streamed_reply pieces =
     \<lparr>hr_status = ''200 OK'', hr_success = True, hr_body = [], hr_chunks = map Inr pieces\<rparr>"

definition demo_stream :: string where
  "demo_stream = ''data: all\<newline>\<newline>data: [DONE]\<newline>\<newline>''"

definition whole_http :: http where
  "whole_http sent q = Inr (streamed_reply [demo_stream])"

definition split_http :: http where
  "split_http sent q = Inr (streamed_reply (map (\<lambda>b. [b]) demo_stream))"

definition demo_endpoint :: chat_endpoint where
  "demo_endpoint = new_endpoint
     \<lparr>oc_id = Provider_Id ''demo'', oc_base_url = ''http://host/v1/'', oc_api_key = None, oc_models = [],
      oc_json_mode = False, oc_native_tools = False, oc_model_windows = False\<rparr>"

text \<open>C22. How the bytes of an answer arrive does not matter: with two servers that give the same answers to
  the same requests and differ only in how they cut the body into chunks (even inside a line or a
  character), an inference passes on the same deltas, ends in the same way and leaves the endpoint in
  the same state.\<close>

theorem infer_chunking_irrelevant:
  assumes "same_answers http other"
  shows "endpoint_infer wr http m ir e = endpoint_infer wr other m ir e"
proof -
  have s: "stream_completion (wr_codec wr) http = stream_completion (wr_codec wr) other"
    by (intro ext same_answers_stream assms)
  then have "infer_json wr http m ir = infer_json wr other m ir"
    by (simp add: infer_json_def)
  with s show ?thesis by (simp only: endpoint_infer_def)
qed

lemma infer_chunking_irrelevant_witness:
  "endpoint_infer demo_wire whole_http (Model_Id ''m'') native_ir demo_endpoint =
   endpoint_infer demo_wire split_http (Model_Id ''m'') native_ir demo_endpoint"
proof -
  have cut: "concat (map (\<lambda>b. [b]) s) = s" for s :: string by (induction s) simp_all
  have "same_bytes (streamed_reply [demo_stream]) (streamed_reply (map (\<lambda>b. [b]) demo_stream))"
    unfolding same_bytes_def streamed_reply_def
    by (intro conjI exI [of _ "[demo_stream]"] exI [of _ "map (\<lambda>b. [b]) demo_stream"]) (simp_all add: cut)
  then have "same_answers whole_http split_http"
    by (simp add: same_answers_def whole_http_def split_http_def)
  then show ?thesis by (rule infer_chunking_irrelevant)
qed

section \<open>Requests\<close>

definition chat_request :: "codec \<Rightarrow> chat_endpoint \<Rightarrow> json \<Rightarrow> http_request" where
  "chat_request cx e body =
     \<lparr>hq_url = endpoint_url (ep_config e) ''/chat/completions'', hq_body = Some (json_text cx body),
      hq_bearer = oc_api_key (ep_config e)\<rparr>"

definition json_body :: "wire \<Rightarrow> chat_endpoint \<Rightarrow> model_id \<Rightarrow> inference_ir \<Rightarrow> json" where
  "json_body wr e m ir = request_body wr m ir (oc_json_mode (ep_config e))"

definition native_body :: "wire \<Rightarrow> chat_endpoint \<Rightarrow> model_id \<Rightarrow> inference_ir \<Rightarrow> json" where
  "native_body wr e m ir = fst (native_request_body wr m ir (oc_json_mode (ep_config e)))"

lemma stream_completion_sends:
  obtains outcome parts where "stream_completion cx http body e =
    (Inr (outcome, parts), e\<lparr>ep_sent := ep_sent e @ [chat_request cx e body]\<rparr>)"
proof -
  have sent: "snd (stream_completion cx http body e) = e\<lparr>ep_sent := ep_sent e @ [chat_request cx e body]\<rparr>"
    by (simp add: stream_completion_def send_http_def Let_def chat_request_def split: sum.split)
  have "\<exists>r. fst (stream_completion cx http body e) = Inr r"
    by (simp add: stream_completion_def send_http_def Let_def split: sum.split)
  then obtain r where "fst (stream_completion cx http body e) = Inr r" by (elim exE)
  with sent have "stream_completion cx http body e =
      (Inr (fst r, snd r), e\<lparr>ep_sent := ep_sent e @ [chat_request cx e body]\<rparr>)"
    by (simp add: prod_eq_iff)
  then show ?thesis by (rule that)
qed

section \<open>Text\<close>

lemma apply_delta_content:
  "cp_content cp = concat (cp_parts cp) \<Longrightarrow> cp_content (apply_delta event cp) = concat (cp_parts (apply_delta event cp))"
  by (simp add: apply_delta_def Let_def split: option.split)

lemma on_payload_content:
  "cp_content cp = concat (cp_parts cp) \<Longrightarrow> on_payload cx p cp = (st, cp') \<Longrightarrow> cp_content cp' = concat (cp_parts cp')"
  by (auto simp: on_payload_def apply_delta_content split: if_splits sum.splits option.splits)

lemma on_payloads_content:
  "cp_content cp = concat (cp_parts cp) \<Longrightarrow> on_payloads cx ps cp = (st, cp') \<Longrightarrow> cp_content cp' = concat (cp_parts cp')"
  by (induction ps arbitrary: cp) (auto dest: on_payload_content split: prod.splits stream_state.splits)

lemma on_chunks_content:
  "cp_content cp = concat (cp_parts cp) \<Longrightarrow> on_chunks cx chunks pending cp = (st, cp') \<Longrightarrow> cp_content cp' = concat (cp_parts cp')"
proof (induction cx chunks pending cp rule: on_chunks.induct)
  case (3 cx bytes chunks pending cp)
  then show ?case
    by (auto dest: on_payloads_content split: prod.splits stream_state.splits)
qed simp_all

lemma concat_prose_deltas: "concat (prose_deltas cs x) = fst (prose_feed cs x)"
  by (induction cs arbitrary: x) (auto split: prod.split)

lemma stream_completion_text:
  "stream_completion cx http body e = (Inr (Inr cp, parts), e') \<Longrightarrow> cp_parts cp = parts \<and> cp_content cp = concat parts"
  using on_chunks_content [of no_completion cx]
  by (auto simp: stream_completion_def Let_def no_completion_def split: prod.splits sum.splits if_splits stream_state.splits)

text \<open>What a person sees while a reply streams in and what DAGOS gets when it ends come from the same text:
  when an inference in the JSON protocol succeeds, there is one text, received in some pieces, whose
  prose, extracted piece by piece, is what was passed on, and which, unwrapped, is the result.\<close>

theorem infer_streams_what_it_returns:
  assumes "\<not> offers_native e m ir" "endpoint_infer wr http m ir e = (Inr (deltas, Inr result), e')"
  shows "\<exists>parts. concat deltas = fst (prose_feed parts new_extractor) \<and> [] \<notin> set deltas \<and>
    result = unwrap_document (wr_codec wr) (concat parts)"
proof -
  obtain outcome parts where s: "stream_completion (wr_codec wr) http (request_body wr m ir (oc_json_mode (ep_config e))) e =
      (Inr (outcome, parts), e\<lparr>ep_sent := ep_sent e @ [chat_request (wr_codec wr) e (request_body wr m ir (oc_json_mode (ep_config e)))]\<rparr>)"
    by (rule stream_completion_sends)
  have "deltas = prose_deltas parts new_extractor" "outcome \<noteq> Inl x" "map_sum Request_Failed (\<lambda>cp. unwrap_document (wr_codec wr) (cp_content cp)) outcome = Inr result" for x
    using assms s by (auto simp: endpoint_infer_def infer_json_def andthen_def look_def ret_def split: sum.splits)
  then obtain cp where o: "outcome = Inr cp" "deltas = prose_deltas parts new_extractor"
      "result = unwrap_document (wr_codec wr) (cp_content cp)"
    by (cases outcome) auto
  have "cp_content cp = concat parts"
    using stream_completion_text [OF s [unfolded o(1)]] by simp
  moreover have "[] \<notin> set (prose_deltas cs x)" for cs x
    by (induction cs arbitrary: x) (auto split: prod.split)
  ultimately show ?thesis
    using o(2,3) by (intro exI [of _ parts]) (simp add: concat_prose_deltas)
qed

lemma infer_streams_what_it_returns_witness:
  "\<exists>parts. concat [''Say '' @ [CHR 0x22] @ ''hi'' @ [CHR 0x22, CHR 0x0A]] = fst (prose_feed parts new_extractor) \<and>
    [] \<notin> set [''Say '' @ [CHR 0x22] @ ''hi'' @ [CHR 0x22, CHR 0x0A]] \<and>
    demo_content = unwrap_document (wr_codec demo_wire) (concat parts)"
proof -
  have "\<not> offers_native demo_endpoint (Model_Id ''m'') native_ir" by code_simp
  moreover have "fst (endpoint_infer demo_wire whole_http (Model_Id ''m'') native_ir demo_endpoint) =
      Inr ([''Say '' @ [CHR 0x22] @ ''hi'' @ [CHR 0x22, CHR 0x0A]], Inr demo_content)"
    by code_simp
  then obtain e' where "endpoint_infer demo_wire whole_http (Model_Id ''m'') native_ir demo_endpoint =
      (Inr ([''Say '' @ [CHR 0x22] @ ''hi'' @ [CHR 0x22, CHR 0x0A]], Inr demo_content), e')"
    by (metis prod.collapse)
  ultimately show ?thesis by (rule infer_streams_what_it_returns)
qed

section \<open>Inferences\<close>

lemma infer_json_sends:
  obtains deltas result where "infer_json wr http m ir e =
    (Inr (deltas, result), e\<lparr>ep_sent := ep_sent e @ [chat_request (wr_codec wr) e (json_body wr e m ir)]\<rparr>)"
proof -
  obtain outcome parts where "stream_completion (wr_codec wr) http (json_body wr e m ir) e =
      (Inr (outcome, parts), e\<lparr>ep_sent := ep_sent e @ [chat_request (wr_codec wr) e (json_body wr e m ir)]\<rparr>)"
    by (rule stream_completion_sends)
  then show ?thesis
    by (intro that) (simp add: infer_json_def json_body_def andthen_def look_def ret_def)
qed

text \<open>An inference sends one request, or, when the model refuses native tools, a second one.\<close>

lemma infer_sends:
  "\<exists>deltas result e'. endpoint_infer wr http m ir e = (Inr (deltas, result), e') \<and>
    (if offers_native e m ir
     then e' = e\<lparr>ep_sent := ep_sent e @ [chat_request (wr_codec wr) e (native_body wr e m ir)]\<rparr> \<or>
       e' = (remember_refusal m e)\<lparr>ep_sent := ep_sent e @ [chat_request (wr_codec wr) e (native_body wr e m ir),
         chat_request (wr_codec wr) e (json_body wr e m ir)]\<rparr>
     else e' = e\<lparr>ep_sent := ep_sent e @ [chat_request (wr_codec wr) e (json_body wr e m ir)]\<rparr>)"
proof (cases "offers_native e m ir")
  case False
  obtain deltas result where "infer_json wr http m ir e =
      (Inr (deltas, result), e\<lparr>ep_sent := ep_sent e @ [chat_request (wr_codec wr) e (json_body wr e m ir)]\<rparr>)"
    by (rule infer_json_sends)
  then show ?thesis using False by (simp add: endpoint_infer_def andthen_def look_def)
next
  case True
  obtain body names where n: "native_request_body wr m ir (oc_json_mode (ep_config e)) = (body, names)" by force
  let ?e1 = "e\<lparr>ep_sent := ep_sent e @ [chat_request (wr_codec wr) e body]\<rparr>"
  obtain outcome parts where s: "stream_completion (wr_codec wr) http body e = (Inr (outcome, parts), ?e1)"
    by (rule stream_completion_sends)
  obtain deltas result where j: "infer_json wr http m ir (remember_refusal m ?e1) = (Inr (deltas, result),
      (remember_refusal m ?e1)\<lparr>ep_sent := ep_sent (remember_refusal m ?e1) @
        [chat_request (wr_codec wr) (remember_refusal m ?e1) (json_body wr (remember_refusal m ?e1) m ir)]\<rparr>)"
    by (rule infer_json_sends)
  have b: "native_body wr e m ir = body" using n by (simp add: native_body_def)
  show ?thesis
    using True n s j b
    by (cases outcome) (auto simp: endpoint_infer_def andthen_def look_def ret_def update_def Let_def
        remember_refusal_def chat_request_def json_body_def)
qed

fun infer_all :: "wire \<Rightarrow> http \<Rightarrow> (model_id \<times> inference_ir) list \<Rightarrow> chat_endpoint \<Rightarrow> chat_endpoint" where
  "infer_all wr http [] e = e"
| "infer_all wr http ((m, ir) # calls) e = infer_all wr http calls (snd (endpoint_infer wr http m ir e))"

lemma infer_keeps_refused:
  "set (ep_refused e) \<subseteq> set (ep_refused (snd (endpoint_infer wr http m ir e)))"
  using infer_sends [of wr http m ir e] by (auto simp: remember_refusal_def split: if_splits)

lemma infers_keep_refused: "set (ep_refused e) \<subseteq> set (ep_refused (infer_all wr http calls e))"
  by (induction wr http calls e rule: infer_all.induct) (use infer_keeps_refused in \<open>force\<close>)+

text \<open>C23. A model that refuses native tools is asked in JSON at once and from then on: when the endpoint
  rejects the native request with an error that says so, the same inference sends the request of the
  JSON protocol as well, and after any further inferences an inference with that model sends exactly one
  request, in JSON.\<close>

theorem refusal_is_final:
  assumes "offers_native e m ir"
    and "fst (stream_completion (wr_codec wr) http (native_body wr e m ir) e) = Inr (Inl error, parts)"
    and "refuses_tools error"
  shows "ep_sent (snd (endpoint_infer wr http m ir e)) = ep_sent e @
      [chat_request (wr_codec wr) e (native_body wr e m ir), chat_request (wr_codec wr) e (json_body wr e m ir)] \<and>
    (let e' = infer_all wr http later (snd (endpoint_infer wr http m ir e))
     in ep_sent (snd (endpoint_infer wr http m ir' e')) =
       ep_sent e' @ [chat_request (wr_codec wr) e' (json_body wr e' m ir')])"
proof -
  obtain body names where n: "native_request_body wr m ir (oc_json_mode (ep_config e)) = (body, names)" by force
  have b: "native_body wr e m ir = body" using n by (simp add: native_body_def)
  let ?e1 = "e\<lparr>ep_sent := ep_sent e @ [chat_request (wr_codec wr) e body]\<rparr>"
  have s: "stream_completion (wr_codec wr) http body e = (Inr (Inl error, parts), ?e1)"
    using stream_completion_sends [of "wr_codec wr" http body e] assms(2) b by (metis fst_conv)
  have r: "snd (endpoint_infer wr http m ir e) = snd (infer_json wr http m ir (remember_refusal m ?e1))"
    using assms(1,3) n s
    by (auto simp: endpoint_infer_def andthen_def look_def ret_def update_def Let_def split: prod.splits sum.splits)
  obtain deltas result where j: "infer_json wr http m ir (remember_refusal m ?e1) = (Inr (deltas, result),
      (remember_refusal m ?e1)\<lparr>ep_sent := ep_sent (remember_refusal m ?e1) @
        [chat_request (wr_codec wr) (remember_refusal m ?e1) (json_body wr (remember_refusal m ?e1) m ir)]\<rparr>)"
    by (rule infer_json_sends)
  let ?e' = "infer_all wr http later (snd (endpoint_infer wr http m ir e))"
  have "model_str m \<in> set (ep_refused (snd (endpoint_infer wr http m ir e)))"
    unfolding r j by (simp add: remember_refusal_def)
  then have "\<not> offers_native ?e' m ir'"
    using infers_keep_refused [of "snd (endpoint_infer wr http m ir e)" wr http later] by (auto simp: offers_native_def)
  then show ?thesis
    using infer_sends [of wr http m ir' ?e'] r j b
    by (auto simp: Let_def remember_refusal_def chat_request_def json_body_def)
qed

text \<open>A server that refuses tools.\<close>

definition refusing_http :: http where
  "refusing_http sent q =
     (if sent = []
      then Inr \<lparr>hr_status = ''400 Bad Request'', hr_success = False, hr_body = ''tools are not supported'', hr_chunks = []\<rparr>
      else Inr (streamed_reply [demo_stream]))"

definition native_endpoint :: chat_endpoint where
  "native_endpoint = demo_endpoint\<lparr>ep_config := (ep_config demo_endpoint)\<lparr>oc_native_tools := True\<rparr>\<rparr>"

lemma refusal_is_final_witness:
  "length (ep_sent (snd (endpoint_infer demo_wire refusing_http (Model_Id ''m'') native_ir native_endpoint))) = 2"
proof -
  have "offers_native native_endpoint (Model_Id ''m'') native_ir" by code_simp
  moreover have "fst (stream_completion (wr_codec demo_wire) refusing_http
      (native_body demo_wire native_endpoint (Model_Id ''m'') native_ir) native_endpoint) =
      Inr (Inl ''HTTP 400 Bad Request from http://host/v1/chat/completions: tools are not supported'', [])"
    by (simp add: stream_completion_def send_http_def refusing_http_def Let_def native_endpoint_def demo_endpoint_def
        new_endpoint_def endpoint_url_def trim_end_byte_def) code_simp
  moreover have "refuses_tools ''HTTP 400 Bad Request from http://host/v1/chat/completions: tools are not supported''"
    by code_simp
  ultimately have "ep_sent (snd (endpoint_infer demo_wire refusing_http (Model_Id ''m'') native_ir native_endpoint)) =
      ep_sent native_endpoint @
      [chat_request (wr_codec demo_wire) native_endpoint (native_body demo_wire native_endpoint (Model_Id ''m'') native_ir),
       chat_request (wr_codec demo_wire) native_endpoint (json_body demo_wire native_endpoint (Model_Id ''m'') native_ir)]"
    using refusal_is_final [where later = "[]" and ir' = native_ir] by blast
  then show ?thesis by (simp add: native_endpoint_def demo_endpoint_def new_endpoint_def)
qed

section \<open>Relevance\<close>

lemma join_batches_Inr:
  "join_batches scores order joined = Inr bs \<longleftrightarrow>
   list_all (\<lambda>i. \<exists>s. scores i = Inr s) order \<and> bs = joined @ map (\<lambda>i. (i, projr (scores i))) order"
  by (induction order arbitrary: joined) (auto split: sum.split)

lemma sort_indexed: "sort_key fst (map (\<lambda>i. (i, f i)) js) = map (\<lambda>i. (i, f i)) (sort (js :: nat list))"
proof (rule properties_for_sort_key)
  show "mset (map (\<lambda>i. (i, f i)) (sort js)) = mset (map (\<lambda>i. (i, f i)) js)" by simp
  show "filter (\<lambda>x. fst k = fst x) (map (\<lambda>i. (i, f i)) (sort js)) = filter (\<lambda>x. fst k = fst x) (map (\<lambda>i. (i, f i)) js)"
    if "k \<in> set (map (\<lambda>i. (i, f i)) (sort js))" for k
    using sort_key_stable [of "\<lambda>i. i" "fst k" js] by (simp add: filter_map o_def eq_commute [of "fst k"])
  show "sorted (map fst (map (\<lambda>i. (i, f i)) (sort js)))" by (simp add: o_def)
qed

lemma map_sum_Inr: "map_sum f h x = Inr r \<longleftrightarrow> (\<exists>y. x = Inr y \<and> r = h y)"
  by (cases x) auto

lemma relevance_scores:
  assumes "mset (order [0..<length (recall_batches chunks)]) = mset [0..<length (recall_batches chunks)]"
  shows "decisions_relevance wr asking order m q chunks = Inr r \<longleftrightarrow>
    list_all (\<lambda>i. \<exists>s. batch_scores wr asking m q i (recall_batches chunks ! i) = Inr s) [0..<length (recall_batches chunks)] \<and>
    r = Some (concat (map (\<lambda>i. projr (batch_scores wr asking m q i (recall_batches chunks ! i))) [0..<length (recall_batches chunks)]))"
proof -
  let ?is = "[0..<length (recall_batches chunks)]"
  let ?f = "\<lambda>i. batch_scores wr asking m q i (recall_batches chunks ! i)"
  have "sort (order ?is) = ?is"
    using properties_for_sort [of ?is "order ?is"] assms by simp
  moreover have "list_all P (order ?is) \<longleftrightarrow> list_all P ?is" for P
    using mset_eq_setD [OF assms] by (simp add: list_all_iff)
  ultimately show ?thesis
    by (simp add: decisions_relevance_def Let_def map_sum_Inr join_batches_Inr sort_indexed o_def)
qed

lemma probabilities_length: "probabilities cx answers ks = Inr ps \<Longrightarrow> length ps = length ks"
  by (metis length_map probabilities_Inr)

lemma batch_scores_length:
  "batch_scores wr asking m q i batch = Inr s \<Longrightarrow> length s = length batch"
  by (auto simp: batch_scores_def relevance_from_decisions_def map_sum_Inr split: sum.splits option.splits
      dest!: probabilities_length)

lemma relevance_length:
  assumes "mset (order [0..<length (recall_batches chunks)]) = mset [0..<length (recall_batches chunks)]"
    and "decisions_relevance wr asking order m q chunks = Inr r"
  shows "\<exists>scores. r = Some scores \<and> length scores = length chunks"
proof -
  let ?bs = "recall_batches chunks"
  let ?f = "\<lambda>i. batch_scores wr asking m q i (?bs ! i)"
  have r: "\<forall>i < length ?bs. \<exists>s. ?f i = Inr s" "r = Some (concat (map (\<lambda>i. projr (?f i)) [0..<length ?bs]))"
    using assms(2) unfolding relevance_scores [where order = order and chunks = chunks, OF assms(1)] by (simp_all add: list_all_iff)
  have "map (\<lambda>i. length (projr (?f i))) [0..<length ?bs] = map length ?bs"
    using r(1) by (intro nth_equalityI) (force dest: batch_scores_length)+
  then have "length (concat (map (\<lambda>i. projr (?f i)) [0..<length ?bs])) = length (concat ?bs)"
    by (simp add: length_concat o_def)
  then show ?thesis
    using r(2) concat_batches_from [of "[]" 0 chunks] by (simp add: recall_batches_def)
qed

text \<open>C32. The batches of a recall search are asked at once, and the order in which the answers come does not
  matter: whether there are scores at all and which they are is as if the answers had come in order, and
  they are one score for each chunk, in the order of the chunks.\<close>

theorem relevance_order_irrelevant:
  assumes "\<And>js. mset (order js) = mset js"
  shows "(decisions_relevance wr asking order m q chunks = Inr r \<longleftrightarrow>
      decisions_relevance wr asking (\<lambda>js. js) m q chunks = Inr r) \<and>
    (case decisions_relevance wr asking order m q chunks of
       Inr (Some scores) \<Rightarrow> length scores = length chunks | Inr None \<Rightarrow> False | Inl _ \<Rightarrow> True)"
proof
  have same: "mset (order [0..<length (recall_batches chunks)]) = mset [0..<length (recall_batches chunks)]"
    by (rule assms)
  show "decisions_relevance wr asking order m q chunks = Inr r \<longleftrightarrow>
      decisions_relevance wr asking (\<lambda>js. js) m q chunks = Inr r"
    using relevance_scores [where order = order and chunks = chunks, OF same] relevance_scores [where order = "\<lambda>js. js" and chunks = chunks] by simp
  show "case decisions_relevance wr asking order m q chunks of
      Inr (Some scores) \<Rightarrow> length scores = length chunks | Inr None \<Rightarrow> False | Inl _ \<Rightarrow> True"
  proof (cases "decisions_relevance wr asking order m q chunks")
    case (Inr scores)
    from relevance_length [where order = order and chunks = chunks, OF same this] Inr show ?thesis by auto
  qed simp
qed

text \<open>Two chunks and an endpoint that answers for both.\<close>

definition demo_chunks :: "recall_chunk list" where
  "demo_chunks = [\<lparr>ck_id = ''a'', ck_text = ''x''\<rparr>, \<lparr>ck_id = ''b'', ck_text = ''y''\<rparr>]"

definition both_answered :: "nat \<Rightarrow> json \<Rightarrow> jev_error + json" where
  "both_answered i body = Inr (JObj [(''answers'', JObj
     [(''a'', JObj [(''noul'', JInt 1)]), (''b'', JObj [(''noul'', JInt 0)])])])"

lemma relevance_order_irrelevant_witness:
  "decisions_relevance demo_wire both_answered rev (Model_Id ''m'') ''q'' demo_chunks = Inr (Some [Fin 1, Fin 0])"
proof -
  have "decisions_relevance demo_wire both_answered (\<lambda>js. js) (Model_Id ''m'') ''q'' demo_chunks = Inr (Some [Fin 1, Fin 0])"
    by code_simp
  moreover have "mset (rev js) = mset js" for js :: "nat list" by simp
  ultimately show ?thesis using relevance_order_irrelevant [where order = rev] by blast
qed

end
