(* ===== verification/Keys.thy ===== *)
theory Keys
  imports Rust_Split Identifiers Runtime_State
begin

text \<open>
  \<open>dagos/src/keys.rs\<close>: API keys saved per provider in a file of the user's. The file's contents are the state;
  the derived (de)serializers and whether the disk accepts a write are parameters. Writing replaces the
  file atomically, so a failed write leaves it as it was. Its permissions are not modelled.
\<close>

section \<open>Keys\<close>

definition max_key_length :: nat where
  "max_key_length = 4096"

text \<open>\<open>char::is_control\<close>: the characters U+0000 to U+001F and U+007F to U+009F, as UTF-8.\<close>

definition is_control :: "string \<Rightarrow> bool" where
  "is_control c =
     (case map (of_char :: char \<Rightarrow> nat) c of
        [b] \<Rightarrow> b < 32 \<or> b = 127
      | [b, d] \<Rightarrow> b = 194 \<and> 128 \<le> d \<and> d < 160
      | _ \<Rightarrow> False)"

definition validate_key :: "string \<Rightarrow> string + string" where
  "validate_key key =
     (let k = trim key
      in if k = [] then Inl ''the API key is empty''
         else if max_key_length < length k then Inl ''the API key is too long''
         else if list_ex (\<lambda>c. is_whitespace c \<or> is_control c) (chars_of k)
         then Inl ''the API key must not contain spaces, line breaks, or control characters''
         else Inr k)"

definition hint :: "string \<Rightarrow> string" where
  "hint key =
     (let cs = chars_of key
      in if length cs < 12 then ellipsis
         else concat (take 4 cs) @ ellipsis @ concat (drop (length cs - 4) cs))"

section \<open>The file\<close>

text \<open>\<open>ks_file\<close> is what reading gives: nothing if there is no file, an error, or the text.\<close>

record key_store =
  ks_path :: string
  ks_file :: "(string + string) option"

type_synonym saved_keys = "(provider_id, string) btree"

text \<open>\<open>for_user\<close> on Unix: \<open>env\<close> gives the environment's variables.\<close>

definition set_var :: "(string \<Rightarrow> string option) \<Rightarrow> string \<Rightarrow> string option" where
  "set_var env name = (case env name of Some v \<Rightarrow> if v = [] then None else Some v | None \<Rightarrow> None)"

text \<open>\<open>Path::join\<close> with a relative path.\<close>

definition path_join :: "string \<Rightarrow> string \<Rightarrow> string" where
  "path_join dir name = (if dir = [] \<or> ends_with ''/'' dir then dir @ name else dir @ ''/'' @ name)"

definition keys_path_for_user :: "(string \<Rightarrow> string option) \<Rightarrow> string option" where
  "keys_path_for_user env =
     (let dir = (case set_var env ''DAGOS_CONFIG_DIR'' of
            Some d \<Rightarrow> Some d
          | None \<Rightarrow>
              map_option (\<lambda>base. path_join base ''dagos'')
                (case set_var env ''XDG_CONFIG_HOME'' of
                   Some x \<Rightarrow> Some x
                 | None \<Rightarrow> map_option (\<lambda>home. path_join home ''.config'') (set_var env ''HOME'')))
      in map_option (\<lambda>d. path_join d ''keys.json'') dir)"

definition read_keys :: "(string \<Rightarrow> string + saved_keys) \<Rightarrow> key_store \<Rightarrow> string + saved_keys" where
  "read_keys parse ks =
     (case ks_file ks of
        None \<Rightarrow> Inr []
      | Some (Inl e) \<Rightarrow> Inl (''cannot read '' @ ks_path ks @ '': '' @ e)
      | Some (Inr t) \<Rightarrow>
          (case parse t of
             Inl e \<Rightarrow> Inl (''invalid '' @ ks_path ks @ '': '' @ e)
           | Inr m \<Rightarrow> Inr m))"

definition write_keys ::
  "(saved_keys \<Rightarrow> string) \<Rightarrow> string option \<Rightarrow> saved_keys \<Rightarrow> key_store \<Rightarrow> (string + unit) \<times> key_store" where
  "write_keys print refused m ks =
     (case refused of
        Some e \<Rightarrow> (Inl (''cannot save '' @ ks_path ks @ '': '' @ e), ks)
      | None \<Rightarrow> (Inr (), ks\<lparr>ks_file := Some (Inr (print m))\<rparr>))"

definition set_key ::
  "(string \<Rightarrow> string + saved_keys) \<Rightarrow> (saved_keys \<Rightarrow> string) \<Rightarrow> string option \<Rightarrow> provider_id \<Rightarrow> string \<Rightarrow>
   key_store \<Rightarrow> (string + unit) \<times> key_store" where
  "set_key parse print refused p key ks =
     (case validate_key key of
        Inl e \<Rightarrow> (Inl e, ks)
      | Inr k \<Rightarrow>
          (case read_keys parse ks of
             Inl e \<Rightarrow> (Inl e, ks)
           | Inr m \<Rightarrow> write_keys print refused (bt_insert p k m) ks))"

definition remove_key ::
  "(string \<Rightarrow> string + saved_keys) \<Rightarrow> (saved_keys \<Rightarrow> string) \<Rightarrow> string option \<Rightarrow> provider_id \<Rightarrow>
   key_store \<Rightarrow> (string + bool) \<times> key_store" where
  "remove_key parse print refused p ks =
     (case read_keys parse ks of
        Inl e \<Rightarrow> (Inl e, ks)
      | Inr m \<Rightarrow>
          (if map_of m p = None then (Inr False, ks)
           else case write_keys print refused (bt_remove p m) ks of
             (Inl e, t) \<Rightarrow> (Inl e, t)
           | (Inr _, t) \<Rightarrow> (Inr True, t)))"

section \<open>Edits\<close>

text \<open>A call of a person, with what the disk says to the write.\<close>

datatype key_call = Set_Key provider_id string "string option" | Remove_Key provider_id "string option"

fun run_key_call :: "(string \<Rightarrow> string + saved_keys) \<Rightarrow> (saved_keys \<Rightarrow> string) \<Rightarrow> key_call \<Rightarrow> key_store \<Rightarrow> string option \<times> key_store" where
  "run_key_call parse print (Set_Key p key refused) ks =
     (case set_key parse print refused p key ks of (outcome, t) \<Rightarrow> (case outcome of Inl e \<Rightarrow> Some e | Inr _ \<Rightarrow> None, t))"
| "run_key_call parse print (Remove_Key p refused) ks =
     (case remove_key parse print refused p ks of (outcome, t) \<Rightarrow> (case outcome of Inl e \<Rightarrow> Some e | Inr _ \<Rightarrow> None, t))"

text \<open>The errors of a sequence of calls, and the store after it.\<close>

fun run_key_calls :: "(string \<Rightarrow> string + saved_keys) \<Rightarrow> (saved_keys \<Rightarrow> string) \<Rightarrow> key_call list \<Rightarrow> key_store \<Rightarrow> string option list \<times> key_store" where
  "run_key_calls parse print [] ks = ([], ks)"
| "run_key_calls parse print (c # cs) ks =
     (case run_key_call parse print c ks of (e, t) \<Rightarrow> (case run_key_calls parse print cs t of (es, u) \<Rightarrow> (e # es, u)))"

fun key_edit :: "key_call \<Rightarrow> provider_id \<times> string option" where
  "key_edit (Set_Key p key refused) = (p, Some (trim key))"
| "key_edit (Remove_Key p refused) = (p, None)"

text \<open>The edits of the calls that succeeded.\<close>

definition accepted_edits :: "key_call list \<Rightarrow> string option list \<Rightarrow> (provider_id \<times> string option) list" where
  "accepted_edits cs es = map (key_edit \<circ> fst) (filter (\<lambda>(c, e). e = None) (zip cs es))"

lemma validate_key_Inr: "validate_key key = Inr k \<Longrightarrow> k = trim key"
  by (auto simp: validate_key_def Let_def split: if_splits)

lemma bt_remove_absent: "map_of m p = None \<Longrightarrow> bt_remove p m = m"
  by (auto simp: bt_remove_def map_of_eq_None_iff intro!: filter_True)

text \<open>One call, over a file that reads as \<open>m\<close>.\<close>

lemma key_call_reads:
  assumes "\<And>m. bt_wf m \<Longrightarrow> parse (print m) = Inr m" and "bt_wf m" and "read_keys parse ks = Inr m"
  shows "\<exists>e t. run_key_call parse print c ks = (e, t) \<and>
    read_keys parse t = Inr (if e = None then btree.apply_edit m (key_edit c) else m) \<and>
    bt_wf (if e = None then btree.apply_edit m (key_edit c) else m)"
proof -
  have written: "read_keys parse (ks\<lparr>ks_file := Some (Inr (print m'))\<rparr>) = Inr m'" if "bt_wf m'" for m'
    using assms(1) [OF that] by (simp add: read_keys_def)
  show ?thesis
  proof (cases c)
    case (Set_Key p key refused)
    have wf: "bt_wf (bt_insert p (trim key) m)" by (rule btree.wf_insert [OF assms(2)])
    show ?thesis
    proof (cases "validate_key key")
      case (Inr k)
      then show ?thesis
        using Set_Key assms(2,3) wf written [OF wf] validate_key_Inr [OF Inr]
        by (cases refused) (simp_all add: set_key_def write_keys_def btree.apply_edit_def)
    qed (simp add: Set_Key set_key_def assms(2,3))
  next
    case (Remove_Key p refused)
    have wf: "bt_wf (bt_remove p m)" by (rule btree.wf_remove [OF assms(2)])
    then show ?thesis
      using Remove_Key assms(2,3) written [OF wf] bt_remove_absent [of m p]
      by (cases refused) (simp_all add: remove_key_def write_keys_def btree.apply_edit_def)
  qed
qed

lemma key_calls_read:
  assumes "\<And>m. bt_wf m \<Longrightarrow> parse (print m) = Inr m"
  shows "bt_wf m \<Longrightarrow> read_keys parse ks = Inr m \<Longrightarrow> run_key_calls parse print cs ks = (es, t) \<Longrightarrow>
    length es = length cs \<and> read_keys parse t = Inr (foldl btree.apply_edit m (accepted_edits cs es))"
proof (induction cs arbitrary: m ks es t)
  case (Cons c cs)
  obtain e s where e: "run_key_call parse print c ks = (e, s)"
      "read_keys parse s = Inr (if e = None then btree.apply_edit m (key_edit c) else m)"
      "bt_wf (if e = None then btree.apply_edit m (key_edit c) else m)"
    using key_call_reads [OF assms Cons.prems(1,2)] by blast
  obtain es' where es: "es = e # es'" "run_key_calls parse print cs s = (es', t)"
    using Cons.prems(3) e(1) by (auto split: prod.splits)
  show ?case
    using Cons.IH [OF e(3,2) es(2)] by (auto simp: es accepted_edits_def)
qed (simp add: accepted_edits_def)

text \<open>C30. Saved keys are what people last saved, whatever goes wrong in between: after any calls that set or
  remove keys, some of them malformed and some refused by the disk, each provider's key is the trimmed
  one of the last successful call for it (none after a removal), or what was there before when no call
  for it succeeded.\<close>

theorem saved_keys_are_the_last:
  assumes "\<And>m. bt_wf m \<Longrightarrow> parse (print m) = Inr m" and "bt_wf m" and "read_keys parse ks = Inr m"
  shows "case run_key_calls parse print cs ks of (es, t) \<Rightarrow>
    (\<exists>m'. read_keys parse t = Inr m' \<and>
      (\<forall>p. map_of m' p = (case map_of (rev (accepted_edits cs es)) p of Some v \<Rightarrow> v | None \<Rightarrow> map_of m p)))"
proof (cases "run_key_calls parse print cs ks")
  case (Pair es t)
  then show ?thesis
    using key_calls_read [OF assms, of cs es t] btree.edits_lookup [OF assms(2)] by simp
qed

text \<open>An unreadable or invalid file is never overwritten.\<close>

lemma invalid_keys_kept: "read_keys parse ks = Inl e \<Longrightarrow> snd (run_key_calls parse print cs ks) = ks"
proof (induction cs)
  case (Cons c cs)
  have "snd (run_key_call parse print c ks) = ks"
    using Cons.prems by (cases c) (simp_all add: set_key_def remove_key_def split: sum.split prod.split)
  then show ?case
    using Cons by (auto split: prod.splits)
qed simp

text \<open>A format in which each string follows its length.\<close>

definition demo_field :: "string \<Rightarrow> string" where
  "demo_field s = replicate (length s) (CHR ''1'') @ CHR '':'' # s"

definition demo_print :: "saved_keys \<Rightarrow> string" where
  "demo_print m = concat (map (\<lambda>(p, k). demo_field (provider_str p) @ demo_field k) m)"

definition demo_take :: "string \<Rightarrow> string \<times> string" where
  "demo_take t = (let n = length (takeWhile (\<lambda>c. c = CHR ''1'') t); r = drop (Suc n) t in (take n r, drop n r))"

fun demo_from :: "nat \<Rightarrow> string \<Rightarrow> saved_keys" where
  "demo_from 0 t = []"
| "demo_from (Suc n) t =
     (if t = [] then []
      else case demo_take t of (p, r) \<Rightarrow> (case demo_take r of (k, u) \<Rightarrow> (Provider_Id p, k) # demo_from n u))"

definition demo_parse :: "string \<Rightarrow> string + saved_keys" where
  "demo_parse t = Inr (demo_from (length t) t)"

lemma demo_take_field: "demo_take (demo_field s @ t) = (s, t)"
proof -
  have "takeWhile (\<lambda>c. c = CHR ''1'') (replicate n (CHR ''1'') @ CHR '':'' # u) = replicate n (CHR ''1'')" for n u
    by (induction n) simp_all
  then show ?thesis
    by (simp add: demo_take_def demo_field_def Let_def)
qed

lemma demo_print_Cons: "demo_print (e # m) = demo_field (provider_str (fst e)) @ demo_field (snd e) @ demo_print m"
  by (cases e) (simp add: demo_print_def)

lemma demo_from_field: "demo_from (Suc n) (demo_field p @ demo_field k @ t) = (Provider_Id p, k) # demo_from n t"
proof -
  have "demo_field p \<noteq> []" by (simp add: demo_field_def)
  then show ?thesis by (simp add: demo_take_field)
qed

lemma demo_from_print: "length m \<le> n \<Longrightarrow> demo_from n (demo_print m) = m"
proof (induction m arbitrary: n)
  case Nil
  show ?case by (cases n) (simp_all add: demo_print_def)
next
  case (Cons e m)
  from Cons.prems obtain k where "n = Suc k" "length m \<le> k" by (cases n) auto
  then show ?case
    using Cons.IH [of k] by (simp only: demo_print_Cons demo_from_field) simp
qed

lemma demo_print_length: "length m \<le> length (demo_print m)"
  by (induction m) (auto simp: demo_print_def demo_field_def)

lemma saved_keys_are_the_last_witness:
  "case run_key_calls demo_parse demo_print
       [Set_Key (Provider_Id ''zai'') '' first '' None, Set_Key (Provider_Id ''zai'') ''second'' (Some ''disk full''),
        Set_Key (Provider_Id ''openai'') ''two words'' None] \<lparr>ks_path = ''keys.json'', ks_file = None\<rparr> of
     (es, t) \<Rightarrow> map (\<lambda>e. e = None) es = [True, False, False] \<and>
       (\<exists>m. read_keys demo_parse t = Inr m \<and> map_of m (Provider_Id ''zai'') = Some ''first'' \<and>
         map_of m (Provider_Id ''openai'') = None)"
proof -
  let ?cs = "[Set_Key (Provider_Id ''zai'') '' first '' None, Set_Key (Provider_Id ''zai'') ''second'' (Some ''disk full''),
        Set_Key (Provider_Id ''openai'') ''two words'' None]"
  let ?ks = "\<lparr>ks_path = ''keys.json'', ks_file = None\<rparr>"
  have "fst (run_key_calls demo_parse demo_print ?cs ?ks) =
      [None, Some ''cannot save keys.json: disk full'',
       Some ''the API key must not contain spaces, line breaks, or control characters'']"
    by code_simp
  moreover have "case run_key_calls demo_parse demo_print ?cs ?ks of (es, t) \<Rightarrow>
      (\<exists>m'. read_keys demo_parse t = Inr m' \<and>
        (\<forall>p. map_of m' p = (case map_of (rev (accepted_edits ?cs es)) p of Some v \<Rightarrow> v | None \<Rightarrow> map_of [] p)))"
  proof (rule saved_keys_are_the_last)
    show "demo_parse (demo_print m) = Inr m" for m
      by (simp add: demo_parse_def demo_from_print demo_print_length)
  qed (simp_all add: bt_wf_def read_keys_def)
  moreover have "trim '' first '' = ''first''" by code_simp
  ultimately show ?thesis
    by (auto simp: accepted_edits_def split: prod.splits)
qed

end
