(* ===== verification/Fake_Provider.thy ===== *)
theory Fake_Provider
  imports Responses Runtime_State Rust_Split
begin

text \<open>
  \<open>provider/fake.rs\<close>: the deterministic provider for offline use. Its models give a valid response, ask for a
  tool, or fail in one particular way each. The pause before each delta is not modelled.
\<close>

section \<open>Models\<close>

datatype fake_model =
    Fake_Echo | Fake_Malformed | Fake_Invalid_Schema | Fake_Dangling_Edge | Fake_Cycle | Fake_Timeout
  | Fake_Error | Fake_Tool

definition fake_models :: "fake_model list" where
  "fake_models = [Fake_Echo, Fake_Malformed, Fake_Invalid_Schema, Fake_Dangling_Edge, Fake_Cycle, Fake_Timeout,
     Fake_Error, Fake_Tool]"

fun fake_model_str :: "fake_model \<Rightarrow> string" where
  "fake_model_str Fake_Echo = ''fake-echo''"
| "fake_model_str Fake_Malformed = ''fake-malformed''"
| "fake_model_str Fake_Invalid_Schema = ''fake-invalid-schema''"
| "fake_model_str Fake_Dangling_Edge = ''fake-dangling-edge''"
| "fake_model_str Fake_Cycle = ''fake-cycle''"
| "fake_model_str Fake_Timeout = ''fake-timeout''"
| "fake_model_str Fake_Error = ''fake-error''"
| "fake_model_str Fake_Tool = ''fake-tool''"

interpretation fake_model: closed_enum fake_models fake_model_str
proof
  show "v \<in> set fake_models" for v by (cases v) (simp_all add: fake_models_def)
  show "distinct (map fake_model_str fake_models)" by (simp add: fake_models_def)
qed

definition fake_provider_id :: provider_id where
  "fake_provider_id = Provider_Id ''fake''"

definition fake_suggested_models :: "model_id list" where
  "fake_suggested_models = map (\<lambda>m. Model_Id (fake_model_str m)) fake_models"

section \<open>Responses\<close>

definition plain_response :: "string \<Rightarrow> emission list \<Rightarrow> inference_response" where
  "plain_response prose emissions =
     \<lparr>re_prose = prose, re_emissions = emissions, re_tool_calls = [], re_metadata = None\<rparr>"

definition fake_node :: "string \<Rightarrow> node_type \<Rightarrow> emission" where
  "fake_node name ty = Node_Emission (Emission_Ref name) ty []"

definition fake_edge :: "endpoint \<Rightarrow> endpoint \<Rightarrow> emission" where
  "fake_edge from to = Edge_Emission from to Depends_On"

definition echo_response :: "inference_ir \<Rightarrow> inference_response" where
  "echo_response ir =
     (let n = length (ii_context ir);
          prose = ''fake-echo received: '' @ [CHR 0x22] @ ik_message (ii_task ir) @ [CHR 0x22] @
            ''. The active context holds '' @ show_nat n @ '' node'' @ (if n = 1 then [] else ''s'') @
            ''. Recorded one observation linked to your message.'';
          payload = bt_insert ''source'' (JStr ''fake-echo'') (bt_insert ''context_size'' (JInt (int n))
            (bt_insert ''text'' (JStr (''Observed request: '' @ ik_message (ii_task ir))) []))
      in plain_response prose
           [Node_Emission (Emission_Ref ''observation'') Observation payload,
            Edge_Emission (Ref_End (Emission_Ref ''observation'')) (Node_End (ik_node (ii_task ir))) Observed_From])"

definition result_outcome :: "codec \<Rightarrow> ir_tool_result \<Rightarrow> string" where
  "result_outcome cx r =
     (case (ir_output r, ir_reason r) of
        (_, Some reason) \<Rightarrow> ''was denied: '' @ reason
      | (Some v, None) \<Rightarrow> ''returned '' @ ir_tool_status_str (ir_status r) @ '' '' @ take_chars 300 (json_text cx v)
      | (None, None) \<Rightarrow> ''ended '' @ ir_tool_status_str (ir_status r))"

definition names_tool :: "string \<Rightarrow> ir_tool \<Rightarrow> bool" where
  "names_tool message t =
     (case strip_prefix (it_name t) message of Some rest \<Rightarrow> rest = [] \<or> hd rest = CHR '' '' | None \<Rightarrow> False)"

text \<open>\<open>serde_json::from_str::<Payload>(text).ok().unwrap_or_default()\<close>.\<close>

definition arguments_in :: "codec \<Rightarrow> string \<Rightarrow> payload" where
  "arguments_in cx t = (case json_read cx t of Inr (JObj m) \<Rightarrow> m | _ \<Rightarrow> [])"

definition tool_response :: "codec \<Rightarrow> inference_ir \<Rightarrow> inference_response" where
  "tool_response cx ir =
     (if ii_results ir \<noteq> []
      then (let r = last (ii_results ir)
            in plain_response ([CHR 0x60] @ ir_name r @ [CHR 0x60] @ '' '' @ result_outcome cx r) [])
      else
        (let message = trim (ik_message (ii_task ir));
             named = find (names_tool message) (ii_tools ir)
         in case (case named of Some t \<Rightarrow> Some t | None \<Rightarrow> (case ii_tools ir of [] \<Rightarrow> None | t # _ \<Rightarrow> Some t)) of
              None \<Rightarrow> plain_response ''No tools are available to this run.'' []
            | Some t \<Rightarrow>
                (let arguments = (case named of
                       Some t' \<Rightarrow> arguments_in cx (trim (drop (length (it_name t')) message))
                     | None \<Rightarrow> [])
                 in (plain_response (''Calling '' @ [CHR 0x60] @ it_name t @ [CHR 0x60] @ ''.'') [])
                      \<lparr>re_tool_calls := [\<lparr>tl_name = it_name t, tl_arguments = arguments\<rparr>]\<rparr>)))"

definition unseen_node :: node_id where
  "unseen_node = Ident ''node_zzzzzz''"

definition dangling_response :: inference_response where
  "dangling_response =
     plain_response ''Linking to a node I was never shown.''
       [fake_node ''claim'' Decision,
        fake_edge (Ref_End (Emission_Ref ''claim'')) (Node_End unseen_node)]"

definition cycle_response :: inference_response where
  "cycle_response =
     plain_response ''Two tasks that depend on each other.''
       [fake_node ''first'' Task, fake_node ''second'' Task,
        fake_edge (Ref_End (Emission_Ref ''first'')) (Ref_End (Emission_Ref ''second'')),
        fake_edge (Ref_End (Emission_Ref ''second'')) (Ref_End (Emission_Ref ''first''))]"

definition malformed_text :: "string \<Rightarrow> string" where
  "malformed_text prose =
     (let q = [CHR 0x22] in
      [CHR 0x7B] @ q @ ''schema'' @ q @ '':'' @ q @ ''kiss.inference-response.v1'' @ q @ '','' @ q @
      ''presentation'' @ q @ '':'' @ [CHR 0x7B] @ q @ ''prose'' @ q @ '':'' @ q @ prose)"

definition invalid_document :: "string \<Rightarrow> json" where
  "invalid_document prose =
     JObj [(''emissions'', JArr [JObj [(''kind'', JStr ''plan''), (''steps'', JArr [JStr ''rewrite everything''])]]),
           (''presentation'', JObj [(''prose'', JStr prose)]),
           (''schema'', JStr ''kiss.inference-response.v1'')]"

section \<open>Inference\<close>

text \<open>\<open>stream\<close>: the pieces of \<open>split_inclusive(' ')\<close>.\<close>

fun split_inclusive_space :: "string \<Rightarrow> string list" where
  "split_inclusive_space [] = []"
| "split_inclusive_space (c # cs) =
     (if c = CHR '' '' then [c] # split_inclusive_space cs
      else case split_inclusive_space cs of [] \<Rightarrow> [[c]] | w # ws \<Rightarrow> (c # w) # ws)"

text \<open>The deltas, and how the inference ends: \<open>None\<close> if it never does.\<close>

definition fake_infer ::
  "codec \<Rightarrow> model_id \<Rightarrow> inference_ir \<Rightarrow> string list \<times> (provider_error + string) option" where
  "fake_infer cx m ir =
     (case from_name ''fake model'' fake_models fake_model_str (model_str m) of
        Inl _ \<Rightarrow> ([], Some (Inl (Unknown_Model m)))
      | Inr Fake_Echo \<Rightarrow>
          (split_inclusive_space (re_prose (echo_response ir)), Some (Inr (text_of_response cx (echo_response ir))))
      | Inr Fake_Tool \<Rightarrow>
          (split_inclusive_space (re_prose (tool_response cx ir)), Some (Inr (text_of_response cx (tool_response cx ir))))
      | Inr Fake_Malformed \<Rightarrow>
          (let prose = ''This response will be cut off mid-document.''
           in (split_inclusive_space prose, Some (Inr (malformed_text prose))))
      | Inr Fake_Invalid_Schema \<Rightarrow>
          (let prose = ''Here is a plan instead of emissions.''
           in (split_inclusive_space prose, Some (Inr (json_text cx (invalid_document prose)))))
      | Inr Fake_Dangling_Edge \<Rightarrow>
          (split_inclusive_space (re_prose dangling_response), Some (Inr (text_of_response cx dangling_response)))
      | Inr Fake_Cycle \<Rightarrow>
          (split_inclusive_space (re_prose cycle_response), Some (Inr (text_of_response cx cycle_response)))
      | Inr Fake_Timeout \<Rightarrow> (split_inclusive_space ''Thinking... '', None)
      | Inr Fake_Error \<Rightarrow> ([], Some (Inl (Request_Failed ''fake-error: simulated endpoint failure''))))"

text \<open>The provider the runtime sees; what never ends meets the inference timeout.\<close>

definition fake_provider :: "codec \<Rightarrow> provider" where
  "fake_provider cx =
     \<lparr>pv_id = fake_provider_id, pv_window = (\<lambda>tr m. Some None),
      pv_infer = (\<lambda>tr m ir. case fake_infer cx m ir of
        (deltas, Some outcome) \<Rightarrow> (deltas, Answer outcome) | (deltas, None) \<Rightarrow> (deltas, Elapsed))\<rparr>"

section \<open>Properties\<close>

lemma concat_split_inclusive_space [simp]: "concat (split_inclusive_space s) = s"
  by (induction s) (auto split: list.split)

definition reads_back :: "codec \<Rightarrow> inference_response \<Rightarrow> bool" where
  "reads_back cx response =
     (case json_read cx (text_of_response cx response) of
        Inr doc \<Rightarrow> schema_errors cx Inference_Response_Contract doc = [] \<and> read_response cx doc = Inr response
      | Inl _ \<Rightarrow> False)"

lemma validate_reads_back:
  "reads_back cx response \<Longrightarrow>
   contract_parse cx Inference_Response_Contract (read_response cx) (text_of_response cx response) = Inr response"
  by (auto simp: reads_back_def contract_parse_Inr split: sum.splits)

lemmas fake_parts = plain_response_def fake_node_def fake_edge_def Let_def

lemma echo_valid:
  assumes "reads_back cx (echo_response ir)"
  shows "validate_response cx (text_of_response cx (echo_response ir)) ir = Inr (Validated_Response (echo_response ir))"
  unfolding validate_response_def validate_reads_back [OF assms] by (simp add: echo_response_def fake_parts)

lemma tool_valid:
  assumes "reads_back cx (tool_response cx ir)"
  shows "validate_response cx (text_of_response cx (tool_response cx ir)) ir = Inr (Validated_Response (tool_response cx ir))"
proof -
  have "re_emissions (tool_response cx ir) = []"
    by (simp add: tool_response_def fake_parts split: option.split list.split)
  then show ?thesis
    unfolding validate_response_def validate_reads_back [OF assms] by simp
qed

lemma dangling_invalid:
  assumes "reads_back cx dangling_response" "unseen_node \<notin> ic_node ` set (ii_context ir)" "ik_node (ii_task ir) \<noteq> unseen_node"
  shows "validate_response cx (text_of_response cx dangling_response) ir = Inl (Unknown_Endpoint (Node_End unseen_node))"
  unfolding validate_response_def validate_reads_back [OF assms(1)]
  using assms(2,3) by (simp add: dangling_response_def fake_parts)

lemma cycle_valid:
  assumes "reads_back cx cycle_response"
  shows "validate_response cx (text_of_response cx cycle_response) ir = Inr (Validated_Response cycle_response)"
  unfolding validate_response_def validate_reads_back [OF assms] by (simp add: cycle_response_def fake_parts)

text \<open>A response whose edges form a cycle is never applied.\<close>

lemma cycle_not_applied:
  assumes "apply_response r (Validated_Response cycle_response) s = (Inr x, u)" "acyclic (edge_rel (conn s))"
    and "validate_response cx raw ir = Inr (Validated_Response cycle_response)"
  shows False
proof -
  let ?es = "re_emissions cycle_response"
  let ?first = "Emission_Ref ''first''" and ?second = "Emission_Ref ''second''"
  from apply_response_Inr [OF assms(3,1,2)] obtain ns eds evs where
      u: "conn u = (conn s)\<lparr>t_nodes := t_nodes (conn s) @ map (Pair (rn_project r)) ns,
        t_edges := t_edges (conn s) @ map (Pair (rn_project r)) eds, t_events := t_events (conn s) @ evs\<rparr>"
    and ns: "map (\<lambda>n. (nd_type n, nd_payload n)) ns = List.map_filter emitted_node ?es"
    and eds: "map (\<lambda>e. (Some (ed_from e), Some (ed_to e), ed_type e)) eds =
      List.map_filter (emitted_edge (map_of (zip (declared_refs ?es) (map nd_id ns)))) ?es"
    and acyclic: "acyclic (edge_rel (conn u))"
    by auto
  have "length ns = length (List.map_filter emitted_node ?es)"
    using ns by (metis length_map)
  then obtain a b where ab: "ns = [a, b]"
    by (auto simp: cycle_response_def fake_parts map_filter_simps length_Suc_conv)
  have "map (\<lambda>e. (Some (ed_from e), Some (ed_to e), ed_type e)) eds =
      [(Some (nd_id a), Some (nd_id b), Depends_On), (Some (nd_id b), Some (nd_id a), Depends_On)]"
    unfolding eds ab by (simp add: cycle_response_def fake_parts map_filter_simps)
  then have "(nd_id a, nd_id b) \<in> edge_rel (conn u)" "(nd_id b, nd_id a) \<in> edge_rel (conn u)"
    unfolding u by (auto simp: edge_rel_def edge_pairs_def map_eq_Cons_conv)
  then have "(nd_id a, nd_id a) \<in> (edge_rel (conn u))\<^sup>+" by auto
  then show False using acyclic by (auto simp: acyclic_def)
qed

lemma fake_model_parses: "from_name ''fake model'' fake_models fake_model_str (fake_model_str k) = Inr k"
  by (rule fake_model.from_name_as_str)

lemma fake_infer_of:
  "fake_infer cx (Model_Id (fake_model_str k)) ir =
     (case k of
        Fake_Echo \<Rightarrow> (split_inclusive_space (re_prose (echo_response ir)), Some (Inr (text_of_response cx (echo_response ir))))
      | Fake_Tool \<Rightarrow> (split_inclusive_space (re_prose (tool_response cx ir)), Some (Inr (text_of_response cx (tool_response cx ir))))
      | Fake_Malformed \<Rightarrow> (split_inclusive_space ''This response will be cut off mid-document.'',
          Some (Inr (malformed_text ''This response will be cut off mid-document.'')))
      | Fake_Invalid_Schema \<Rightarrow> (split_inclusive_space ''Here is a plan instead of emissions.'',
          Some (Inr (json_text cx (invalid_document ''Here is a plan instead of emissions.''))))
      | Fake_Dangling_Edge \<Rightarrow> (split_inclusive_space (re_prose dangling_response), Some (Inr (text_of_response cx dangling_response)))
      | Fake_Cycle \<Rightarrow> (split_inclusive_space (re_prose cycle_response), Some (Inr (text_of_response cx cycle_response)))
      | Fake_Timeout \<Rightarrow> (split_inclusive_space ''Thinking... '', None)
      | Fake_Error \<Rightarrow> ([], Some (Inl (Request_Failed ''fake-error: simulated endpoint failure''))))"
  unfolding fake_infer_def model_id.sel fake_model_parses by (cases k) (simp_all add: Let_def)

text \<open>What validation makes of a model's output.\<close>

definition fake_judged :: "codec \<Rightarrow> fake_model \<Rightarrow> inference_ir \<Rightarrow> (response_error + validated_response) option" where
  "fake_judged cx k ir =
     (case fake_infer cx (Model_Id (fake_model_str k)) ir of
        (_, Some (Inr raw)) \<Rightarrow> Some (validate_response cx raw ir)
      | _ \<Rightarrow> None)"

text \<open>The offline models do what they are for, with a codec that reads back what it prints: the echo and
  the tool model answer every IR with a response that passes validation; the dangling edge is refused by
  validation, naming the node, whenever that node is not in the IR; the cycle passes validation and is
  refused in every store whose graph is acyclic; and what the echo and the tool model stream is their
  response's prose.\<close>

theorem fake_models_as_documented:
  assumes "list_all (reads_back cx) [echo_response ir, tool_response cx ir, dangling_response, cycle_response]"
    and "unseen_node \<notin> set (ik_node (ii_task ir) # map ic_node (ii_context ir))" and "acyclic (edge_rel (conn s))"
  shows "fake_judged cx Fake_Echo ir = Some (Inr (Validated_Response (echo_response ir))) \<and>
    fake_judged cx Fake_Tool ir = Some (Inr (Validated_Response (tool_response cx ir))) \<and>
    fake_judged cx Fake_Dangling_Edge ir = Some (Inl (Unknown_Endpoint (Node_End unseen_node))) \<and>
    fake_judged cx Fake_Cycle ir = Some (Inr (Validated_Response cycle_response)) \<and>
    (\<exists>e. fst (apply_response r (Validated_Response cycle_response) s) = Inl e) \<and>
    concat (fst (fake_infer cx (Model_Id (fake_model_str Fake_Echo)) ir)) = re_prose (echo_response ir) \<and>
    concat (fst (fake_infer cx (Model_Id (fake_model_str Fake_Tool)) ir)) = re_prose (tool_response cx ir)"
proof -
  have reads: "reads_back cx (echo_response ir)" "reads_back cx (tool_response cx ir)"
    "reads_back cx dangling_response" "reads_back cx cycle_response"
    using assms(1) by simp_all
  have "\<exists>e. fst (apply_response r (Validated_Response cycle_response) s) = Inl e"
  proof (cases "apply_response r (Validated_Response cycle_response) s")
    case (Pair outcome u)
    then show ?thesis
      using cycle_not_applied [of r s _ u cx _ ir, OF _ assms(3) cycle_valid [OF reads(4)]]
      by (cases outcome) auto
  qed
  then show ?thesis
    using echo_valid [OF reads(1)] tool_valid [OF reads(2)] dangling_invalid [OF reads(3)] cycle_valid [OF reads(4)] assms(2)
    by (auto simp: fake_judged_def fake_infer_of simp del: fake_model_str.simps)
qed

text \<open>A codec for the four responses to \<open>demo_ir\<close>.\<close>

definition fake_codec :: codec where
  "fake_codec = demo_codec\<lparr>
     text_of_response := re_prose,
     read_response := (\<lambda>j. case find (\<lambda>r. j = JStr (re_prose r))
        [echo_response demo_ir, tool_response demo_codec demo_ir, dangling_response, cycle_response] of
          Some r \<Rightarrow> Inr r | None \<Rightarrow> Inl ''unknown'')\<rparr>"

lemma fake_models_as_documented_witness:
  "fake_judged fake_codec Fake_Dangling_Edge demo_ir = Some (Inl (Unknown_Endpoint (Node_End unseen_node))) \<and>
   (\<exists>e. fst (apply_response chat_run (Validated_Response cycle_response) dag_demo) = Inl e)"
proof -
  have "list_all (reads_back fake_codec)
      [echo_response demo_ir, tool_response fake_codec demo_ir, dangling_response, cycle_response]"
    by code_simp
  moreover have "unseen_node \<notin> set (ik_node (ii_task demo_ir) # map ic_node (ii_context demo_ir))"
    by code_simp
  moreover have "acyclic (edge_rel (conn dag_demo))"
    by (simp add: dag_demo_def edge_rel_def edge_pairs_def acyclic_insert wf_acyclic)
  ultimately show ?thesis
    using fake_models_as_documented [of fake_codec demo_ir dag_demo chat_run] by blast
qed

end
