(* ===== verification/Providers.thy ===== *)
theory Providers
  imports Keys Endpoint Fake_Provider
begin

text \<open>
  \<open>dagos/src/providers.rs\<close>: which providers a process offers, from presets, \<open>providers.json\<close>, saved keys and
  the environment, which Jev classifies, and what the settings screen shows of it. What reading the file
  gives, the derived (de)serializers and what the disk makes of a write are parameters.
\<close>

section \<open>Presets\<close>

record preset =
  pt_id :: string
  pt_name :: string
  pt_base_url :: string
  pt_key_env :: string
  pt_key_url :: string
  pt_key_check :: "string option"

definition presets :: "preset list" where
  "presets =
     [\<lparr>pt_id = ''openrouter'', pt_name = ''OpenRouter'', pt_base_url = ''https://openrouter.ai/api/v1'',
        pt_key_env = ''OPENROUTER_API_KEY'', pt_key_url = ''https://openrouter.ai/settings/keys'',
        pt_key_check = Some ''/key''\<rparr>,
      \<lparr>pt_id = ''openai'', pt_name = ''OpenAI'', pt_base_url = ''https://api.openai.com/v1'',
        pt_key_env = ''OPENAI_API_KEY'', pt_key_url = ''https://platform.openai.com/api-keys'',
        pt_key_check = None\<rparr>,
      \<lparr>pt_id = ''zai'', pt_name = ''Z.ai'', pt_base_url = ''https://api.z.ai/api/paas/v4'',
        pt_key_env = ''ZAI_API_KEY'', pt_key_url = ''https://z.ai/manage-apikey/apikey-list'',
        pt_key_check = None\<rparr>]"

definition preset_of :: "provider_id \<Rightarrow> preset option" where
  "preset_of i = find (\<lambda>p. pt_id p = provider_str i) presets"

section \<open>The file\<close>

record jev_entry =
  je_provider :: provider_id
  je_model :: model_id

text \<open>\<open>ProviderKind\<close> has one variant and is left out.\<close>

record provider_entry =
  pe_id :: provider_id
  pe_base_url :: string
  pe_api_key_env :: "string option"
  pe_models :: "model_id list"
  pe_json_mode :: bool
  pe_native_tools :: bool

record providers_file =
  pf_providers :: "provider_entry list"
  pf_jev :: "jev_entry option"

definition no_providers_file :: providers_file where
  "no_providers_file = \<lparr>pf_providers = [], pf_jev = None\<rparr>"

type_synonym disk_file = "(string + string) option"

definition read_providers :: "(string \<Rightarrow> string + providers_file) \<Rightarrow> string \<Rightarrow> disk_file \<Rightarrow> string + providers_file" where
  "read_providers parse path file =
     (case file of
        None \<Rightarrow> Inr no_providers_file
      | Some (Inl e) \<Rightarrow> Inl (''cannot read '' @ path @ '': '' @ e)
      | Some (Inr t) \<Rightarrow>
          (case parse t of
             Inl e \<Rightarrow> Inl (''invalid '' @ path @ '': '' @ e)
           | Inr f \<Rightarrow> Inr f))"

text \<open>What the disk makes of a \<open>std::fs::write\<close>; one that fails leaves whatever it leaves.\<close>

datatype disk_write = Disk_Ok | Disk_Failed string disk_file

fun write_result :: "disk_write \<Rightarrow> string + unit" where
  "write_result Disk_Ok = Inr ()"
| "write_result (Disk_Failed e left) = Inl e"

fun file_after :: "disk_write \<Rightarrow> string \<Rightarrow> disk_file" where
  "file_after Disk_Ok t = Some (Inr t)"
| "file_after (Disk_Failed e left) t = left"

text \<open>The outcome and the file afterwards.\<close>

definition write_providers ::
  "(providers_file \<Rightarrow> string) \<Rightarrow> string \<Rightarrow> disk_write \<Rightarrow> providers_file \<Rightarrow> (string + unit) \<times> disk_file" where
  "write_providers print path dw f =
     (map_sum (\<lambda>e. ''cannot save '' @ path @ '': '' @ e) id (write_result dw), file_after dw (print f @ [CHR 0x0A]))"

definition validate_base_url :: "string \<Rightarrow> string + unit" where
  "validate_base_url url =
     (case (case strip_prefix ''https://'' url of Some r \<Rightarrow> Some r | None \<Rightarrow> strip_prefix ''http://'' url) of
        Some r \<Rightarrow> if r \<noteq> [] \<and> \<not> list_ex is_whitespace (chars_of url) then Inr ()
          else Inl ([CHR 0x60] @ url @ [CHR 0x60] @ '' is not an http(s) URL'')
      | None \<Rightarrow> Inl ([CHR 0x60] @ url @ [CHR 0x60] @ '' is not an http(s) URL''))"

definition env_name :: "string \<Rightarrow> bool" where
  "env_name name \<longleftrightarrow>
     name \<noteq> [] \<and> list_all (\<lambda>b. is_ascii_alphanumeric b \<or> b = CHR ''_'') name \<and> \<not> is_ascii_digit (hd name)"

definition fake_reserved :: string where
  "fake_reserved = ''provider id '' @ [CHR 0x60] @ ''fake'' @ [CHR 0x60] @ '' is reserved for the built-in fake provider''"

fun put_entry :: "provider_entry \<Rightarrow> provider_entry list \<Rightarrow> provider_entry list" where
  "put_entry e [] = [e]"
| "put_entry e (x # xs) = (if pe_id x = pe_id e then e # xs else x # put_entry e xs)"

definition check_entry :: "provider_entry \<Rightarrow> string + unit" where
  "check_entry e =
     (if pe_id e = fake_provider_id then Inl fake_reserved
      else case validate_base_url (pe_base_url e) of
        Inl error \<Rightarrow> Inl error
      | Inr _ \<Rightarrow>
          (case pe_api_key_env e of
             None \<Rightarrow> Inr ()
           | Some name \<Rightarrow>
               if env_name name then Inr ()
               else Inl ([CHR 0x60] @ name @ [CHR 0x60] @ '' is not an environment variable name'')))"

definition save_custom ::
  "(string \<Rightarrow> string + providers_file) \<Rightarrow> (providers_file \<Rightarrow> string) \<Rightarrow> string \<Rightarrow> disk_write \<Rightarrow> provider_entry \<Rightarrow>
   disk_file \<Rightarrow> (string + unit) \<times> disk_file" where
  "save_custom parse print path dw e file =
     (case check_entry e of
        Inl error \<Rightarrow> (Inl error, file)
      | Inr _ \<Rightarrow>
          (case read_providers parse path file of
             Inl error \<Rightarrow> (Inl error, file)
           | Inr f \<Rightarrow> write_providers print path dw (f\<lparr>pf_providers := put_entry e (pf_providers f)\<rparr>)))"

definition remove_custom ::
  "(string \<Rightarrow> string + providers_file) \<Rightarrow> (providers_file \<Rightarrow> string) \<Rightarrow> string \<Rightarrow> disk_write \<Rightarrow> provider_id \<Rightarrow>
   disk_file \<Rightarrow> (string + bool) \<times> disk_file" where
  "remove_custom parse print path dw i file =
     (case read_providers parse path file of
        Inl error \<Rightarrow> (Inl error, file)
      | Inr f \<Rightarrow>
          (let kept = filter (\<lambda>e. pe_id e \<noteq> i) (pf_providers f)
           in if length kept = length (pf_providers f) then (Inr False, file)
              else case write_providers print path dw (f\<lparr>pf_providers := kept\<rparr>) of
                (Inl error, g) \<Rightarrow> (Inl error, g)
              | (Inr _, g) \<Rightarrow> (Inr True, g)))"

definition set_jev ::
  "(string \<Rightarrow> string + providers_file) \<Rightarrow> (providers_file \<Rightarrow> string) \<Rightarrow> string \<Rightarrow> disk_write \<Rightarrow> jev_entry option \<Rightarrow>
   disk_file \<Rightarrow> (string + unit) \<times> disk_file" where
  "set_jev parse print path dw jev file =
     (case read_providers parse path file of
        Inl error \<Rightarrow> (Inl error, file)
      | Inr f \<Rightarrow> write_providers print path dw (f\<lparr>pf_jev := jev\<rparr>))"

section \<open>Settings\<close>

datatype key_source = Key_Env | Key_Saved | Key_None | Key_Not_Needed

record key_status =
  st_source :: key_source
  st_env_var :: "string option"
  st_saved :: bool
  st_hint :: "string option"
  st_manage_url :: "string option"

datatype origin = Builtin_Origin | Preset_Origin | Custom_Origin

record provider_setting =
  se_id :: provider_id
  se_name :: string
  se_origin :: origin
  se_base_url :: "string option"
  se_models :: "model_id list"
  se_json_mode :: bool
  se_key :: key_status
  se_available :: bool

datatype jev_source = Jev_Default | Jev_File | Jev_Env

record jev_setting =
  js_provider :: "provider_id option"
  js_model :: "model_id option"
  js_source :: jev_source
  js_active :: string
  js_fallback :: string
  js_problem :: "string option"

record settings =
  sg_providers :: "provider_setting list"
  sg_jev :: jev_setting
  sg_keys_file :: "string option"

text \<open>Providers and Jevs as the trait objects that \<open>load\<close> builds.\<close>

datatype loaded_provider = Offline_Provider | Chat_Provider endpoint_config

datatype loaded_jev =
    Offline_Jev
  | Chat_Jev endpoint_config model_id
  | Decisions_Jev endpoint_config model_id

definition loaded_id :: "loaded_provider \<Rightarrow> provider_id" where
  "loaded_id p = (case p of Offline_Provider \<Rightarrow> fake_provider_id | Chat_Provider c \<Rightarrow> oc_id c)"

definition fake_jev_id :: string where
  "fake_jev_id = ''fake-jev''"

definition loaded_jev_id :: "loaded_jev \<Rightarrow> string" where
  "loaded_jev_id j =
     (case j of Offline_Jev \<Rightarrow> fake_jev_id | Chat_Jev c m \<Rightarrow> jev_id c m | Decisions_Jev c m \<Rightarrow> jev_id c m)"

record loaded =
  ld_providers :: "loaded_provider list"
  ld_jev :: loaded_jev
  ld_fallback :: loaded_jev
  ld_settings :: settings
  ld_endpoints :: "(provider_id, endpoint_config \<times> string option) btree"

section \<open>Loading\<close>

text \<open>What \<open>load\<close> reads: the environment without blank variables and the saved keys.\<close>

record key_view =
  kv_env :: "string \<Rightarrow> string option"
  kv_saved :: saved_keys

definition resolve_key :: "key_view \<Rightarrow> provider_id \<Rightarrow> string option \<Rightarrow> (key_source \<times> string) option" where
  "resolve_key kv i env_var =
     (case Option.bind env_var (kv_env kv) of
        Some key \<Rightarrow> Some (Key_Env, key)
      | None \<Rightarrow> map_option (Pair Key_Saved) (map_of (kv_saved kv) i))"

definition key_status_of :: "key_view \<Rightarrow> provider_id \<Rightarrow> string option \<Rightarrow> (key_source \<times> string) option \<Rightarrow> key_status" where
  "key_status_of kv i env_var key =
     \<lparr>st_source = (case key of Some (source, _) \<Rightarrow> source | None \<Rightarrow> Key_None), st_env_var = env_var,
      st_saved = (map_of (kv_saved kv) i \<noteq> None), st_hint = map_option (\<lambda>(_, k). hint k) key,
      st_manage_url = map_option pt_key_url (preset_of i)\<rparr>"

definition fake_setting :: provider_setting where
  "fake_setting =
     \<lparr>se_id = fake_provider_id, se_name = ''Offline fake'', se_origin = Builtin_Origin, se_base_url = None,
      se_models = fake_suggested_models, se_json_mode = True,
      se_key = \<lparr>st_source = Key_Not_Needed, st_env_var = None, st_saved = False, st_hint = None, st_manage_url = None\<rparr>,
      se_available = True\<rparr>"

type_synonym offered = "provider_setting \<times> (endpoint_config \<times> string option) option"

definition preset_offer :: "key_view \<Rightarrow> preset \<Rightarrow> offered" where
  "preset_offer kv p =
     (let i = Provider_Id (pt_id p); key = resolve_key kv i (Some (pt_key_env p))
      in (\<lparr>se_id = i, se_name = pt_name p, se_origin = Preset_Origin, se_base_url = Some (pt_base_url p),
           se_models = [], se_json_mode = True, se_key = key_status_of kv i (Some (pt_key_env p)) key,
           se_available = (key \<noteq> None)\<rparr>,
          map_option (\<lambda>(_, k).
            (\<lparr>oc_id = i, oc_base_url = pt_base_url p, oc_api_key = Some k, oc_models = [], oc_json_mode = True,
              oc_native_tools = True, oc_model_windows = (pt_id p = ''openrouter'')\<rparr>, pt_key_check p)) key))"

definition entry_offer :: "key_view \<Rightarrow> provider_entry \<Rightarrow> offered" where
  "entry_offer kv e =
     (let key = resolve_key kv (pe_id e) (pe_api_key_env e)
      in (\<lparr>se_id = pe_id e,
           se_name = (case preset_of (pe_id e) of None \<Rightarrow> provider_str (pe_id e) | Some p \<Rightarrow> pt_name p),
           se_origin = Custom_Origin, se_base_url = Some (pe_base_url e), se_models = pe_models e,
           se_json_mode = pe_json_mode e, se_key = key_status_of kv (pe_id e) (pe_api_key_env e) key,
           se_available = True\<rparr>,
          Some (\<lparr>oc_id = pe_id e, oc_base_url = pe_base_url e, oc_api_key = map_option snd key,
             oc_models = pe_models e, oc_json_mode = pe_json_mode e, oc_native_tools = pe_native_tools e,
             oc_model_windows = False\<rparr>, None)))"

definition entry_warning :: "key_view \<Rightarrow> provider_entry \<Rightarrow> string list" where
  "entry_warning kv e =
     (case (pe_api_key_env e, resolve_key kv (pe_id e) (pe_api_key_env e)) of
        (Some name, None) \<Rightarrow>
          [''provider '' @ [CHR 0x60] @ provider_str (pe_id e) @ [CHR 0x60] @ '': environment variable '' @ name @
           '' is not set and no key is saved'']
      | _ \<Rightarrow> [])"

text \<open>The loop over the entries of the file, which a reserved ID ends.\<close>

fun entry_offers :: "key_view \<Rightarrow> provider_entry list \<Rightarrow> string list \<times> (string + offered list)" where
  "entry_offers kv [] = ([], Inr [])"
| "entry_offers kv (e # es) =
     (if pe_id e = fake_provider_id then ([], Inl fake_reserved)
      else case entry_offers kv es of
        (warnings, out) \<Rightarrow> (entry_warning kv e @ warnings, map_sum id ((#) (entry_offer kv e)) out))"

text \<open>The presets that the file does not override.\<close>

definition open_presets :: "provider_entry list \<Rightarrow> preset list" where
  "open_presets es = filter (\<lambda>p. \<not> list_ex (\<lambda>e. pe_id e = Provider_Id (pt_id p)) es) presets"

text \<open>The fake provider, then presets in their order, then the others.\<close>

definition provider_rank :: "provider_id \<Rightarrow> nat" where
  "provider_rank i =
     (if i = fake_provider_id then 0
      else 1 + length (takeWhile (\<lambda>p. pt_id p \<noteq> provider_str i) presets))"

fun identity_error_str :: "identity_error \<Rightarrow> string" where
  "identity_error_str (Identity_Error kind value rule) =
     ''invalid '' @ kind @ '' '' @ [CHR 0x60] @ value @ [CHR 0x60] @ '': '' @ rule"

definition chosen_jev :: "key_view \<Rightarrow> providers_file \<Rightarrow> string + (jev_entry \<times> jev_source) option" where
  "chosen_jev kv f =
     (case (kv_env kv ''DAGOS_JEV_PROVIDER'', kv_env kv ''DAGOS_JEV_MODEL'') of
        (Some p, Some m) \<Rightarrow>
          (case parse_provider_id p of
             Inl e \<Rightarrow> Inl (''DAGOS_JEV_PROVIDER: '' @ identity_error_str e)
           | Inr p' \<Rightarrow>
               (case parse_model_id m of
                  Inl e \<Rightarrow> Inl (''DAGOS_JEV_MODEL: '' @ identity_error_str e)
                | Inr m' \<Rightarrow> Inr (Some (\<lparr>je_provider = p', je_model = m'\<rparr>, Jev_Env))))
      | _ \<Rightarrow> Inr (map_option (\<lambda>e. (e, Jev_File)) (pf_jev f)))"

definition jev_setting_of :: "jev_entry option \<Rightarrow> jev_source \<Rightarrow> string \<Rightarrow> string option \<Rightarrow> jev_setting" where
  "jev_setting_of entry source active problem =
     \<lparr>js_provider = map_option je_provider entry, js_model = map_option je_model entry, js_source = source,
      js_active = active, js_fallback = [], js_problem = problem\<rparr>"

definition jev_problem :: "provider_id \<Rightarrow> string" where
  "jev_problem i =
     ''Jev provider '' @ [CHR 0x60] @ provider_str i @ [CHR 0x60] @ '' is not available (it needs an API key or is '' @
     ''not configured); classifying with the offline policy instead''"

text \<open>The Jev, its setting and the warnings.\<close>

definition pick_jev ::
  "(provider_id, endpoint_config \<times> string option) btree \<Rightarrow> (jev_entry \<times> jev_source) option \<Rightarrow>
   loaded_jev \<times> jev_setting \<times> string list" where
  "pick_jev endpoints choice =
     (case choice of
        None \<Rightarrow> (Offline_Jev, jev_setting_of None Jev_Default fake_jev_id None, [])
      | Some (entry, source) \<Rightarrow>
          (case map_of endpoints (je_provider entry) of
             Some (c, _) \<Rightarrow>
               (let j = (if is_decisions_model (je_model entry) then Decisions_Jev c (je_model entry)
                         else Chat_Jev c (je_model entry))
                in (j, jev_setting_of (Some entry) source (loaded_jev_id j) None, []))
           | None \<Rightarrow>
               (let problem = jev_problem (je_provider entry)
                in (Offline_Jev, jev_setting_of (Some entry) source fake_jev_id (Some problem), [problem]))))"

definition nonblank :: "(string \<Rightarrow> string option) \<Rightarrow> string \<Rightarrow> string option" where
  "nonblank env name = (case env name of Some v \<Rightarrow> if trim v = [] then None else Some v | None \<Rightarrow> None)"

definition load_saved :: "(string \<Rightarrow> string + saved_keys) \<Rightarrow> key_store option \<Rightarrow> saved_keys \<times> string list" where
  "load_saved parse keys =
     (case keys of
        None \<Rightarrow> ([], [])
      | Some ks \<Rightarrow>
          (case read_keys parse ks of
             Inl e \<Rightarrow> ([], [''ignoring saved API keys: '' @ e])
           | Inr m \<Rightarrow> (m, [])))"

definition sorted_configs :: "offered list \<Rightarrow> (endpoint_config \<times> string option) list" where
  "sorted_configs offers = sort_key (\<lambda>(c, _). provider_rank (oc_id c)) (List.map_filter snd offers)"

definition endpoints_of :: "(endpoint_config \<times> string option) list \<Rightarrow> (provider_id, endpoint_config \<times> string option) btree" where
  "endpoints_of configs = bt_of_list (map (\<lambda>(c, check). (oc_id c, (c, check))) configs)"

text \<open>The last part of \<open>load\<close>: the warnings about the Jev, and the result.\<close>

definition assemble :: "offered list \<Rightarrow> (jev_entry \<times> jev_source) option \<Rightarrow> string option \<Rightarrow> string list \<times> loaded" where
  "assemble offers choice keys_path =
     (let configs = sorted_configs offers; endpoints = endpoints_of configs
      in case pick_jev endpoints choice of (j, js, notes) \<Rightarrow>
        (notes,
         \<lparr>ld_providers = Offline_Provider # map (\<lambda>(c, _). Chat_Provider c) configs, ld_jev = j, ld_fallback = Offline_Jev,
          ld_settings = \<lparr>sg_providers = sort_key (\<lambda>s. provider_rank (se_id s)) (fake_setting # map fst offers),
            sg_jev = js\<lparr>js_fallback := fake_jev_id\<rparr>, sg_keys_file = keys_path\<rparr>,
          ld_endpoints = endpoints\<rparr>))"

text \<open>The warnings, and the outcome.\<close>

definition load_providers ::
  "(string \<Rightarrow> string + providers_file) \<Rightarrow> string \<Rightarrow> disk_file \<Rightarrow> (string \<Rightarrow> string option) \<Rightarrow>
   (string \<Rightarrow> string + saved_keys) \<Rightarrow> key_store option \<Rightarrow> string list \<times> (string + loaded)" where
  "load_providers parse path file env parse_keys keys =
     (case load_saved parse_keys keys of (saved, warned) \<Rightarrow>
       (let kv = \<lparr>kv_env = nonblank env, kv_saved = saved\<rparr>
        in case read_providers parse path file of
             Inl e \<Rightarrow> (warned, Inl e)
           | Inr f \<Rightarrow>
               (case entry_offers kv (pf_providers f) of
                  (warnings, Inl e) \<Rightarrow> (warned @ warnings, Inl e)
                | (warnings, Inr customs) \<Rightarrow>
                    (case chosen_jev kv f of
                       Inl e \<Rightarrow> (warned @ warnings, Inl e)
                     | Inr choice \<Rightarrow>
                         (case assemble (map (preset_offer kv) (open_presets (pf_providers f)) @ customs) choice
                                 (map_option ks_path keys) of
                            (notes, l) \<Rightarrow> (warned @ warnings @ notes, Inr l))))))"

end
