(* ===== verification/Provider_Settings.thy ===== *)
theory Provider_Settings
  imports Providers
begin

text \<open>
  What \<open>load\<close> gives: the settings screen, the warnings and the choice of Jev depend on keys only through which
  there are and their hints; the providers it lists as available are the ones the runtime gets; a model
  Jev runs on one of them.
\<close>

section \<open>Sorting\<close>

lemma insort_key_map: "insort_key k (f x) (map f xs) = map f (insort_key (\<lambda>y. k (f y)) x xs)"
  by (induction xs) simp_all

lemma sort_key_map: "sort_key k (map f xs) = map f (sort_key (\<lambda>y. k (f y)) xs)"
  by (induction xs) (simp_all add: insort_key_map)

lemma map_filter_map: "List.map_filter f (map g xs) = List.map_filter (f \<circ> g) xs"
  by (simp add: List.map_filter_def o_def filter_map)

lemma map_map_filter: "map g (List.map_filter f xs) = List.map_filter (\<lambda>x. map_option g (f x)) xs"
  by (simp add: List.map_filter_def o_def) (auto simp: map_option_case split: option.splits intro: map_cong filter_cong)

lemma bt_insert_map_snd: "bt_insert k (g v) (map (map_prod id g) m) = map (map_prod id g) (bt_insert k v m)"
  by (induction k v m rule: bt_insert.induct) auto

lemma bt_of_list_snoc: "bt_of_list (xs @ [x]) = bt_insert (fst x) (snd x) (bt_of_list xs)"
  by (simp add: bt_of_list_def)

lemma bt_of_list_map_snd: "bt_of_list (map (map_prod id g) kvs) = map (map_prod id g) (bt_of_list kvs)"
proof (induction kvs rule: rev_induct)
  case (snoc kv kvs)
  have "bt_of_list (map (map_prod id g) (kvs @ [kv])) = bt_insert (fst kv) (g (snd kv)) (bt_of_list (map (map_prod id g) kvs))"
    by (simp add: bt_of_list_snoc)
  also have "\<dots> = map (map_prod id g) (bt_of_list (kvs @ [kv]))"
    unfolding snoc.IH bt_insert_map_snd bt_of_list_snoc ..
  finally show ?case .
qed (simp add: bt_of_list_def)

lemma map_of_map_snd: "map_of (map (map_prod id g) m) k = map_option g (map_of m k)"
  by (induction m) auto

section \<open>Keys do not show\<close>

text \<open>Two values of which the same is shown.\<close>

definition same_hint :: "string \<Rightarrow> string \<Rightarrow> bool" where
  "same_hint k k' \<longleftrightarrow> hint k = hint k' \<and> (trim k = [] \<longleftrightarrow> trim k' = [])"

definition same_saved :: "saved_keys \<Rightarrow> saved_keys \<Rightarrow> bool" where
  "same_saved m m' \<longleftrightarrow> list_all2 (\<lambda>(p, k) (p', k'). p = p' \<and> hint k = hint k') m m'"

definition jev_variables :: "string list" where
  "jev_variables = [''DAGOS_JEV_PROVIDER'', ''DAGOS_JEV_MODEL'']"

definition same_env :: "(string \<Rightarrow> string option) \<Rightarrow> (string \<Rightarrow> string option) \<Rightarrow> bool" where
  "same_env env env' \<longleftrightarrow>
     (\<forall>n. rel_option same_hint (env n) (env' n)) \<and> (\<forall>n \<in> set jev_variables. env n = env' n)"

definition same_view :: "key_view \<Rightarrow> key_view \<Rightarrow> bool" where
  "same_view kv kv' \<longleftrightarrow> same_env (kv_env kv) (kv_env kv') \<and> same_saved (kv_saved kv) (kv_saved kv')"

text \<open>What is left of the result without the contents of keys.\<close>

definition redact :: "endpoint_config \<Rightarrow> endpoint_config" where
  "redact c = c\<lparr>oc_api_key := map_option (\<lambda>_. []) (oc_api_key c)\<rparr>"

definition redact_provider :: "loaded_provider \<Rightarrow> loaded_provider" where
  "redact_provider p = (case p of Offline_Provider \<Rightarrow> Offline_Provider | Chat_Provider c \<Rightarrow> Chat_Provider (redact c))"

definition redact_jev :: "loaded_jev \<Rightarrow> loaded_jev" where
  "redact_jev j =
     (case j of
        Offline_Jev \<Rightarrow> Offline_Jev
      | Chat_Jev c m \<Rightarrow> Chat_Jev (redact c) m
      | Decisions_Jev c m \<Rightarrow> Decisions_Jev (redact c) m)"

definition redact_loaded :: "loaded \<Rightarrow> loaded" where
  "redact_loaded l =
     l\<lparr>ld_providers := map redact_provider (ld_providers l), ld_jev := redact_jev (ld_jev l),
       ld_endpoints := map (map_prod id (map_prod redact id)) (ld_endpoints l)\<rparr>"

definition redact_offer :: "offered \<Rightarrow> offered" where
  "redact_offer = map_prod id (map_option (map_prod redact id))"

lemma same_saved_lookup:
  "same_saved m m' \<Longrightarrow> rel_option (\<lambda>k k'. hint k = hint k') (map_of m i) (map_of m' i)"
  unfolding same_saved_def by (induction rule: list_all2_induct) auto

lemma same_view_resolve:
  assumes "same_view kv kv'"
  shows "rel_option (\<lambda>(s, k) (s', k'). s = s' \<and> hint k = hint k') (resolve_key kv i v) (resolve_key kv' i v)"
proof -
  have "rel_option (\<lambda>k k'. hint k = hint k') (Option.bind v (kv_env kv)) (Option.bind v (kv_env kv'))"
  proof (cases v)
    case (Some n)
    have "rel_option same_hint (kv_env kv n) (kv_env kv' n)"
      using assms by (simp add: same_view_def same_env_def)
    then have "rel_option (\<lambda>k k'. hint k = hint k') (kv_env kv n) (kv_env kv' n)"
      by (rule option.rel_mono_strong) (simp add: same_hint_def)
    then show ?thesis using Some by simp
  qed simp
  moreover have "rel_option (\<lambda>k k'. hint k = hint k') (map_of (kv_saved kv) i) (map_of (kv_saved kv') i)"
    using assms same_saved_lookup by (simp add: same_view_def)
  ultimately show ?thesis
    by (auto simp: resolve_key_def option.rel_map elim!: option.rel_cases split: option.split)
qed

lemma same_view_status:
  assumes "same_view kv kv'"
  shows "key_status_of kv i v (resolve_key kv i v) = key_status_of kv' i v (resolve_key kv' i v)"
proof -
  have "map_of (kv_saved kv) i = None \<longleftrightarrow> map_of (kv_saved kv') i = None"
    using assms same_saved_lookup [of "kv_saved kv" "kv_saved kv'" i] by (auto simp: same_view_def elim: option.rel_cases)
  with same_view_resolve [OF assms, of i v] show ?thesis
    by (auto simp: key_status_of_def elim!: option.rel_cases)
qed

lemma same_view_preset: "same_view kv kv' \<Longrightarrow> redact_offer (preset_offer kv p) = redact_offer (preset_offer kv' p)"
  using same_view_resolve [of kv kv' "Provider_Id (pt_id p)" "Some (pt_key_env p)"]
    same_view_status [of kv kv' "Provider_Id (pt_id p)" "Some (pt_key_env p)"]
  by (auto simp: preset_offer_def redact_offer_def redact_def Let_def elim!: option.rel_cases)

lemma same_view_entry: "same_view kv kv' \<Longrightarrow> redact_offer (entry_offer kv e) = redact_offer (entry_offer kv' e)"
  using same_view_resolve [of kv kv' "pe_id e" "pe_api_key_env e"] same_view_status [of kv kv' "pe_id e" "pe_api_key_env e"]
  by (auto simp: entry_offer_def redact_offer_def redact_def Let_def elim!: option.rel_cases)

lemma same_view_warning: "same_view kv kv' \<Longrightarrow> entry_warning kv e = entry_warning kv' e"
  using same_view_resolve [of kv kv' "pe_id e" "pe_api_key_env e"]
  by (auto simp: entry_warning_def elim!: option.rel_cases split: option.split)

lemma same_view_entries:
  assumes "same_view kv kv'"
  shows "map_prod id (map_sum id (map redact_offer)) (entry_offers kv es) =
    map_prod id (map_sum id (map redact_offer)) (entry_offers kv' es)"
proof (induction es)
  case (Cons e es)
  obtain ws out ws' out' where o: "entry_offers kv es = (ws, out)" "entry_offers kv' es = (ws', out')" by force
  then show ?case
    using Cons.IH same_view_entry [OF assms, of e] same_view_warning [OF assms, of e]
    by (cases out; cases out') auto
qed simp

lemma fst_redact_offer [simp]: "fst (redact_offer x) = fst x"
  by (simp add: redact_offer_def)

lemma redact_configs: "sorted_configs (map redact_offer os) = map (map_prod redact id) (sorted_configs os)"
proof -
  have "List.map_filter snd (map redact_offer os) = map (map_prod redact id) (List.map_filter snd os)"
    by (simp add: map_filter_map map_map_filter redact_offer_def o_def)
  then show ?thesis
    by (simp add: sorted_configs_def sort_key_map split_def redact_def)
qed

lemma redact_endpoints: "endpoints_of (map (map_prod redact id) cs) = map (map_prod id (map_prod redact id)) (endpoints_of cs)"
  unfolding endpoints_of_def bt_of_list_map_snd [symmetric]
  by (simp add: o_def split_def redact_def map_prod_def)

text \<open>Offers that are the same without keys give the same result without keys.\<close>

lemma redact_id: "redact c = redact c' \<Longrightarrow> oc_id c = oc_id c'"
  by (drule arg_cong [of _ _ oc_id]) (simp add: redact_def)

lemma redact_pick:
  assumes "map (map_prod id (map_prod redact id)) es = map (map_prod id (map_prod redact id)) es'"
  shows "map_prod redact_jev id (pick_jev es choice) = map_prod redact_jev id (pick_jev es' choice)"
proof (cases choice)
  case (Some x)
  obtain entry source where x: "x = (entry, source)" by force
  have lookup: "map_option (map_prod redact id) (map_of es i) = map_option (map_prod redact id) (map_of es' i)" for i
    using arg_cong [OF assms, of "\<lambda>m. map_of m i"] by (simp only: map_of_map_snd)
  show ?thesis
  proof (cases "map_of es (je_provider entry)")
    case None
    then show ?thesis
      using lookup [of "je_provider entry"] by (simp add: pick_jev_def Some x)
  next
    case found: (Some y)
    show ?thesis
    proof (cases "map_of es' (je_provider entry)")
      case (Some z)
      then have "map_prod redact id y = map_prod redact id z"
        using lookup [of "je_provider entry"] found by simp
      then show ?thesis
        using found Some redact_id [of "fst y" "fst z"]
        by (cases y; cases z) (simp add: pick_jev_def \<open>choice = Some x\<close> x Let_def redact_jev_def loaded_jev_id_def jev_id_def)
    qed (use lookup [of "je_provider entry"] found in simp)
  qed
qed (simp add: pick_jev_def)

lemma redact_providers:
  "map redact_provider (map (\<lambda>(c, _). Chat_Provider c) cs) = map (\<lambda>(c, _). Chat_Provider c) (map (map_prod redact id) cs)"
  by (simp add: redact_provider_def split_def)

lemma map_sum_cases:
  "map_sum id f x = map_sum id f y \<longleftrightarrow>
     (case (x, y) of (Inl e, Inl e') \<Rightarrow> e = e' | (Inr a, Inr b) \<Rightarrow> f a = f b | _ \<Rightarrow> False)"
  by (cases x; cases y) auto

lemma same_view_chosen: "same_view kv kv' \<Longrightarrow> chosen_jev kv f = chosen_jev kv' f"
  by (simp add: chosen_jev_def same_view_def same_env_def jev_variables_def)

lemma nonblank_same: "same_env env env' \<Longrightarrow> same_env (nonblank env) (nonblank env')"
  unfolding same_env_def
proof (intro conjI allI ballI)
  assume *: "(\<forall>n. rel_option same_hint (env n) (env' n)) \<and> (\<forall>n \<in> set jev_variables. env n = env' n)"
  show "rel_option same_hint (nonblank env n) (nonblank env' n)" for n
    using * [THEN conjunct1, THEN spec, of n] by (auto simp: nonblank_def same_hint_def elim!: option.rel_cases)
  show "nonblank env n = nonblank env' n" if "n \<in> set jev_variables" for n
    using * that by (simp add: nonblank_def)
qed

text \<open>Offers that are the same without keys give the same result without keys.\<close>

lemma redact_assemble:
  assumes "map redact_offer os = map redact_offer os'"
  shows "map_prod id redact_loaded (assemble os choice path) = map_prod id redact_loaded (assemble os' choice path)"
proof -
  have configs: "map (map_prod redact id) (sorted_configs os) = map (map_prod redact id) (sorted_configs os')"
    using assms by (metis redact_configs)
  have endpoints: "map (map_prod id (map_prod redact id)) (endpoints_of (sorted_configs os)) =
      map (map_prod id (map_prod redact id)) (endpoints_of (sorted_configs os'))"
    using configs by (metis redact_endpoints)
  have "map fst (map redact_offer os) = map fst (map redact_offer os')" using assms by simp
  then have shown: "map fst os = map fst os'" by (simp add: o_def)
  have providers: "map redact_provider (map (\<lambda>(c, _). Chat_Provider c) (sorted_configs os)) =
      map redact_provider (map (\<lambda>(c, _). Chat_Provider c) (sorted_configs os'))"
    unfolding redact_providers configs ..
  show ?thesis
    using redact_pick [OF endpoints, of choice] endpoints shown providers
    by (auto simp: assemble_def redact_loaded_def Let_def simp del: map_map split: prod.split)
qed

text \<open>C24. No key reaches the settings screen: two processes with the same \<open>providers.json\<close>, whose environments and
  saved keys differ only in the keys themselves (each pair having the same short hint), give the same
  warnings and the same result, settings, providers, Jev and endpoints, but for the contents of the
  endpoints' API keys.\<close>

theorem settings_hide_keys:
  assumes "same_env env env'"
    and "rel_option (\<lambda>ks ks'. ks_path ks = ks_path ks' \<and>
      rel_sum (=) same_saved (read_keys parse_keys ks) (read_keys parse_keys ks')) keys keys'"
  shows "map_prod id (map_sum id redact_loaded) (load_providers parse path file env parse_keys keys) =
    map_prod id (map_sum id redact_loaded) (load_providers parse path file env' parse_keys keys')"
proof -
  obtain saved warned saved' where s: "load_saved parse_keys keys = (saved, warned)"
      "load_saved parse_keys keys' = (saved', warned)" "same_saved saved saved'"
    using assms(2)
    by (auto simp: load_saved_def same_saved_def elim!: option.rel_cases rel_sum.cases split: sum.splits)
  let ?kv = "\<lparr>kv_env = nonblank env, kv_saved = saved\<rparr>" and ?kv' = "\<lparr>kv_env = nonblank env', kv_saved = saved'\<rparr>"
  have view: "same_view ?kv ?kv'"
    using s(3) nonblank_same [OF assms(1)] by (simp add: same_view_def)
  have path: "map_option ks_path keys = map_option ks_path keys'"
    using assms(2) by (auto elim: option.rel_cases)
  show ?thesis
  proof (cases "read_providers parse path file")
    case (Inr f)
    let ?a = "\<lambda>kv xs choice. assemble (map (preset_offer kv) (open_presets (pf_providers f)) @ xs) choice (map_option ks_path keys')"
    have same: "fst (?a ?kv xs choice) = fst (?a ?kv' ys choice) \<and>
        redact_loaded (snd (?a ?kv xs choice)) = redact_loaded (snd (?a ?kv' ys choice))"
      if "map redact_offer xs = map redact_offer ys" for xs ys choice
      using redact_assemble [of "map (preset_offer ?kv) (open_presets (pf_providers f)) @ xs"
          "map (preset_offer ?kv') (open_presets (pf_providers f)) @ ys" choice "map_option ks_path keys'"]
        that same_view_preset [OF view] by (auto simp: prod_eq_iff)
    obtain ws out ws' out' where o: "entry_offers ?kv (pf_providers f) = (ws, out)" "entry_offers ?kv' (pf_providers f) = (ws', out')"
      by force
    note entries = same_view_entries [OF view, of "pf_providers f", unfolded o]
    show ?thesis
    proof (cases out)
      case Inl
      then show ?thesis
        using entries by (cases out') (auto simp: load_providers_def s Inr o Let_def)
    next
      case customs: (Inr xs)
      then obtain ys where ys: "out' = Inr ys" "map redact_offer xs = map redact_offer ys" "ws = ws'"
        using entries by (cases out') auto
      show ?thesis
      proof (cases "chosen_jev ?kv' f")
        case (Inr choice)
        then show ?thesis
          using same [OF ys(2), of choice]
          by (auto simp: load_providers_def s \<open>read_providers parse path file = Inr f\<close> o customs ys(1,3) Let_def path
              same_view_chosen [OF view] split: prod.split)
      qed (simp add: load_providers_def s Inr o customs ys(1,3) Let_def same_view_chosen [OF view])
    qed
  qed (simp add: load_providers_def s Let_def)
qed

definition demo_env :: "string \<Rightarrow> string \<Rightarrow> string option" where
  "demo_env key name =
     (if name = ''OPENROUTER_API_KEY'' then Some key
      else if name = ''DAGOS_JEV_PROVIDER'' then Some ''openrouter''
      else if name = ''DAGOS_JEV_MODEL'' then Some ''some/model'' else None)"

lemma settings_hide_keys_witness:
  "map_prod id (map_sum id redact_loaded)
     (load_providers (\<lambda>t. Inl t) ''providers.json'' None (demo_env ''sk-or-first-7890'') (\<lambda>t. Inl t) None) =
   map_prod id (map_sum id redact_loaded)
     (load_providers (\<lambda>t. Inl t) ''providers.json'' None (demo_env ''sk-or-other-7890'') (\<lambda>t. Inl t) None)"
proof (rule settings_hide_keys)
  have "hint ''sk-or-first-7890'' = hint ''sk-or-other-7890''" "trim ''sk-or-first-7890'' \<noteq> []" "trim ''sk-or-other-7890'' \<noteq> []"
    by code_simp+
  then show "same_env (demo_env ''sk-or-first-7890'') (demo_env ''sk-or-other-7890'')"
    by (simp add: same_env_def demo_env_def same_hint_def jev_variables_def)
qed simp

section \<open>What is available\<close>

text \<open>An offer's setting is available exactly when there is a provider for it, which has the setting's ID.\<close>

definition offer_ok :: "offered \<Rightarrow> bool" where
  "offer_ok x \<longleftrightarrow> se_id (fst x) \<noteq> fake_provider_id \<and>
     (case snd x of None \<Rightarrow> \<not> se_available (fst x) | Some (c, _) \<Rightarrow> se_available (fst x) \<and> oc_id c = se_id (fst x))"

lemma preset_offer_ok: "p \<in> set presets \<Longrightarrow> offer_ok (preset_offer kv p)"
  by (auto simp: offer_ok_def preset_offer_def Let_def presets_def fake_provider_id_def split: option.split)

lemma entry_offers_ok: "entry_offers kv es = (ws, Inr os) \<Longrightarrow> list_all offer_ok os"
proof (induction es arbitrary: ws os)
  case (Cons e es)
  from Cons.prems obtain ws' os' where o: "pe_id e \<noteq> fake_provider_id" "entry_offers kv es = (ws', Inr os')"
      "os = entry_offer kv e # os'"
    by (cases "entry_offers kv es"; cases "snd (entry_offers kv es)") (auto split: if_splits)
  then show ?case
    using Cons.IH [OF o(2)] by (simp add: offer_ok_def entry_offer_def Let_def)
qed simp

lemma offered_ids:
  assumes "list_all offer_ok os"
  shows "map (\<lambda>(c, _). oc_id c) (List.map_filter snd os) = map se_id (filter se_available (map fst os))"
  using assms by (induction os) (auto simp: map_filter_simps offer_ok_def split: option.splits)

lemma sorted_config_ids:
  assumes "list_all offer_ok os"
  shows "map (\<lambda>(c, _). oc_id c) (sorted_configs os) = sort_key provider_rank (map se_id (filter se_available (map fst os)))"
  by (simp add: sorted_configs_def sort_key_map split_def flip: offered_ids [OF assms])

lemma shown_ids:
  assumes "list_all offer_ok os"
  shows "map se_id (filter se_available (sort_key (\<lambda>s. provider_rank (se_id s)) (fake_setting # map fst os))) =
    fake_provider_id # sort_key provider_rank (map se_id (filter se_available (map fst os)))"
proof -
  have "sort_key (\<lambda>s. provider_rank (se_id s)) (fake_setting # xs) = fake_setting # sort_key (\<lambda>s. provider_rank (se_id s)) xs" for xs
    by (simp add: insort_is_Cons provider_rank_def fake_setting_def)
  moreover have "se_available fake_setting" "se_id fake_setting = fake_provider_id" by (simp_all add: fake_setting_def)
  ultimately show ?thesis
    by (simp only: filter.simps if_True list.map filter_sort sort_key_map [of provider_rank se_id])
qed

lemma endpoints_lookup: "map_of (endpoints_of cs) i = Some (c, check) \<Longrightarrow> (c, check) \<in> set cs \<and> oc_id c = i"
  by (auto simp: endpoints_of_def map_of_bt_of_list dest!: map_of_SomeD)

text \<open>The Jev's setting tells the Jev in use, which runs on an offered endpoint if it is a model.\<close>

definition jev_offered :: "loaded \<Rightarrow> bool" where
  "jev_offered l \<longleftrightarrow> js_active (sg_jev (ld_settings l)) = loaded_jev_id (ld_jev l) \<and>
     (case ld_jev l of
        Offline_Jev \<Rightarrow> js_provider (sg_jev (ld_settings l)) = None \<or> js_problem (sg_jev (ld_settings l)) \<noteq> None
      | Chat_Jev c m \<Rightarrow> Chat_Provider c \<in> set (ld_providers l) \<and> \<not> is_decisions_model m
      | Decisions_Jev c m \<Rightarrow> Chat_Provider c \<in> set (ld_providers l) \<and> is_decisions_model m)"

lemma assemble_offers:
  assumes "list_all offer_ok os" "assemble os choice path = (said, l)"
  shows "map loaded_id (ld_providers l) = map se_id (filter se_available (sg_providers (ld_settings l))) \<and> jev_offered l"
proof
  have "map loaded_id (map (\<lambda>(c, _). Chat_Provider c) cs) = map (\<lambda>(c, _). oc_id c) cs" for cs :: "(endpoint_config \<times> string option) list"
    by (simp add: loaded_id_def split_def)
  moreover have "ld_providers l = Offline_Provider # map (\<lambda>(c, _). Chat_Provider c) (sorted_configs os)"
      "sg_providers (ld_settings l) = sort_key (\<lambda>s. provider_rank (se_id s)) (fake_setting # map fst os)"
    using assms(2) by (auto simp: assemble_def Let_def split: prod.splits)
  moreover have "loaded_id Offline_Provider = fake_provider_id" by (simp add: loaded_id_def)
  ultimately show "map loaded_id (ld_providers l) = map se_id (filter se_available (sg_providers (ld_settings l)))"
    by (simp only: list.map sorted_config_ids [OF assms(1)] shown_ids [OF assms(1)])
  show "jev_offered l"
    using assms(2)
    by (force simp: assemble_def Let_def pick_jev_def jev_setting_of_def jev_offered_def loaded_jev_id_def
        dest: endpoints_lookup split: option.splits prod.splits if_splits)
qed

text \<open>C25. What the settings screen says is available is what runs can use: when loading succeeds, the runtime's
  providers are exactly the settings marked available, in the same order, the offline one first; the
  screen names the Jev in use, and a model Jev runs on one of these providers, through the Decisions API
  exactly for decisions models, while a configured one that cannot run is replaced and the screen says why.\<close>

theorem available_is_offered:
  assumes "snd (load_providers parse path file env parse_keys keys) = Inr l"
  shows "map loaded_id (ld_providers l) = map se_id (filter se_available (sg_providers (ld_settings l))) \<and>
    hd (ld_providers l) = Offline_Provider \<and> jev_offered l"
proof -
  obtain kv es ws customs choice keys_path said where
      o: "entry_offers kv es = (ws, Inr customs)"
        "assemble (map (preset_offer kv) (open_presets es) @ customs) choice keys_path = (said, l)"
    using assms by (auto simp: load_providers_def Let_def split: prod.splits sum.splits)
  have "list_all offer_ok (map (preset_offer kv) (open_presets es) @ customs)"
    using entry_offers_ok [OF o(1)] preset_offer_ok by (auto simp: list_all_iff open_presets_def)
  moreover have "hd (ld_providers l) = Offline_Provider"
    using o(2) by (auto simp: assemble_def Let_def split: prod.splits)
  ultimately show ?thesis
    using assemble_offers [OF _ o(2)] by blast
qed

lemma available_is_offered_witness:
  "\<exists>l. snd (load_providers (\<lambda>t. Inl t) ''providers.json'' None (demo_env ''sk-or-first-7890'') (\<lambda>t. Inl t) None) = Inr l \<and>
     map loaded_id (ld_providers l) = [fake_provider_id, Provider_Id ''openrouter''] \<and> jev_offered l"
proof -
  have "case snd (load_providers (\<lambda>t. Inl t) ''providers.json'' None (demo_env ''sk-or-first-7890'') (\<lambda>t. Inl t) None) of
      Inl _ \<Rightarrow> False
    | Inr l \<Rightarrow> map loaded_id (ld_providers l) = [fake_provider_id, Provider_Id ''openrouter'']"
    by code_simp
  then obtain l where l: "snd (load_providers (\<lambda>t. Inl t) ''providers.json'' None (demo_env ''sk-or-first-7890'') (\<lambda>t. Inl t) None) = Inr l"
      "map loaded_id (ld_providers l) = [fake_provider_id, Provider_Id ''openrouter'']"
    by (auto split: sum.splits)
  have "jev_offered l" using available_is_offered [OF l(1)] by simp
  with l show ?thesis by (intro exI [of _ l] conjI)
qed

end
