(* ===== verification/Server.thy ===== *)
theory Server
  imports Run_Ends Gate_Behaviour Provider_Settings Inspect
begin

text \<open>
  Handlers of \<open>dagos/src/server.rs\<close> and the pieces of \<open>workspace.rs\<close> they use: the host guard, starting a run,
  editing projects and conversations, approving a call and remembering the approval, editing the MCP
  configuration, importing servers. JSON extraction, routing, files and the MCP restarts are not modelled;
  a handler that saves \<open>mcp.json\<close> is modelled up to the configuration it saves.
\<close>

section \<open>Errors\<close>

datatype api_error =
    Bad_Request string
  | Forbidden string
  | Not_Found_Error string
  | Conflict string
  | Internal_Error string
  | Bad_Gateway string

fun api_status :: "api_error \<Rightarrow> nat" where
  "api_status (Bad_Request m) = 400"
| "api_status (Forbidden m) = 403"
| "api_status (Not_Found_Error m) = 404"
| "api_status (Conflict m) = 409"
| "api_status (Internal_Error m) = 500"
| "api_status (Bad_Gateway m) = 502"

definition tick :: "string \<Rightarrow> string" where
  "tick s = [CHR 0x60] @ s @ [CHR 0x60]"

fun id_error_str :: "id_error \<Rightarrow> string" where
  "id_error_str (Id_Error kind pre v) =
     ''invalid '' @ kind @ '' id '' @ tick v @ '': expected '' @ tick (pre @ ''_'') @
     '' followed by 1-64 lowercase letters or digits''"

fun api_of_store :: "(constraint \<Rightarrow> string) \<Rightarrow> store_error \<Rightarrow> api_error" where
  "api_of_store sqlite (Run_In_Progress i) = Conflict (store_error_str sqlite (Run_In_Progress i))"
| "api_of_store sqlite (Invalid m) = Bad_Request (store_error_str sqlite (Invalid m))"
| "api_of_store sqlite (Not_Found k i) = Not_Found_Error (store_error_str sqlite (Not_Found k i))"
| "api_of_store sqlite e = Internal_Error (store_error_str sqlite e)"

fun api_of_runtime :: "(constraint \<Rightarrow> string) \<Rightarrow> runtime_error \<Rightarrow> api_error" where
  "api_of_runtime sqlite (Unknown_Provider p) = Bad_Request (''provider '' @ tick (provider_str p) @ '' is not registered'')"
| "api_of_runtime sqlite (Runtime_Store e) = api_of_store sqlite e"

section \<open>The host guard\<close>

text \<open>\<open>rsplit_once\<close> at a byte.\<close>

definition rsplit_once :: "char \<Rightarrow> string \<Rightarrow> (string \<times> string) option" where
  "rsplit_once c s = (case split_once c (rev s) of None \<Rightarrow> None | Some (a, b) \<Rightarrow> Some (rev b, rev a))"

definition hostname :: "string \<Rightarrow> string" where
  "hostname host =
     (if starts_with ''['' host
      then (let before = takeWhile (\<lambda>c. c \<noteq> CHR '']'') host
            in if length before < length host then before @ '']'' else host)
      else case rsplit_once (CHR '':'') host of None \<Rightarrow> host | Some (name, _) \<Rightarrow> name)"

text \<open>\<open>guard_host\<close>: \<open>None\<close> is a request without a (readable) \<open>Host\<close> header.\<close>

definition host_allowed :: "string option \<Rightarrow> bool" where
  "host_allowed host =
     (case host of None \<Rightarrow> False | Some h \<Rightarrow> hostname h \<in> {''localhost'', ''127.0.0.1'', ''[::1]''})"

definition guard_host :: "bool \<Rightarrow> string option \<Rightarrow> api_error option" where
  "guard_host loopback_only host =
     (if loopback_only \<and> \<not> host_allowed host
      then Some (Forbidden ''this DAGOS server only answers requests addressed to a loopback host'')
      else None)"

section \<open>Projects, conversations and runs\<close>

type_synonym 'a handler = "(world, api_error, 'a) eff"

definition in_store :: "(constraint \<Rightarrow> string) \<Rightarrow> 'a tx \<Rightarrow> 'a handler" where
  "in_store sqlite work = map_err (api_of_store sqlite) (on_store (transaction work))"

definition read_store :: "(constraint \<Rightarrow> string) \<Rightarrow> (db \<Rightarrow> 'a) \<Rightarrow> 'a handler" where
  "read_store sqlite f = in_store sqlite (query f ret)"

definition parsed_id :: "id_error + 'a \<Rightarrow> 'a handler" where
  "parsed_id r = of_result (map_sum (Bad_Request \<circ> id_error_str) id r)"

definition parsed_identity :: "identity_error + 'a \<Rightarrow> 'a handler" where
  "parsed_identity r = of_result (map_sum (Bad_Request \<circ> identity_error_str) id r)"

definition existing_project :: "(constraint \<Rightarrow> string) \<Rightarrow> string \<Rightarrow> project_id handler" where
  "existing_project sqlite i =
     andthen (parsed_id (parse_project_id i)) (\<lambda>p.
     andthen (read_store sqlite (\<lambda>d. project_row d p)) (\<lambda>row.
       case row of
         Some x \<Rightarrow> ret (pr_id x)
       | None \<Rightarrow> throw (Not_Found_Error (''project '' @ tick (ident_str p) @ '' not found''))))"

definition default_system_prompt :: string where
  "default_system_prompt =
     ''You are a careful coding assistant working inside DAGOS. Keep replies brief. Record decisions, tasks, '' @
     ''artifacts, observations, and results worth remembering as emissions: prose is shown to people but not remembered.''"

definition default_run_config :: run_config where
  "default_run_config =
     \<lparr>rc_provider = fake_provider_id, rc_model = Model_Id ''fake-echo'', rc_prompt = default_system_prompt\<rparr>"

text \<open>\<open>Workspace::run_config_for\<close>.\<close>

definition run_config_for :: "(constraint \<Rightarrow> string) \<Rightarrow> project_id \<Rightarrow> run_config handler" where
  "run_config_for sqlite p =
     andthen (read_store sqlite (\<lambda>d. run_defaults_of d p)) (\<lambda>c.
       ret (case c of Some x \<Rightarrow> x | None \<Rightarrow> default_run_config))"

record start_request =
  sq_message :: string
  sq_conversation :: "string option"
  sq_project :: "string option"
  sq_new :: bool
  sq_provider :: "string option"
  sq_model :: "string option"
  sq_prompt :: "string option"

definition optional :: "('a \<Rightarrow> 'b handler) \<Rightarrow> 'a option \<Rightarrow> 'b option handler" where
  "optional f x = (case x of None \<Rightarrow> ret None | Some a \<Rightarrow> andthen (f a) (\<lambda>b. ret (Some b)))"

definition overridden :: "start_request \<Rightarrow> run_config \<Rightarrow> run_config handler" where
  "overridden q c =
     andthen (optional (parsed_identity \<circ> parse_provider_id) (sq_provider q)) (\<lambda>p.
     andthen (optional (parsed_identity \<circ> parse_model_id) (sq_model q)) (\<lambda>m.
       ret \<lparr>rc_provider = (case p of Some x \<Rightarrow> x | None \<Rightarrow> rc_provider c),
            rc_model = (case m of Some x \<Rightarrow> x | None \<Rightarrow> rc_model c),
            rc_prompt = (case sq_prompt q of Some x \<Rightarrow> x | None \<Rightarrow> rc_prompt c)\<rparr>))"

text \<open>The project, and the thread, that a request names; \<open>own\<close> is the workspace's project.\<close>

definition request_project ::
  "(constraint \<Rightarrow> string) \<Rightarrow> project_id \<Rightarrow> conversation_id option \<Rightarrow> string option \<Rightarrow> project_id handler" where
  "request_project sqlite own conv named =
     (case conv of
        Some c \<Rightarrow>
          andthen (read_store sqlite (\<lambda>d. conversation_row d c)) (\<lambda>row.
            case row of
              Some x \<Rightarrow> ret (cv_project x)
            | None \<Rightarrow> throw (Not_Found_Error (''conversation '' @ tick (ident_str c) @ '' not found'')))
      | None \<Rightarrow> (case named of Some i \<Rightarrow> existing_project sqlite i | None \<Rightarrow> ret own))"

definition request_thread :: "conversation_id option \<Rightarrow> bool \<Rightarrow> project_id \<Rightarrow> thread" where
  "request_thread conv new p =
     (case conv of Some c \<Rightarrow> In_Conversation c | None \<Rightarrow> if new then New_Thread p else Latest p)"

text \<open>\<open>start_run\<close> up to the start of its task.\<close>

definition handle_start :: "runtime \<Rightarrow> project_id \<Rightarrow> start_request \<Rightarrow> started_run handler" where
  "handle_start rt own q =
     (let message = trim (sq_message q); sqlite = ru_sqlite rt
      in if message = [] then throw (Bad_Request ''the message is empty'')
         else
           andthen (optional (parsed_id \<circ> parse_conversation_id) (sq_conversation q)) (\<lambda>conv.
           andthen (request_project sqlite own conv (sq_project q)) (\<lambda>p.
           andthen (run_config_for sqlite p) (\<lambda>defaults.
           andthen (overridden q defaults) (\<lambda>config.
             map_err (api_of_runtime sqlite) (start_in rt (request_thread conv (sq_new q) p) message config))))))"

definition handle_save_config :: "runtime \<Rightarrow> project_id \<Rightarrow> string \<Rightarrow> string \<Rightarrow> string \<Rightarrow> run_config handler" where
  "handle_save_config rt p provider model prompt =
     andthen (parsed_identity (parse_provider_id provider)) (\<lambda>pid.
     andthen (parsed_identity (parse_model_id model)) (\<lambda>m.
     andthen (map_err (api_of_runtime (ru_sqlite rt))
         (set_defaults rt p \<lparr>rc_provider = pid, rc_model = m, rc_prompt = prompt\<rparr>)) (\<lambda>_.
       run_config_for (ru_sqlite rt) p)))"

definition handle_update_config :: "runtime \<Rightarrow> string \<Rightarrow> string \<Rightarrow> string \<Rightarrow> string \<Rightarrow> run_config handler" where
  "handle_update_config rt i provider model prompt =
     andthen (existing_project (ru_sqlite rt) i) (\<lambda>p. handle_save_config rt p provider model prompt)"

text \<open>\<open>Workspace::create_project\<close>; every store error is a bad request there.\<close>

definition handle_create_project :: "(constraint \<Rightarrow> string) \<Rightarrow> project_id \<Rightarrow> string \<Rightarrow> project handler" where
  "handle_create_project sqlite own name0 =
     andthen (run_config_for sqlite own) (\<lambda>defaults.
       (let name = trim name0
        in if name = [] then throw (Bad_Request ''the project name is empty'')
           else map_err (\<lambda>e. Bad_Request (store_error_str sqlite e))
             (on_store (transaction
               (andthen (create_project name) (\<lambda>p. andthen (set_run_defaults (pr_id p) defaults) (\<lambda>_. ret p)))))))"

definition handle_rename_project :: "(constraint \<Rightarrow> string) \<Rightarrow> string \<Rightarrow> string \<Rightarrow> project handler" where
  "handle_rename_project sqlite i name =
     andthen (existing_project sqlite i) (\<lambda>p. in_store sqlite (rename_project p name))"

definition update_conversation_tx :: "conversation_id \<Rightarrow> string option \<Rightarrow> bool option \<Rightarrow> conversation tx" where
  "update_conversation_tx i title archived =
     andthen (require_conversation i) (\<lambda>c0.
     andthen (case title of Some t \<Rightarrow> rename_conversation i t | None \<Rightarrow> ret c0) (\<lambda>c1.
       case archived of Some b \<Rightarrow> set_conversation_archived i b | None \<Rightarrow> ret c1))"

definition handle_update_conversation ::
  "(constraint \<Rightarrow> string) \<Rightarrow> string \<Rightarrow> string option \<Rightarrow> bool option \<Rightarrow> conversation handler" where
  "handle_update_conversation sqlite i title archived =
     andthen (parsed_id (parse_conversation_id i)) (\<lambda>c. in_store sqlite (update_conversation_tx c title archived))"

section \<open>Tools\<close>

fun update_server :: "string \<Rightarrow> (mcp_server \<Rightarrow> mcp_server) \<Rightarrow> mcp_server list \<Rightarrow> mcp_server list" where
  "update_server i f [] = []"
| "update_server i f (s # ss) = (if ms_id s = i then f s # ss else s # update_server i f ss)"

definition has_server :: "string \<Rightarrow> mcp_config \<Rightarrow> bool" where
  "has_server i c \<longleftrightarrow> list_ex (\<lambda>s. ms_id s = i) (mg_servers c)"

definition edit_server :: "string \<Rightarrow> (mcp_server \<Rightarrow> mcp_server) \<Rightarrow> mcp_config \<Rightarrow> mcp_config" where
  "edit_server i f c = c\<lparr>mg_servers := update_server i f (mg_servers c)\<rparr>"

text \<open>An answer with \<open>remember\<close>: the named tool's policy becomes \<open>allow\<close>.\<close>

definition allow_tool :: "string \<Rightarrow> mcp_config \<Rightarrow> mcp_config" where
  "allow_tool name c =
     (case split_once (CHR ''.'') name of
        None \<Rightarrow> c
      | Some (i, t) \<Rightarrow> edit_server i (\<lambda>s. s\<lparr>ms_tools := bt_insert t Policy_Allow (ms_tools s)\<rparr>) c)"

definition remember_tools :: "string list \<Rightarrow> mcp_config \<Rightarrow> mcp_config" where
  "remember_tools names c = foldl (\<lambda>c n. allow_tool n c) c names"

definition no_escalation :: escalation where
  "no_escalation = \<lparr>es_note = None, es_asking = [], es_guarded = False\<rparr>"

definition parse_answer :: "string \<Rightarrow> api_error + person_answer" where
  "parse_answer decision =
     (if decision = ''allow'' then Inr Person_Allows
      else if decision = ''deny'' then Inr Person_Denies
      else Inl (Bad_Request (''unknown decision '' @ tick decision)))"

definition called_name :: "run_detail option \<Rightarrow> string \<Rightarrow> string option" where
  "called_name detail call =
     Option.bind detail (\<lambda>x. map_option tv_name (find (\<lambda>c. tv_call c = call) (rd_tool_calls x)))"

text \<open>\<open>answer_tool_call\<close> up to the answer itself: the answer to give, and the configuration to save, if any. The
  handler reads the gate twice, each time under a lock of its own: \<open>ap\<close> is the gate when it asks whether the
  call waits, \<open>ap'\<close> when it asks why. \<open>detail\<close> is what \<open>run_detail\<close> gives, \<open>config\<close> what \<open>mcp.json\<close> holds, \<open>save\<close> an
  error of saving it.\<close>

definition answer_plan ::
  "approvals \<Rightarrow> approvals \<Rightarrow> api_error + run_detail option \<Rightarrow> string + mcp_config \<Rightarrow> (mcp_config \<Rightarrow> string option) \<Rightarrow>
   run_id \<Rightarrow> string \<Rightarrow> string \<Rightarrow> bool \<Rightarrow> api_error + person_answer \<times> mcp_config option" where
  "answer_plan ap ap' detail config save r call decision remember_it =
     (case parse_answer decision of
        Inl e \<Rightarrow> Inl e
      | Inr a \<Rightarrow>
          if \<not> is_pending ap r call
          then Inl (Conflict (''call '' @ tick call @ '' of run '' @ tick (ident_str r) @ '' is not waiting''))
          else if remember_it \<and> a = Person_Allows
          then (let e = (case pending_escalation ap' r call of Some e \<Rightarrow> e | None \<Rightarrow> no_escalation)
                in if es_guarded e
                   then Inl (Conflict ''Jev flagged this call, so it asks every time; allow it once instead'')
                   else case detail of
                     Inl x \<Rightarrow> Inl x
                   | Inr d \<Rightarrow>
                       (case called_name d call of
                          None \<Rightarrow> Inl (Not_Found_Error (''call '' @ tick call @ '' not found''))
                        | Some name \<Rightarrow>
                            (case config of
                               Inl m \<Rightarrow> Inl (Internal_Error m)
                             | Inr c \<Rightarrow>
                                 (let c' = remember_tools (name # es_asking e) c
                                  in case save c' of Some m \<Rightarrow> Inl (Internal_Error m) | None \<Rightarrow> Inr (a, Some c')))))
          else Inr (a, None))"

text \<open>The whole handler; \<open>g\<close> is the gate when the answer is given, after a third lock.\<close>

definition handle_answer ::
  "approvals \<Rightarrow> approvals \<Rightarrow> api_error + run_detail option \<Rightarrow> string + mcp_config \<Rightarrow> (mcp_config \<Rightarrow> string option) \<Rightarrow>
   string \<Rightarrow> string \<Rightarrow> string \<Rightarrow> bool \<Rightarrow> gate \<Rightarrow> (api_error + bool) \<times> gate \<times> mcp_config option" where
  "handle_answer ap ap' detail config save run_text call decision remember_it g =
     (case parse_run_id run_text of
        Inl e \<Rightarrow> (Inl (Bad_Request (id_error_str e)), g, None)
      | Inr r \<Rightarrow>
          (case answer_plan ap ap' detail config save r call decision remember_it of
             Inl e \<Rightarrow> (Inl e, g, None)
           | Inr (a, saved) \<Rightarrow> (case answer_call r call a g of (taken, g') \<Rightarrow> (Inr taken, g', saved))))"

text \<open>\<open>save_tool_server\<close>, \<open>remove_tool_server\<close>, \<open>set_tool_policy\<close>, \<open>set_guard\<close>: the configuration they save.\<close>

definition put_tool_server ::
  "string \<Rightarrow> string \<Rightarrow> string list \<Rightarrow> string option \<Rightarrow> bool \<Rightarrow> mcp_config \<Rightarrow> api_error + mcp_config" where
  "put_tool_server i command args0 cwd0 enabled c =
     (if \<not> valid_server_id i
      then Inl (Bad_Request (''invalid server id '' @ tick i @ '': use letters, digits, - and _ (not '' @ tick ''dagos'' @ '')''))
      else
        (let cwd = (case cwd0 of Some d \<Rightarrow> if trim d = [] then None else Some (trim d) | None \<Rightarrow> None);
             args = filter (\<lambda>a. a \<noteq> []) args0;
             f = (\<lambda>s. s\<lparr>ms_command := trim command, ms_args := args, ms_cwd := cwd, ms_enabled := enabled\<rparr>)
         in Inr (if has_server i c then edit_server i f c
                 else c\<lparr>mg_servers := mg_servers c @
                   [(new_mcp_server i (trim command) args)\<lparr>ms_cwd := cwd, ms_enabled := enabled\<rparr>]\<rparr>)))"

definition drop_tool_server :: "string \<Rightarrow> mcp_config \<Rightarrow> api_error + mcp_config" where
  "drop_tool_server i c =
     (let kept = filter (\<lambda>s. ms_id s \<noteq> i) (mg_servers c)
      in if length kept = length (mg_servers c) then Inl (Not_Found_Error (''no MCP server '' @ tick i))
         else Inr (c\<lparr>mg_servers := kept\<rparr>))"

definition put_tool_policy :: "string \<Rightarrow> string option \<Rightarrow> policy \<Rightarrow> mcp_config \<Rightarrow> api_error + mcp_config" where
  "put_tool_policy i t p c =
     (if \<not> has_server i c then Inl (Not_Found_Error (''no MCP server '' @ tick i))
      else Inr (edit_server i (\<lambda>s. case t of
          Some x \<Rightarrow> s\<lparr>ms_tools := bt_insert x p (ms_tools s)\<rparr>
        | None \<Rightarrow> s\<lparr>ms_policy := p, ms_tools := []\<rparr>) c))"

definition put_guard :: "guard_settings \<Rightarrow> mcp_config \<Rightarrow> mcp_config" where
  "put_guard g c = c\<lparr>mg_guard := g\<rparr>"

section \<open>Importing servers\<close>

definition candidate_id :: "string \<Rightarrow> string" where
  "candidate_id name =
     concat (map (\<lambda>c. case c of
        [b] \<Rightarrow> if is_ascii_alphanumeric b \<or> b = CHR ''-'' \<or> b = CHR ''_'' then [b] else ''-''
      | _ \<Rightarrow> ''-'') (chars_of name))"

definition import_candidate :: "mcp_server list \<Rightarrow> string \<times> json \<Rightarrow> json option" where
  "import_candidate existing e =
     (case e of (name, server) \<Rightarrow>
       map_option (\<lambda>command.
         (let i = candidate_id name
          in JObj [(''added'', JBool (list_ex (\<lambda>s. ms_id s = i) existing)),
                   (''args'', JArr (map JStr (case Option.bind (json_get ''args'' server) json_as_array of
                      Some xs \<Rightarrow> List.map_filter json_as_str xs | None \<Rightarrow> []))),
                   (''command'', JStr command),
                   (''cwd'', (case Option.bind (json_get ''cwd'' server) json_as_str of Some d \<Rightarrow> JStr d | None \<Rightarrow> JNull)),
                   (''id'', JStr i), (''name'', JStr name),
                   (''needs_env'', JBool (case Option.bind (json_get ''env'' server) json_as_object of
                      Some m \<Rightarrow> m \<noteq> [] | None \<Rightarrow> False))]))
         (Option.bind (json_get ''command'' server) json_as_str))"

text \<open>\<open>file\<close> is what reading Claude Desktop's configuration gives.\<close>

definition import_candidates_from :: "codec \<Rightarrow> string option \<Rightarrow> mcp_server list \<Rightarrow> json list" where
  "import_candidates_from cx file existing =
     (case Option.bind file (\<lambda>t. case json_read cx t of Inr v \<Rightarrow> Some v | Inl _ \<Rightarrow> None) of
        None \<Rightarrow> []
      | Some config \<Rightarrow>
          (case Option.bind (json_get ''mcpServers'' config) json_as_object of
             None \<Rightarrow> []
           | Some servers \<Rightarrow> List.map_filter (import_candidate existing) servers))"

section \<open>Views\<close>

text \<open>\<open>run\<close> and \<open>conversation\<close> mark the calls that wait for a person.\<close>

definition mark_pending :: "approvals \<Rightarrow> run_id \<Rightarrow> tool_call_view \<Rightarrow> tool_call_view" where
  "mark_pending ap r c =
     (let e = pending_escalation ap r (tv_call c)
      in c\<lparr>tv_pending := is_pending ap r (tv_call c), tv_pending_note := Option.bind e es_note,
           tv_pending_guarded := (case e of Some x \<Rightarrow> es_guarded x | None \<Rightarrow> False)\<rparr>)"

definition show_run :: "approvals \<Rightarrow> db \<Rightarrow> project_id \<Rightarrow> string \<Rightarrow> api_error + run_detail" where
  "show_run ap d own reference =
     (let missing = Not_Found_Error (''run '' @ tick reference @ '' not found'')
      in case (case parse_run_id reference of Inr i \<Rightarrow> Some i | Inl _ \<Rightarrow> resolve_run d own reference) of
           None \<Rightarrow> Inl missing
         | Some i \<Rightarrow>
             (case run_detail_of d i of
                None \<Rightarrow> Inl missing
              | Some x \<Rightarrow> Inr (x\<lparr>rd_tool_calls := map (mark_pending ap i) (rd_tool_calls x)\<rparr>)))"

fun mark_item :: "approvals \<Rightarrow> run_id \<Rightarrow> turn_item \<Rightarrow> turn_item" where
  "mark_item ap r (Tool_Item c) = Tool_Item (mark_pending ap r c)"
| "mark_item ap r x = x"

definition show_conversation :: "approvals \<Rightarrow> db \<Rightarrow> string \<Rightarrow> api_error + conversation_view" where
  "show_conversation ap d text_id =
     (case parse_conversation_id text_id of
        Inl e \<Rightarrow> Inl (Bad_Request (id_error_str e))
      | Inr i \<Rightarrow>
          (case conversation_view_of d i of
             None \<Rightarrow> Inl (Not_Found_Error (''conversation '' @ tick (ident_str i) @ '' not found''))
           | Some v \<Rightarrow> Inr (v\<lparr>cw_turns := map (\<lambda>t. t\<lparr>vw_items := map (mark_item ap (rn_id (vw_run t))) (vw_items t)\<rparr>) (cw_turns v)\<rparr>)))"

end
