(* ===== verification/Workspace.thy ===== *)
theory Workspace
  imports Server Lint_Review
begin

text \<open>
  \<open>dagos/src/workspace.rs\<close> and the handlers of \<open>server.rs\<close> that change what a workspace is configured with:
  providers, keys and the Jev, the review loop, the MCP servers and their policies. The files of the DAGOS
  directory and the user's keys are part of the state; what (de)serializing gives, what the disk says to a
  write, the environment, and which requests a Jev answers how are parameters. Each operation here runs alone:
  edits of the settings hold one lock and edits of the tools another, so two of one kind do exclude each
  other, but two of different kinds do not, and a \<open>reload\<close> of one that is built before the other's edit and
  swapped in after it, which puts the older runtime back, is not modelled. The cache of the reviews
  changes only by runs, which are not steps here. Warnings on the error stream are left out.
\<close>

section \<open>State\<close>

record files =
  fl_providers :: disk_file
  fl_keys :: "key_store option"
  fl_mcp :: disk_file
  fl_lint :: disk_file
  fl_cache :: "(string \<times> f64) list option"

record outside =
  ou_read_providers :: "string \<Rightarrow> string + providers_file"
  ou_print_providers :: "providers_file \<Rightarrow> string"
  ou_read_keys :: "string \<Rightarrow> string + saved_keys"
  ou_print_keys :: "saved_keys \<Rightarrow> string"
  ou_read_mcp :: "string \<Rightarrow> string + mcp_config"
  ou_print_mcp :: "mcp_config \<Rightarrow> string"
  ou_read_lint :: "string \<Rightarrow> string + lint_config"
  ou_print_lint :: "lint_config \<Rightarrow> string"
  ou_path :: "string \<Rightarrow> string"
  ou_env :: "string \<Rightarrow> string option"
  ou_root :: path
  ou_root_text :: string
  ou_decide :: "loaded_jev \<Rightarrow> json \<Rightarrow> noul_question list \<Rightarrow> (jev_error + f64 list option) reply"

text \<open>\<open>Live\<close>: of the runtime, what \<open>build\<close> puts into it. \<open>vi_tools\<close> are the tools with their runner.\<close>

record live =
  vi_loaded :: loaded
  vi_tools :: "ir_tool list option"
  vi_fallback :: bool
  vi_reviewer :: "(lint_reviewer \<times> nat) option"

record workspace =
  wk_files :: files
  wk_mcp :: "(mcp_pool \<times> capabilities) option"
  wk_approvals :: approvals
  wk_live :: live

type_synonym 'a edit = "(workspace, string, 'a) eff"
type_synonym 'a setting_handler = "(workspace, api_error, 'a) eff"

section \<open>Building the runtime\<close>

definition load_review :: "outside \<Rightarrow> files \<Rightarrow> (lint_reviewer \<times> nat) option" where
  "load_review ou fl =
     (case lint_load (ou_read_lint ou) (ou_path ou ''lint.json'') (fl_lint fl) of
        Inl _ \<Rightarrow> None
      | Inr c \<Rightarrow>
          if lc_enabled c
          then Some (with_cache_file (fl_cache fl) (new_reviewer (ou_root ou) c), lc_max_rounds c)
          else None)"

definition build_live :: "outside \<Rightarrow> files \<Rightarrow> capabilities option \<Rightarrow> string + live" where
  "build_live ou fl caps =
     (case snd (load_providers (ou_read_providers ou) (ou_path ou ''providers.json'') (fl_providers fl) (ou_env ou)
              (ou_read_keys ou) (fl_keys fl)) of
        Inl e \<Rightarrow> Inl e
      | Inr l \<Rightarrow> Inr \<lparr>vi_loaded = l, vi_tools = map_option cp_tools caps, vi_fallback = (ld_jev l \<noteq> ld_fallback l),
          vi_reviewer = load_review ou fl\<rparr>)"

definition open_workspace :: "outside \<Rightarrow> files \<Rightarrow> string + workspace" where
  "open_workspace ou fl =
     map_sum id (\<lambda>v. \<lparr>wk_files = fl, wk_mcp = None, wk_approvals = new_approvals ''600s'', wk_live = v\<rparr>)
       (build_live ou fl None)"

text \<open>\<open>reload\<close>: the gate hears of the tools first, and of the guard once the runtime is built.\<close>

definition tell_gate :: "workspace \<Rightarrow> workspace" where
  "tell_gate w =
     (case wk_mcp w of
        None \<Rightarrow> w
      | Some (p, caps) \<Rightarrow> w\<lparr>wk_approvals := set_tools caps (wk_approvals w)\<rparr>)"

definition swap_in :: "outside \<Rightarrow> live \<Rightarrow> workspace \<Rightarrow> workspace" where
  "swap_in ou v w =
     w\<lparr>wk_approvals := (wk_approvals w)\<lparr>ap_guard :=
         Some \<lparr>gd_decide = ou_decide ou (ld_jev (vi_loaded v)), gd_root = ou_root_text ou\<rparr>\<rparr>,
       wk_live := v\<rparr>"

definition wk_reload :: "outside \<Rightarrow> unit edit" where
  "wk_reload ou =
     andthen (update tell_gate) (\<lambda>_.
     andthen (look (\<lambda>w. build_live ou (wk_files w) (map_option snd (wk_mcp w)))) (\<lambda>built.
     andthen (of_result built) (\<lambda>v.
       update (swap_in ou v))))"

section \<open>The MCP servers\<close>

definition current_mcp :: "outside \<Rightarrow> workspace \<Rightarrow> string + mcp_config" where
  "current_mcp ou w =
     map_sum id (\<lambda>c. case c of Some x \<Rightarrow> x | None \<Rightarrow> default_mcp_config)
       (load_mcp_config (ou_read_mcp ou) (ou_path ou ''mcp.json'') (fl_mcp (wk_files w)))"

definition save_mcp :: "outside \<Rightarrow> disk_write \<Rightarrow> mcp_config \<Rightarrow> unit edit" where
  "save_mcp ou dw c w =
     (case validate_mcp_config c of
        Inl e \<Rightarrow> (Inl e, w)
      | Inr _ \<Rightarrow>
          (save_mcp_config (ou_print_mcp ou) (\<lambda>_. write_result dw) (ou_path ou ''mcp.json'') c,
           w\<lparr>wk_files := (wk_files w)\<lparr>fl_mcp := file_after dw (ou_print_mcp ou c @ [CHR 0x0A])\<rparr>\<rparr>))"

definition repolicy :: "mcp_config \<Rightarrow> workspace \<Rightarrow> workspace" where
  "repolicy c w =
     w\<lparr>wk_mcp := map_option (\<lambda>(p, _). case set_policies c p of (caps, q) \<Rightarrow> (q, caps)) (wk_mcp w),
       wk_approvals := (wk_approvals w)\<lparr>ap_config := c\<rparr>\<rparr>"

definition set_tool_policies :: "outside \<Rightarrow> disk_write \<Rightarrow> mcp_config \<Rightarrow> unit edit" where
  "set_tool_policies ou dw c =
     andthen (save_mcp ou dw c) (\<lambda>_.
     andthen (update (repolicy c)) (\<lambda>_.
       wk_reload ou))"

text \<open>The warnings of \<open>start_tools\<close>.\<close>

definition unavailable :: "capabilities \<Rightarrow> string list" where
  "unavailable caps =
     List.map_filter (\<lambda>s. map_option (\<lambda>e. ''MCP server '' @ tick (ss_id s) @ '' unavailable, continuing without it: '' @ e)
       (ss_error s)) (cp_servers caps)"

text \<open>\<open>start_tools_now\<close>; the outcome \<open>None\<close> is a discovery that does not end.\<close>

definition start_tools :: "outside \<Rightarrow> host \<Rightarrow> workspace \<Rightarrow> (string + unit) option \<times> string list \<times> workspace" where
  "start_tools ou h w =
     (case load_mcp_config (ou_read_mcp ou) (ou_path ou ''mcp.json'') (fl_mcp (wk_files w)) of
        Inl e \<Rightarrow> (Some (Inl e), [], w)
      | Inr None \<Rightarrow> (case wk_reload ou (w\<lparr>wk_mcp := None\<rparr>) of (r, v) \<Rightarrow> (Some r, [], v))
      | Inr (Some c) \<Rightarrow>
          (case pool_discover h (new_pool c) of
             (Inl _, _) \<Rightarrow> (None, [], w)
           | (Inr caps, p) \<Rightarrow>
               (case wk_reload ou (w\<lparr>wk_mcp := Some (p, caps), wk_approvals := (wk_approvals w)\<lparr>ap_config := c\<rparr>\<rparr>) of
                  (r, v) \<Rightarrow> (Some r, unavailable caps, v))))"

section \<open>Handlers of the settings\<close>

text \<open>\<open>edit\<close>: the change, the reload, the new settings.\<close>

definition edit_settings :: "outside \<Rightarrow> unit setting_handler \<Rightarrow> settings setting_handler" where
  "edit_settings ou change =
     andthen change (\<lambda>_.
     andthen (map_err Bad_Request (wk_reload ou)) (\<lambda>_.
       look (\<lambda>w. ld_settings (vi_loaded (wk_live w)))))"

definition configurable :: "string \<Rightarrow> provider_setting setting_handler" where
  "configurable i =
     andthen (of_result (map_sum (Bad_Request \<circ> identity_error_str) id (parse_provider_id i))) (\<lambda>p.
     andthen (look (\<lambda>w. find (\<lambda>s. se_id s = p) (sg_providers (ld_settings (vi_loaded (wk_live w)))))) (\<lambda>found.
       case found of
         Some s \<Rightarrow>
           if se_origin s = Builtin_Origin
           then throw (Bad_Request (tick (provider_str p) @ '' is built in and needs no configuration''))
           else ret s
       | None \<Rightarrow> throw (Not_Found_Error (''no provider '' @ tick (provider_str p)))))"

text \<open>An operation on one of the files, with the error it is reported as.\<close>

definition on_providers_file :: "(string \<Rightarrow> api_error) \<Rightarrow> (disk_file \<Rightarrow> (string + 'a) \<times> disk_file) \<Rightarrow> 'a setting_handler" where
  "on_providers_file h f w =
     (case f (fl_providers (wk_files w)) of
        (r, file) \<Rightarrow> (map_sum h id r, w\<lparr>wk_files := (wk_files w)\<lparr>fl_providers := file\<rparr>\<rparr>))"

definition on_keys :: "(string \<Rightarrow> api_error) \<Rightarrow> (key_store \<Rightarrow> (string + 'a) \<times> key_store) \<Rightarrow> 'a setting_handler" where
  "on_keys h f w =
     (case fl_keys (wk_files w) of
        None \<Rightarrow> (Inl (Conflict ''no user configuration directory to save keys in; set DAGOS_CONFIG_DIR''), w)
      | Some ks \<Rightarrow>
          (case f ks of (r, ks') \<Rightarrow> (map_sum h id r, w\<lparr>wk_files := (wk_files w)\<lparr>fl_keys := Some ks'\<rparr>\<rparr>)))"

definition save_key_change :: "outside \<Rightarrow> string option \<Rightarrow> string \<Rightarrow> string \<Rightarrow> unit setting_handler" where
  "save_key_change ou refused i key =
     andthen (configurable i) (\<lambda>s.
       on_keys Bad_Request (set_key (ou_read_keys ou) (ou_print_keys ou) refused (se_id s) key))"

definition remove_key_change :: "outside \<Rightarrow> string option \<Rightarrow> string \<Rightarrow> unit setting_handler" where
  "remove_key_change ou refused i =
     andthen (configurable i) (\<lambda>s.
     andthen (on_keys Internal_Error (remove_key (ou_read_keys ou) (ou_print_keys ou) refused (se_id s))) (\<lambda>_.
       ret ()))"

record provider_request =
  pq_base_url :: string
  pq_api_key_env :: "string option"
  pq_models :: "string list"
  pq_json_mode :: bool
  pq_native_tools :: bool

fun parse_models :: "string list \<Rightarrow> identity_error + model_id list" where
  "parse_models [] = Inr []"
| "parse_models (m # ms) =
     (case parse_model_id m of
        Inl e \<Rightarrow> Inl e
      | Inr x \<Rightarrow> map_sum id ((#) x) (parse_models ms))"

definition requested_entry :: "string \<Rightarrow> provider_request \<Rightarrow> identity_error + provider_entry" where
  "requested_entry i q =
     (case parse_provider_id i of
        Inl e \<Rightarrow> Inl e
      | Inr p \<Rightarrow>
          (case parse_models (filter (\<lambda>m. m \<noteq> []) (map trim (pq_models q))) of
             Inl e \<Rightarrow> Inl e
           | Inr ms \<Rightarrow>
               Inr \<lparr>pe_id = p, pe_base_url = trim (pq_base_url q),
                    pe_api_key_env = (case pq_api_key_env q of
                      Some name \<Rightarrow> if trim name = [] then None else Some (trim name) | None \<Rightarrow> None),
                    pe_models = ms, pe_json_mode = pq_json_mode q, pe_native_tools = pq_native_tools q\<rparr>))"

definition save_provider_change :: "outside \<Rightarrow> disk_write \<Rightarrow> provider_entry \<Rightarrow> unit setting_handler" where
  "save_provider_change ou dw e =
     on_providers_file Bad_Request
       (save_custom (ou_read_providers ou) (ou_print_providers ou) (ou_path ou ''providers.json'') dw e)"

text \<open>Two writes: the file of the providers, then that of the keys.\<close>

definition remove_provider_change :: "outside \<Rightarrow> disk_write \<Rightarrow> string option \<Rightarrow> string \<Rightarrow> unit setting_handler" where
  "remove_provider_change ou dw refused i =
     andthen (configurable i) (\<lambda>s.
       if se_origin s \<noteq> Custom_Origin
       then throw (Bad_Request (tick i @ '' is a preset and cannot be removed''))
       else
         andthen (on_providers_file Internal_Error
           (remove_custom (ou_read_providers ou) (ou_print_providers ou) (ou_path ou ''providers.json'') dw (se_id s))) (\<lambda>_.
         andthen (look (\<lambda>w. preset_of (se_id s) = None \<and> fl_keys (wk_files w) \<noteq> None)) (\<lambda>forget.
           if forget
           then andthen (on_keys Internal_Error
             (remove_key (ou_read_keys ou) (ou_print_keys ou) refused (se_id s))) (\<lambda>_. ret ())
           else ret ())))"

definition set_jev_change :: "outside \<Rightarrow> disk_write \<Rightarrow> jev_entry option \<Rightarrow> unit setting_handler" where
  "set_jev_change ou dw entry =
     on_providers_file Internal_Error
       (set_jev (ou_read_providers ou) (ou_print_providers ou) (ou_path ou ''providers.json'') dw entry)"

text \<open>What a person asks for, with what the disk says to the writes.\<close>

datatype settings_call =
    Save_Key string string "string option"
  | Forget_Key string "string option"
  | Save_Provider string provider_request disk_write
  | Remove_Provider string disk_write "string option"
  | Choose_Jev string string disk_write
  | Clear_Jev disk_write

fun settings_handler :: "outside \<Rightarrow> settings_call \<Rightarrow> settings setting_handler" where
  "settings_handler ou (Save_Key i key refused) = edit_settings ou (save_key_change ou refused i key)"
| "settings_handler ou (Forget_Key i refused) = edit_settings ou (remove_key_change ou refused i)"
| "settings_handler ou (Save_Provider i q dw) =
     andthen (of_result (map_sum (Bad_Request \<circ> identity_error_str) id (requested_entry i q))) (\<lambda>e.
       edit_settings ou (save_provider_change ou dw e))"
| "settings_handler ou (Remove_Provider i dw refused) =
     edit_settings ou (remove_provider_change ou dw refused i)"
| "settings_handler ou (Choose_Jev i model dw) =
     andthen (of_result (map_sum (Bad_Request \<circ> identity_error_str) id (parse_model_id (trim model)))) (\<lambda>m.
       edit_settings ou
         (andthen (configurable i) (\<lambda>s. set_jev_change ou dw (Some \<lparr>je_provider = se_id s, je_model = m\<rparr>))))"
| "settings_handler ou (Clear_Jev dw) = edit_settings ou (set_jev_change ou dw None)"

section \<open>Handlers of the tools and of the review loop\<close>

definition look_mcp :: "outside \<Rightarrow> mcp_config setting_handler" where
  "look_mcp ou = andthen (look (current_mcp ou)) (\<lambda>r. of_result (map_sum Internal_Error id r))"

definition handle_set_guard :: "outside \<Rightarrow> disk_write \<Rightarrow> guard_settings \<Rightarrow> mcp_config setting_handler" where
  "handle_set_guard ou dw g =
     andthen (look_mcp ou) (\<lambda>c.
     andthen (map_err Bad_Request (set_tool_policies ou dw (put_guard g c))) (\<lambda>_.
       look_mcp ou))"

definition handle_set_policy :: "outside \<Rightarrow> disk_write \<Rightarrow> string \<Rightarrow> string option \<Rightarrow> policy \<Rightarrow> mcp_config setting_handler" where
  "handle_set_policy ou dw i t p =
     andthen (look_mcp ou) (\<lambda>c.
     andthen (of_result (put_tool_policy i t p c)) (\<lambda>c'.
     andthen (map_err Internal_Error (set_tool_policies ou dw c')) (\<lambda>_.
       look_mcp ou)))"

definition save_lint :: "outside \<Rightarrow> disk_write \<Rightarrow> lint_config \<Rightarrow> unit edit" where
  "save_lint ou dw c w =
     (case lint_save (ou_print_lint ou) (ou_path ou ''lint.json'') (\<lambda>_. write_result dw) c of
        (r, None) \<Rightarrow> (r, w)
      | (r, Some t) \<Rightarrow> (r, w\<lparr>wk_files := (wk_files w)\<lparr>fl_lint := file_after dw t\<rparr>\<rparr>))"

definition look_lint :: "outside \<Rightarrow> lint_config setting_handler" where
  "look_lint ou =
     andthen (look (\<lambda>w. lint_load (ou_read_lint ou) (ou_path ou ''lint.json'') (fl_lint (wk_files w)))) (\<lambda>r.
       of_result (map_sum Internal_Error id r))"

text \<open>Both answer with the configuration as it is read again.\<close>

definition handle_save_lint :: "outside \<Rightarrow> disk_write \<Rightarrow> lint_config \<Rightarrow> lint_config setting_handler" where
  "handle_save_lint ou dw c =
     andthen (map_err Bad_Request (save_lint ou dw c)) (\<lambda>_.
     andthen (map_err Internal_Error (wk_reload ou)) (\<lambda>_.
       look_lint ou))"

definition mark_dismissed :: "dismissal \<Rightarrow> bool \<Rightarrow> lint_config \<Rightarrow> lint_config" where
  "mark_dismissed d dismissed c =
     (let kept = filter (\<lambda>x. x \<noteq> d) (lc_dismissed c)
      in c\<lparr>lc_dismissed := (if dismissed then kept @ [d] else kept)\<rparr>)"

definition handle_set_dismissal :: "outside \<Rightarrow> disk_write \<Rightarrow> dismissal \<Rightarrow> bool \<Rightarrow> lint_config setting_handler" where
  "handle_set_dismissal ou dw d dismissed =
     andthen (look_lint ou) (\<lambda>c.
       handle_save_lint ou dw (mark_dismissed d dismissed c))"

end
