(* ===== verification/Server_Behaviour.thy ===== *)
theory Server_Behaviour
  imports Server Gate_Safety
begin

text \<open>
  What the handlers guarantee: which hosts are answered, that a refused request changes nothing, and what
  remembering an approval changes.
\<close>

section \<open>Hosts\<close>

lemma rsplit_once_Some_iff: "rsplit_once c s = Some (a, b) \<longleftrightarrow> s = a @ c # b \<and> c \<notin> set b"
proof -
  have "rsplit_once c s = Some (a, b) \<longleftrightarrow> split_once c (rev s) = Some (rev b, rev a)"
    by (auto simp: rsplit_once_def split: option.splits)
  also have "\<dots> \<longleftrightarrow> rev s = rev b @ c # rev a \<and> c \<notin> set b"
    by (simp add: split_once_Some_iff)
  also have "rev s = rev b @ c # rev a \<longleftrightarrow> s = a @ c # b"
    using rev_swap [of s "rev b @ c # rev a"] by simp
  finally show ?thesis .
qed

lemma rsplit_once_None_iff: "rsplit_once c s = None \<longleftrightarrow> c \<notin> set s"
proof -
  have "rsplit_once c s \<noteq> None \<longleftrightarrow> (\<exists>a b. rsplit_once c s = Some (a, b))" by auto
  also have "\<dots> \<longleftrightarrow> (\<exists>a b. s = a @ c # b \<and> c \<notin> set b)" by (simp add: rsplit_once_Some_iff)
  also have "\<dots> \<longleftrightarrow> c \<in> set s" using split_list_last [of c s] by auto
  finally show ?thesis by blast
qed

text \<open>A name or an address of a loopback host, with or without a port.\<close>

definition names_host :: "string \<Rightarrow> string \<Rightarrow> bool" where
  "names_host name h \<longleftrightarrow> h = name \<or> (\<exists>port. CHR '':'' \<notin> set port \<and> h = name @ '':'' @ port)"

lemma hostname_plain:
  assumes "\<not> starts_with ''['' h" "CHR '':'' \<notin> set name"
  shows "hostname h = name \<longleftrightarrow> names_host name h"
proof
  assume h: "hostname h = name"
  show "names_host name h"
  proof (cases "rsplit_once (CHR '':'') h")
    case None
    then show ?thesis using h assms(1) by (simp add: hostname_def names_host_def)
  next
    case (Some x)
    then obtain port where "rsplit_once (CHR '':'') h = Some (name, port)"
      using h assms(1) by (cases x) (simp add: hostname_def)
    then have "h = name @ '':'' @ port \<and> CHR '':'' \<notin> set port" by (simp add: rsplit_once_Some_iff)
    then show ?thesis unfolding names_host_def by blast
  qed
next
  assume "names_host name h"
  then consider "h = name" | port where "CHR '':'' \<notin> set port" "h = name @ CHR '':'' # port"
    unfolding names_host_def by auto
  then show "hostname h = name"
  proof cases
    case 1
    then have "rsplit_once (CHR '':'') h = None" using assms(2) by (simp add: rsplit_once_None_iff)
    then show ?thesis using 1 assms(1) by (simp add: hostname_def)
  next
    case 2
    then have "rsplit_once (CHR '':'') h = Some (name, port)" by (simp add: rsplit_once_Some_iff)
    then show ?thesis using assms(1) by (simp add: hostname_def)
  qed
qed

lemma hostname_bracket:
  assumes "starts_with ''['' h"
  shows "hostname h = ''[::1]'' \<longleftrightarrow> starts_with ''[::1]'' h"
proof
  let ?b = "takeWhile (\<lambda>c. c \<noteq> CHR '']'') h"
  assume h: "hostname h = ''[::1]''"
  show "starts_with ''[::1]'' h"
  proof (cases "length ?b < length h")
    case True
    then have b: "?b = ''[::1''" using h assms by (simp add: hostname_def Let_def)
    obtain rest where h': "h = ?b @ rest" "rest = dropWhile (\<lambda>c. c \<noteq> CHR '']'') h" by simp
    have "rest \<noteq> []"
    proof
      assume "rest = []"
      with h'(1) have "?b = h" by simp
      with True show False by simp
    qed
    then obtain c r where rest: "rest = c # r" by (cases rest) auto
    then have "c = CHR '']''" using h'(2) hd_dropWhile [of "\<lambda>c. c \<noteq> CHR '']''" h] by auto
    then have "h = ''[::1]'' @ r" using h'(1) b rest by simp
    then show ?thesis unfolding starts_with_iff by blast
  next
    case False
    then have "h = ''[::1]''" using h assms by (simp add: hostname_def Let_def)
    then show ?thesis by (simp add: starts_with_def)
  qed
next
  assume "starts_with ''[::1]'' h"
  then obtain r where "h = ''[::1]'' @ r" unfolding starts_with_iff by blast
  then show "hostname h = ''[::1]''" by (simp add: hostname_def starts_with_def)
qed

lemma host_allowed_iff:
  "hostname h \<in> {''localhost'', ''127.0.0.1'', ''[::1]''} \<longleftrightarrow>
     names_host ''localhost'' h \<or> names_host ''127.0.0.1'' h \<or> starts_with ''[::1]'' h"
proof (cases "starts_with ''['' h")
  case True
  then obtain r where h: "h = ''['' @ r" unfolding starts_with_iff by blast
  then have "hd (hostname h) = CHR ''[''" by (simp add: hostname_def starts_with_def Let_def)
  then have "hostname h \<noteq> ''localhost'' \<and> hostname h \<noteq> ''127.0.0.1''" by auto
  moreover have "\<not> names_host ''localhost'' h \<and> \<not> names_host ''127.0.0.1'' h" using h by (simp add: names_host_def)
  ultimately show ?thesis using hostname_bracket [OF True] by simp
next
  case False
  then have "\<not> starts_with ''[::1]'' h" by (auto simp: starts_with_iff)
  moreover have "hostname h \<noteq> ''[::1]''"
  proof
    assume "hostname h = ''[::1]''"
    then have "\<exists>r. h = ''[::1]'' @ r"
      using False by (auto simp: hostname_def rsplit_once_Some_iff split: option.splits)
    with \<open>\<not> starts_with ''[::1]'' h\<close> show False by (simp add: starts_with_iff)
  qed
  ultimately show ?thesis
    using hostname_plain [OF False, of "''localhost''"] hostname_plain [OF False, of "''127.0.0.1''"] by simp
qed

text \<open>C27. The server answers only requests that are addressed to this computer: the host header is one of
  \<open>localhost\<close> and \<open>127.0.0.1\<close>, with or without a port, or begins with \<open>[::1]\<close>; every other name, and a request
  without one, is refused before any handler runs.\<close>

theorem guard_host_iff:
  "guard_host True host = None \<longleftrightarrow>
     (\<exists>h. host = Some h \<and> (names_host ''localhost'' h \<or> names_host ''127.0.0.1'' h \<or> starts_with ''[::1]'' h))"
  by (cases host) (simp_all add: guard_host_def host_allowed_def host_allowed_iff del: insert_iff)

section \<open>Refused requests\<close>

text \<open>Handlers that leave the database as it is: always, and when they fail.\<close>

definition reads_only :: "'a handler \<Rightarrow> bool" where
  "reads_only m \<longleftrightarrow> (\<forall>w r v. m w = (r, v) \<longrightarrow> db_of v = db_of w)"

definition fails_clean :: "'a handler \<Rightarrow> bool" where
  "fails_clean m \<longleftrightarrow> (\<forall>w e v. m w = (Inl e, v) \<longrightarrow> db_of v = db_of w)"

definition never_fails :: "'a handler \<Rightarrow> bool" where
  "never_fails m \<longleftrightarrow> (\<forall>w. \<exists>a. fst (m w) = Inr a)"

named_theorems clean_intros

lemma reads_only_clean: "reads_only m \<Longrightarrow> fails_clean m"
  by (auto simp: reads_only_def fails_clean_def)

lemma reads_ret [clean_intros]: "reads_only (ret a)"
  by (simp add: reads_only_def)

lemma reads_throw [clean_intros]: "reads_only (throw e)"
  by (simp add: reads_only_def)

lemma reads_of_result [clean_intros]: "reads_only (of_result r)"
  by (simp add: reads_only_def of_result_def)

lemma reads_andthen [clean_intros]: "reads_only m \<Longrightarrow> (\<And>a. reads_only (f a)) \<Longrightarrow> reads_only (andthen m f)"
  unfolding reads_only_def andthen_def by (fastforce split: prod.splits sum.splits)

lemma clean_andthen [clean_intros]: "reads_only m \<Longrightarrow> (\<And>a. fails_clean (f a)) \<Longrightarrow> fails_clean (andthen m f)"
  unfolding reads_only_def fails_clean_def andthen_def by (fastforce split: prod.splits sum.splits)

lemma clean_then_safe:
  assumes "fails_clean m" "\<And>a. never_fails (f a)"
  shows "fails_clean (andthen m f)"
  unfolding fails_clean_def
proof (intro allI impI)
  fix w e v assume run: "andthen m f w = (Inl e, v)"
  show "db_of v = db_of w"
  proof (cases "m w")
    case (Pair r u)
    show ?thesis
    proof (cases r)
      case (Inl e')
      then show ?thesis using run Pair assms(1) by (auto simp: andthen_def fails_clean_def)
    next
      case (Inr a)
      then have "f a u = (Inl e, v)" using run Pair by (simp add: andthen_def)
      moreover obtain b where "fst (f a u) = Inr b" using assms(2) unfolding never_fails_def by blast
      ultimately show ?thesis by simp
    qed
  qed
qed

lemma clean_transaction [clean_intros]: "fails_clean (map_err h (on_store (transaction m)))"
  by (auto simp: fails_clean_def map_err_def on_store_def db_of_def dest: transaction_fails split: prod.splits sum.splits)

lemma clean_in_store [clean_intros]: "fails_clean (in_store sqlite m)"
  unfolding in_store_def by (rule clean_transaction)

lemma read_store_eval:
  "read_store sqlite f w = (Inr (f (db_of w)), w\<lparr>w_store := (w_store w)\<lparr>appended := None\<rparr>\<rparr>)"
  by (simp add: read_store_def in_store_def map_err_def on_store_def transaction_def query_def Let_def db_of_def ret_def)

lemma reads_read_store [clean_intros]: "reads_only (read_store sqlite f)"
  by (simp add: reads_only_def read_store_eval db_of_def)

lemma never_fails_ret: "never_fails (ret a)"
  by (simp add: never_fails_def ret_def)

lemma never_fails_read: "never_fails (andthen (read_store sqlite f) (\<lambda>a. ret (g a)))"
  by (simp add: never_fails_def andthen_def read_store_eval ret_def)

lemma reads_parsed [clean_intros]: "reads_only (parsed_id r)" "reads_only (parsed_identity r')"
  unfolding parsed_id_def parsed_identity_def by (rule reads_of_result)+

lemma reads_existing [clean_intros]: "reads_only (existing_project sqlite i)"
  unfolding existing_project_def by (intro clean_intros) (auto intro: clean_intros split: option.split)

lemma reads_optional [clean_intros]: "(\<And>a. reads_only (f a)) \<Longrightarrow> reads_only (optional f x)"
  unfolding optional_def by (cases x) (auto intro!: clean_intros)

lemma reads_config [clean_intros]: "reads_only (run_config_for sqlite p)"
  unfolding run_config_for_def by (intro clean_intros)

lemma reads_overridden [clean_intros]: "reads_only (overridden q c)"
  unfolding overridden_def comp_def by (intro clean_intros)

lemma reads_request_project [clean_intros]: "reads_only (request_project sqlite own conv named)"
  unfolding request_project_def by (auto intro!: clean_intros split: option.split)

lemma clean_start_in: "fails_clean (map_err h (start_in rt thread message config))"
proof -
  have "start_in rt thread message config w = (Inl e, v) \<Longrightarrow> db_of v = db_of w" for w e v
    by (auto simp: start_in_def andthen_def map_err_def on_store_def db_of_def throw_def ret_def
        dest: transaction_fails split: if_splits prod.splits sum.splits)
  then show ?thesis by (auto simp: fails_clean_def map_err_def split: prod.splits sum.splits)
qed

lemma clean_set_defaults: "fails_clean (map_err h (set_defaults rt p config))"
proof -
  have "set_defaults rt p config w = (Inl e, v) \<Longrightarrow> db_of v = db_of w" for w e v
    by (auto simp: set_defaults_def andthen_def map_err_def on_store_def db_of_def throw_def ret_def
        dest: transaction_fails split: if_splits prod.splits sum.splits)
  then show ?thesis by (auto simp: fails_clean_def map_err_def split: prod.splits sum.splits)
qed

lemma clean_save_config: "fails_clean (handle_save_config rt p provider model prompt)"
proof -
  have *: "fails_clean (andthen (map_err h (set_defaults rt p c)) (\<lambda>_. run_config_for sqlite p))" for h c sqlite
    by (rule clean_then_safe [OF clean_set_defaults]) (simp add: run_config_for_def never_fails_read)
  show ?thesis unfolding handle_save_config_def by ((rule clean_andthen [OF reads_parsed(2)])+, rule *)
qed

lemma clean_start: "fails_clean (handle_start rt own q)"
  unfolding handle_start_def Let_def comp_def
  by (auto intro!: clean_intros clean_start_in reads_only_clean [OF reads_throw])

lemma clean_create: "fails_clean (handle_create_project sqlite own name)"
  unfolding handle_create_project_def Let_def
  by (auto intro!: clean_intros reads_only_clean [OF reads_throw])

definition keeps_on_error :: "'a handler \<Rightarrow> world \<Rightarrow> bool" where
  "keeps_on_error m w = (case m w of (Inl e, v) \<Rightarrow> db_of v = db_of w | (Inr a, v) \<Rightarrow> True)"

lemma keeps_on_error: "fails_clean m \<Longrightarrow> keeps_on_error m w"
  by (auto simp: fails_clean_def keeps_on_error_def split: prod.splits sum.splits)

text \<open>C26. A request that the server refuses, for whatever reason, leaves the database as it was: starting a run,
  saving a configuration, creating and renaming a project, renaming and archiving a conversation.\<close>

theorem refused_requests_change_nothing:
  "keeps_on_error (handle_start rt own q) w \<and>
   keeps_on_error (handle_save_config rt p provider model prompt) w \<and>
   keeps_on_error (handle_update_config rt i provider model prompt) w \<and>
   keeps_on_error (handle_create_project sqlite own name) w \<and>
   keeps_on_error (handle_rename_project sqlite i name) w \<and>
   keeps_on_error (handle_update_conversation sqlite i title archived) w"
  unfolding handle_update_config_def handle_rename_project_def handle_update_conversation_def
  by (intro conjI keeps_on_error clean_start clean_save_config clean_create clean_intros)

section \<open>Remembered approvals\<close>

text \<open>The tool's server is in the configuration and enabled.\<close>

definition configured :: "mcp_config \<Rightarrow> string \<Rightarrow> bool" where
  "configured c name =
     (case split_once (CHR ''.'') name of
        None \<Rightarrow> False
      | Some (i, _) \<Rightarrow> list_ex (\<lambda>s. ms_id s = i \<and> ms_enabled s) (mg_servers c))"

lemma map_update_server:
  "(\<And>s. g (f s) = g s) \<Longrightarrow> map g (update_server i f ss) = map g ss"
  by (induction ss) auto

lemma find_update_server:
  assumes "\<And>s. ms_id (f s) = ms_id s" "\<And>s. ms_enabled (f s) = ms_enabled s" "distinct (map ms_id ss)"
  shows "find (\<lambda>s. ms_id s = j \<and> ms_enabled s) (update_server i f ss) =
     map_option (\<lambda>s. if j = i then f s else s) (find (\<lambda>s. ms_id s = j \<and> ms_enabled s) ss)"
  using assms(3)
proof (induction ss)
  case (Cons s ss)
  have "ms_id s \<notin> set (map ms_id ss) \<Longrightarrow> find (\<lambda>x. ms_id x = ms_id s \<and> ms_enabled x) ss = None"
    by (force simp: find_None_iff image_iff)
  moreover have "map_option (\<lambda>s. s) x = x" for x :: "mcp_server option" by (cases x) auto
  ultimately show ?case using Cons by (auto simp: assms(1,2))
qed simp

lemma allow_tool_keeps [simp]:
  "map ms_id (mg_servers (allow_tool n c)) = map ms_id (mg_servers c)"
  "validate_mcp_config (allow_tool n c) = validate_mcp_config c"
proof -
  have "validate_servers seen (update_server i (\<lambda>s. s\<lparr>ms_tools := g s\<rparr>) ss) = validate_servers seen ss" for seen i g ss
    by (induction seen ss rule: validate_servers.induct) auto
  then show "validate_mcp_config (allow_tool n c) = validate_mcp_config c"
    by (simp add: allow_tool_def edit_server_def validate_mcp_config_def split: option.split)
  show "map ms_id (mg_servers (allow_tool n c)) = map ms_id (mg_servers c)"
    by (simp add: allow_tool_def edit_server_def map_update_server split: option.split)
qed

lemma allow_tool_policy:
  assumes "distinct (map ms_id (mg_servers c))"
  shows "config_policy_of (allow_tool n c) m = (if m = n \<and> configured c n then Policy_Allow else config_policy_of c m)"
    and "configured (allow_tool n c) m = configured c m"
proof -
  let ?f = "\<lambda>t s. s\<lparr>ms_tools := bt_insert t Policy_Allow (ms_tools s)\<rparr>"
  have same: "split_once (CHR ''.'') m = Some (i, t) \<Longrightarrow> split_once (CHR ''.'') n = Some (i, t) \<Longrightarrow> m = n" for i t
    by (simp add: split_once_Some_iff)
  have ex: "list_ex P ss \<longleftrightarrow> find P ss \<noteq> None" for P :: "mcp_server \<Rightarrow> bool" and ss
    by (auto simp: list_ex_iff find_None_iff)
  note find = find_update_server [OF _ _ assms]
  show "configured (allow_tool n c) m = configured c m"
    by (auto simp: configured_def allow_tool_def edit_server_def ex find split: option.splits prod.splits)
  show "config_policy_of (allow_tool n c) m = (if m = n \<and> configured c n then Policy_Allow else config_policy_of c m)"
    using same
    by (auto simp: config_policy_of_def configured_def allow_tool_def edit_server_def ex find server_policy_of_def
        map_of_bt_insert split: option.splits prod.splits)
qed

lemma remember_tools_policy:
  "distinct (map ms_id (mg_servers c)) \<Longrightarrow>
     config_policy_of (remember_tools ns c) m =
       (if m \<in> set ns \<and> configured c m then Policy_Allow else config_policy_of c m) \<and>
     validate_mcp_config (remember_tools ns c) = validate_mcp_config c"
  unfolding remember_tools_def
  by (induction ns arbitrary: c) (auto simp: allow_tool_policy)

lemma no_escalation_simps [simp]: "es_guarded no_escalation = False" "es_asking no_escalation = []"
  by (simp_all add: no_escalation_def)

lemma answer_plan_saves:
  assumes "answer_plan ap ap' detail config save r call decision remember_it = Inr (a, Some c')"
  obtains e d name c where
    "a = Person_Allows" "decision = ''allow''" "remember_it" "is_pending ap r call"
    "e = (case pending_escalation ap' r call of Some e \<Rightarrow> e | None \<Rightarrow> no_escalation)" "\<not> es_guarded e"
    "detail = Inr d" "called_name d call = Some name" "config = Inr c"
    "c' = remember_tools (name # es_asking e) c" "save c' = None"
  using assms
  by (auto simp: answer_plan_def parse_answer_def Let_def split: if_splits sum.splits option.splits)

text \<open>A call that waits is explained, and one without an execution that waits is not, whatever the gate went through.\<close>

lemma pending_escalated:
  assumes "numbered g" "maps_agree g" "is_pending (gt_approvals g) r call"
  shows "pending_escalation (gt_approvals g) r call \<noteq> None"
proof -
  obtain i where "map_of (ap_pending (gt_approvals g)) (r, call) = Some i" using assms(3) by (auto simp: is_pending_def)
  then obtain w where "w \<in> set (gt_waits g)" "wait_key w = (r, call)" "wt_slot w = Open"
    using maps_pendingD [OF assms(2)] by blast
  then show ?thesis using maps_openD [OF assms(2), of w] by (auto simp: pending_escalation_def)
qed

lemma unexplained:
  assumes "maps_agree g" "(r, call) \<notin> wait_key ` set (gt_waits g)"
  shows "pending_escalation (gt_approvals g) r call = None"
  using maps_escalationD [OF assms(1), of "(r, call)"] assms(2) by (auto simp: pending_escalation_def)

lemma gate_run_append: "gate_run wide cx (es @ fs) g = gate_run wide cx fs (gate_run wide cx es g)"
  by (simp add: gate_run_def)

lemma answer_plan_Inr:
  assumes "is_pending ap r call" "called_name d call = Some name" "save c' = None"
    and "e = (case pending_escalation ap' r call of Some e \<Rightarrow> e | None \<Rightarrow> no_escalation)" "\<not> es_guarded e"
    and "c' = remember_tools (name # es_asking e) c"
  shows "answer_plan ap ap' (Inr d) (Inr c) save r call ''allow'' True = Inr (Person_Allows, Some c')"
  using assms by (simp add: answer_plan_def parse_answer_def)

text \<open>C15. What remembering an approval changes. The handler sees the gate at two moments, with anything in between:
  at the first the call waits. A configuration is saved only if at the second moment the gate has no escalation
  of the call that Jev flagged; it is valid, it lets the call's own tool run without asking, and
  the tools that the escalation names, as far as their servers are configured, and it leaves the policy of every
  other tool as it was. While the call still waits there is such an escalation, so a flagged call that waits is
  not remembered. But if no execution waits for the call any more at the second moment, because it timed out or
  its run was stopped, the flag is gone and the approval is remembered whether or not Jev had flagged the call.\<close>

theorem remembered_approval:
  assumes "validate_mcp_config c = Inr ()"
    and "g = gate_run wide cx es (new_gate timeout)" and "g' = gate_run wide cx between g"
  shows "(\<forall>d save a c' decision remember_it.
      answer_plan (gt_approvals g) (gt_approvals g') (Inr d) (Inr c) save r call decision remember_it = Inr (a, Some c') \<longrightarrow>
      a = Person_Allows \<and> remember_it \<and> is_pending (gt_approvals g) r call \<and> validate_mcp_config c' = Inr () \<and>
      (\<forall>e. pending_escalation (gt_approvals g') r call = Some e \<longrightarrow> \<not> es_guarded e) \<and>
      (is_pending (gt_approvals g') r call \<longrightarrow> pending_escalation (gt_approvals g') r call \<noteq> None) \<and>
      (\<exists>name. called_name d call = Some name \<and>
         (\<forall>n. config_policy_of c' n =
           (if configured c n \<and>
               (n = name \<or> (\<exists>e. pending_escalation (gt_approvals g') r call = Some e \<and> n \<in> set (es_asking e)))
            then Policy_Allow else config_policy_of c n)))) \<and>
    (is_pending (gt_approvals g) r call \<and> (r, call) \<notin> wait_key ` set (gt_waits g') \<longrightarrow>
      (\<forall>d name. called_name d call = Some name \<longrightarrow>
         answer_plan (gt_approvals g) (gt_approvals g') (Inr d) (Inr c) (\<lambda>_. None) r call ''allow'' True =
           Inr (Person_Allows, Some (allow_tool name c))))"
proof (intro conjI allI impI)
  have dist: "distinct (map ms_id (mg_servers c))" using assms(1) by (simp add: validate_mcp_config_Inr)
  note policy = remember_tools_policy [OF dist]
  have ok: "numbered g'" "maps_agree g'"
    using gate_run_ok [of wide cx "es @ between" timeout] by (simp_all add: assms(2,3) gate_run_append)
  {
    fix d save a c' decision remember_it
    assume "answer_plan (gt_approvals g) (gt_approvals g') (Inr d) (Inr c) save r call decision remember_it = Inr (a, Some c')"
    then show "a = Person_Allows" "remember_it" "is_pending (gt_approvals g) r call" "validate_mcp_config c' = Inr ()"
      "\<And>e. pending_escalation (gt_approvals g') r call = Some e \<Longrightarrow> \<not> es_guarded e"
      "is_pending (gt_approvals g') r call \<Longrightarrow> pending_escalation (gt_approvals g') r call \<noteq> None"
      "\<exists>name. called_name d call = Some name \<and>
         (\<forall>n. config_policy_of c' n =
           (if configured c n \<and>
               (n = name \<or> (\<exists>e. pending_escalation (gt_approvals g') r call = Some e \<and> n \<in> set (es_asking e)))
            then Policy_Allow else config_policy_of c n))"
      using pending_escalated [OF ok]
      by - (erule answer_plan_saves, (auto simp: policy assms(1) no_escalation_def split: option.splits) [1])+
  next
    fix d name
    assume "is_pending (gt_approvals g) r call \<and> (r, call) \<notin> wait_key ` set (gt_waits g')" "called_name d call = Some name"
    then show "answer_plan (gt_approvals g) (gt_approvals g') (Inr d) (Inr c) (\<lambda>_. None) r call ''allow'' True =
        Inr (Person_Allows, Some (allow_tool name c))"
      using unexplained [OF ok(2)]
      by (intro answer_plan_Inr [where e = no_escalation]) (simp_all add: remember_tools_def)
  }
qed

text \<open>A call whose safety check could not run, so it counts as flagged.\<close>

definition flagged_events :: "gate_event list" where
  "flagged_events = [Serve True, Configure demo_mcp_config, Guard_With (Some \<lparr>gd_decide = \<lambda>_ _. Elapsed, gd_root = []\<rparr>),
     Ask (Ident ''run_1'') demo_call, Checked 0 (Inr [])]"

lemma remembered_approval_witness:
  "let g = gate_run narrow demo_codec flagged_events (new_gate ''10m''); g' = gate_run narrow demo_codec [Expire 0] g
   in map_option es_guarded (pending_escalation (gt_approvals g) (Ident ''run_1'') ''call_1'') = Some True \<and>
      (\<forall>d. called_name d ''call_1'' = Some ''ooda.exec_cli'' \<longrightarrow>
        (\<forall>c'. answer_plan (gt_approvals g) (gt_approvals g) (Inr d) (Inr demo_mcp_config) (\<lambda>_. None) (Ident ''run_1'') ''call_1''
           ''allow'' True \<noteq> Inr (Person_Allows, Some c')) \<and>
        (\<exists>c'. answer_plan (gt_approvals g) (gt_approvals g') (Inr d) (Inr demo_mcp_config) (\<lambda>_. None) (Ident ''run_1'') ''call_1''
           ''allow'' True = Inr (Person_Allows, Some c') \<and> config_policy_of c' ''ooda.exec_cli'' = Policy_Allow \<and>
           config_policy_of c' ''ooda.write'' = Policy_Ask))"
proof -
  let ?g = "gate_run narrow demo_codec flagged_events (new_gate ''10m'')"
  let ?g' = "gate_run narrow demo_codec [Expire 0] ?g"
  have valid: "validate_mcp_config demo_mcp_config = Inr ()" by code_simp
  have same: "?g = gate_run narrow demo_codec [] ?g" by (simp add: gate_run_def)
  note now = remembered_approval [OF valid refl same, where r = "Ident ''run_1''" and call = "''call_1''"]
  note later = remembered_approval [OF valid refl refl, where es = flagged_events and wide = narrow and cx = demo_codec
      and timeout = "''10m''" and between = "[Expire 0]" and r = "Ident ''run_1''" and call = "''call_1''"]
  have flagged: "map_option es_guarded (pending_escalation (gt_approvals ?g) (Ident ''run_1'') ''call_1'') = Some True"
    by code_simp
  have ended: "is_pending (gt_approvals ?g) (Ident ''run_1'') ''call_1''" "(Ident ''run_1'', ''call_1'') \<notin> wait_key ` set (gt_waits ?g')"
    by code_simp+
  have "configured demo_mcp_config ''ooda.exec_cli''" "config_policy_of demo_mcp_config ''ooda.write'' = Policy_Ask" by code_simp+
  moreover have "distinct (map ms_id (mg_servers demo_mcp_config))" by code_simp
  ultimately have "config_policy_of (allow_tool ''ooda.exec_cli'' demo_mcp_config) ''ooda.exec_cli'' = Policy_Allow"
      "config_policy_of (allow_tool ''ooda.exec_cli'' demo_mcp_config) ''ooda.write'' = Policy_Ask"
    by (simp_all add: allow_tool_policy)
  then show ?thesis
    using flagged ended conjunct1 [OF now] conjunct2 [OF later] unfolding Let_def by fastforce
qed

section \<open>Edits of the tools\<close>

text \<open>The same servers in the same order, each in relation \<open>P\<close> to what it was, and the same guard.\<close>

definition servers_become :: "(mcp_server \<Rightarrow> mcp_server \<Rightarrow> bool) \<Rightarrow> mcp_config \<Rightarrow> mcp_config \<Rightarrow> bool" where
  "servers_become P c c' \<longleftrightarrow> mg_guard c' = mg_guard c \<and> list_all2 P (mg_servers c) (mg_servers c')"

text \<open>A server is started as before: under its id, by the same command, in the same place, or not at all.\<close>

definition starts_alike :: "mcp_server \<Rightarrow> mcp_server \<Rightarrow> bool" where
  "starts_alike s s' \<longleftrightarrow> ms_id s' = ms_id s \<and> ms_command s' = ms_command s \<and> ms_args s' = ms_args s \<and>
     ms_cwd s' = ms_cwd s \<and> ms_enabled s' = ms_enabled s"

text \<open>A server is started as a request says.\<close>

definition starts_as :: "string \<Rightarrow> string \<Rightarrow> string list \<Rightarrow> string option \<Rightarrow> bool \<Rightarrow> mcp_server \<Rightarrow> bool" where
  "starts_as i command args cwd enabled s \<longleftrightarrow> ms_id s = i \<and> ms_command s = trim command \<and>
     ms_args s = filter (\<lambda>a. a \<noteq> []) args \<and> ms_enabled s = enabled \<and>
     ms_cwd s = Option.bind cwd (\<lambda>d. if trim d = [] then None else Some (trim d))"

lemma has_server_iff: "has_server i c \<longleftrightarrow> i \<in> set (map ms_id (mg_servers c))"
  by (auto simp: has_server_def list_ex_iff)

lemma update_server_map:
  "distinct (map ms_id ss) \<Longrightarrow> update_server i f ss = map (\<lambda>s. if ms_id s = i then f s else s) ss"
proof (induction ss)
  case (Cons s ss)
  then have "ms_id s \<notin> ms_id ` set ss" by simp
  then have "map (\<lambda>x. if ms_id x = ms_id s then f x else x) ss = ss" by (intro map_idI) (force simp: image_iff)
  then show ?case using Cons by auto
qed simp

lemma edit_server_becomes:
  assumes "distinct (map ms_id (mg_servers c))"
    and "\<And>s. ms_id s = i \<Longrightarrow> P s (f s)" and "\<And>s. ms_id s \<noteq> i \<Longrightarrow> P s s"
  shows "servers_become P c (edit_server i f c)"
  unfolding servers_become_def edit_server_def using update_server_map [OF assms(1), of i f] assms(2,3)
  by (simp add: list_all2_conv_all_nth)

text \<open>C28. Adding, changing and removing an MCP server, and setting policies, change what they are meant to change and
  nothing else. A policy for one tool of a server is from then on the policy of that tool, one for the server
  that of all its tools; every other tool of every server keeps its policy, and every server is started as
  before. A server that is saved under an id that there was is started as the request says and keeps its
  policies; under a new id it comes last, and all its tools ask. Removing takes that server away and no other.
  The guard's settings stay. The ids are distinct, as in every configuration that loads.\<close>

theorem tool_edits_are_local:
  assumes "distinct (map ms_id (mg_servers c))"
  shows
    "(case put_tool_policy i t p c of
        Inl e \<Rightarrow> \<not> has_server i c
      | Inr c' \<Rightarrow> has_server i c \<and> servers_become (\<lambda>s s'. starts_alike s s' \<and> (ms_id s \<noteq> i \<longrightarrow> s' = s) \<and>
          (\<forall>x. server_policy_of s' x =
             (if ms_id s = i \<and> (t = None \<or> t = Some x) then p else server_policy_of s x))) c c') \<and>
     (case put_tool_server i command args cwd enabled c of
        Inl e \<Rightarrow> \<not> valid_server_id i
      | Inr c' \<Rightarrow> valid_server_id i \<and>
          (if has_server i c
           then servers_become (\<lambda>s s'. if ms_id s = i
             then starts_as i command args cwd enabled s' \<and> server_policy_of s' = server_policy_of s else s' = s) c c'
           else mg_guard c' = mg_guard c \<and> (\<exists>s'. mg_servers c' = mg_servers c @ [s'] \<and>
             starts_as i command args cwd enabled s' \<and> (\<forall>x. server_policy_of s' x = Policy_Ask)))) \<and>
     (case drop_tool_server i c of
        Inl e \<Rightarrow> \<not> has_server i c
      | Inr c' \<Rightarrow> has_server i c \<and> mg_guard c' = mg_guard c \<and> mg_servers c' = filter (\<lambda>s. ms_id s \<noteq> i) (mg_servers c))"
    (is "?policy \<and> ?put \<and> ?drop")
proof (intro conjI)
  show ?policy
    by (cases t) (auto simp: put_tool_policy_def server_policy_of_def map_of_bt_insert starts_alike_def
        split: option.split intro!: edit_server_becomes [OF assms])
  have cwd: "(case cwd of Some d \<Rightarrow> if trim d = [] then None else Some (trim d) | None \<Rightarrow> None) =
      Option.bind cwd (\<lambda>d. if trim d = [] then None else Some (trim d))"
    by (cases cwd) simp_all
  show ?put
    by (auto simp: put_tool_server_def Let_def starts_as_def new_mcp_server_def server_policy_of_def cwd fun_eq_iff
        split: option.split intro!: edit_server_becomes [OF assms])
  have keep: "length (filter P xs) = length xs \<longleftrightarrow> (\<forall>x \<in> set xs. P x)" for P :: "mcp_server \<Rightarrow> bool" and xs
    by (metis filter_True length_filter_less less_irrefl)
  show ?drop
    by (auto simp: drop_tool_server_def Let_def keep has_server_def list_ex_iff)
qed

lemma tool_edits_are_local_witness:
  "case put_tool_policy ''ooda'' (Some ''write'') Policy_Off demo_mcp_config of
     Inl e \<Rightarrow> False
   | Inr c' \<Rightarrow> map (\<lambda>s. (ms_id s, ms_enabled s, server_policy_of s ''write'', server_policy_of s ''read'')) (mg_servers c') =
       [(''ooda'', True, Policy_Off, Policy_Ask), (''other'', False, Policy_Ask, Policy_Ask)]"
proof -
  have distinct: "distinct (map ms_id (mg_servers demo_mcp_config))" by code_simp
  have "has_server ''ooda'' demo_mcp_config" by code_simp
  then obtain c' where c': "put_tool_policy ''ooda'' (Some ''write'') Policy_Off demo_mcp_config = Inr c'"
    by (simp add: put_tool_policy_def)
  with tool_edits_are_local [OF distinct, of "''ooda''" "Some ''write''" Policy_Off]
  have "servers_become (\<lambda>s s'. starts_alike s s' \<and> (ms_id s \<noteq> ''ooda'' \<longrightarrow> s' = s) \<and>
      (\<forall>x. server_policy_of s' x =
        (if ms_id s = ''ooda'' \<and> x = ''write'' then Policy_Off else server_policy_of s x))) demo_mcp_config c'"
    by (simp add: eq_commute cong: conj_cong)
  then show ?thesis
    unfolding c'
    by (auto simp: servers_become_def demo_mcp_config_def list_all2_Cons1 starts_alike_def new_mcp_server_def
        server_policy_of_def)
qed

end
