(* ===== verification/Workspace_Behaviour.thy ===== *)
theory Workspace_Behaviour
  imports Workspace Server_Behaviour Gate_Safety Lint_Outcome
begin

text \<open>
  What holds of a workspace across edits: the runtime that new runs use is the one its files describe, a new
  policy is in force as soon as it is saved, and a dismissed finding is not reported again.
\<close>

section \<open>When loading works\<close>



text \<open>The environment names no Jev, or names one properly.\<close>

definition jev_env_ok :: "(string \<Rightarrow> string option) \<Rightarrow> bool" where
  "jev_env_ok env \<longleftrightarrow> \<not> isl (chosen_jev \<lparr>kv_env = nonblank env, kv_saved = []\<rparr> no_providers_file)"

definition readable_providers :: "outside \<Rightarrow> disk_file \<Rightarrow> bool" where
  "readable_providers ou file \<longleftrightarrow>
     (\<exists>f. read_providers (ou_read_providers ou) (ou_path ou ''providers.json'') file = Inr f \<and>
        fake_provider_id \<notin> pe_id ` set (pf_providers f))"



section \<open>Reloading\<close>


lemma tell_gate_keeps [simp]: "wk_files (tell_gate w) = wk_files w" "wk_mcp (tell_gate w) = wk_mcp w"
    "wk_live (tell_gate w) = wk_live w" "ap_config (wk_approvals (tell_gate w)) = ap_config (wk_approvals w)"
  by (simp_all add: tell_gate_def set_tools_def split: option.split)

lemma swap_in_keeps [simp]: "wk_files (swap_in ou v w) = wk_files w" "wk_mcp (swap_in ou v w) = wk_mcp w"
    "wk_live (swap_in ou v w) = v" "ap_config (wk_approvals (swap_in ou v w)) = ap_config (wk_approvals w)"
    "ap_tools (wk_approvals (swap_in ou v w)) = ap_tools (wk_approvals w)"
  by (simp_all add: swap_in_def)

lemma reload_eval:
  "wk_reload ou w =
     (case build_live ou (wk_files w) (map_option snd (wk_mcp w)) of
        Inl e \<Rightarrow> (Inl e, tell_gate w)
      | Inr v \<Rightarrow> (Inr (), swap_in ou v (tell_gate w)))"
  by (simp add: wk_reload_def andthen_def split: sum.split)


section \<open>Edits of the settings\<close>


definition readable_keys :: "outside \<Rightarrow> key_store option \<Rightarrow> bool" where
  "readable_keys ou keys \<longleftrightarrow> (case keys of None \<Rightarrow> True | Some ks \<Rightarrow> \<not> isl (read_keys (ou_read_keys ou) ks))"


text \<open>Changes of the files alone that leave them readable, and change nothing if they fail.\<close>

definition ready :: "outside \<Rightarrow> workspace \<Rightarrow> bool" where
  "ready ou w \<longleftrightarrow> readable_providers ou (fl_providers (wk_files w)) \<and> readable_keys ou (fl_keys (wk_files w)) \<and>
     jev_env_ok (ou_env ou)"

definition safe_change :: "outside \<Rightarrow> 'a setting_handler \<Rightarrow> bool" where
  "safe_change ou m \<longleftrightarrow>
     (\<forall>w. ready ou w \<longrightarrow> (case m w of (Inl e, v) \<Rightarrow> v = w | (Inr a, v) \<Rightarrow> ready ou v \<and> wk_live v = wk_live w))"




lemma safe_ret: "safe_change ou (ret a)"
  by (simp add: safe_change_def)












section \<open>Sequences of calls\<close>











text \<open>A format for the providers' file: fields that follow their lengths, as for the keys.\<close>

definition demo_fields :: "string list \<Rightarrow> string" where
  "demo_fields xs = concat (map demo_field xs)"

fun demo_unfields :: "nat \<Rightarrow> string \<Rightarrow> string list" where
  "demo_unfields 0 t = []"
| "demo_unfields (Suc n) t = (if t = [] then [] else case demo_take t of (x, r) \<Rightarrow> x # demo_unfields n r)"

lemma demo_unfields_fields: "length xs \<le> n \<Longrightarrow> demo_unfields n (demo_fields xs) = xs"
proof (induction xs arbitrary: n)
  case (Cons x xs)
  then obtain k where n: "n = Suc k" "length xs \<le> k" by (cases n) auto
  have fields: "demo_fields (x # xs) = demo_field x @ demo_fields xs" by (simp add: demo_fields_def)
  moreover have "demo_fields (x # xs) \<noteq> []" by (simp add: demo_fields_def demo_field_def)
  ultimately show ?case unfolding n(1) using Cons.IH [OF n(2)] by (simp add: demo_take_field)
next
  case Nil
  then show ?case by (cases n) (simp_all add: demo_fields_def)
qed

lemma demo_fields_length: "length xs \<le> length (demo_fields xs)"
  by (induction xs) (auto simp: demo_fields_def demo_field_def)

definition demo_untext :: "string \<Rightarrow> string list" where
  "demo_untext t = demo_unfields (length t) t"

lemma demo_untext [simp]: "demo_untext (demo_fields xs) = xs"
  by (simp add: demo_untext_def demo_unfields_fields demo_fields_length)

definition demo_flag :: "bool \<Rightarrow> string" where
  "demo_flag b = (if b then ''1'' else [])"

definition demo_maybe :: "string option \<Rightarrow> string" where
  "demo_maybe x = (case x of None \<Rightarrow> [] | Some s \<Rightarrow> CHR ''1'' # s)"

definition demo_unmaybe :: "string \<Rightarrow> string option" where
  "demo_unmaybe t = (case t of [] \<Rightarrow> None | _ # s \<Rightarrow> Some s)"

definition demo_entry :: "provider_entry \<Rightarrow> string" where
  "demo_entry e = demo_fields ([provider_str (pe_id e), pe_base_url e, demo_maybe (pe_api_key_env e), demo_flag (pe_json_mode e),
     demo_flag (pe_native_tools e)] @ map model_str (pe_models e))"

definition demo_unentry :: "string \<Rightarrow> provider_entry" where
  "demo_unentry t =
     (let xs = demo_untext t
      in \<lparr>pe_id = Provider_Id (xs ! 0), pe_base_url = xs ! 1, pe_api_key_env = demo_unmaybe (xs ! 2),
          pe_models = map Model_Id (drop 5 xs), pe_json_mode = (xs ! 3 \<noteq> []), pe_native_tools = (xs ! 4 \<noteq> [])\<rparr>)"

definition demo_print_file :: "providers_file \<Rightarrow> string" where
  "demo_print_file f =
     demo_fields (demo_maybe (map_option (\<lambda>j. demo_fields [provider_str (je_provider j), model_str (je_model j)]) (pf_jev f)) #
       map demo_entry (pf_providers f))"

text \<open>The text ends with a line break.\<close>

definition demo_parse_file :: "string \<Rightarrow> string + providers_file" where
  "demo_parse_file t =
     (case demo_untext (butlast t) of
        [] \<Rightarrow> Inl ''no fields''
      | j # es \<Rightarrow> Inr \<lparr>pf_providers = map demo_unentry es,
          pf_jev = map_option (\<lambda>u. \<lparr>je_provider = Provider_Id (demo_untext u ! 0), je_model = Model_Id (demo_untext u ! 1)\<rparr>)
            (demo_unmaybe j)\<rparr>)"

lemma demo_unmaybe [simp]: "demo_unmaybe (demo_maybe x) = x"
  by (simp add: demo_unmaybe_def demo_maybe_def split: option.split)

lemma demo_unentry [simp]: "demo_unentry (demo_entry e) = e"
  by (cases e) (simp add: demo_unentry_def demo_entry_def demo_flag_def Let_def o_def)

lemma demo_parse_file: "demo_parse_file (demo_print_file f @ [CHR 0x0A]) = Inr f"
proof -
  have "map demo_unentry (map demo_entry es) = es" for es
    by (induction es) simp_all
  then show ?thesis
    by (cases f; cases "pf_jev f") (simp_all add: demo_parse_file_def demo_print_file_def o_def)
qed

definition demo_outside :: outside where
  "demo_outside =
     \<lparr>ou_read_providers = demo_parse_file, ou_print_providers = demo_print_file, ou_read_keys = demo_parse,
      ou_print_keys = demo_print, ou_read_mcp = (\<lambda>_. Inr demo_mcp_config), ou_print_mcp = (\<lambda>_. []),
      ou_read_lint = (\<lambda>_. Inr default_lint_config), ou_print_lint = (\<lambda>_. []), ou_path = (\<lambda>n. ''.dagos/'' @ n),
      ou_env = (\<lambda>_. None), ou_root = [''home'', ''me'', ''app''], ou_root_text = ''/home/me/app'',
      ou_decide = (\<lambda>_ _ _. Elapsed)\<rparr>"

definition no_files :: files where
  "no_files = \<lparr>fl_providers = None, fl_keys = Some \<lparr>ks_path = ''keys.json'', ks_file = None\<rparr>, fl_mcp = None, fl_lint = None,
     fl_cache = None\<rparr>"



section \<open>New policies\<close>

text \<open>The tools that runs started from now on are offered.\<close>

definition offered_now :: "workspace \<Rightarrow> ir_tool list" where
  "offered_now w = (case vi_tools (wk_live w) of None \<Rightarrow> [] | Some ts \<Rightarrow> ts)"

lemma capabilities_not_off:
  assumes "validate_mcp_config (po_config p) = Inr ()" and "x \<in> set (cp_tools (pool_capabilities p))"
  shows "config_policy_of (po_config p) (it_name x) \<noteq> Policy_Off"
proof -
  obtain s t where "s \<in> set (mg_servers (po_config p))" "t \<in> set (fst (listed_tools p s))"
      "server_policy_of s (mt_name t) \<noteq> Policy_Off" "it_name x = tool_ir_name s t"
    using assms(2) by (auto simp: in_capabilities_iff)
  then show ?thesis using config_policy_of_tool [OF assms(1)] listed_tools_enabled by metis
qed

lemma policy_section_isl:
  "isl (policy_section wide ap q) \<longleftrightarrow> (\<exists>n \<in> set (tools_of wide ap q). config_policy_of (ap_config ap) n = Policy_Off)"
proof -
  obtain p off asking where e: "effective_policy wide ap q = (p, off, asking)" by (metis prod_cases3)
  show ?thesis using effective_policy_spec(1) [OF e] e by (simp add: policy_section_def)
qed

lemma reload_gate:
  "wk_reload ou w = (r, v) \<Longrightarrow>
     ap_config (wk_approvals v) = ap_config (wk_approvals w) \<and> wk_files v = wk_files w \<and> wk_mcp v = wk_mcp w \<and>
     ap_tools (wk_approvals v) = ap_tools (wk_approvals (tell_gate w)) \<and>
     (case r of Inl e \<Rightarrow> wk_live v = wk_live w | Inr u \<Rightarrow> vi_tools (wk_live v) = map_option (cp_tools \<circ> snd) (wk_mcp w))"
  by (auto simp: reload_eval build_live_def option.map_comp split: sum.splits)

text \<open>A change of the policies is in force as soon as it is saved, even when rebuilding the runtime then
  fails: the gate decides by the new configuration, the one that the file holds, so that a call is refused
  exactly if a tool it would run is now off, and no tool that is off is among those that the servers are
  said to offer. If the runtime is rebuilt, the runs that start from then on are offered no other tools.\<close>

theorem new_policies_in_force:
  assumes "validate_mcp_config c = Inr ()" and "set_tool_policies ou Disk_Ok c w = (r, v)"
  shows "fl_mcp (wk_files v) = Some (Inr (ou_print_mcp ou c @ [CHR 0x0A])) \<and>
    (isl (policy_section wide (wk_approvals v) q) \<longleftrightarrow>
       (\<exists>n \<in> set (tools_of wide (wk_approvals v) q). config_policy_of c n = Policy_Off)) \<and>
    (\<forall>x \<in> set (case wk_mcp v of None \<Rightarrow> [] | Some (p, caps) \<Rightarrow> cp_tools caps). config_policy_of c (it_name x) \<noteq> Policy_Off) \<and>
    (case r of
       Inl e \<Rightarrow> wk_live v = wk_live w
     | Inr u \<Rightarrow> offered_now v = (case wk_mcp v of None \<Rightarrow> [] | Some (p, caps) \<Rightarrow> cp_tools caps))"
proof -
  obtain u where u: "wk_reload ou (repolicy c u) = (r, v)" "wk_mcp u = wk_mcp w" "wk_live u = wk_live w"
      "fl_mcp (wk_files u) = Some (Inr (ou_print_mcp ou c @ [CHR 0x0A]))"
    using assms by (simp add: set_tool_policies_def save_mcp_def save_mcp_config_def andthen_def)
  have conf: "ap_config (wk_approvals v) = c" and files: "wk_files v = wk_files u"
      and mcp: "wk_mcp v = map_option (\<lambda>(p, _). case set_policies c p of (caps, q) \<Rightarrow> (q, caps)) (wk_mcp w)"
      and live: "case r of Inl e \<Rightarrow> wk_live v = wk_live w
        | Inr u \<Rightarrow> vi_tools (wk_live v) = map_option (cp_tools \<circ> snd) (wk_mcp v)"
    using reload_gate [OF u(1)] u(2,3) by (auto simp: repolicy_def split: sum.splits)
  have "config_policy_of c (it_name x) \<noteq> Policy_Off" if "wk_mcp v = Some (p, caps)" "x \<in> set (cp_tools caps)" for p caps x
  proof -
    have "po_config p = c" "caps = pool_capabilities p"
      using that(1) unfolding mcp by (auto simp: set_policies_def Let_def)
    then show ?thesis using capabilities_not_off [of p x] assms(1) that(2) by simp
  qed
  moreover have "case r of Inl e \<Rightarrow> wk_live v = wk_live w
      | Inr u \<Rightarrow> offered_now v = (case wk_mcp v of None \<Rightarrow> [] | Some (p, caps) \<Rightarrow> cp_tools caps)"
    using live by (auto simp: offered_now_def split: sum.splits option.splits)
  ultimately show ?thesis
    using u(4) files conf by (auto simp: policy_section_isl split: option.splits)
qed

section \<open>Dismissed findings\<close>

lemma mark_dismissed_iff:
  "is_dismissed (mark_dismissed d b c) i f n \<longleftrightarrow>
     (if d = \<lparr>ds_rule = i, ds_file = f, ds_function = n\<rparr> then b else is_dismissed c i f n)"
proof -
  have *: "ds_rule x = i \<and> ds_file x = f \<and> ds_function x = n \<longleftrightarrow> x = \<lparr>ds_rule = i, ds_file = f, ds_function = n\<rparr>" for x
    by (cases x) auto
  show ?thesis by (auto simp: is_dismissed_def mark_dismissed_def Let_def list_ex_iff *)
qed

lemma save_lint_file:
  "save_lint ou Disk_Ok c w = (Inr u, v) \<longleftrightarrow>
     validate_lint c = Inr () \<and> v = w\<lparr>wk_files := (wk_files w)\<lparr>fl_lint := Some (Inr (ou_print_lint ou c @ ''\<newline>''))\<rparr>\<rparr>"
  by (auto simp: save_lint_def lint_save_def Let_def split: sum.splits)

lemma review_undismissed:
  assumes "fst (lint_review fns_in hash fingerprint decide order fs run rv) = Some (Inr report)"
  shows "list_all (\<lambda>x. \<not> is_dismissed (lv_config rv) (if_rule x) (if_file x) (if_function x)) (rv_findings report)"
proof (cases "report = empty_review")
  case False
  obtain rv' saved where "lint_review fns_in hash fingerprint decide order fs run rv = (Some (Inr report), rv', saved)"
    using assms by (metis prod.collapse)
  then obtain units rows where "rv_findings report = take max_findings (kept_findings (lv_config rv) units rows)"
    using False by (auto simp: lint_review_def split: option.splits if_splits prod.splits sum.splits judge_error.splits)
  then show ?thesis by (auto simp: list_all_iff kept_findings_def dest: in_set_takeD)
qed (simp add: empty_review_def)

lemma saved_lint:
  assumes "handle_save_lint ou Disk_Ok c w = (Inr answer, v)"
    and "ou_read_lint ou (ou_print_lint ou c @ ''\<newline>'') = Inr c"
  shows "answer = c \<and> vi_reviewer (wk_live v) =
    (if lc_enabled c
     then Some (with_cache_file (fl_cache (wk_files w)) (new_reviewer (ou_root ou) c), lc_max_rounds c) else None)"
proof -
  obtain t u where save: "save_lint ou Disk_Ok c w = (Inr (), t)" and reload: "wk_reload ou t = (Inr (), u)"
      and answer: "look_lint ou u = (Inr answer, v)"
    using assms(1) by (auto simp: handle_save_lint_def andthen_Inr_iff)
  then have t: "validate_lint c = Inr ()" "t = w\<lparr>wk_files := (wk_files w)\<lparr>fl_lint := Some (Inr (ou_print_lint ou c @ ''\<newline>''))\<rparr>\<rparr>"
    by (simp_all add: save_lint_file)
  have read: "lint_load (ou_read_lint ou) (ou_path ou ''lint.json'') (fl_lint (wk_files t)) = Inr c"
    using t assms(2) by (simp add: lint_load_def)
  obtain l where l: "build_live ou (wk_files t) (map_option snd (wk_mcp t)) = Inr l" "u = swap_in ou l (tell_gate t)"
    using reload by (auto simp: reload_eval split: sum.splits)
  then have "vi_reviewer l = load_review ou (wk_files t)" by (auto simp: build_live_def split: sum.splits)
  moreover have "answer = c" "v = u"
    using answer read l(2) by (simp_all add: look_lint_def)
  ultimately show ?thesis using l(2) read t(2) by (simp add: load_review_def)
qed

text \<open>A finding that a person marked as no problem stays away: once the mark is saved, runs that start use the
  new configuration, in which that finding is dismissed and every other one is as before, and no review of
  theirs reports it. Unmarking brings it back. Assumed is that the configuration is read as it was printed.\<close>

theorem dismissals_honoured:
  assumes "lint_load (ou_read_lint ou) (ou_path ou ''lint.json'') (fl_lint (wk_files w)) = Inr c"
    and "ou_read_lint ou (ou_print_lint ou (mark_dismissed d b c) @ ''\<newline>'') = Inr (mark_dismissed d b c)"
    and "handle_set_dismissal ou Disk_Ok d b w = (Inr answer, v)"
  shows "(\<forall>i f n. is_dismissed answer i f n \<longleftrightarrow>
       (if d = \<lparr>ds_rule = i, ds_file = f, ds_function = n\<rparr> then b else is_dismissed c i f n)) \<and>
    (case vi_reviewer (wk_live v) of
       None \<Rightarrow> \<not> lc_enabled answer
     | Some (rv, rounds) \<Rightarrow> lv_config rv = answer \<and> rounds = lc_max_rounds answer \<and>
         (\<forall>fns_in hash fingerprint decide order fs run before.
            case fst (lint_review fns_in hash fingerprint decide order fs run (rv\<lparr>lv_before := before\<rparr>)) of
              Some (Inr report) \<Rightarrow>
                list_all (\<lambda>x. \<not> is_dismissed answer (if_rule x) (if_file x) (if_function x)) (rv_findings report)
            | _ \<Rightarrow> True))"
proof -
  let ?c = "mark_dismissed d b c"
  have "handle_save_lint ou Disk_Ok ?c w = (Inr answer, v)"
    using assms(1,3) by (simp add: handle_set_dismissal_def look_lint_def andthen_def)
  note saved = saved_lint [OF this assms(2)]
  have reviewer: "lv_config (with_cache_file cache (new_reviewer root_dir config)) = config" for cache root_dir config
    by (simp add: with_cache_file_def new_reviewer_def)
  have "case fst (lint_review fns_in hash fingerprint decide order fs run (rv\<lparr>lv_before := before\<rparr>)) of
      Some (Inr report) \<Rightarrow>
        list_all (\<lambda>x. \<not> is_dismissed (lv_config rv) (if_rule x) (if_file x) (if_function x)) (rv_findings report)
    | _ \<Rightarrow> True" for fns_in hash fingerprint decide order fs run rv before
    using review_undismissed [of fns_in hash fingerprint decide order fs run "rv\<lparr>lv_before := before\<rparr>"]
    by (auto split: option.split sum.split)
  note reports = this [of "with_cache_file (fl_cache (wk_files w)) (new_reviewer (ou_root ou) ?c)", unfolded reviewer]
  show ?thesis
    unfolding conjunct1 [OF saved] using conjunct2 [OF saved] reports by (simp add: mark_dismissed_iff reviewer)
qed

lemma new_policies_in_force_witness:
  "\<exists>w r v. open_workspace demo_outside no_files = Inr w \<and>
     set_tool_policies demo_outside Disk_Ok (demo_mcp_config\<lparr>mg_servers := [(new_mcp_server ''ooda'' ''node'' [])\<lparr>ms_policy := Policy_Off\<rparr>]\<rparr>)
       (w\<lparr>wk_mcp := Some (demo_pool, pool_capabilities demo_pool)\<rparr>) = (r, v) \<and>
     isl (policy_section (\<lambda>_. False) (wk_approvals v) \<lparr>tq_call = ''call_1'', tq_name = ''ooda.read.file'', tq_arguments = []\<rparr>)"
proof -
  let ?c = "demo_mcp_config\<lparr>mg_servers := [(new_mcp_server ''ooda'' ''node'' [])\<lparr>ms_policy := Policy_Off\<rparr>]\<rparr>"
  let ?q = "\<lparr>tq_call = ''call_1'', tq_name = ''ooda.read.file'', tq_arguments = []\<rparr>"
  have "\<not> isl (open_workspace demo_outside no_files)" by code_simp
  then obtain w where w: "open_workspace demo_outside no_files = Inr w" by (cases "open_workspace demo_outside no_files") auto
  have valid: "validate_mcp_config ?c = Inr ()" by code_simp
  obtain r v where v: "set_tool_policies demo_outside Disk_Ok ?c (w\<lparr>wk_mcp := Some (demo_pool, pool_capabilities demo_pool)\<rparr>) = (r, v)"
    by (rule prod.exhaust)
  have "config_policy_of ?c ''ooda.read.file'' = Policy_Off" by code_simp
  then have "isl (policy_section (\<lambda>_. False) (wk_approvals v) ?q)"
    using new_policies_in_force [OF valid v, of "\<lambda>_. False" ?q] by (auto simp: tools_of_def)
  then show ?thesis using w v by blast
qed

definition demo_dismissal :: dismissal where
  "demo_dismissal = \<lparr>ds_rule = ''swallows-errors'', ds_file = ''a.rs'', ds_function = ''main''\<rparr>"

definition dismissing_outside :: outside where
  "dismissing_outside = demo_outside\<lparr>ou_read_lint := \<lambda>_. Inr (mark_dismissed demo_dismissal True default_lint_config)\<rparr>"

lemma dismissals_honoured_witness:
  "\<exists>w answer v. open_workspace dismissing_outside no_files = Inr w \<and>
     handle_set_dismissal dismissing_outside Disk_Ok demo_dismissal True w = (Inr answer, v) \<and>
     is_dismissed answer ''swallows-errors'' ''a.rs'' ''main'' \<and> \<not> is_dismissed answer ''swallows-errors'' ''a.rs'' ''other''"
proof -
  let ?ou = dismissing_outside and ?d = demo_dismissal
  have runs: "case open_workspace ?ou no_files of Inl e \<Rightarrow> False
      | Inr w \<Rightarrow> \<not> isl (fst (handle_set_dismissal ?ou Disk_Ok ?d True w))"
    by code_simp
  then obtain w where w: "open_workspace ?ou no_files = Inr w" by (auto split: sum.splits)
  then have files: "wk_files w = no_files"
    by (cases "build_live ?ou no_files None") (auto simp: open_workspace_def)
  obtain answer v where v: "handle_set_dismissal ?ou Disk_Ok ?d True w = (Inr answer, v)"
    using runs w by (cases "handle_set_dismissal ?ou Disk_Ok ?d True w"; cases "fst (handle_set_dismissal ?ou Disk_Ok ?d True w)") auto
  have loaded: "lint_load (ou_read_lint ?ou) (ou_path ?ou ''lint.json'') (fl_lint (wk_files w)) = Inr default_lint_config"
    by (simp add: files no_files_def lint_load_def)
  have reads: "ou_read_lint ?ou (ou_print_lint ?ou (mark_dismissed ?d True default_lint_config) @ ''\<newline>'') =
      Inr (mark_dismissed ?d True default_lint_config)"
    by (simp add: dismissing_outside_def)
  have "\<not> is_dismissed default_lint_config ''swallows-errors'' ''a.rs'' ''other''" by (simp add: is_dismissed_def default_lint_config_def)
  then show ?thesis
    using dismissals_honoured [OF loaded reads v] w v by (auto simp: demo_dismissal_def)
qed

end
