(* ===== verification/Server_Runs.thy ===== *)
theory Server_Runs
  imports Closed_Enums Identifiers
begin

text \<open>
  The life of runs in \<open>dagos/src/server.rs\<close>: starting, stopping and recovering runs while each executes in a
  task of its own. A step is a section that nothing interleaves: what a handler or a task does while it
  holds one lock, or one transaction. Of the store, a run's status and error code are kept. Runtimes are
  numbered in the order in which reloads make them; of \<open>Runtime::finish\<close>, the registration of the stop
  signal, the end of \<open>execute\<close> or of the wait for the signal, the removal of the signal and the record of a
  failure are the sections. How \<open>execute\<close> ends is chosen by the event.
\<close>

section \<open>State\<close>

text \<open>Where the task of a run is. The number is that of the runtime it holds.\<close>

datatype task_stage =
    Spawned nat
  | Awaiting_Tools
  | Reloaded nat
  | Ready nat
  | Stopped_Early
  | Handed nat
  | Executing nat
  | Leaving nat "error_code option"
  | Recording "error_code option"
  | Returned
  | Removed

type_synonym outcome = "run_status \<times> error_code option"

record server =
  sv_outcomes :: "(run_id, outcome) btree"
  sv_runtime :: nat
  sv_tools_starting :: bool
  sv_executing :: "(run_id, nat) btree"
  sv_requests :: "run_id list"
  sv_registered :: "(nat \<times> run_id) list"
  sv_notified :: "(nat \<times> run_id) list"
  sv_tasks :: "(run_id, task_stage) btree"
  sv_stopping :: "(run_id \<times> nat \<times> bool) list"
  sv_answered :: "run_id list"

text \<open>A process that starts on a store with the runs of earlier ones.\<close>

definition new_server :: "(run_id, outcome) btree \<Rightarrow> bool \<Rightarrow> server" where
  "new_server runs starting =
     \<lparr>sv_outcomes = runs, sv_runtime = 0, sv_tools_starting = starting, sv_executing = [], sv_requests = [],
      sv_registered = [], sv_notified = [], sv_tasks = [], sv_stopping = [], sv_answered = []\<rparr>"

definition running_row :: outcome where
  "running_row = (Running, None)"

text \<open>\<open>complete_run\<close> and \<open>fail_run\<close> refuse a run that is not running.\<close>

definition end_run :: "run_id \<Rightarrow> outcome \<Rightarrow> server \<Rightarrow> server" where
  "end_run i x s =
     (if map_of (sv_outcomes s) i = Some running_row then s\<lparr>sv_outcomes := bt_insert i x (sv_outcomes s)\<rparr> else s)"

definition to_stage :: "run_id \<Rightarrow> task_stage \<Rightarrow> server \<Rightarrow> server" where
  "to_stage i st s = s\<lparr>sv_tasks := bt_insert i st (sv_tasks s)\<rparr>"

section \<open>Steps\<close>

text \<open>How a transaction or \<open>execute\<close> ends; \<open>Store_Broken\<close> is a store that refuses to write.\<close>

datatype verdict = Completes | Fails error_code | Signalled | Store_Broken

text \<open>\<open>start_run\<close> under the lock on \<open>executing\<close>, with the runtime \<open>n\<close> that it took before; reloads may have made newer
  ones since. The store gives every run a new ID.\<close>

definition accept_run :: "run_id \<Rightarrow> nat \<Rightarrow> server \<Rightarrow> server" where
  "accept_run i n s =
     (if map_of (sv_outcomes s) i \<noteq> None \<or> sv_runtime s < n then s
      else s\<lparr>sv_outcomes := bt_insert i running_row (sv_outcomes s),
             sv_executing := bt_insert i n (sv_executing s),
             sv_tasks := bt_insert i (Spawned n) (sv_tasks s)\<rparr>)"

text \<open>The end of \<open>execute\<close>, or of the wait for the signal.\<close>

definition end_execution :: "run_id \<Rightarrow> nat \<Rightarrow> verdict \<Rightarrow> server \<Rightarrow> server" where
  "end_execution i n v s =
     (case v of
        Completes \<Rightarrow>
          (if map_of (sv_outcomes s) i = Some running_row
           then to_stage i (Leaving n None) (end_run i (Completed, None) s)
           else to_stage i (Leaving n (Some Internal)) s)
      | Fails c \<Rightarrow> to_stage i (Leaving n (Some c)) s
      | Signalled \<Rightarrow> if (n, i) \<in> set (sv_notified s) then to_stage i (Leaving n (Some Cancelled)) s else s
      | Store_Broken \<Rightarrow> to_stage i (Leaving n (Some Internal)) s)"

text \<open>The next section of a run's task.\<close>

definition advance_task :: "run_id \<Rightarrow> verdict \<Rightarrow> server \<Rightarrow> server" where
  "advance_task i v s =
     (case map_of (sv_tasks s) i of
        None \<Rightarrow> s
      | Some (Spawned n) \<Rightarrow> to_stage i (if sv_tools_starting s then Awaiting_Tools else Ready n) s
      | Some Awaiting_Tools \<Rightarrow> to_stage i (Reloaded (sv_runtime s)) s
      | Some (Reloaded n) \<Rightarrow> to_stage i (Ready n) (s\<lparr>sv_executing := bt_insert i n (sv_executing s)\<rparr>)
      | Some (Ready n) \<Rightarrow>
          (if i \<in> set (sv_requests s)
           then to_stage i Stopped_Early (s\<lparr>sv_requests := removeAll i (sv_requests s)\<rparr>)
           else to_stage i (Handed n) s)
      | Some Stopped_Early \<Rightarrow>
          to_stage i Returned (if v = Store_Broken then s else end_run i (Failed, Some Cancelled) s)
      | Some (Handed n) \<Rightarrow> to_stage i (Executing n) (s\<lparr>sv_registered := List.insert (n, i) (sv_registered s)\<rparr>)
      | Some (Executing n) \<Rightarrow> end_execution i n v s
      | Some (Leaving n failed) \<Rightarrow>
          to_stage i (Recording failed)
            (s\<lparr>sv_registered := removeAll (n, i) (sv_registered s), sv_notified := removeAll (n, i) (sv_notified s)\<rparr>)
      | Some (Recording failed) \<Rightarrow>
          to_stage i Returned
            (case failed of
               None \<Rightarrow> s
             | Some c \<Rightarrow> if v = Store_Broken then s else end_run i (Failed, Some c) s)
      | Some Returned \<Rightarrow> to_stage i Removed (s\<lparr>sv_executing := bt_remove i (sv_executing s)\<rparr>)
      | Some Removed \<Rightarrow>
          s\<lparr>sv_requests := removeAll i (sv_requests s), sv_tasks := bt_remove i (sv_tasks s)\<rparr>)"

text \<open>\<open>stop_run\<close> takes three locks in turn; a request is known by its place among those under way.\<close>

definition begin_stop :: "run_id \<Rightarrow> server \<Rightarrow> server" where
  "begin_stop i s =
     (case map_of (sv_executing s) i of
        None \<Rightarrow> s
      | Some n \<Rightarrow> s\<lparr>sv_stopping := sv_stopping s @ [(i, n, False)]\<rparr>)"

definition advance_stop :: "nat \<Rightarrow> server \<Rightarrow> server" where
  "advance_stop k s =
     (if k < length (sv_stopping s) then
        (case sv_stopping s ! k of
           (i, n, False) \<Rightarrow>
             s\<lparr>sv_requests := List.insert i (sv_requests s), sv_stopping := (sv_stopping s)[k := (i, n, True)]\<rparr>
         | (i, n, True) \<Rightarrow>
             s\<lparr>sv_notified := (if (n, i) \<in> set (sv_registered s) then List.insert (n, i) (sv_notified s) else sv_notified s),
               sv_stopping := take k (sv_stopping s) @ drop (Suc k) (sv_stopping s),
               sv_answered := sv_answered s @ [i]\<rparr>)
      else s)"

text \<open>\<open>recover\<close> under the lock on \<open>executing\<close>.\<close>

definition recover_runs :: "server \<Rightarrow> server" where
  "recover_runs s =
     s\<lparr>sv_outcomes := map (\<lambda>(i, x). (i, if x = running_row \<and> map_of (sv_executing s) i = None
         then (Failed, Some Interrupted) else x)) (sv_outcomes s)\<rparr>"

datatype server_event =
    Accept run_id nat
  | Advance run_id verdict
  | Begin_Stop run_id
  | Advance_Stop nat
  | Recover
  | Reload
  | Tools_Starting bool

fun server_step :: "server \<Rightarrow> server_event \<Rightarrow> server" where
  "server_step s (Accept i n) = accept_run i n s"
| "server_step s (Advance i v) = advance_task i v s"
| "server_step s (Begin_Stop i) = begin_stop i s"
| "server_step s (Advance_Stop k) = advance_stop k s"
| "server_step s Recover = recover_runs s"
| "server_step s Reload = s\<lparr>sv_runtime := sv_runtime s + 1\<rparr>"
| "server_step s (Tools_Starting b) = s\<lparr>sv_tools_starting := b\<rparr>"

definition server_after :: "server_event list \<Rightarrow> server \<Rightarrow> server" where
  "server_after es s = foldl server_step s es"

section \<open>Invariant\<close>

abbreviation stage_of :: "server \<Rightarrow> run_id \<Rightarrow> task_stage option" where
  "stage_of s i \<equiv> map_of (sv_tasks s) i"

abbreviation outcome_of :: "server \<Rightarrow> run_id \<Rightarrow> outcome option" where
  "outcome_of s i \<equiv> map_of (sv_outcomes s) i"

text \<open>A task that has not removed its run from \<open>executing\<close>.\<close>

definition live_task :: "server \<Rightarrow> run_id \<Rightarrow> bool" where
  "live_task s i \<longleftrightarrow> (case stage_of s i of None \<Rightarrow> False | Some st \<Rightarrow> st \<noteq> Removed)"

text \<open>What the store says of a run while its task is at a stage, the runtime it may stop in, and whether its
  signal is registered there.\<close>

fun stage_row :: "task_stage \<Rightarrow> outcome \<Rightarrow> bool" where
  "stage_row (Leaving n None) x = (x = (Completed, None))"
| "stage_row (Recording None) x = (x = (Completed, None))"
| "stage_row Returned x = True"
| "stage_row Removed x = True"
| "stage_row _ x = (x = running_row)"

fun stage_registers :: "task_stage \<Rightarrow> nat \<Rightarrow> bool" where
  "stage_registers (Executing n) m = (m = n)"
| "stage_registers (Leaving n c) m = (m = n)"
| "stage_registers _ m = False"

definition run_ok :: "outcome option \<Rightarrow> nat option \<Rightarrow> task_stage option \<Rightarrow> nat set \<Rightarrow> bool" where
  "run_ok x e t registered \<longleftrightarrow>
     (case t of
        None \<Rightarrow> e = None \<and> registered = {}
      | Some st \<Rightarrow> (e \<noteq> None \<longleftrightarrow> st \<noteq> Removed) \<and> (\<exists>y. x = Some y \<and> stage_row st y) \<and>
          registered = {n. stage_registers st n})"

definition registered_in :: "server \<Rightarrow> run_id \<Rightarrow> nat set" where
  "registered_in s i = {n. (n, i) \<in> set (sv_registered s)}"

definition server_ok :: "server \<Rightarrow> bool" where
  "server_ok s \<longleftrightarrow>
     bt_wf (sv_outcomes s) \<and> bt_wf (sv_executing s) \<and> bt_wf (sv_tasks s) \<and>
     (\<forall>i. run_ok (outcome_of s i) (map_of (sv_executing s) i) (stage_of s i) (registered_in s i)) \<and>
     set (sv_notified s) \<subseteq> set (sv_registered s)"

lemmas tree_maps [simp] = map_of_bt_insert map_of_bt_remove btree.wf_insert btree.wf_remove

lemma to_stage_fields [simp]:
  "sv_tasks (to_stage i st s) = bt_insert i st (sv_tasks s)" "sv_outcomes (to_stage i st s) = sv_outcomes s"
  "sv_executing (to_stage i st s) = sv_executing s" "sv_registered (to_stage i st s) = sv_registered s"
  "sv_notified (to_stage i st s) = sv_notified s" "sv_requests (to_stage i st s) = sv_requests s"
  by (simp_all add: to_stage_def)

lemma end_run_fields [simp]:
  "sv_tasks (end_run i x s) = sv_tasks s" "sv_executing (end_run i x s) = sv_executing s"
  "sv_registered (end_run i x s) = sv_registered s" "sv_notified (end_run i x s) = sv_notified s"
  "sv_requests (end_run i x s) = sv_requests s"
  by (simp_all add: end_run_def)

lemma end_run_outcomes:
  "map_of (sv_outcomes (end_run i x s)) =
     (if outcome_of s i = Some running_row then (map_of (sv_outcomes s))(i \<mapsto> x) else map_of (sv_outcomes s))"
  by (simp add: end_run_def)

lemma end_run_wf: "bt_wf (sv_outcomes s) \<Longrightarrow> bt_wf (sv_outcomes (end_run i x s))"
  by (simp add: end_run_def)

lemma map_of_recovered:
  "map_of (map (\<lambda>(i, x). (i, f i x)) m) i = map_option (f i) (map_of m i)"
  by (induction m) auto

lemma recover_outcome:
  "outcome_of (recover_runs s) i =
     map_option (\<lambda>x. if x = running_row \<and> map_of (sv_executing s) i = None then (Failed, Some Interrupted) else x)
       (outcome_of s i)"
  by (simp add: recover_runs_def map_of_recovered)

lemma bt_wf_map_values: "bt_wf (map (\<lambda>(i, x). (i, f i x)) m) = bt_wf m"
  by (simp add: bt_wf_def o_def split_def)

lemma set_removeAll_simps [simp]: "set (removeAll x xs) = set xs - {x}"
  by simp

text \<open>A step that changes one run only.\<close>

lemma server_ok_change:
  assumes "server_ok s" and "bt_wf (sv_outcomes t)" "bt_wf (sv_executing t)" "bt_wf (sv_tasks t)"
    and "\<And>j. j \<noteq> i \<Longrightarrow> outcome_of t j = outcome_of s j \<and> map_of (sv_executing t) j = map_of (sv_executing s) j \<and>
      stage_of t j = stage_of s j \<and> registered_in t j = registered_in s j"
    and "run_ok (outcome_of t i) (map_of (sv_executing t) i) (stage_of t i) (registered_in t i)"
    and "set (sv_notified t) \<subseteq> set (sv_registered t)"
  shows "server_ok t"
proof -
  have "run_ok (outcome_of t j) (map_of (sv_executing t) j) (stage_of t j) (registered_in t j)" for j
    using assms(1,5,6) by (cases "j = i") (simp_all add: server_ok_def)
  then show ?thesis using assms(2-4,7) by (simp add: server_ok_def)
qed

lemma server_okD:
  assumes "server_ok s"
  shows "bt_wf (sv_outcomes s)" "bt_wf (sv_executing s)" "bt_wf (sv_tasks s)"
    "run_ok (outcome_of s i) (map_of (sv_executing s) i) (stage_of s i) (registered_in s i)"
    "set (sv_notified s) \<subseteq> set (sv_registered s)"
  using assms by (simp_all add: server_ok_def)

lemma accept_ok:
  assumes "server_ok s"
  shows "server_ok (accept_run i n s)"
proof (cases "outcome_of s i = None \<and> n \<le> sv_runtime s")
  case True
  then have None: "outcome_of s i = None" "n \<le> sv_runtime s" by simp_all
  note ok = server_okD [OF assms]
  show ?thesis
  proof (rule server_ok_change [OF assms, of _ i])
    show "run_ok (outcome_of (accept_run i n s) i) (map_of (sv_executing (accept_run i n s)) i)
        (stage_of (accept_run i n s) i) (registered_in (accept_run i n s) i)"
      using ok(4) [of i] None by (auto simp: accept_run_def run_ok_def registered_in_def split: option.splits)
  qed (use ok None in \<open>simp_all add: accept_run_def registered_in_def\<close>)
qed (auto simp: accept_run_def assms)

lemma recover_ok:
  assumes "server_ok s"
  shows "server_ok (recover_runs s)"
proof -
  note ok = server_okD [OF assms]
  have "run_ok (outcome_of (recover_runs s) i) (map_of (sv_executing s) i) (stage_of s i) (registered_in s i)" for i
  proof (cases "stage_of s i")
    case (Some st)
    then obtain y where "outcome_of s i = Some y" "stage_row st y" "map_of (sv_executing s) i \<noteq> None \<longleftrightarrow> st \<noteq> Removed"
        "registered_in s i = {n. stage_registers st n}"
      using ok(4) [of i] by (auto simp: run_ok_def)
    then show ?thesis
      unfolding recover_outcome Some by (cases "st = Removed") (auto simp: run_ok_def)
  qed (use ok(4) [of i] in \<open>simp add: run_ok_def\<close>)
  then show ?thesis
    using ok by (simp add: server_ok_def recover_runs_def registered_in_def bt_wf_map_values)
qed

text \<open>The sections of a task.\<close>

lemma task_ok:
  assumes "server_ok s" and "bt_wf (sv_outcomes t)" "bt_wf (sv_executing t)" "sv_tasks t = bt_insert i st (sv_tasks s)"
    and "\<And>j. j \<noteq> i \<Longrightarrow> outcome_of t j = outcome_of s j \<and> map_of (sv_executing t) j = map_of (sv_executing s) j \<and>
      registered_in t j = registered_in s j"
    and "run_ok (outcome_of t i) (map_of (sv_executing t) i) (Some st) (registered_in t i)"
    and "set (sv_notified t) \<subseteq> set (sv_registered t)"
  shows "server_ok t"
  by (rule server_ok_change [OF assms(1), of _ i]) (use assms server_okD(3) [OF assms(1)] in simp_all)

lemma end_execution_ok:
  assumes "server_ok s" "stage_of s i = Some (Executing n)"
  shows "server_ok (end_execution i n v s)"
proof -
  note ok = server_okD [OF assms(1)]
  have i: "outcome_of s i = Some running_row" "\<exists>e. map_of (sv_executing s) i = Some e" "registered_in s i = {n}"
    using ok(4) [of i] assms(2) by (auto simp: run_ok_def)
  have leave: "server_ok (to_stage i (Leaving n (Some c)) s)" for c
    by (rule task_ok [OF assms(1), of _ i]) (use ok i in \<open>auto simp: run_ok_def registered_in_def to_stage_def\<close>)
  have "server_ok (to_stage i (Leaving n None) (end_run i (Completed, None) s))"
    by (rule task_ok [OF assms(1), of _ i])
      (use ok i in \<open>auto simp: run_ok_def registered_in_def end_run_outcomes end_run_wf\<close>)
  with leave show ?thesis
    using assms(1) by (cases v) (simp_all add: end_execution_def)
qed

lemmas task_simps = advance_task_def run_ok_def registered_in_def end_run_outcomes end_run_wf

lemma advance_ok:
  assumes "server_ok s"
  shows "server_ok (advance_task i v s)"
proof (cases "stage_of s i")
  case (Some st)
  note ok = server_okD [OF assms]
  have i: "\<exists>y. outcome_of s i = Some y \<and> stage_row st y" "map_of (sv_executing s) i \<noteq> None \<longleftrightarrow> st \<noteq> Removed"
      "registered_in s i = {n. stage_registers st n}"
    using ok(4) [of i] Some by (auto simp: run_ok_def)
  show ?thesis
  proof (cases st)
    case (Executing n)
    then show ?thesis using end_execution_ok [OF assms] Some by (simp add: advance_task_def)
  next
    case Removed
    show ?thesis
      by (rule server_ok_change [OF assms, of _ i])
        (use ok i Some Removed in \<open>auto simp: advance_task_def run_ok_def registered_in_def\<close>)
  next
    case (Spawned n)
    show ?thesis
      by (rule task_ok [OF assms, where i = i and st = "if sv_tools_starting s then Awaiting_Tools else Ready n"]) (use ok i Some Spawned in \<open>simp_all add: task_simps\<close>)
  next
    case Awaiting_Tools
    show ?thesis
      by (rule task_ok [OF assms, where i = i and st = "Reloaded (sv_runtime s)"]) (use ok i Some Awaiting_Tools in \<open>simp_all add: task_simps\<close>)
  next
    case (Reloaded n)
    show ?thesis
      by (rule task_ok [OF assms, where i = i and st = "Ready n"]) (use ok i Some Reloaded in \<open>simp_all add: task_simps\<close>)
  next
    case (Ready n)
    show ?thesis
      by (rule task_ok [OF assms, where i = i and st = "if i \<in> set (sv_requests s) then Stopped_Early else Handed n"]) (use ok i Some Ready in \<open>simp_all add: task_simps\<close>)
  next
    case Stopped_Early
    show ?thesis
      by (rule task_ok [OF assms, where i = i and st = "Returned"]) (use ok i Some Stopped_Early in \<open>auto simp: task_simps\<close>)
  next
    case (Handed n)
    show ?thesis
      by (rule task_ok [OF assms, where i = i and st = "Executing n"]) (use ok i Some Handed in \<open>auto simp: task_simps\<close>)
  next
    case (Leaving n failed)
    show ?thesis
      by (rule task_ok [OF assms, where i = i and st = "Recording failed"]; cases failed)
        (use ok i Some Leaving in \<open>auto simp: task_simps\<close>)
  next
    case (Recording failed)
    show ?thesis
      by (rule task_ok [OF assms, where i = i and st = "Returned"]; cases failed)
        (use ok i Some Recording in \<open>auto simp: task_simps\<close>)
  next
    case Returned
    show ?thesis
      by (rule task_ok [OF assms, where i = i and st = "Removed"]) (use ok i Some Returned in \<open>simp_all add: task_simps\<close>)
  qed
qed (simp add: advance_task_def assms)

lemma stop_ok: "server_ok s \<Longrightarrow> server_ok (begin_stop i s)" "server_ok s \<Longrightarrow> server_ok (advance_stop k s)"
  by (auto simp: server_ok_def begin_stop_def advance_stop_def registered_in_def split: option.splits prod.splits bool.splits)

lemma step_ok: "server_ok s \<Longrightarrow> server_ok (server_step s e)"
  by (cases e) (simp_all add: accept_ok advance_ok stop_ok recover_ok, simp_all add: server_ok_def registered_in_def)

lemma new_server_ok: "bt_wf runs \<Longrightarrow> server_ok (new_server runs b)"
  by (simp add: server_ok_def new_server_def run_ok_def registered_in_def bt_wf_def)

lemma server_after_ok: "server_ok s \<Longrightarrow> server_ok (server_after es s)"
  by (induction es rule: rev_induct) (simp_all add: server_after_def step_ok)

section \<open>Recovery\<close>

lemma live_outcome_kept:
  assumes "server_ok s" "live_task s i"
  shows "outcome_of (recover_runs s) i = outcome_of s i"
  using server_okD(4) [OF assms(1), of i] assms(2) unfolding recover_outcome
  by (auto simp: live_task_def run_ok_def split: option.splits)

text \<open>C13. Recovery fails exactly what nobody executes: in every state that handlers and tasks can reach, however they
  interleave, a recovery marks those runs as interrupted that the store calls running and whose task, if there
  ever was one in this process, is over; every other run keeps its status and error, those that ended and
  those whose task has still to end them alike, and nothing else changes.\<close>

theorem recovery_spares_tasks:
  assumes "bt_wf runs" and "s = server_after es (new_server runs starting)"
  shows "outcome_of (server_step s Recover) i =
      (if outcome_of s i = Some running_row \<and> \<not> live_task s i then Some (Failed, Some Interrupted) else outcome_of s i) \<and>
    map fst (sv_outcomes (server_step s Recover)) = map fst (sv_outcomes s) \<and>
    (server_step s Recover)\<lparr>sv_outcomes := sv_outcomes s\<rparr> = s"
proof -
  have ok: "server_ok s" using assms server_after_ok new_server_ok by simp
  have "live_task s i \<longleftrightarrow> map_of (sv_executing s) i \<noteq> None"
    using server_okD(4) [OF ok, of i] by (auto simp: live_task_def run_ok_def split: option.splits)
  then have "outcome_of (recover_runs s) i =
      (if outcome_of s i = Some running_row \<and> \<not> live_task s i then Some (Failed, Some Interrupted) else outcome_of s i)"
    unfolding recover_outcome by (cases "outcome_of s i") auto
  then show ?thesis by (simp add: recover_runs_def o_def split_def)
qed

definition demo_run :: "nat \<Rightarrow> run_id" where
  "demo_run k = Ident (''run_'' @ show_nat k)"

definition left_over :: "(run_id, outcome) btree" where
  "left_over = [(demo_run 1, running_row)]"

lemma recovery_spares_tasks_witness:
  "let s = server_after [Accept (demo_run 2) 0, Recover] (new_server left_over False)
   in outcome_of s (demo_run 1) = Some (Failed, Some Interrupted) \<and> outcome_of s (demo_run 2) = Some running_row"
proof -
  let ?s = "server_after [Accept (demo_run 2) 0] (new_server left_over False)"
  have "bt_wf left_over" by (simp add: left_over_def bt_wf_def)
  note recovery = recovery_spares_tasks [OF this refl, of "[Accept (demo_run 2) 0]" False]
  have "live_task ?s (demo_run 2)" "outcome_of ?s (demo_run 2) = Some running_row"
    "\<not> live_task ?s (demo_run 1)" "outcome_of ?s (demo_run 1) = Some running_row"
    by code_simp+
  then show ?thesis
    using recovery [of "demo_run 1"] recovery [of "demo_run 2"] by (simp add: server_after_def Let_def)
qed

section \<open>Stopping\<close>

text \<open>A stop that was recorded before the task looked for it.\<close>

definition before_check :: "task_stage \<Rightarrow> bool" where
  "before_check st \<longleftrightarrow> (case st of Spawned n \<Rightarrow> True | Awaiting_Tools \<Rightarrow> True | Reloaded n \<Rightarrow> True | Ready n \<Rightarrow> True | _ \<Rightarrow> False)"

definition stop_seen :: "server \<Rightarrow> run_id \<Rightarrow> bool" where
  "stop_seen s i \<longleftrightarrow> i \<in> set (sv_requests s) \<and> (case stage_of s i of Some st \<Rightarrow> before_check st | None \<Rightarrow> False)"

text \<open>From then on the run never executes; with \<open>broken\<close>, the store may have refused to record the stop.\<close>

definition stopping_run :: "bool \<Rightarrow> server \<Rightarrow> run_id \<Rightarrow> bool" where
  "stopping_run broken s i \<longleftrightarrow>
     stop_seen s i \<or> stage_of s i = Some Stopped_Early \<or>
     stage_of s i \<in> {Some Returned, Some Removed, None} \<and>
     (outcome_of s i = Some (Failed, Some Cancelled) \<or>
      broken \<and> outcome_of s i \<in> {Some running_row, Some (Failed, Some Interrupted)})"

lemma advance_other:
  assumes "j \<noteq> i"
  shows "stage_of (advance_task j v s) i = stage_of s i" "outcome_of (advance_task j v s) i = outcome_of s i"
    "i \<in> set (sv_requests (advance_task j v s)) \<longleftrightarrow> i \<in> set (sv_requests s)"
  using assms
  by (auto simp: advance_task_def end_execution_def end_run_outcomes split: option.split task_stage.split verdict.split)

lemma running_row_neq [simp]: "(Failed, c) \<noteq> running_row" "running_row \<noteq> (Failed, c)"
  by (simp_all add: running_row_def)

lemma stopping_advance:
  assumes "server_ok s" "stopping_run b s i"
  shows "stopping_run (b \<or> v = Store_Broken) (advance_task i v s) i"
proof (cases "stage_of s i")
  case None
  then show ?thesis using assms(2) by (auto simp: stopping_run_def stop_seen_def advance_task_def)
next
  case (Some st)
  have row: "st = Stopped_Early \<Longrightarrow> outcome_of s i = Some running_row"
    using server_okD(4) [OF assms(1), of i] Some by (auto simp: run_ok_def)
  show ?thesis
    using assms(2) Some row
    by (cases st) (auto simp: stopping_run_def stop_seen_def before_check_def advance_task_def end_run_outcomes)
qed

lemma stopping_mono: "stopping_run b s i \<Longrightarrow> stopping_run (b \<or> c) s i"
  by (auto simp: stopping_run_def)

lemma stopping_same:
  assumes "stopping_run b s i" "stage_of t i = stage_of s i" "outcome_of t i = outcome_of s i"
    and "i \<in> set (sv_requests s) \<Longrightarrow> i \<in> set (sv_requests t)"
  shows "stopping_run b t i"
  using assms by (auto simp: stopping_run_def stop_seen_def)

lemma stopping_has_row: "server_ok s \<Longrightarrow> stopping_run b s i \<Longrightarrow> outcome_of s i \<noteq> None"
  using server_okD(4) [of s i] by (auto simp: stopping_run_def stop_seen_def run_ok_def split: option.splits)

lemma stopping_recover:
  assumes "server_ok s" "stopping_run b s i"
  shows "stopping_run b (recover_runs s) i"
proof (cases "live_task s i")
  case True
  then show ?thesis
    using live_outcome_kept [OF assms(1)] by (intro stopping_same [OF assms(2)]) (simp_all add: recover_runs_def)
next
  case False
  then have "stage_of (recover_runs s) i \<in> {Some Removed, None}"
      "outcome_of s i = Some (Failed, Some Cancelled) \<or> b \<and> outcome_of s i \<in> {Some running_row, Some (Failed, Some Interrupted)}"
    using assms(2) by (auto simp: stopping_run_def stop_seen_def live_task_def before_check_def recover_runs_def split: option.splits)
  moreover from this(2) have "outcome_of (recover_runs s) i = Some (Failed, Some Cancelled) \<or>
      b \<and> outcome_of (recover_runs s) i \<in> {Some running_row, Some (Failed, Some Interrupted)}"
    unfolding recover_outcome by (elim disjE conjE insertE emptyE) simp_all
  ultimately show ?thesis unfolding stopping_run_def by blast
qed

lemma stopping_step:
  assumes "server_ok s" "stopping_run b s i"
  shows "stopping_run (b \<or> e = Advance i Store_Broken) (server_step s e) i"
proof (cases e)
  case (Advance j v)
  show ?thesis
  proof (cases "j = i")
    case True
    then show ?thesis using stopping_advance [OF assms, of v] Advance by simp
  next
    case False
    then have "stopping_run b (advance_task j v s) i"
      by (intro stopping_same [OF assms(2)]) (simp_all add: advance_other)
    then show ?thesis using False by (simp add: Advance)
  qed
next
  case (Accept j n)
  have "stopping_run b (accept_run j n s) i"
    using stopping_has_row [OF assms] by (intro stopping_same [OF assms(2)]) (auto simp: accept_run_def server_okD [OF assms(1)])
  then show ?thesis by (simp add: Accept)
next
  case (Begin_Stop j)
  have "stopping_run b (begin_stop j s) i"
    by (rule stopping_same [OF assms(2)]) (simp_all add: begin_stop_def split: option.split)
  then show ?thesis by (simp add: Begin_Stop)
next
  case (Advance_Stop k)
  have "stopping_run b (advance_stop k s) i"
    by (rule stopping_same [OF assms(2)]) (auto simp: advance_stop_def split: prod.split bool.split)
  then show ?thesis by (simp add: Advance_Stop)
next
  case Recover
  then show ?thesis using stopping_recover [OF assms] by simp
qed (use assms(2) in \<open>auto intro: stopping_same\<close>)

lemma stopping_after:
  assumes "server_ok s" "stopping_run False s i"
  shows "stopping_run (Advance i Store_Broken \<in> set es) (server_after es s) i"
proof (induction es rule: rev_induct)
  case (snoc e es)
  show ?case
    using stopping_step [OF server_after_ok [OF assms(1)] snoc.IH, of e]
    by (simp add: server_after_def disj_commute [of "_ \<in> _"] eq_commute [of e])
qed (simp add: server_after_def assms(2))

text \<open>C14. A stop that comes while the run still waits for its tools, or at any time before its task looks for stops, is
  honoured: from then on, whatever else happens, the run is never executed nor completed, and once its task
  is done the store says that it was cancelled, unless the store refused to record that.\<close>

theorem early_stop_honoured:
  assumes "bt_wf runs" and "s = server_after es (new_server runs starting)" and "stop_seen s i"
    and "t = server_after later s"
  shows "registered_in t i = {} \<and> outcome_of t i \<noteq> Some (Completed, None) \<and>
    (Advance i Store_Broken \<notin> set later \<and> stage_of t i \<in> {Some Returned, Some Removed, None} \<longrightarrow>
     outcome_of t i = Some (Failed, Some Cancelled))"
proof -
  have ok: "server_ok s" using assms(1,2) server_after_ok new_server_ok by simp
  have stopping: "stopping_run (Advance i Store_Broken \<in> set later) t i"
    using stopping_after [OF ok, of i later] assms(3,4) by (simp add: stopping_run_def)
  moreover have "run_ok (outcome_of t i) (map_of (sv_executing t) i) (stage_of t i) (registered_in t i)"
    using server_okD(4) [OF server_after_ok [OF ok]] assms(4) by simp
  ultimately show ?thesis
    by (auto simp: stopping_run_def stop_seen_def before_check_def run_ok_def running_row_def
        split: option.splits task_stage.splits)
qed

lemma early_stop_honoured_witness:
  "outcome_of (server_after [Accept (demo_run 2) 0, Advance (demo_run 2) Completes, Begin_Stop (demo_run 2), Advance_Stop 0,
      Advance (demo_run 2) Completes, Advance (demo_run 2) Completes, Advance (demo_run 2) Completes,
      Advance (demo_run 2) Completes, Advance (demo_run 2) Completes] (new_server [] True)) (demo_run 2) =
    Some (Failed, Some Cancelled)"
proof -
  let ?es = "[Accept (demo_run 2) 0, Advance (demo_run 2) Completes, Begin_Stop (demo_run 2), Advance_Stop 0]"
  let ?later = "replicate 5 (Advance (demo_run 2) Completes)"
  have "stop_seen (server_after ?es (new_server [] True)) (demo_run 2)" by code_simp
  moreover have "stage_of (server_after ?later (server_after ?es (new_server [] True))) (demo_run 2) = Some Removed"
    by code_simp
  moreover have "Advance (demo_run 2) Store_Broken \<notin> set ?later" by simp
  ultimately have "outcome_of (server_after ?later (server_after ?es (new_server [] True))) (demo_run 2) = Some (Failed, Some Cancelled)"
    using early_stop_honoured [of "[]" _ ?es True "demo_run 2", OF _ refl _ refl] by (simp add: bt_wf_def)
  then show ?thesis by (simp add: server_after_def numeral_nat)
qed

section \<open>Lost stops\<close>

text \<open>Two states that differ at most in whether a stop of run \<open>i\<close> is requested, and in what was answered, while the
  task of \<open>i\<close> does not look any more.\<close>

definition no_longer_looks :: "server \<Rightarrow> run_id \<Rightarrow> bool" where
  "no_longer_looks s i \<longleftrightarrow> outcome_of s i \<noteq> None \<and>
     (case stage_of s i of Some st \<Rightarrow> \<not> before_check st \<and> st \<noteq> Stopped_Early | None \<Rightarrow> True)"

definition same_but_request :: "run_id \<Rightarrow> server \<Rightarrow> server \<Rightarrow> bool" where
  "same_but_request i s t \<longleftrightarrow>
     s\<lparr>sv_requests := [], sv_answered := []\<rparr> = t\<lparr>sv_requests := [], sv_answered := []\<rparr> \<and>
     insert i (set (sv_requests s)) = insert i (set (sv_requests t))"

lemma same_but_request_iff:
  "same_but_request i s t \<longleftrightarrow>
     sv_outcomes s = sv_outcomes t \<and> sv_runtime s = sv_runtime t \<and> sv_tools_starting s = sv_tools_starting t \<and>
     sv_executing s = sv_executing t \<and> sv_registered s = sv_registered t \<and> sv_notified s = sv_notified t \<and>
     sv_tasks s = sv_tasks t \<and> sv_stopping s = sv_stopping t \<and>
     insert i (set (sv_requests s)) = insert i (set (sv_requests t))"
  by (cases s; cases t) (auto simp: same_but_request_def)

lemma outcome_stays: "outcome_of s i \<noteq> None \<Longrightarrow> outcome_of (server_step s e) i \<noteq> None"
proof (cases e)
  case (Advance j v)
  then show "outcome_of s i \<noteq> None \<Longrightarrow> outcome_of (server_step s e) i \<noteq> None"
    by (auto simp: advance_task_def end_execution_def end_run_outcomes split: option.splits task_stage.splits verdict.splits)
qed (auto simp: accept_run_def begin_stop_def advance_stop_def recover_outcome split: option.splits prod.splits bool.splits)

lemma stage_of_other_steps:
  "stage_of (accept_run j n s) i = (if i = j \<and> outcome_of s j = None \<and> n \<le> sv_runtime s then Some (Spawned n) else stage_of s i)"
  "stage_of (begin_stop j s) i = stage_of s i" "stage_of (advance_stop k s) i = stage_of s i"
  "stage_of (recover_runs s) i = stage_of s i"
  by (auto simp: accept_run_def begin_stop_def advance_stop_def recover_runs_def split: option.splits prod.splits bool.splits)

lemma no_longer_looks_step:
  assumes "no_longer_looks s i"
  shows "no_longer_looks (server_step s e) i"
proof -
  have "case stage_of (server_step s e) i of Some st \<Rightarrow> \<not> before_check st \<and> st \<noteq> Stopped_Early | None \<Rightarrow> True"
  proof (cases e)
    case (Advance j v)
    show ?thesis
    proof (cases "j = i")
      case True
      show ?thesis
      proof (cases "stage_of s i")
        case (Some st)
        then show ?thesis
          using assms True Advance
          by (cases st; cases v) (auto simp: no_longer_looks_def before_check_def advance_task_def end_execution_def)
      qed (use True Advance in \<open>simp add: advance_task_def\<close>)
    qed (use assms Advance in \<open>simp add: no_longer_looks_def advance_other\<close>)
  qed (use assms in \<open>auto simp: no_longer_looks_def stage_of_other_steps split: option.splits\<close>)
  then show ?thesis using assms outcome_stays [of s i e] by (simp add: no_longer_looks_def)
qed

lemma same_but_request_step:
  assumes "same_but_request i s t" "no_longer_looks s i"
  shows "same_but_request i (server_step s e) (server_step t e)"
proof (cases e)
  case (Advance j v)
  note same = assms(1) [unfolded same_but_request_iff]
  show ?thesis
  proof (cases "stage_of s j")
    case None
    then have "stage_of t j = None" using same by simp
    then show ?thesis using None assms(1) Advance by (simp add: advance_task_def)
  next
    case (Some st)
    moreover from this have "stage_of t j = Some st" using same by simp
    moreover have "st = Ready n \<Longrightarrow> j \<noteq> i" for n
      using Some assms(2) by (auto simp: no_longer_looks_def before_check_def)
    ultimately show ?thesis
      using same Advance
      by (cases st; cases v)
        (auto simp: same_but_request_iff advance_task_def end_execution_def end_run_def to_stage_def split: option.splits)
  qed
next
  case (Begin_Stop j)
  then show ?thesis
    using assms(1) [unfolded same_but_request_iff] by (auto simp: same_but_request_iff begin_stop_def split: option.splits)
next
  case (Advance_Stop k)
  then show ?thesis
    using assms(1) [unfolded same_but_request_iff]
    by (auto simp: same_but_request_iff advance_stop_def split: prod.splits bool.splits)
qed (use assms(1) [unfolded same_but_request_iff] in \<open>auto simp: same_but_request_iff accept_run_def recover_runs_def\<close>)

lemma same_but_request_after:
  assumes "same_but_request i s t" "no_longer_looks s i"
  shows "same_but_request i (server_after es s) (server_after es t)"
  using assms
proof (induction es arbitrary: s t)
  case (Cons e es)
  then show ?case
    using same_but_request_step no_longer_looks_step by (simp add: server_after_def)
qed (simp add: server_after_def)

text \<open>C29. Between its task's look for stops and the registration of its stop signal a run cannot be stopped. In every
  state that handlers and tasks can reach in which the task of a run is there, a person's stop is taken and
  answered with ``stopping'', and has no other effect: whatever happens from then on, every run ends just as
  it would have ended without it, with the same outcome after the same steps of its task.\<close>

theorem stop_can_be_lost:
  assumes "bt_wf runs" and "s = server_after es (new_server runs starting)" and "stage_of s i = Some (Handed n)"
    and "k = length (sv_stopping s)" and "stopped = server_after [Begin_Stop i, Advance_Stop k, Advance_Stop k] s"
  shows "sv_answered stopped = sv_answered s @ [i] \<and>
    sv_outcomes (server_after later stopped) = sv_outcomes (server_after later s) \<and>
    sv_tasks (server_after later stopped) = sv_tasks (server_after later s) \<and>
    sv_notified (server_after later stopped) = sv_notified (server_after later s)"
proof -
  have ok: "server_ok s" using assms(1,2) server_after_ok new_server_ok by simp
  then obtain m where m: "map_of (sv_executing s) i = Some m" and row: "outcome_of s i \<noteq> None"
      and none: "registered_in s i = {}"
    using server_okD(4) [OF ok, of i] assms(3) by (auto simp: run_ok_def)
  then have "(m, i) \<notin> set (sv_registered s)" by (auto simp: registered_in_def)
  then have stopped: "stopped = s\<lparr>sv_requests := List.insert i (sv_requests s), sv_answered := sv_answered s @ [i]\<rparr>"
    using m by (simp add: assms(4,5) server_after_def begin_stop_def advance_stop_def nth_append)
  then have "same_but_request i s stopped" by (auto simp: same_but_request_iff)
  moreover have "no_longer_looks s i" using row assms(3) by (simp add: no_longer_looks_def before_check_def)
  ultimately have "same_but_request i (server_after later s) (server_after later stopped)"
    by (rule same_but_request_after)
  then show ?thesis using stopped by (simp add: same_but_request_iff)
qed

lemma stop_can_be_lost_witness:
  "let s = server_after [Accept (demo_run 2) 0, Advance (demo_run 2) Completes, Advance (demo_run 2) Completes]
         (new_server [] False);
       stopped = server_after [Begin_Stop (demo_run 2), Advance_Stop 0, Advance_Stop 0] s;
       t = server_after (replicate 6 (Advance (demo_run 2) Completes)) stopped
   in sv_answered stopped = [demo_run 2] \<and> outcome_of t (demo_run 2) = Some (Completed, None)"
proof -
  let ?s = "server_after [Accept (demo_run 2) 0, Advance (demo_run 2) Completes, Advance (demo_run 2) Completes]
      (new_server [] False)"
  let ?later = "replicate 6 (Advance (demo_run 2) Completes)"
  have "bt_wf ([] :: (run_id, outcome) btree)" by (simp add: bt_wf_def)
  moreover have "stage_of ?s (demo_run 2) = Some (Handed 0)" by code_simp
  moreover have "0 = length (sv_stopping ?s)" by code_simp
  moreover have "sv_answered ?s = []" "outcome_of (server_after ?later ?s) (demo_run 2) = Some (Completed, None)"
    by code_simp+
  ultimately show ?thesis
    using stop_can_be_lost [OF _ refl, of "[]" _ False "demo_run 2" 0 0 _ ?later, OF _ _ _ refl] by (simp add: Let_def)
qed

end
