(* ===== verification/Spec2Isabelle.thy ===== *)
theory Spec2Isabelle
  imports Run_Ends Ir_Faithful Gate_Safety Lint_Spans Lint_Outcome Inspect_Views Endpoint_Behaviour Workspace_Behaviour Server_Runs
begin

text \<open>
  A verification development for DAGOS, a runtime that lets language models work over a durable graph.

  \<^bold>\<open>The program.\<close> \<open>crates/dagos-core\<close> holds the core. A run is one user message of one conversation of a
  project. The runtime (\<open>runtime.rs\<close>) starts it, asks Jev which graph nodes are relevant
  (\<open>context/\<close>), compiles the inference IR (\<open>ir.rs\<close>), calls a provider, validates the response
  (\<open>response.rs\<close>, \<open>contracts.rs\<close>), applies its emissions to the graph, runs the tools it asks for through a gate
  (\<open>tools.rs\<close>), lets a reviewer judge what changed, and repeats until the model asks for nothing more.
  Every transition is an event in the store (\<open>store.rs\<close>, \<open>store/\<close>), a SQLite database. The other crates
  implement the core's interfaces: \<open>dagos-openai\<close> is a provider and two Jevs over a Chat Completions endpoint,
  \<open>dagos-mcp\<close> the tools of MCP servers, \<open>dagos-lint\<close> the reviewer. \<open>dagos\<close> is the application: the gate with its
  guard and approvals, the configuration, what people see, and the server that starts and stops runs.

  \<^bold>\<open>Theories of the core.\<close>
  \<^item> \<open>Prelude\<close>: the state-and-error monad \<open>eff\<close> (\<open>ret\<close>, \<open>throw\<close>, \<open>andthen\<close>), \<open>BTreeMap\<close> as sorted lists with the
    contract \<open>ordered_map\<close>, list and sorting lemmas. \<open>Rust_Text\<close>, \<open>Rust_Split\<close>: strings as UTF-8 bytes, decimal
    numbers, characters, joining and cutting. \<open>Floats\<close>: \<open>f64\<close> as rationals with infinities and NaN.
  \<^item> \<open>Timestamps\<close> (\<open>domain/time.rs\<close>), \<open>Closed_Enums\<close> (the \<open>closed_enum!\<close> types, contract \<open>closed_enum\<close>),
    \<open>Identifiers\<close> (\<open>domain/ids.rs\<close> and references, contract \<open>id_generator\<close>), \<open>Records\<close> (the other types of \<open>domain/\<close>).
  \<^item> \<open>Store_State\<close> (tables, transactions and the listener of \<open>store.rs\<close>), \<open>Dag_Store\<close>, \<open>Run_Store\<close>, \<open>Context_Store\<close> (the
    repositories of \<open>store/\<close>). \<open>Store_Steps\<close>: the step relation \<open>db_step\<close>, an abstract view of every successful
    operation (contract \<open>database_order\<close>). \<open>Store_Invariants\<close>, \<open>Run_History\<close>: its invariants (contract
    \<open>store_invariant\<close>). \<open>Store_Api\<close>: sessions of arbitrary transactions. \<open>Store_Reads\<close>: what reads return.
  \<^item> \<open>Contracts\<close> (\<open>contracts.rs\<close>), \<open>Projection\<close>, \<open>Fake_Jev\<close>, \<open>Recall\<close> (\<open>context/\<close>), \<open>Ir_Compile\<close> (\<open>ir.rs\<close>) and
    \<open>Ir_Faithful\<close> (what IR says), \<open>Responses\<close> (\<open>response.rs\<close> and \<open>apply_response\<close> of \<open>runtime.rs\<close>), \<open>Fake_Provider\<close>
    (\<open>provider/fake.rs\<close>).
  \<^item> \<open>Runtime_State\<close> (interfaces and configuration), \<open>Run_Stages\<close>, \<open>Run_Tools\<close>, \<open>Ir_Fit\<close> (\<open>compile_ir\<close>), \<open>Run_Loop\<close>: \<open>runtime.rs\<close>.
    \<open>Run_Behaviour\<close>: every stage moves the database along \<open>db_step\<close>. \<open>Run_Traces\<close>: the calls a run makes to the
    outside (contract \<open>run_trace\<close>). \<open>Run_Ends\<close>: how runs start, end and are recovered.

  \<^bold>\<open>Theories of the adapters.\<close>
  \<^item> \<open>Mcp_Client\<close> (\<open>dagos-mcp/src/client.rs\<close>), \<open>Mcp_Pool\<close> (its \<open>lib.rs\<close>).
  \<^item> \<open>Sse\<close>, \<open>Prose\<close>, \<open>Protocol\<close>, \<open>Native\<close>, \<open>Endpoint\<close>: the files of \<open>dagos-openai\<close> of these names and its \<open>lib.rs\<close>.
    \<open>Prose_Stream\<close>: the streamed prose is that of the document. \<open>Endpoint_Behaviour\<close>: the adapter whatever the
    endpoint answers.
  \<^item> \<open>Lint_Mask\<close>, \<open>Lint_Extract\<close> (\<open>dagos-lint/src/extract.rs\<close>), \<open>Lint_Rules\<close>, \<open>Lint_Judge\<close>, \<open>Lint_Review\<close> (its other files).
    \<open>Lint_Spans\<close>, \<open>Lint_Judgments\<close>, \<open>Lint_Outcome\<close>: what extracting, judging and reviewing give.

  \<^bold>\<open>Theories of the application\<close> (\<open>crates/dagos/src\<close>).
  \<^item> \<open>Guard\<close>, \<open>Approvals\<close>: the gate, with \<open>decide\<close> split at its awaits. \<open>Gate_Behaviour\<close>, \<open>Gate_Safety\<close>: all
    interleavings of many executions, answers, stops and deadlines.
  \<^item> \<open>Inspect\<close>, \<open>Inspect_Views\<close>: the views of runs and conversations.
  \<^item> \<open>Keys\<close>, \<open>Providers\<close>, \<open>Provider_Settings\<close>: saved keys, \<open>providers.json\<close>, what loading gives.
  \<^item> \<open>Server\<close>, \<open>Server_Behaviour\<close>: handlers of \<open>server.rs\<close>. \<open>Server_Runs\<close>: the life of runs in the server, in which
    the steps of handlers and tasks interleave. \<open>Workspace\<close>, \<open>Workspace_Behaviour\<close>: \<open>workspace.rs\<close> and the
    handlers of the settings, the policies and the review loop.

  \<^bold>\<open>How code and model correspond.\<close> A fallible function is an effect \<open>'s \<Rightarrow> ('e + 'a) \<times> 's\<close> over the store or the world
  (store, calls made so far, registered stop signals). A panic is an error of its own (\<open>Panic\<close>,
  \<open>Panicked\<close>, or \<open>None\<close>). A trait object (Jev, provider, gate, executor, reviewer) is a record of functions of
  the trace of all calls made before, so it may behave in any way and keep any state. While a run awaits a
  call, other clients may commit any transactions (\<open>ru_others\<close>); those of an inference come before the text
  it streams. A deadline or the stop signal shows as the reply of the call during which it strikes.
  Parameters are: what \<open>serde_json\<close>, \<open>jsonschema\<close> and derived serializers read and write, SQLite's message texts
  (\<open>codec\<close>); HTTP, the bytes and exits of server processes (\<open>host\<close>), files and what the disk says to a write,
  the environment; the hash of a judged function, the matches of the tool names in a text, and which
  characters of Unicode are alphanumeric (\<open>wide\<close>).

  \<^bold>\<open>What the lemmas show.\<close> Of values: parsers and printers are inverse, names are unambiguous, fresh IDs are
  fresh. Of the store: every reachable state satisfies the schema, graphs are acyclic, histories are
  well formed, nothing durable is lost, transactions are atomic. Of the pipeline: only validated
  classifications and responses are used, and applying them changes exactly what they say; IR is a
  faithful projection of the state; fitting stops within the budget or with nothing left to leave
  out. Of whole runs: a tool runs only when its gate allowed it; the number of inferences is bounded;
  a run that is finished has ended as its outcome says; all invariants of the store survive every
  failure, stop and panic. Of the adapters: results do not depend on how bytes arrive or in which order
  concurrent requests are answered; offered tools lead back to their server; a review reports what it
  should. Of the application: the gate allows only with a reason and every wait ends; recovery spares runs
  that execute; refused requests change nothing; edits change what they name; keys never show; the runtime
  follows the files. Where the code has a race, the theorem states it (\<open>stop_can_be_lost\<close>,
  \<open>remembered_approval\<close>).

  \<^bold>\<open>Bounds.\<close> The loops of \<open>compile_ir\<close> and \<open>execute\<close> are total by measures: what is left to leave out, and the
  rounds of tools and reviews left. The search for a free function name in \<open>Native\<close> has the number of names taken
  as fuel, and is proved to find a name that is not taken.

  \<^bold>\<open>Simplifications.\<close> A handler or an await-free stretch of \<open>decide\<close> that takes several short locks one after the
  other is one step where nothing below depends on it (\<open>settle_check\<close>, \<open>register_wait\<close>, \<open>forget_wait\<close>; views read the
  gate at one moment); \<open>answer_plan\<close> takes its two reads at two moments. Reading and writing the database
  does not fail by input or output errors. Numbers that only count (event sequences, call numbers, the depth
  of brackets, the characters of a budget) do not overflow. One caller uses the pool of servers, and one
  review judges, at a time. Edits of the configuration do not overlap.

  \<^bold>\<open>Not modelled.\<close> Derived serialization; opening and migrating the database file, pragmas, the busy
  timeout; the operating system's clock and random numbers; the durations of deadlines; accessors; routing,
  assets and the event stream of the server; the command line; the browser application. They are input and
  output around the modelled operations or code of other languages.
\<close>

end
